(* ===== verification/Prelude.thy ===== *)
theory Prelude
  imports Main "HOL-Library.Word"
begin

text \<open>
  Shared vocabulary of the development: the machine integers of the C and Rust sources, the
  error codes of ESP-IDF and of the BSD shim, and the one idiom almost every table of the
  program uses, a bounded \<open>for\<close> loop over a static array that stops at the first slot with a
  given property (\<open>first_idx\<close>). The two theorem collections are filled by the components:
  \<open>wf_intros\<close> holds the preservation lemmas of the well-formedness invariants and
  \<open>frame_simps\<close> the equations that say which part of the state an operation leaves alone.
\<close>

unbundle bit_operations_syntax

section \<open>Machine integers\<close>

type_synonym u8 = "8 word"
type_synonym u16 = "16 word"
type_synonym u32 = "32 word"
type_synonym u64 = "64 word"

lemma u8_lt: "unat (x :: u8) < 256"
  and u16_lt: "unat (y :: u16) < 65536"
  and u32_lt: "unat (z :: u32) < 4294967296"
  using unsigned_less [of x, where ?'a = nat] unsigned_less [of y, where ?'a = nat]
    unsigned_less [of z, where ?'a = nat] by simp_all

lemma unat_eqI: "unat x = unat y \<Longrightarrow> x = y"
  by (simp add: word_unat_eq_iff)

section \<open>Error codes\<close>

datatype esp_err =
    ESP_OK
  | ESP_FAIL
  | ESP_ERR_NO_MEM
  | ESP_ERR_INVALID_ARG
  | ESP_ERR_INVALID_STATE
  | ESP_ERR_NOT_FOUND
  | ESP_ERR_TIMEOUT
  | ESP_ERR_DRIVER nat

datatype errno =
    EAFNOSUPPORT
  | EPROTONOSUPPORT
  | ENFILE
  | ENOBUFS
  | EINVAL
  | EADDRINUSE
  | EBADF
  | ENOMEM
  | EWOULDBLOCK
  | ETIMEDOUT
  | ENOTCONN
  | EOPNOTSUPP

section \<open>Theorem collections\<close>

named_theorems wf_intros "preservation of the well-formedness invariants"
named_theorems frame_simps "what an operation leaves unchanged"

section \<open>Scanning a static array\<close>

fun first_idx :: "('a \<Rightarrow> bool) \<Rightarrow> 'a list \<Rightarrow> nat option" where
  "first_idx P [] = None"
| "first_idx P (x # xs) = (if P x then Some 0 else map_option Suc (first_idx P xs))"

lemma first_idx_None_iff [simp]: "first_idx P xs = None \<longleftrightarrow> (\<forall>x \<in> set xs. \<not> P x)"
  by (induction xs) auto

lemma first_idx_SomeD:
  "first_idx P xs = Some i \<Longrightarrow> i < length xs \<and> P (xs ! i) \<and> (\<forall>j < i. \<not> P (xs ! j))"
proof (induction xs arbitrary: i)
  case Nil
  then show ?case by simp
next
  case (Cons x xs)
  then show ?case
    by (auto split: if_splits simp: less_Suc_eq_0_disj)
qed

lemma first_idx_lt: "first_idx P xs = Some i \<Longrightarrow> i < length xs"
  and first_idx_holds: "first_idx P xs = Some i \<Longrightarrow> P (xs ! i)"
  and first_idx_least: "first_idx P xs = Some i \<Longrightarrow> j < i \<Longrightarrow> \<not> P (xs ! j)"
  by (auto dest: first_idx_SomeD)

lemma first_idx_eqI:
  "i < length xs \<Longrightarrow> P (xs ! i) \<Longrightarrow> (\<And>j. j < i \<Longrightarrow> \<not> P (xs ! j)) \<Longrightarrow> first_idx P xs = Some i"
proof (induction xs arbitrary: i)
  case Nil
  then show ?case by simp
next
  case (Cons x xs)
  show ?case
  proof (cases i)
    case 0
    with Cons.prems show ?thesis by simp
  next
    case (Suc k)
    have "\<not> P x" using Cons.prems(3) [of 0] Suc by simp
    moreover have "first_idx P xs = Some k"
    proof (rule Cons.IH)
      show "k < length xs" and "P (xs ! k)" using Cons.prems Suc by simp_all
      show "\<not> P (xs ! j)" if "j < k" for j
        using Cons.prems(3) [of "Suc j"] that Suc by simp
    qed
    ultimately show ?thesis using Suc by simp
  qed
qed

lemma first_idx_cong: "(\<And>x. x \<in> set xs \<Longrightarrow> P x = P' x) \<Longrightarrow> first_idx P xs = first_idx P' xs"
  by (induction xs) auto

lemma first_idx_unique:
  assumes "i < length xs" and "P (xs ! i)"
    and "\<And>j. j < length xs \<Longrightarrow> P (xs ! j) \<Longrightarrow> j = i"
  shows "first_idx P xs = Some i"
proof (rule first_idx_eqI)
  show "i < length xs" and "P (xs ! i)" by (fact assms)+
  show "\<not> P (xs ! j)" if "j < i" for j
    using that assms(1) assms(3) [of j] by auto
qed

section \<open>Lists updated in place\<close>

lemma set_list_updateD: "x \<in> set (xs[i := y]) \<Longrightarrow> x = y \<or> x \<in> set xs"
  by (meson insertE set_update_subset_insert subsetD)

lemma mem_list_update_iff:
  "i < length xs \<Longrightarrow> x \<in> set (xs[i := y]) \<longleftrightarrow> x = y \<or> (\<exists>j < length xs. j \<noteq> i \<and> xs ! j = x)"
  by (auto simp: in_set_conv_nth nth_list_update)

lemma take_append_drop_length [simp]:
  "length bs \<le> length xs \<Longrightarrow> take (length bs) (bs @ drop (length bs) xs) = bs"
  by simp

end
