(* ===== verification/Interfaces.thy ===== *)
theory Interfaces
  imports Prelude
begin

text \<open>
  The interfaces the components rely on, one locale each.
  \<^item> \<open>rtos_queue\<close>: what FreeRTOS documents of a queue of pointers used without blocking. The
    queue itself is not part of the repository, so it is a parameter of the model; a circular
    buffer instantiates it.
  \<^item> \<open>slab\<close>: an allocator over a fixed set of buffers. The receive-frame pool of
    \<open>esp_smoltcp.c\<close> and the transmit pool of \<open>lib.rs\<close> both provide it.
  \<^item> \<open>slot_table\<close>: a small static array of key/value slots used as a finite map. The L2 tap
    table and the loopback port table both provide it.
\<close>

section \<open>The queue of pointers\<close>

record 'q queue_ops =
  xQueueSend :: "'q \<Rightarrow> nat \<Rightarrow> 'q option"
  xQueueReceive :: "'q \<Rightarrow> (nat \<times> 'q) option"
  uxQueueMessagesWaiting :: "'q \<Rightarrow> nat"

text \<open>The circular buffer that instantiates the queue: storage, read position and count.\<close>

record ring =
  rg_store :: "nat list"
  rg_head :: nat
  rg_count :: nat

definition ring_new :: "nat \<Rightarrow> ring" where
  "ring_new n = \<lparr>rg_store = replicate n 0, rg_head = 0, rg_count = 0\<rparr>"

definition ring_at :: "ring \<Rightarrow> nat \<Rightarrow> nat" where
  "ring_at r k = rg_store r ! ((rg_head r + k) mod length (rg_store r))"

definition ring_contents :: "ring \<Rightarrow> nat list" where
  "ring_contents r = map (ring_at r) [0..<min (rg_count r) (length (rg_store r))]"

definition ring_capacity :: "ring \<Rightarrow> nat" where
  "ring_capacity r = length (rg_store r)"

definition ring_send :: "ring \<Rightarrow> nat \<Rightarrow> ring option" where
  "ring_send r x =
     (if rg_count r < length (rg_store r)
      then Some (r\<lparr>rg_store := (rg_store r)[(rg_head r + rg_count r) mod length (rg_store r) := x],
                  rg_count := rg_count r + 1\<rparr>)
      else None)"

definition ring_receive :: "ring \<Rightarrow> (nat \<times> ring) option" where
  "ring_receive r =
     (if rg_count r = 0 \<or> rg_store r = [] then None
      else Some (ring_at r 0,
                 r\<lparr>rg_head := (rg_head r + 1) mod length (rg_store r),
                   rg_count := min (rg_count r) (length (rg_store r)) - 1\<rparr>))"

definition ring_ops :: "ring queue_ops" where
  "ring_ops = \<lparr>xQueueSend = ring_send, xQueueReceive = ring_receive,
               uxQueueMessagesWaiting = (\<lambda>r. min (rg_count r) (length (rg_store r)))\<rparr>"

locale rtos_queue =
  fixes Q :: "'q queue_ops"
    and contents :: "'q \<Rightarrow> nat list"
    and capacity :: "'q \<Rightarrow> nat"
  assumes send_room: "length (contents q) < capacity q \<Longrightarrow>
      \<exists>q'. xQueueSend Q q x = Some q' \<and> contents q' = contents q @ [x] \<and> capacity q' = capacity q"
    and send_full: "capacity q \<le> length (contents q) \<Longrightarrow> xQueueSend Q q x = None"
    and receive_empty: "contents q = [] \<Longrightarrow> xQueueReceive Q q = None"
    and receive_next: "contents q = x # xs \<Longrightarrow>
      \<exists>q'. xQueueReceive Q q = Some (x, q') \<and> contents q' = xs \<and> capacity q' = capacity q"
    and waiting: "uxQueueMessagesWaiting Q q = length (contents q)"
begin

lemma send_SomeD:
  "xQueueSend Q q x = Some q' \<Longrightarrow>
     contents q' = contents q @ [x] \<and> capacity q' = capacity q \<and> length (contents q) < capacity q"
  using send_room [of q x] send_full [of q x] by (cases "length (contents q) < capacity q") auto

lemma send_None_iff: "xQueueSend Q q x = None \<longleftrightarrow> capacity q \<le> length (contents q)"
  using send_room [of q x] send_full [of q x] by (cases "length (contents q) < capacity q") auto

lemma receive_SomeD:
  "xQueueReceive Q q = Some (x, q') \<Longrightarrow> contents q = x # contents q' \<and> capacity q' = capacity q"
  using receive_empty [of q] receive_next [of q] by (cases "contents q") auto

lemma receive_None_iff: "xQueueReceive Q q = None \<longleftrightarrow> contents q = []"
  using receive_empty [of q] receive_next [of q] by (cases "contents q") auto

lemma send_receive:
  assumes "contents q = []" and "xQueueSend Q q x = Some q'"
  shows "\<exists>q''. xQueueReceive Q q' = Some (x, q'') \<and> contents q'' = []"
  using assms send_SomeD receive_next [of q' x "[]"] by fastforce

end

section \<open>The circular buffer is such a queue\<close>

lemma ring_contents_length: "length (ring_contents r) = min (rg_count r) (length (rg_store r))"
  by (simp add: ring_contents_def)

lemma ring_send_contents:
  assumes "ring_send r x = Some r'"
  shows "ring_contents r' = ring_contents r @ [x]"
proof -
  let ?n = "length (rg_store r)" and ?c = "rg_count r" and ?h = "rg_head r"
  from assms have lt: "?c < ?n" and r': "r' = r\<lparr>rg_store := (rg_store r)[(?h + ?c) mod ?n := x],
      rg_count := ?c + 1\<rparr>"
    by (auto simp: ring_send_def split: if_splits)
  have old: "ring_at r' k = ring_at r k" if "k < ?c" for k
  proof -
    have "(?h + k) mod ?n \<noteq> (?h + ?c) mod ?n"
    proof
      assume "(?h + k) mod ?n = (?h + ?c) mod ?n"
      then have "?n dvd (?h + ?c) - (?h + k)"
        using that mod_eq_dvd_iff_nat [of "?h + k" "?h + ?c" ?n] by simp
      with that lt show False
        by (auto dest: dvd_imp_le)
    qed
    then show ?thesis by (simp add: ring_at_def r')
  qed
  have new: "ring_at r' ?c = x"
  proof -
    have "(?h + ?c) mod ?n < ?n" using lt by (intro mod_less_divisor) linarith
    then show ?thesis by (simp add: ring_at_def r' del: mod_less_divisor)
  qed
  show ?thesis
    using lt old new by (simp add: ring_contents_def r' [THEN arg_cong, of "\<lambda>r. rg_count r"]
        r' [THEN arg_cong, of "\<lambda>r. length (rg_store r)"])
qed

lemma ring_receive_contents:
  assumes "ring_contents r = x # xs"
  shows "\<exists>r'. ring_receive r = Some (x, r') \<and> ring_contents r' = xs \<and> ring_capacity r' = ring_capacity r"
proof -
  let ?n = "length (rg_store r)" and ?m = "min (rg_count r) (length (rg_store r))"
  have pos: "0 < ?m"
    using assms by (metis length_greater_0_conv list.distinct(1) ring_contents_length)
  let ?r = "r\<lparr>rg_head := (rg_head r + 1) mod ?n, rg_count := ?m - 1\<rparr>"
  have "[0..<?m] = 0 # map Suc [0..<?m - 1]"
    using pos by (simp add: upt_conv_Cons map_Suc_upt del: upt_Suc)
  then have split: "ring_contents r = ring_at r 0 # map (ring_at r \<circ> Suc) [0..<?m - 1]"
    by (simp add: ring_contents_def)
  have shift: "ring_at ?r k = ring_at r (Suc k)" for k
    by (simp add: ring_at_def mod_add_left_eq add.assoc)
  have "ring_contents ?r = map (ring_at ?r) [0..<?m - 1]"
    by (simp add: ring_contents_def)
  also have "\<dots> = map (ring_at r \<circ> Suc) [0..<?m - 1]"
    by (rule map_cong [OF refl]) (simp only: shift comp_apply)
  finally have rest: "ring_contents ?r = map (ring_at r \<circ> Suc) [0..<?m - 1]" .
  have "ring_receive r = Some (ring_at r 0, ?r)"
    using pos by (auto simp: ring_receive_def)
  moreover have "ring_at r 0 = x" and "ring_contents ?r = xs"
    using assms split rest by simp_all
  ultimately show ?thesis by (simp add: ring_capacity_def)
qed

interpretation rq: rtos_queue ring_ops ring_contents ring_capacity
proof
  fix q :: ring and x :: nat and xs
  show "\<exists>q'. xQueueSend ring_ops q x = Some q' \<and> ring_contents q' = ring_contents q @ [x] \<and>
      ring_capacity q' = ring_capacity q"
    if room: "length (ring_contents q) < ring_capacity q"
  proof -
    have "rg_count q < length (rg_store q)"
      using room by (simp add: ring_contents_length ring_capacity_def)
    then obtain q' where q': "ring_send q x = Some q'" and "ring_capacity q' = ring_capacity q"
      by (simp add: ring_send_def ring_capacity_def)
    then show ?thesis
      using ring_send_contents [OF q'] by (simp add: ring_ops_def)
  qed
  show "ring_capacity q \<le> length (ring_contents q) \<Longrightarrow> xQueueSend ring_ops q x = None"
    by (simp add: ring_ops_def ring_send_def ring_capacity_def ring_contents_length)
  show "ring_contents q = [] \<Longrightarrow> xQueueReceive ring_ops q = None"
    by (auto simp: ring_ops_def ring_receive_def ring_contents_def min_def split: if_splits)
  show "ring_contents q = x # xs \<Longrightarrow> \<exists>q'. xQueueReceive ring_ops q = Some (x, q') \<and>
      ring_contents q' = xs \<and> ring_capacity q' = ring_capacity q"
    using ring_receive_contents [of q x xs] by (simp add: ring_ops_def)
  show "uxQueueMessagesWaiting ring_ops q = length (ring_contents q)"
    by (simp add: ring_ops_def ring_contents_length)
qed

lemma ring_new_contents [simp]: "ring_contents (ring_new n) = []"
  by (simp add: ring_contents_def ring_new_def)

lemma ring_new_capacity [simp]: "ring_capacity (ring_new n) = n"
  by (simp add: ring_capacity_def ring_new_def)

section \<open>Allocators over a fixed set of buffers\<close>

fun alloc_many :: "('s \<Rightarrow> ('i \<times> 's) option) \<Rightarrow> nat \<Rightarrow> 's \<Rightarrow> ('i list \<times> 's) option" where
  "alloc_many alloc 0 s = Some ([], s)"
| "alloc_many alloc (Suc n) s =
     (case alloc s of None \<Rightarrow> None
      | Some (i, s') \<Rightarrow> map_option (\<lambda>(is, s''). (i # is, s'')) (alloc_many alloc n s'))"

locale slab =
  fixes alloc :: "'s \<Rightarrow> ('i \<times> 's) option"
    and release :: "'i \<Rightarrow> 's \<Rightarrow> 's"
    and avail :: "'s \<Rightarrow> 'i set"
    and invar :: "'s \<Rightarrow> bool"
    and buffers :: "'i set"
  assumes finite_buffers: "finite buffers"
    and avail_sub: "invar s \<Longrightarrow> avail s \<subseteq> buffers"
    and alloc_SomeD: "invar s \<Longrightarrow> alloc s = Some (i, s') \<Longrightarrow>
        i \<in> avail s \<and> avail s' = avail s - {i} \<and> invar s'"
    and alloc_None_iff: "invar s \<Longrightarrow> alloc s = None \<longleftrightarrow> avail s = {}"
    and release: "invar s \<Longrightarrow> i \<in> buffers \<Longrightarrow> i \<notin> avail s \<Longrightarrow>
        avail (release i s) = insert i (avail s) \<and> invar (release i s)"
begin

lemma alloc_release_same:
  assumes "invar s" and "alloc s = Some (i, s')"
  shows "avail (release i s') = avail s \<and> invar (release i s')"
  using alloc_SomeD [OF assms] release [of s' i] avail_sub [OF assms(1)] by auto

lemma alloc_many_distinct:
  "invar s \<Longrightarrow> alloc_many alloc n s = Some (is, s') \<Longrightarrow>
     distinct is \<and> length is = n \<and> set is \<subseteq> avail s \<and> avail s' = avail s - set is \<and> invar s'"
proof (induction n arbitrary: s "is")
  case 0
  then show ?case by simp
next
  case (Suc n)
  then obtain i s1 js where step: "alloc s = Some (i, s1)"
    and rest: "alloc_many alloc n s1 = Some (js, s')" and eq: "is = i # js"
    by (auto split: option.splits)
  from alloc_SomeD [OF Suc.prems(1) step]
  have i: "i \<in> avail s" "avail s1 = avail s - {i}" "invar s1" by auto
  from Suc.IH [OF i(3) rest] i eq show ?case by auto
qed

lemma alloc_many_iff:
  "invar s \<Longrightarrow> (\<exists>is s'. alloc_many alloc n s = Some (is, s')) \<longleftrightarrow> n \<le> card (avail s)"
proof (induction n arbitrary: s)
  case 0
  then show ?case by simp
next
  case (Suc n)
  have fin: "finite (avail s)"
    using finite_subset [OF avail_sub finite_buffers] Suc.prems by blast
  show ?case
  proof (cases "alloc s")
    case None
    with alloc_None_iff [OF Suc.prems] show ?thesis by simp
  next
    case (Some p)
    obtain i s1 where p: "p = (i, s1)" by force
    from alloc_SomeD [OF Suc.prems] Some p
    have i: "i \<in> avail s" "avail s1 = avail s - {i}" "invar s1" by auto
    have "card (avail s) = Suc (card (avail s1))"
      by (simp only: i(2) card_Suc_Diff1 [OF fin i(1)])
    with Suc.IH [OF i(3)] Some p show ?thesis by auto
  qed
qed

end

section \<open>Slot tables\<close>

locale slot_table =
  fixes lookup :: "'t \<Rightarrow> 'k \<Rightarrow> 'v option"
    and bind :: "'k \<Rightarrow> 'v \<Rightarrow> 't \<Rightarrow> 't option"
    and unbind :: "'k \<Rightarrow> 't \<Rightarrow> 't"
    and invar :: "'t \<Rightarrow> bool"
    and usable :: "'k \<Rightarrow> bool"
    and slots :: nat
  assumes bind_SomeD: "invar t \<Longrightarrow> usable k \<Longrightarrow> bind k v t = Some t' \<Longrightarrow>
        invar t' \<and> lookup t' = (lookup t)(k \<mapsto> v)"
    and bind_None_iff: "invar t \<Longrightarrow> usable k \<Longrightarrow>
        bind k v t = None \<longleftrightarrow> lookup t k = None \<and> card (dom (lookup t)) = slots"
    and unbind: "invar t \<Longrightarrow> usable k \<Longrightarrow>
        invar (unbind k t) \<and> lookup (unbind k t) = (lookup t)(k := None)"
    and dom_bound: "invar t \<Longrightarrow> finite (dom (lookup t)) \<and> card (dom (lookup t)) \<le> slots"
begin

lemma rebind_succeeds:
  "invar t \<Longrightarrow> usable k \<Longrightarrow> lookup t k \<noteq> None \<Longrightarrow> \<exists>t'. bind k v t = Some t'"
  using bind_None_iff [of t k v] by (cases "bind k v t") auto

lemma bind_then_lookup:
  "invar t \<Longrightarrow> usable k \<Longrightarrow> bind k v t = Some t' \<Longrightarrow> lookup t' k = Some v"
  using bind_SomeD by force

lemma bind_other:
  "invar t \<Longrightarrow> usable k \<Longrightarrow> bind k v t = Some t' \<Longrightarrow> j \<noteq> k \<Longrightarrow> lookup t' j = lookup t j"
  using bind_SomeD by force

lemma unbind_makes_room:
  assumes "invar t" and "usable k" and "lookup t k \<noteq> None" and "usable j"
  shows "\<exists>t'. bind j v (unbind k t) = Some t'"
proof -
  note u = unbind [OF assms(1,2)]
  have "card (dom (lookup (unbind k t))) < card (dom (lookup t))"
    using u assms(3) dom_bound [OF assms(1)] by (intro psubset_card_mono) auto
  also have "\<dots> \<le> slots"
    using dom_bound [OF assms(1)] by simp
  finally show ?thesis
    using bind_None_iff [of "unbind k t" j v] u assms(4) by (cases "bind j v (unbind k t)") auto
qed

end

end
