(* ===== verification/Glue_Wire.thy ===== *)
theory Glue_Wire
  imports Interfaces
begin

text \<open>
  The pure functions of the Rust glue (\<open>components/esp_smoltcp_glue/src/lib.rs\<close> and
  \<open>dns.rs\<close>): how an IPv4 address travels through the C interface as a \<open>uint32_t\<close>, the
  dotted-quad parser, the netmask helper, and the DNS query builder and response parser.
  Indexing a Rust slice out of range panics; the parser's model therefore reads every byte
  through a bounds check and \<open>Panic\<close> is one of its outcomes.
\<close>

section \<open>Bytes of a 32-bit integer\<close>

definition from_be_bytes :: "u8 \<Rightarrow> u8 \<Rightarrow> u8 \<Rightarrow> u8 \<Rightarrow> u32" where
  "from_be_bytes a b c d = word_of_nat (((unat a * 256 + unat b) * 256 + unat c) * 256 + unat d)"

definition from_le_bytes :: "u8 \<Rightarrow> u8 \<Rightarrow> u8 \<Rightarrow> u8 \<Rightarrow> u32" where
  "from_le_bytes a b c d = from_be_bytes d c b a"

definition le_byte :: "u32 \<Rightarrow> nat \<Rightarrow> u8" where
  "le_byte w i = word_of_nat (unat w div 256 ^ i)"

text \<open>\<open>u32::to_be\<close> on the little-endian target: the four bytes in reverse order.\<close>

definition to_be :: "u32 \<Rightarrow> u32" where
  "to_be w = from_be_bytes (le_byte w 0) (le_byte w 1) (le_byte w 2) (le_byte w 3)"

section \<open>IPv4 addresses at the C interface\<close>

record ipv4_address =
  oct0 :: u8
  oct1 :: u8
  oct2 :: u8
  oct3 :: u8

definition from_octets :: "u8 \<Rightarrow> u8 \<Rightarrow> u8 \<Rightarrow> u8 \<Rightarrow> ipv4_address" where
  "from_octets a b c d = \<lparr>oct0 = a, oct1 = b, oct2 = c, oct3 = d\<rparr>"

definition ipv4_from_be :: "u32 \<Rightarrow> ipv4_address" where
  "ipv4_from_be be = from_octets (le_byte be 0) (le_byte be 1) (le_byte be 2) (le_byte be 3)"

definition ipv4_to_be :: "ipv4_address \<Rightarrow> u32" where
  "ipv4_to_be a = from_le_bytes (oct0 a) (oct1 a) (oct2 a) (oct3 a)"

text \<open>
  \<open>overflow-checks\<close> is off in the release profile, so \<open>32 - prefix\<close> wraps and the shift
  distance is taken modulo 32.
\<close>

definition cidr_to_mask :: "u8 \<Rightarrow> u32" where
  "cidr_to_mask prefix =
     (if prefix = 0 then 0
      else push_bit (unat ((32 - ucast prefix :: u32) AND 31)) (NOT 0))"

section \<open>The dotted-quad parser\<close>

definition is_digit :: "char \<Rightarrow> bool" where
  "is_digit c \<longleftrightarrow> 48 \<le> (of_char c :: nat) \<and> (of_char c :: nat) \<le> 57"

text \<open>\<open>str::parse::<u8>\<close>: an optional plus sign, then at least one digit, no overflow.\<close>

fun parse_digits :: "nat \<Rightarrow> string \<Rightarrow> nat option" where
  "parse_digits acc [] = Some acc"
| "parse_digits acc (c # cs) =
     (if is_digit c
      then let acc' = acc * 10 + (of_char c - 48) in
        if acc' < 256 then parse_digits acc' cs else None
      else None)"

definition parse_u8 :: "string \<Rightarrow> u8 option" where
  "parse_u8 s =
     (let ds = (case s of c # cs \<Rightarrow> if c = CHR ''+'' then cs else s | [] \<Rightarrow> []) in
      if ds = [] then None else map_option word_of_nat (parse_digits 0 ds))"

text \<open>\<open>str::split('.')\<close>: the empty string has one empty part.\<close>

fun split_dot :: "string \<Rightarrow> string list" where
  "split_dot [] = [[]]"
| "split_dot (c # cs) =
     (if c = CHR ''.'' then [] # split_dot cs
      else (case split_dot cs of [] \<Rightarrow> [[c]] | p # ps \<Rightarrow> (c # p) # ps))"

fun parse_parts :: "u8 list \<Rightarrow> string list \<Rightarrow> u8 list option" where
  "parse_parts octets [] = Some octets"
| "parse_parts octets (part # parts) =
     (if length octets \<ge> 4 then None
      else case parse_u8 part of Some v \<Rightarrow> parse_parts (octets @ [v]) parts | None \<Rightarrow> None)"

text \<open>
  \<open>Some be\<close> is the return value 0 with \<open>be\<close> stored through the out pointer, \<open>None\<close> the return
  value -1. A byte string that is not UTF-8 holds a byte no part accepts, so the conversion
  of the C string adds no case of its own.
\<close>

definition smoltcp_parse_ipv4 :: "string option \<Rightarrow> u32 option" where
  "smoltcp_parse_ipv4 s =
     (case s of None \<Rightarrow> None
      | Some cs \<Rightarrow> (case parse_parts [] (split_dot cs) of
            Some [a, b, c, d] \<Rightarrow> Some (from_be_bytes a b c d)
          | _ \<Rightarrow> None))"

section \<open>DNS queries\<close>

definition u16_be :: "u16 \<Rightarrow> u8 list" where
  "u16_be w = [ucast (drop_bit 8 w), ucast w]"

fun encode_labels :: "u8 list list \<Rightarrow> u8 list option" where
  "encode_labels [] = Some []"
| "encode_labels (l # ls) =
     (if l = [] \<or> length l > 63 then None
      else map_option (\<lambda>rest. word_of_nat (length l) # l @ rest) (encode_labels ls))"

text \<open>The query \<open>smoltcp_resolve\<close> builds; \<open>None\<close> is its early return on a bad label.\<close>

definition dns_query :: "u16 \<Rightarrow> u8 list list \<Rightarrow> u8 list option" where
  "dns_query qid labels =
     map_option (\<lambda>name. u16_be qid @ [0x01, 0x00] @ [0, 1, 0, 0, 0, 0, 0, 0]
                          @ name @ [0] @ [0, 1] @ [0, 1])
       (encode_labels labels)"

section \<open>DNS responses\<close>

datatype dns_result = Panic | NoAnswer | Answer ipv4_address

text \<open>The first loop, over the question's labels: \<open>None\<close> is \<open>return None\<close>.\<close>

function skip_question :: "u8 list \<Rightarrow> nat \<Rightarrow> nat option" where
  "skip_question pkt i =
     (if i < length pkt \<and> pkt ! i \<noteq> 0
      then if pkt ! i AND 0xC0 \<noteq> 0 then None
           else skip_question pkt (i + (1 + unat (pkt ! i)))
      else Some i)"
  by pat_completeness auto
termination
  by (relation "measure (\<lambda>(pkt, i). length pkt - i)") auto

text \<open>The loop over an answer's name, which does not look at the compression bits.\<close>

function skip_name :: "u8 list \<Rightarrow> nat \<Rightarrow> nat" where
  "skip_name pkt i =
     (if i < length pkt \<and> pkt ! i \<noteq> 0 then skip_name pkt (i + (1 + unat (pkt ! i))) else i)"
  by pat_completeness auto
termination
  by (relation "measure (\<lambda>(pkt, i). length pkt - i)") auto

definition byte_at :: "u8 list \<Rightarrow> nat \<Rightarrow> u8 option" where
  "byte_at pkt i = (if i < length pkt then Some (pkt ! i) else None)"

definition u16_at :: "u8 list \<Rightarrow> nat \<Rightarrow> nat option" where
  "u16_at pkt i =
     (case (byte_at pkt i, byte_at pkt (i + 1)) of
        (Some a, Some b) \<Rightarrow> Some (unat a * 256 + unat b) | _ \<Rightarrow> None)"

definition address_at :: "u8 list \<Rightarrow> nat \<Rightarrow> dns_result" where
  "address_at pkt i =
     (case (byte_at pkt i, byte_at pkt (i + 1), byte_at pkt (i + 2), byte_at pkt (i + 3)) of
        (Some a, Some b, Some c, Some d) \<Rightarrow> Answer (from_octets a b c d) | _ \<Rightarrow> Panic)"

definition answer_name_end :: "u8 list \<Rightarrow> nat \<Rightarrow> u8 \<Rightarrow> nat" where
  "answer_name_end pkt i b = (if b AND 0xC0 = 0xC0 then i + 2 else skip_name pkt i + 1)"

fun scan_answers :: "nat \<Rightarrow> u8 list \<Rightarrow> nat \<Rightarrow> dns_result" where
  "scan_answers 0 pkt i = NoAnswer"
| "scan_answers (Suc n) pkt i =
     (if i + 12 > length pkt then NoAnswer
      else case byte_at pkt i of None \<Rightarrow> Panic
      | Some b \<Rightarrow>
        (let j = answer_name_end pkt i b in
         if j + 10 > length pkt then NoAnswer
         else case (u16_at pkt j, u16_at pkt (j + 8)) of
             (Some qtype, Some rdlen) \<Rightarrow>
               (let k = j + 10 in
                if k + rdlen > length pkt then NoAnswer
                else if qtype = 1 \<and> rdlen = 4 then address_at pkt k
                else scan_answers n pkt (k + rdlen))
           | _ \<Rightarrow> Panic))"

definition parse_a_response :: "u8 list \<Rightarrow> nat \<Rightarrow> dns_result" where
  "parse_a_response pkt expect_id =
     (if length pkt < 12 then NoAnswer
      else case (u16_at pkt 0, u16_at pkt 2, u16_at pkt 6) of
          (Some rid, Some flags, Some ancount) \<Rightarrow>
            if rid \<noteq> expect_id then NoAnswer
            else if flags AND 0x000F \<noteq> 0 then NoAnswer
            else if ancount = 0 then NoAnswer
            else (case skip_question pkt 12 of None \<Rightarrow> NoAnswer
                  | Some i \<Rightarrow> scan_answers ancount pkt (i + (1 + 4)))
        | _ \<Rightarrow> Panic)"

declare skip_question.simps [simp del] skip_name.simps [simp del]

section \<open>Decimal printing\<close>

text \<open>The conversion \<open>%u\<close> of a byte, and the four of them \<open>inet_ntop\<close> joins with dots.\<close>

definition digit :: "nat \<Rightarrow> char" where
  "digit n = char_of (48 + n)"

definition show_u8 :: "u8 \<Rightarrow> string" where
  "show_u8 w =
     (let n = unat w in
      if n < 10 then [digit n]
      else if n < 100 then [digit (n div 10), digit (n mod 10)]
      else [digit (n div 100), digit (n div 10 mod 10), digit (n mod 10)])"

definition dotted :: "u8 \<Rightarrow> u8 \<Rightarrow> u8 \<Rightarrow> u8 \<Rightarrow> string" where
  "dotted a b c d = show_u8 a @ ''.'' @ show_u8 b @ ''.'' @ show_u8 c @ ''.'' @ show_u8 d"

section \<open>Byte order\<close>

lemma unat_from_be_bytes:
  "unat (from_be_bytes a b c d) = ((unat a * 256 + unat b) * 256 + unat c) * 256 + unat d"
proof -
  from u8_lt [of a] u8_lt [of b] u8_lt [of c] u8_lt [of d]
  have "((unat a * 256 + unat b) * 256 + unat c) * 256 + unat d < 2 ^ 32" by simp
  then show ?thesis by (simp add: from_be_bytes_def unat_of_nat del: of_nat_add of_nat_mult)
qed

lemma byte_of_sum: "(word_of_nat (unat (x :: u8) + 256 * n) :: u8) = x"
  by (rule unat_eqI) (use u8_lt [of x] in \<open>simp add: unat_of_nat del: of_nat_add of_nat_mult\<close>)

lemma le_byte_from_be_bytes [simp]:
  "le_byte (from_be_bytes a b c d) 0 = d"
  "le_byte (from_be_bytes a b c d) (Suc 0) = c"
  "le_byte (from_be_bytes a b c d) 2 = b"
  "le_byte (from_be_bytes a b c d) 3 = a"
proof -
  note lt = u8_lt
  let ?n = "((unat a * 256 + unat b) * 256 + unat c) * 256 + unat d"
  have d1: "?n div 256 = (unat a * 256 + unat b) * 256 + unat c" using lt [of d] by simp
  have d2: "?n div 65536 = unat a * 256 + unat b" using lt [of d] lt [of c] by simp
  have d3: "?n div 16777216 = unat a" using lt [of d] lt [of c] lt [of b] by simp
  show "le_byte (from_be_bytes a b c d) 0 = d"
    using byte_of_sum [of d "(unat a * 256 + unat b) * 256 + unat c"]
    by (simp add: le_byte_def unat_from_be_bytes add.commute mult.commute)
  show "le_byte (from_be_bytes a b c d) (Suc 0) = c"
    using byte_of_sum [of c "unat a * 256 + unat b"] d1
    by (simp add: le_byte_def unat_from_be_bytes add.commute mult.commute)
  show "le_byte (from_be_bytes a b c d) 2 = b"
    using byte_of_sum [of b "unat a"] d2
    by (simp add: le_byte_def unat_from_be_bytes add.commute mult.commute)
  show "le_byte (from_be_bytes a b c d) 3 = a"
    using d3 by (simp add: le_byte_def unat_from_be_bytes)
qed

lemma from_be_bytes_le_byte [simp]:
  "from_be_bytes (le_byte w 3) (le_byte w 2) (le_byte w (Suc 0)) (le_byte w 0) = w"
proof (rule unat_eqI)
  let ?q1 = "unat w div 256"
  let ?q2 = "?q1 div 256"
  let ?q3 = "?q2 div 256"
  have gen: "unat (le_byte w i) = unat w div 256 ^ i mod 256" for i
    by (simp add: le_byte_def unat_of_nat)
  have b: "unat (le_byte w 3) = ?q3 mod 256" "unat (le_byte w 2) = ?q2 mod 256"
    "unat (le_byte w (Suc 0)) = ?q1 mod 256" "unat (le_byte w 0) = unat w mod 256"
    by (simp_all add: gen div_mult2_eq [symmetric])
  have "?q3 mod 256 = ?q3" using u32_lt [of w] by simp
  then show "unat (from_be_bytes (le_byte w 3) (le_byte w 2) (le_byte w (Suc 0)) (le_byte w 0)) = unat w"
    by (simp only: unat_from_be_bytes b div_mult_mod_eq)
qed

section \<open>Addresses cross the interface unchanged\<close>

lemma ipv4_from_to_be [simp]: "ipv4_from_be (ipv4_to_be a) = a"
  by (simp add: ipv4_from_be_def ipv4_to_be_def from_le_bytes_def from_octets_def)

lemma ipv4_to_from_be [simp]: "ipv4_to_be (ipv4_from_be w) = w"
  by (simp add: ipv4_from_be_def ipv4_to_be_def from_le_bytes_def from_octets_def)

lemma cidr_to_mask_bit:
  assumes "unat p \<le> 32"
  shows "bit (cidr_to_mask p) i \<longleftrightarrow> i < 32 \<and> 32 - unat p \<le> i"
proof (cases "p = 0")
  case True
  then show ?thesis by (simp add: cidr_to_mask_def)
next
  case False
  have pos: "0 < unat p" using False by (simp add: unat_gt_0)
  have "unat (ucast p :: u32) = unat p"
    using u8_lt [of p] by (simp add: unsigned_ucast_eq take_bit_eq_mod)
  then have "unat (32 - ucast p :: u32) = 32 - unat p"
    using assms by (simp add: unat_sub word_le_nat_alt)
  moreover have "unat (x AND 31 :: u32) = unat x mod 32" for x :: u32
  proof -
    have "x AND 31 = x mod 32"
      using take_bit_eq_mask [of 5 x] by (simp add: mask_eq_exp_minus_1 take_bit_eq_mod)
    then show ?thesis by (simp add: unat_mod_distrib)
  qed
  ultimately have "unat ((32 - ucast p :: u32) AND 31) = 32 - unat p"
    using pos by simp
  with False show ?thesis
    by (auto simp: cidr_to_mask_def bit_push_bit_iff bit_not_iff bit_mask_iff)
qed

section \<open>Parsing what was printed\<close>

lemma split_dot_plain: "CHR ''.'' \<notin> set p \<Longrightarrow> split_dot p = [p]"
  by (induction p) auto

lemma split_dot_cons: "CHR ''.'' \<notin> set p \<Longrightarrow> split_dot (p @ CHR ''.'' # q) = p # split_dot q"
  by (induction p) auto

lemma digit_props:
  assumes "n < 10"
  shows "of_char (digit n) = 48 + n" "is_digit (digit n)" "digit n \<noteq> CHR ''.''" "digit n \<noteq> CHR ''+''"
proof -
  show *: "of_char (digit n) = 48 + n"
    using assms by (simp add: digit_def)
  then show "is_digit (digit n)"
    using assms by (simp add: is_digit_def)
  show "digit n \<noteq> CHR ''.''" and "digit n \<noteq> CHR ''+''"
    using * by auto
qed

lemma show_u8_cases:
  obtains (one) "unat w < 10" "show_u8 w = [digit (unat w)]"
  | (two) x y where "x < 10" "y < 10" "x * 10 + y = unat w" "show_u8 w = [digit x, digit y]"
  | (three) x y z where "x < 10" "y < 10" "z < 10" "(x * 10 + y) * 10 + z = unat w"
      "show_u8 w = [digit x, digit y, digit z]"
proof -
  let ?n = "unat w"
  consider "?n < 10" | "\<not> ?n < 10" "?n < 100" | "\<not> ?n < 100" by blast
  then show thesis
  proof cases
    case 1
    then show ?thesis by (intro one) (simp_all add: show_u8_def)
  next
    case 2
    show ?thesis
      by (rule two [of "?n div 10" "?n mod 10"]) (use 2 in \<open>simp_all add: show_u8_def Let_def\<close>)
  next
    case 3
    have "?n div 100 * 10 + ?n div 10 mod 10 = ?n div 10"
      using div_mult_mod_eq [of "?n div 10" 10] by (simp add: div_mult2_eq [symmetric])
    then have "(?n div 100 * 10 + ?n div 10 mod 10) * 10 + ?n mod 10 = ?n"
      by simp
    moreover have "?n div 100 < 10"
      using u8_lt [of w] by (simp add: less_mult_imp_div_less)
    ultimately show ?thesis
      by (intro three [of "?n div 100" "?n div 10 mod 10" "?n mod 10"])
        (use 3 in \<open>simp_all add: show_u8_def Let_def\<close>)
  qed
qed

lemma show_u8_no_dot: "CHR ''.'' \<notin> set (show_u8 w)"
  by (cases w rule: show_u8_cases) (simp_all add: digit_props(3) [symmetric])

lemma parse_digits_digit:
  "n < 10 \<Longrightarrow> acc * 10 + n < 256 \<Longrightarrow> parse_digits acc (digit n # cs) = parse_digits (acc * 10 + n) cs"
  by (simp add: digit_props)

lemma parse_u8_show: "parse_u8 (show_u8 w) = Some w"
proof -
  have "parse_digits 0 (show_u8 w) = Some (unat w)"
    using u8_lt [of w] by (cases w rule: show_u8_cases) (simp_all add: parse_digits_digit del: parse_digits.simps(2))
  moreover have "\<exists>c cs. show_u8 w = c # cs \<and> c \<noteq> CHR ''+''"
    by (cases w rule: show_u8_cases) (auto simp: digit_props(4))
  ultimately show ?thesis by (auto simp: parse_u8_def)
qed

lemma split_dot_dotted: "split_dot (dotted a b c d) = [show_u8 a, show_u8 b, show_u8 c, show_u8 d]"
  by (simp add: dotted_def split_dot_cons split_dot_plain show_u8_no_dot)

lemma parse_ipv4_dotted: "smoltcp_parse_ipv4 (Some (dotted a b c d)) = Some (from_be_bytes a b c d)"
  by (simp add: smoltcp_parse_ipv4_def split_dot_dotted parse_u8_show)

section \<open>The DNS parser\<close>

lemma u16_at_in_range: "i + 1 < length pkt \<Longrightarrow> \<exists>v. u16_at pkt i = Some v"
  by (auto simp: u16_at_def byte_at_def)

lemma address_at_in_range: "i + 4 \<le> length pkt \<Longrightarrow> address_at pkt i \<noteq> Panic"
  by (auto simp: address_at_def byte_at_def)

lemma scan_answers_no_panic: "scan_answers n pkt i \<noteq> Panic"
proof (induction n arbitrary: i)
  case 0
  then show ?case by simp
next
  case (Suc n)
  show ?case
  proof (cases "i + 12 > length pkt")
    case True
    then show ?thesis by simp
  next
    case False
    then obtain b where b: "byte_at pkt i = Some b" by (auto simp: byte_at_def)
    let ?j = "answer_name_end pkt i b"
    show ?thesis
    proof (cases "?j + 10 > length pkt")
      case True
      with False b show ?thesis by (simp add: Let_def)
    next
      case inside: False
      then obtain qt rl where "u16_at pkt ?j = Some qt" and "u16_at pkt (?j + 8) = Some rl"
        using u16_at_in_range [of ?j pkt] u16_at_in_range [of "?j + 8" pkt] by auto
      with False b inside Suc.IH [of "?j + 10 + rl"] show ?thesis
        using address_at_in_range [of "?j + 10" pkt] by (auto simp: Let_def)
    qed
  qed
qed

lemma small_word_and_C0:
  assumes "n < 64"
  shows "(word_of_nat n :: u8) AND 0xC0 = 0"
proof -
  have t: "(word_of_nat n :: u8) = take_bit 6 (word_of_nat n)"
    by (rule unat_eqI) (use assms in \<open>simp add: unat_of_nat take_bit_eq_mod unat_mod_distrib\<close>)
  have c: "(0xC0 :: u8) = push_bit 6 3" by simp
  have "take_bit 6 x AND push_bit 6 y = 0" for x y :: u8
    by (rule bit_eqI) (auto simp: bit_simps)
  then show ?thesis by (subst t, subst c)
qed

lemma skip_question_labels:
  "encode_labels ls = Some name \<Longrightarrow>
     skip_question (pre @ name @ 0 # rest) (length pre) = Some (length pre + length name)"
proof (induction ls arbitrary: pre name)
  case Nil
  then show ?case by (subst skip_question.simps) simp
next
  case (Cons l ls)
  then obtain nm where l: "l \<noteq> []" "length l \<le> 63" and nm: "encode_labels ls = Some nm"
    and name: "name = word_of_nat (length l) # l @ nm"
    by (auto split: if_splits)
  let ?pkt = "pre @ name @ 0 # rest"
  have len: "unat (word_of_nat (length l) :: u8) = length l"
    using l by (simp add: unat_of_nat)
  then have nz: "(word_of_nat (length l) :: u8) \<noteq> 0"
    using l by (metis length_0_conv unat_0)
  have "skip_question ?pkt (length pre) = skip_question ?pkt (length pre + (1 + length l))"
    by (subst skip_question.simps) (use l nz in \<open>simp add: name nth_append len small_word_and_C0\<close>)
  also have "?pkt = (pre @ word_of_nat (length l) # l) @ nm @ 0 # rest"
    by (simp add: name)
  also have "skip_question ((pre @ word_of_nat (length l) # l) @ nm @ 0 # rest) (length pre + (1 + length l))
      = Some (length (pre @ word_of_nat (length l) # l) + length nm)"
    using Cons.IH [OF nm, of "pre @ word_of_nat (length l) # l"] by simp
  finally show ?case by (simp add: name)
qed

lemma parse_parts_Some:
  "length octets \<le> 4 \<Longrightarrow> parse_parts octets parts = Some os \<longleftrightarrow>
     (\<exists>vs. map parse_u8 parts = map Some vs \<and> os = octets @ vs \<and> length os \<le> 4)"
proof (induction parts arbitrary: octets)
  case Nil
  then show ?case by auto
next
  case (Cons p ps)
  show ?case
  proof (cases "length octets \<ge> 4 \<or> parse_u8 p = None")
    case True
    then show ?thesis by (auto simp: map_eq_Cons_conv Cons_eq_map_conv)
  next
    case False
    then obtain v where v: "parse_u8 p = Some v" and lt: "length octets < 4" by auto
    with Cons.IH [of "octets @ [v]"] show ?thesis
      by (auto simp: Cons_eq_map_conv)
  qed
qed

text \<open>The dotted-quad parser of the glue accepts exactly the strings that split at the dots
  into four parts, each of which Rust's \<open>parse::<u8>\<close> accepts, and returns them as a
  big-endian integer; every other string is the error return.\<close>

theorem parse_ipv4_iff:
  "smoltcp_parse_ipv4 (Some s) = Some w \<longleftrightarrow>
     (\<exists>a b c d. map parse_u8 (split_dot s) = [Some a, Some b, Some c, Some d] \<and>
        w = from_be_bytes a b c d)"
proof -
  have "smoltcp_parse_ipv4 (Some s) = Some w \<longleftrightarrow>
      (\<exists>a b c d. parse_parts [] (split_dot s) = Some [a, b, c, d] \<and> w = from_be_bytes a b c d)"
    by (auto simp: smoltcp_parse_ipv4_def split: option.splits list.splits)
  also have "\<dots> \<longleftrightarrow> (\<exists>a b c d. map parse_u8 (split_dot s) = map Some [a, b, c, d] \<and> w = from_be_bytes a b c d)"
    by (simp add: parse_parts_Some)
  finally show ?thesis by simp
qed

text \<open>The integer the parser returns is not in the byte order every other function of the
  interface uses: read back by \<open>ipv4_from_be\<close>, as \<open>smoltcp_iface_set_static\<close>, the resolver and
  the socket calls do, the address \<open>a.b.c.d\<close> comes out as \<open>d.c.b.a\<close>.\<close>

lemma parse_ipv4_reverses:
  "map_option ipv4_from_be (smoltcp_parse_ipv4 (Some (dotted a b c d))) = Some (from_octets d c b a)"
  by (simp add: parse_ipv4_dotted ipv4_from_be_def)

text \<open>Whatever bytes arrive, the response parser never indexes the packet out of range.\<close>

lemma parse_a_response_total: "parse_a_response pkt expect_id \<noteq> Panic"
proof (cases "length pkt < 12")
  case True
  then show ?thesis by (simp add: parse_a_response_def)
next
  case False
  then obtain x y z where "u16_at pkt 0 = Some x" "u16_at pkt 2 = Some y" "u16_at pkt 6 = Some z"
    using u16_at_in_range [of 0 pkt] u16_at_in_range [of 2 pkt] u16_at_in_range [of 6 pkt] by auto
  with False show ?thesis
    by (auto simp: parse_a_response_def scan_answers_no_panic split: option.splits)
qed

end
