(* ===== verification/Glue_Core.thy ===== *)
theory Glue_Core
  imports Glue_Wire "HOL-Library.AList"
begin

text \<open>
  The stateful part of the Rust glue (\<open>components/esp_smoltcp_glue/src/lib.rs\<close>): the static
  transmit pool, the \<open>phy::Device\<close> implementation, the per-interface context with its table of
  socket ids, and the C-callable surface over it.

  The smoltcp crate itself is not part of the repository. Its state (\<open>Interface\<close> and
  \<open>SocketSet\<close>) is the type parameter \<open>'c\<close> and its operations are the record \<open>'c smoltcp\<close>, an
  argument of every definition that calls them. \<open>Interface::poll\<close> calls back into the device; it
  is therefore a \<open>'c dev_prog\<close>, the tree of the device calls it may make. Since the token types
  borrow the device mutably, the crate can hold the tokens of one device call at a time and
  has consumed or dropped them before the next one: a node of the tree is one call together
  with what becomes of its transmit token (\<open>Some frame\<close>: consumed with these bytes, \<open>None\<close>:
  dropped). A C pointer to a context is an \<open>option\<close>, \<open>None\<close> for NULL.
\<close>

section \<open>The transmit pool\<close>

definition TX_POOL_N :: nat where "TX_POOL_N = 16"

definition MTU :: nat where "MTU = 1500"

definition TX_FRAME :: nat where "TX_FRAME = 1536"

text \<open>The initial \<open>free_mask\<close>: the low \<open>TX_POOL_N\<close> bits.\<close>

definition tx_pool_init :: u32 where
  "tx_pool_init = push_bit TX_POOL_N 1 - 1"

definition trailing_zeros :: "u32 \<Rightarrow> nat" where
  "trailing_zeros m = (case first_idx (bit m) [0..<32] of Some i \<Rightarrow> i | None \<Rightarrow> 32)"

definition tx_pool_alloc :: "u32 \<Rightarrow> (nat \<times> u32) option" where
  "tx_pool_alloc free_mask =
     (if free_mask = 0 then None
      else let idx = trailing_zeros free_mask in Some (idx, free_mask AND NOT (push_bit idx 1)))"

definition tx_pool_free :: "nat \<Rightarrow> u32 \<Rightarrow> u32" where
  "tx_pool_free idx free_mask = free_mask OR push_bit idx 1"

section \<open>The device\<close>

record esp_device =
  dev_iface_id :: u32
  rx_inbox :: "u8 list option"
  dev_link_up :: bool

definition device_new :: "u32 \<Rightarrow> esp_device" where
  "device_new iface_id = \<lparr>dev_iface_id = iface_id, rx_inbox = None, dev_link_up = False\<rparr>"

definition push_rx :: "u8 list \<Rightarrow> esp_device \<Rightarrow> esp_device" where
  "push_rx frame d = (if rx_inbox d = None then d\<lparr>rx_inbox := Some frame\<rparr> else d)"

text \<open>\<open>Device::capabilities\<close>: the fields that the code sets.\<close>

datatype medium = Ethernet | Ip | Ieee802154

record device_capabilities =
  cap_medium :: medium
  max_transmission_unit :: nat
  max_burst_size :: "nat option"

definition device_capabilities :: device_capabilities where
  "device_capabilities = \<lparr>cap_medium = Ethernet, max_transmission_unit = MTU, max_burst_size = None\<rparr>"

text \<open>\<open>Device::receive\<close>: the frame and the index of the transmit buffer of its reply token.\<close>

definition device_receive ::
  "esp_device \<Rightarrow> u32 \<Rightarrow> (u8 list \<times> nat) option \<times> esp_device \<times> u32" where
  "device_receive d m =
     (case rx_inbox d of None \<Rightarrow> (None, d, m)
      | Some frame \<Rightarrow>
          let d' = d\<lparr>rx_inbox := None\<rparr> in
          (case tx_pool_alloc m of None \<Rightarrow> (None, d', m)
           | Some (idx, m') \<Rightarrow> (Some (frame, idx), d', m')))"

definition device_transmit :: "esp_device \<Rightarrow> u32 \<Rightarrow> (nat \<times> u32) option" where
  "device_transmit d m = (if \<not> dev_link_up d then None else tx_pool_alloc m)"

text \<open>
  \<open>TxToken::consume\<close> and \<open>Drop\<close>. The slice \<open>buf[..len]\<close> panics beyond the buffer, which is the
  result \<open>None\<close>; the C callback's return value is discarded. Either way the token's \<open>Drop\<close> gives
  the buffer back.
\<close>

definition tx_token_end ::
  "(u32 \<Rightarrow> u8 list \<Rightarrow> 'w \<Rightarrow> int \<times> 'w) \<Rightarrow> u32 \<Rightarrow> nat \<Rightarrow> u8 list option \<Rightarrow> u32 \<Rightarrow> 'w \<Rightarrow> (u32 \<times> 'w) option" where
  "tx_token_end tx_cb iface_id idx payload m w =
     (case payload of None \<Rightarrow> Some (tx_pool_free idx m, w)
      | Some frame \<Rightarrow>
          if length frame > TX_FRAME then None
          else Some (tx_pool_free idx m, snd (tx_cb iface_id frame w)))"

datatype 'c dev_prog =
    Finish 'c
  | Receive "u8 list \<Rightarrow> u8 list option" "u8 list option \<Rightarrow> 'c dev_prog"
  | Transmit "u8 list option" "bool \<Rightarrow> 'c dev_prog"

primrec run_device ::
  "(u32 \<Rightarrow> u8 list \<Rightarrow> 'w \<Rightarrow> int \<times> 'w) \<Rightarrow> 'c dev_prog \<Rightarrow> esp_device \<Rightarrow> u32 \<Rightarrow> 'w
     \<Rightarrow> ('c \<times> esp_device \<times> u32 \<times> 'w) option" where
  "run_device tx_cb (Finish c) d m w = Some (c, d, m, w)"
| "run_device tx_cb (Receive reply next) d m w =
     (case device_receive d m of
        (None, d', m') \<Rightarrow> run_device tx_cb (next None) d' m' w
      | (Some (frame, idx), d', m') \<Rightarrow>
          (case tx_token_end tx_cb (dev_iface_id d) idx (reply frame) m' w of
             None \<Rightarrow> None
           | Some (m'', w') \<Rightarrow> run_device tx_cb (next (Some frame)) d' m'' w'))"
| "run_device tx_cb (Transmit payload next) d m w =
     (case device_transmit d m of
        None \<Rightarrow> run_device tx_cb (next False) d m w
      | Some (idx, m') \<Rightarrow>
          (case tx_token_end tx_cb (dev_iface_id d) idx payload m' w of
             None \<Rightarrow> None
           | Some (m'', w') \<Rightarrow> run_device tx_cb (next True) d m'' w'))"

text \<open>What smoltcp promises of its frames: none is longer than the device said it can send.\<close>

primrec frames_fit :: "'c dev_prog \<Rightarrow> bool" where
  "frames_fit (Finish c) \<longleftrightarrow> True"
| "frames_fit (Receive reply next) \<longleftrightarrow>
     (\<forall>f r. reply f = Some r \<longrightarrow> length r \<le> max_transmission_unit device_capabilities) \<and> (\<forall>o'. frames_fit (next o'))"
| "frames_fit (Transmit payload next) \<longleftrightarrow>
     (\<forall>r. payload = Some r \<longrightarrow> length r \<le> max_transmission_unit device_capabilities) \<and> (\<forall>b. frames_fit (next b))"

section \<open>The smoltcp crate\<close>

text \<open>The types of socket a \<open>SocketSet\<close> can hold. \<open>SocketSet::get_mut\<close> with a handle that is not in the
  set, or that belongs to a socket of another type, panics; \<open>sm_kind\<close> is what it looks at.\<close>

datatype sock_type = Tcp | Udp | Dhcpv4

datatype ip_cidr = Ipv4 ipv4_address u8 | Ipv6 "u8 list" u8

datatype dhcp_event = Configured ipv4_address u8 "ipv4_address option" | Deconfigured

record 'c smoltcp =
  sm_new :: "u8 list \<Rightarrow> int \<Rightarrow> 'c"
  sm_poll :: "int \<Rightarrow> 'c \<Rightarrow> 'c dev_prog"
  sm_poll_delay :: "int \<Rightarrow> 'c \<Rightarrow> u64 option"
  sm_ipv4_addr :: "'c \<Rightarrow> ipv4_address option"
  sm_ip_addrs :: "'c \<Rightarrow> ip_cidr list"
  sm_set_ip_addrs :: "ip_cidr list \<Rightarrow> 'c \<Rightarrow> 'c"
  sm_max_addrs :: nat
  sm_add_route :: "ipv4_address \<Rightarrow> 'c \<Rightarrow> 'c"
  sm_remove_route :: "'c \<Rightarrow> 'c"
  sm_dhcp_poll :: "nat \<Rightarrow> 'c \<Rightarrow> dhcp_event option \<times> 'c"
  sm_join :: "ipv4_address \<Rightarrow> 'c \<Rightarrow> bool \<times> 'c"
  sm_leave :: "ipv4_address \<Rightarrow> 'c \<Rightarrow> bool \<times> 'c"
  sm_add_tcp :: "'c \<Rightarrow> nat \<times> 'c"
  sm_udp_bind_ok :: "u16 \<Rightarrow> bool"
  sm_add_udp :: "u16 \<Rightarrow> 'c \<Rightarrow> nat \<times> 'c"
  sm_add_dhcp :: "'c \<Rightarrow> nat \<times> 'c"
  sm_remove :: "nat \<Rightarrow> 'c \<Rightarrow> 'c"
  sm_tcp_connect :: "nat \<Rightarrow> ipv4_address \<Rightarrow> u16 \<Rightarrow> u16 \<Rightarrow> 'c \<Rightarrow> bool \<times> 'c"
  sm_tcp_listen :: "nat \<Rightarrow> u16 \<Rightarrow> 'c \<Rightarrow> bool \<times> 'c"
  sm_tcp_send :: "nat \<Rightarrow> u8 list \<Rightarrow> 'c \<Rightarrow> nat option \<times> 'c"
  sm_tcp_recv :: "nat \<Rightarrow> nat \<Rightarrow> 'c \<Rightarrow> u8 list option \<times> 'c"
  sm_tcp_is_active :: "nat \<Rightarrow> 'c \<Rightarrow> bool"
  sm_tcp_may_recv :: "nat \<Rightarrow> 'c \<Rightarrow> bool"
  sm_tcp_may_send :: "nat \<Rightarrow> 'c \<Rightarrow> bool"
  sm_tcp_can_send :: "nat \<Rightarrow> 'c \<Rightarrow> bool"
  sm_tcp_recv_queue :: "nat \<Rightarrow> 'c \<Rightarrow> nat"
  sm_tcp_send_capacity :: "nat \<Rightarrow> 'c \<Rightarrow> nat"
  sm_tcp_send_queue :: "nat \<Rightarrow> 'c \<Rightarrow> nat"
  sm_tcp_close :: "nat \<Rightarrow> 'c \<Rightarrow> 'c"
  sm_udp_send :: "nat \<Rightarrow> u8 list \<Rightarrow> ipv4_address \<Rightarrow> u16 \<Rightarrow> 'c \<Rightarrow> bool \<times> 'c"
  sm_udp_recv :: "nat \<Rightarrow> nat \<Rightarrow> 'c \<Rightarrow> (u8 list \<times> ipv4_address option \<times> u16) option \<times> 'c"
  sm_udp_close :: "nat \<Rightarrow> 'c \<Rightarrow> 'c"
  sm_kind :: "nat \<Rightarrow> 'c \<Rightarrow> sock_type option"

section \<open>The interface context\<close>

record 'c iface_ctx =
  ctx_iface_id :: u32
  ctx_dev :: esp_device
  ctx_stack :: 'c
  ctx_dhcp :: "nat option"
  ctx_has_ip :: bool
  ctx_netmask_be :: u32
  ctx_gateway_be :: u32
  ctx_handles :: "(u32 \<times> nat) list"
  ctx_next_id :: u32
  ctx_panic :: bool
  ctx_opened :: nat

text \<open>The last two fields are not the source's: \<open>ctx_panic\<close> records that a call of the crate has
  panicked, \<open>ctx_opened\<close> counts the ids handed out. \<open>ctx.sockets.get_mut::<T>(sh)\<close>:\<close>

definition get_mut :: "'c smoltcp \<Rightarrow> sock_type \<Rightarrow> nat \<Rightarrow> 'c iface_ctx \<Rightarrow> 'c iface_ctx" where
  "get_mut S t sh ctx = ctx\<lparr>ctx_panic := (ctx_panic ctx \<or> sm_kind S sh (ctx_stack ctx) \<noteq> Some t)\<rparr>"

definition is_v4 :: "ip_cidr \<Rightarrow> bool" where
  "is_v4 a = (case a of Ipv4 _ _ \<Rightarrow> True | Ipv6 _ _ \<Rightarrow> False)"

text \<open>\<open>Vec::push\<close> on the crate's fixed-capacity vector: the error of a full vector is discarded.\<close>

definition push_addr :: "nat \<Rightarrow> ip_cidr \<Rightarrow> ip_cidr list \<Rightarrow> ip_cidr list" where
  "push_addr cap a as = (if length as < cap then as @ [a] else as)"

definition link_local :: "u8 list \<Rightarrow> u8 list" where
  "link_local mac =
     [0xfe, 0x80, 0, 0, 0, 0, 0, 0, mac ! 0 XOR 0x02, mac ! 1, mac ! 2, 0xff, 0xfe,
      mac ! 3, mac ! 4, mac ! 5]"

definition ctx_new :: "'c smoltcp \<Rightarrow> u32 \<Rightarrow> u8 list \<Rightarrow> int \<Rightarrow> 'c iface_ctx" where
  "ctx_new S iface_id mac now =
     (let c = sm_new S mac now;
          c' = sm_set_ip_addrs S (push_addr (sm_max_addrs S) (Ipv6 (link_local mac) 64) (sm_ip_addrs S c)) c
      in \<lparr>ctx_iface_id = iface_id, ctx_dev = device_new iface_id, ctx_stack = c', ctx_dhcp = None,
          ctx_has_ip = False, ctx_netmask_be = 0, ctx_gateway_be = 0, ctx_handles = [],
          ctx_next_id = 1, ctx_panic = False, ctx_opened = 0\<rparr>)"

definition alloc_id :: "nat \<Rightarrow> 'c iface_ctx \<Rightarrow> u32 \<times> 'c iface_ctx" where
  "alloc_id sh ctx =
     (ctx_next_id ctx,
      ctx\<lparr>ctx_next_id := max (ctx_next_id ctx + 1) 1,
          ctx_handles := AList.update (ctx_next_id ctx) sh (ctx_handles ctx),
          ctx_opened := Suc (ctx_opened ctx)\<rparr>)"

definition ctx_lookup :: "u32 \<Rightarrow> 'c iface_ctx \<Rightarrow> nat option" where
  "ctx_lookup i ctx = map_of (ctx_handles ctx) i"

definition dhcp_step :: "'c smoltcp \<Rightarrow> 'c iface_ctx \<Rightarrow> 'c iface_ctx" where
  "dhcp_step S ctx =
     (case ctx_dhcp ctx of
        None \<Rightarrow> ctx\<lparr>ctx_has_ip := sm_ipv4_addr S (ctx_stack ctx) \<noteq> None\<rparr>
      | Some dh \<Rightarrow>
          let ctx1 = get_mut S Dhcpv4 dh ctx
          in (case sm_dhcp_poll S dh (ctx_stack ctx1) of
             (None, c) \<Rightarrow> ctx1\<lparr>ctx_stack := c\<rparr>
           | (Some (Configured addr prefix router), c) \<Rightarrow>
               (let keep = filter (\<lambda>a. \<not> is_v4 a) (sm_ip_addrs S c);
                    c' = sm_set_ip_addrs S (push_addr (sm_max_addrs S) (Ipv4 addr prefix) keep) c
                in ctx1\<lparr>ctx_stack := (case router of None \<Rightarrow> c' | Some gw \<Rightarrow> sm_add_route S gw c'),
                        ctx_netmask_be := to_be (cidr_to_mask prefix),
                        ctx_gateway_be := (case router of None \<Rightarrow> 0 | Some gw \<Rightarrow> ipv4_to_be gw),
                        ctx_has_ip := True\<rparr>)
           | (Some Deconfigured, c) \<Rightarrow>
               (let c' = sm_set_ip_addrs S (filter (\<lambda>a. \<not> is_v4 a) (sm_ip_addrs S c)) c
                in ctx1\<lparr>ctx_stack := sm_remove_route S c', ctx_netmask_be := 0,
                        ctx_gateway_be := 0, ctx_has_ip := False\<rparr>)))"

definition ctx_poll ::
  "'c smoltcp \<Rightarrow> (u32 \<Rightarrow> u8 list \<Rightarrow> 'w \<Rightarrow> int \<times> 'w) \<Rightarrow> int \<Rightarrow> 'c iface_ctx \<Rightarrow> u32 \<Rightarrow> 'w
     \<Rightarrow> ('c iface_ctx \<times> u32 \<times> 'w) option" where
  "ctx_poll S tx_cb now ctx m w =
     (case run_device tx_cb (sm_poll S now (ctx_stack ctx)) (ctx_dev ctx) m w of
        None \<Rightarrow> None
      | Some (c, d, m', w') \<Rightarrow> Some (dhcp_step S (ctx\<lparr>ctx_stack := c, ctx_dev := d\<rparr>), m', w'))"

section \<open>The C-callable surface: interface\<close>

definition smoltcp_iface_new :: "'c smoltcp \<Rightarrow> u32 \<Rightarrow> u8 list option \<Rightarrow> int \<Rightarrow> 'c iface_ctx option" where
  "smoltcp_iface_new S iface_id mac now = map_option (\<lambda>m. ctx_new S iface_id m now) mac"

text \<open>\<open>smoltcp_iface_destroy\<close> frees the context; what is left of the pointer must not be used.\<close>

definition smoltcp_iface_destroy :: "'c iface_ctx option \<Rightarrow> 'c iface_ctx option" where
  "smoltcp_iface_destroy h = None"

definition smoltcp_iface_rx :: "'c iface_ctx option \<Rightarrow> u8 list option \<Rightarrow> 'c iface_ctx option" where
  "smoltcp_iface_rx h frame =
     (case (h, frame) of
        (Some ctx, Some f) \<Rightarrow> Some (ctx\<lparr>ctx_dev := push_rx f (ctx_dev ctx)\<rparr>)
      | _ \<Rightarrow> h)"

definition smoltcp_iface_poll ::
  "'c smoltcp \<Rightarrow> (u32 \<Rightarrow> u8 list \<Rightarrow> 'w \<Rightarrow> int \<times> 'w) \<Rightarrow> int \<Rightarrow> 'c iface_ctx option \<Rightarrow> u32 \<Rightarrow> 'w
     \<Rightarrow> ('c iface_ctx option \<times> u32 \<times> 'w) option" where
  "smoltcp_iface_poll S tx_cb now h m w =
     (case h of None \<Rightarrow> Some (None, m, w)
      | Some ctx \<Rightarrow> map_option (\<lambda>(ctx', m', w'). (Some ctx', m', w')) (ctx_poll S tx_cb now ctx m w))"

definition smoltcp_iface_poll_delay_us :: "'c smoltcp \<Rightarrow> int \<Rightarrow> 'c iface_ctx option \<Rightarrow> int" where
  "smoltcp_iface_poll_delay_us S now h =
     (case h of None \<Rightarrow> -1
      | Some ctx \<Rightarrow> (case sm_poll_delay S now (ctx_stack ctx) of Some d \<Rightarrow> sint d | None \<Rightarrow> -1))"

definition smoltcp_iface_set_link_up :: "'c iface_ctx option \<Rightarrow> bool \<Rightarrow> 'c iface_ctx option" where
  "smoltcp_iface_set_link_up h up =
     map_option (\<lambda>ctx. ctx\<lparr>ctx_dev := (ctx_dev ctx)\<lparr>dev_link_up := up\<rparr>\<rparr>) h"

definition smoltcp_iface_has_ip :: "'c iface_ctx option \<Rightarrow> bool" where
  "smoltcp_iface_has_ip h = (case h of None \<Rightarrow> False | Some ctx \<Rightarrow> ctx_has_ip ctx)"

definition smoltcp_iface_socket_count :: "'c iface_ctx option \<Rightarrow> u32" where
  "smoltcp_iface_socket_count h =
     (case h of None \<Rightarrow> 0 | Some ctx \<Rightarrow> word_of_nat (length (ctx_handles ctx)))"

definition smoltcp_iface_get_ipv4 :: "'c smoltcp \<Rightarrow> 'c iface_ctx option \<Rightarrow> u32" where
  "smoltcp_iface_get_ipv4 S h =
     (case h of None \<Rightarrow> 0
      | Some ctx \<Rightarrow> (case sm_ipv4_addr S (ctx_stack ctx) of Some a \<Rightarrow> ipv4_to_be a | None \<Rightarrow> 0))"

fun first_ipv6 :: "ip_cidr list \<Rightarrow> u8 list option" where
  "first_ipv6 [] = None"
| "first_ipv6 (Ipv6 a p # as) = Some a"
| "first_ipv6 (Ipv4 a p # as) = first_ipv6 as"

definition smoltcp_iface_get_ipv6 :: "'c smoltcp \<Rightarrow> 'c iface_ctx option \<Rightarrow> u8 list option" where
  "smoltcp_iface_get_ipv6 S h =
     (case h of None \<Rightarrow> None | Some ctx \<Rightarrow> first_ipv6 (sm_ip_addrs S (ctx_stack ctx)))"

definition smoltcp_iface_get_gw :: "'c iface_ctx option \<Rightarrow> u32" where
  "smoltcp_iface_get_gw h = (case h of None \<Rightarrow> 0 | Some ctx \<Rightarrow> ctx_gateway_be ctx)"

definition smoltcp_iface_get_netmask :: "'c iface_ctx option \<Rightarrow> u32" where
  "smoltcp_iface_get_netmask h = (case h of None \<Rightarrow> 0 | Some ctx \<Rightarrow> ctx_netmask_be ctx)"

text \<open>\<open>Ipv4Cidr::new\<close> asserts that the prefix length is at most 32: beyond that, a panic (\<open>None\<close>).\<close>

definition smoltcp_iface_set_static ::
  "'c smoltcp \<Rightarrow> 'c iface_ctx option \<Rightarrow> u32 \<Rightarrow> u32 \<Rightarrow> u32 \<Rightarrow> 'c iface_ctx option option" where
  "smoltcp_iface_set_static S h ipv4_be prefix_len gw_be =
     (case h of None \<Rightarrow> Some None
      | Some ctx \<Rightarrow>
          if 32 < (ucast prefix_len :: u8) then None
          else
            (let keep = filter (\<lambda>a. \<not> is_v4 a) (sm_ip_addrs S (ctx_stack ctx));
                 addr = Ipv4 (ipv4_from_be ipv4_be) (ucast prefix_len);
                 c = sm_set_ip_addrs S (push_addr (sm_max_addrs S) addr keep) (ctx_stack ctx);
                 ctx' = ctx\<lparr>ctx_dhcp := None, ctx_stack := c,
                            ctx_netmask_be := to_be (cidr_to_mask (ucast prefix_len)), ctx_has_ip := True\<rparr>
             in Some (Some (if gw_be \<noteq> 0
                  then ctx'\<lparr>ctx_stack := sm_add_route S (ipv4_from_be gw_be) c, ctx_gateway_be := gw_be\<rparr>
                  else ctx'))))"

definition smoltcp_iface_enable_dhcp :: "'c smoltcp \<Rightarrow> 'c iface_ctx option \<Rightarrow> 'c iface_ctx option" where
  "smoltcp_iface_enable_dhcp S h =
     map_option (\<lambda>ctx.
       if ctx_dhcp ctx \<noteq> None then ctx
       else let (dh, c) = sm_add_dhcp S (ctx_stack ctx) in ctx\<lparr>ctx_stack := c, ctx_dhcp := Some dh\<rparr>) h"

definition smoltcp_iface_mcast ::
  "(ipv4_address \<Rightarrow> 'c \<Rightarrow> bool \<times> 'c) \<Rightarrow> 'c iface_ctx option \<Rightarrow> u32 \<Rightarrow> int \<times> 'c iface_ctx option" where
  "smoltcp_iface_mcast change h group_be =
     (case h of None \<Rightarrow> (-1, None)
      | Some ctx \<Rightarrow> (let (ok, c) = change (ipv4_from_be group_be) (ctx_stack ctx)
                     in (if ok then 0 else -1, Some (ctx\<lparr>ctx_stack := c\<rparr>))))"

definition smoltcp_iface_mcast_join ::
  "'c smoltcp \<Rightarrow> 'c iface_ctx option \<Rightarrow> u32 \<Rightarrow> int \<times> 'c iface_ctx option" where
  "smoltcp_iface_mcast_join S = smoltcp_iface_mcast (sm_join S)"

definition smoltcp_iface_mcast_leave ::
  "'c smoltcp \<Rightarrow> 'c iface_ctx option \<Rightarrow> u32 \<Rightarrow> int \<times> 'c iface_ctx option" where
  "smoltcp_iface_mcast_leave S = smoltcp_iface_mcast (sm_leave S)"

section \<open>The C-callable surface: sockets\<close>

text \<open>
  The prologue every socket call shares: a null context or an unknown id is the call's error
  value, otherwise the operation runs on the smoltcp socket the id stands for, which has to be
  of the type \<open>t\<close>.
\<close>

definition with_socket ::
  "'c smoltcp \<Rightarrow> sock_type \<Rightarrow> 'c iface_ctx option \<Rightarrow> u32 \<Rightarrow> 'r \<Rightarrow> (nat \<Rightarrow> 'c \<Rightarrow> 'r \<times> 'c) \<Rightarrow> 'r \<times> 'c iface_ctx option" where
  "with_socket S t h i err f =
     (case h of None \<Rightarrow> (err, None)
      | Some ctx \<Rightarrow> (case ctx_lookup i ctx of None \<Rightarrow> (err, Some ctx)
          | Some sh \<Rightarrow> (let (r, c) = f sh (ctx_stack ctx) in (r, Some ((get_mut S t sh ctx)\<lparr>ctx_stack := c\<rparr>)))))"

definition smoltcp_tcp_open :: "'c smoltcp \<Rightarrow> 'c iface_ctx option \<Rightarrow> u32 \<times> 'c iface_ctx option" where
  "smoltcp_tcp_open S h =
     (case h of None \<Rightarrow> (0, None)
      | Some ctx \<Rightarrow> (let (sh, c) = sm_add_tcp S (ctx_stack ctx);
                         (i, ctx') = alloc_id sh (ctx\<lparr>ctx_stack := c\<rparr>)
                     in (i, Some ctx')))"

definition smoltcp_tcp_connect ::
  "'c smoltcp \<Rightarrow> u32 \<Rightarrow> 'c iface_ctx option \<Rightarrow> u32 \<Rightarrow> u32 \<Rightarrow> u16 \<Rightarrow> u16 \<Rightarrow> int \<times> 'c iface_ctx option" where
  "smoltcp_tcp_connect S rand h i dst_be dst_port local_port =
     with_socket S Tcp h i (-1) (\<lambda>sh c.
       let local = (if local_port = 0 then 49152 + ucast (rand AND 0x3FFF) else local_port);
           (ok, c') = sm_tcp_connect S sh (ipv4_from_be dst_be) dst_port local c
       in (if ok then 0 else -1, c'))"

definition smoltcp_tcp_listen ::
  "'c smoltcp \<Rightarrow> 'c iface_ctx option \<Rightarrow> u32 \<Rightarrow> u16 \<Rightarrow> int \<times> 'c iface_ctx option" where
  "smoltcp_tcp_listen S h i port =
     with_socket S Tcp h i (-1) (\<lambda>sh c. let (ok, c') = sm_tcp_listen S sh port c in (if ok then 0 else -1, c'))"

definition smoltcp_tcp_send ::
  "'c smoltcp \<Rightarrow> 'c iface_ctx option \<Rightarrow> u32 \<Rightarrow> u8 list option \<Rightarrow> int \<times> 'c iface_ctx option" where
  "smoltcp_tcp_send S h i buf =
     (case buf of None \<Rightarrow> (-1, h)
      | Some bs \<Rightarrow> with_socket S Tcp h i (-1) (\<lambda>sh c.
          case sm_tcp_send S sh bs c of (Some n, c') \<Rightarrow> (int n, c') | (None, c') \<Rightarrow> (-1, c')))"

text \<open>The receive calls take the size of the caller's buffer, \<open>None\<close> for a null pointer. The received
  bytes are returned beside the count; they are what the call stores in \<open>buf\<close>.\<close>

definition smoltcp_tcp_recv ::
  "'c smoltcp \<Rightarrow> 'c iface_ctx option \<Rightarrow> u32 \<Rightarrow> nat option \<Rightarrow> (int \<times> u8 list) \<times> 'c iface_ctx option" where
  "smoltcp_tcp_recv S h i buf =
     (case buf of None \<Rightarrow> ((-1, []), h)
      | Some cap \<Rightarrow> with_socket S Tcp h i (-1, []) (\<lambda>sh c.
          case sm_tcp_recv S sh cap c of
            (Some bs, c') \<Rightarrow> ((int (length bs), bs), c') | (None, c') \<Rightarrow> ((-1, []), c')))"

definition smoltcp_tcp_is_active :: "'c smoltcp \<Rightarrow> 'c iface_ctx option \<Rightarrow> u32 \<Rightarrow> bool \<times> 'c iface_ctx option" where
  "smoltcp_tcp_is_active S h i = with_socket S Tcp h i False (\<lambda>sh c. (sm_tcp_is_active S sh c, c))"

definition smoltcp_tcp_is_connected :: "'c smoltcp \<Rightarrow> 'c iface_ctx option \<Rightarrow> u32 \<Rightarrow> bool \<times> 'c iface_ctx option" where
  "smoltcp_tcp_is_connected S h i =
     with_socket S Tcp h i False (\<lambda>sh c. (sm_tcp_may_recv S sh c \<or> sm_tcp_may_send S sh c, c))"

definition smoltcp_tcp_recv_queue :: "'c smoltcp \<Rightarrow> 'c iface_ctx option \<Rightarrow> u32 \<Rightarrow> nat \<times> 'c iface_ctx option" where
  "smoltcp_tcp_recv_queue S h i = with_socket S Tcp h i 0 (\<lambda>sh c. (sm_tcp_recv_queue S sh c, c))"

definition smoltcp_tcp_send_capacity :: "'c smoltcp \<Rightarrow> 'c iface_ctx option \<Rightarrow> u32 \<Rightarrow> nat \<times> 'c iface_ctx option" where
  "smoltcp_tcp_send_capacity S h i =
     with_socket S Tcp h i 0 (\<lambda>sh c.
       (if sm_tcp_can_send S sh c then sm_tcp_send_capacity S sh c - sm_tcp_send_queue S sh c else 0, c))"

definition socket_close ::
  "'c smoltcp \<Rightarrow> sock_type \<Rightarrow> (nat \<Rightarrow> 'c \<Rightarrow> 'c) \<Rightarrow> 'c iface_ctx option \<Rightarrow> u32 \<Rightarrow> 'c iface_ctx option" where
  "socket_close S t close h i =
     (case h of None \<Rightarrow> None
      | Some ctx \<Rightarrow> (case ctx_lookup i ctx of None \<Rightarrow> Some ctx
          | Some sh \<Rightarrow> Some ((get_mut S t sh ctx)\<lparr>ctx_stack := sm_remove S sh (close sh (ctx_stack ctx)),
                                 ctx_handles := AList.delete i (ctx_handles ctx)\<rparr>)))"

definition smoltcp_tcp_close :: "'c smoltcp \<Rightarrow> 'c iface_ctx option \<Rightarrow> u32 \<Rightarrow> 'c iface_ctx option" where
  "smoltcp_tcp_close S = socket_close S Tcp (sm_tcp_close S)"

definition smoltcp_udp_close :: "'c smoltcp \<Rightarrow> 'c iface_ctx option \<Rightarrow> u32 \<Rightarrow> 'c iface_ctx option" where
  "smoltcp_udp_close S = socket_close S Udp (sm_udp_close S)"

definition smoltcp_udp_open ::
  "'c smoltcp \<Rightarrow> 'c iface_ctx option \<Rightarrow> u16 \<Rightarrow> u32 \<times> 'c iface_ctx option" where
  "smoltcp_udp_open S h local_port =
     (case h of None \<Rightarrow> (0, None)
      | Some ctx \<Rightarrow>
          if local_port \<noteq> 0 \<and> \<not> sm_udp_bind_ok S local_port then (0, Some ctx)
          else (let (sh, c) = sm_add_udp S local_port (ctx_stack ctx);
                    (i, ctx') = alloc_id sh (ctx\<lparr>ctx_stack := c\<rparr>)
                in (i, Some ctx')))"

definition smoltcp_udp_sendto ::
  "'c smoltcp \<Rightarrow> 'c iface_ctx option \<Rightarrow> u32 \<Rightarrow> u8 list option \<Rightarrow> u32 \<Rightarrow> u16 \<Rightarrow> int \<times> 'c iface_ctx option" where
  "smoltcp_udp_sendto S h i buf dst_be dst_port =
     (case buf of None \<Rightarrow> (-1, h)
      | Some bs \<Rightarrow> with_socket S Udp h i (-1) (\<lambda>sh c.
          let (ok, c') = sm_udp_send S sh bs (ipv4_from_be dst_be) dst_port c
          in (if ok then int (length bs) else -1, c')))"

record udp_datagram =
  dg_data :: "u8 list"
  dg_src_be :: "u32 option"
  dg_src_port :: u16

definition smoltcp_udp_recvfrom ::
  "'c smoltcp \<Rightarrow> 'c iface_ctx option \<Rightarrow> u32 \<Rightarrow> nat option \<Rightarrow> (int \<times> udp_datagram option) \<times> 'c iface_ctx option" where
  "smoltcp_udp_recvfrom S h i buf =
     (case buf of None \<Rightarrow> ((-1, None), h)
      | Some cap \<Rightarrow> with_socket S Udp h i (-1, None) (\<lambda>sh c.
          case sm_udp_recv S sh cap c of
            (Some (bs, src, port), c') \<Rightarrow>
              ((int (length bs),
                Some \<lparr>dg_data = bs, dg_src_be = map_option ipv4_to_be src, dg_src_port = port\<rparr>), c')
          | (None, c') \<Rightarrow> ((-1, None), c')))"

section \<open>Field equations\<close>

lemma get_mut_simps [simp]:
  "ctx_iface_id (get_mut S t sh ctx) = ctx_iface_id ctx" "ctx_dev (get_mut S t sh ctx) = ctx_dev ctx"
  "ctx_stack (get_mut S t sh ctx) = ctx_stack ctx" "ctx_dhcp (get_mut S t sh ctx) = ctx_dhcp ctx"
  "ctx_has_ip (get_mut S t sh ctx) = ctx_has_ip ctx" "ctx_netmask_be (get_mut S t sh ctx) = ctx_netmask_be ctx"
  "ctx_gateway_be (get_mut S t sh ctx) = ctx_gateway_be ctx" "ctx_handles (get_mut S t sh ctx) = ctx_handles ctx"
  "ctx_next_id (get_mut S t sh ctx) = ctx_next_id ctx" "ctx_opened (get_mut S t sh ctx) = ctx_opened ctx"
  by (simp_all add: get_mut_def)

lemma get_mut_typed: "sm_kind S sh (ctx_stack ctx) = Some t \<Longrightarrow> get_mut S t sh ctx = ctx"
  by (simp add: get_mut_def)

section \<open>The transmit pool never leaks\<close>

lemma trailing_zeros_bit:
  assumes "m \<noteq> 0"
  shows "bit m (trailing_zeros m)"
proof -
  from assms obtain i where "bit m i" by (auto simp: bit_eq_iff)
  then have "i < 32" using bit_imp_le_length [of m i] by simp
  with \<open>bit m i\<close> obtain j where j: "first_idx (bit m) [0..<32] = Some j"
    by (cases "first_idx (bit m) [0..<32]") auto
  then show ?thesis
    using first_idx_holds [OF j] first_idx_lt [OF j] by (simp add: trailing_zeros_def)
qed

lemma bit_tx_clear: "bit (m AND NOT (2 ^ i) :: u32) j \<longleftrightarrow> bit m j \<and> j \<noteq> i"
  by (auto simp: bit_and_iff bit_not_iff bit_exp_iff dest: bit_imp_le_length)

lemma bit_tx_set: "i < 32 \<Longrightarrow> bit (m OR 2 ^ i :: u32) j \<longleftrightarrow> bit m j \<or> j = i"
  by (auto simp: bit_or_iff bit_exp_iff)

interpretation txp: slab tx_pool_alloc tx_pool_free "\<lambda>m. {i. bit m i}"
  "\<lambda>m. {i. bit m i} \<subseteq> {..<TX_POOL_N}" "{..<TX_POOL_N}"
proof
  fix m m' :: u32 and i :: nat
  show "finite {..<TX_POOL_N}" by simp
  show "{i. bit m i} \<subseteq> {..<TX_POOL_N} \<Longrightarrow> {i. bit m i} \<subseteq> {..<TX_POOL_N}" .
  show "i \<in> {i. bit m i} \<and> {i. bit m' i} = {i. bit m i} - {i} \<and> {i. bit m' i} \<subseteq> {..<TX_POOL_N}"
    if "{i. bit m i} \<subseteq> {..<TX_POOL_N}" and "tx_pool_alloc m = Some (i, m')"
    using that trailing_zeros_bit [of m]
    by (auto simp: tx_pool_alloc_def Let_def bit_tx_clear split: if_splits)
  show "tx_pool_alloc m = None \<longleftrightarrow> {i. bit m i} = {}"
    using trailing_zeros_bit [of m] by (auto simp: tx_pool_alloc_def Let_def)
  show "{j. bit (tx_pool_free i m) j} = insert i {i. bit m i} \<and> {j. bit (tx_pool_free i m) j} \<subseteq> {..<TX_POOL_N}"
    if "{i. bit m i} \<subseteq> {..<TX_POOL_N}" and "i \<in> {..<TX_POOL_N}"
    using that by (auto simp: tx_pool_free_def TX_POOL_N_def bit_tx_set)
qed

lemma tx_pool_alloc_free: "tx_pool_alloc m = Some (i, m') \<Longrightarrow> tx_pool_free i m' = m"
proof -
  assume a: "tx_pool_alloc m = Some (i, m')"
  then have nz: "m \<noteq> 0" and i: "i = trailing_zeros m" and m': "m' = m AND NOT (push_bit i 1)"
    by (auto simp: tx_pool_alloc_def Let_def split: if_splits)
  have b: "bit m i" using trailing_zeros_bit [OF nz] i by simp
  then have lt: "i < 32" using bit_imp_le_length [of m i] by simp
  show ?thesis
    by (rule bit_eqI) (use b lt in \<open>auto simp: tx_pool_free_def m' bit_tx_set bit_tx_clear\<close>)
qed

lemma tx_token_end_mask:
  "tx_token_end cb iid i p m w = Some (m', w') \<Longrightarrow> m' = tx_pool_free i m"
  by (auto simp: tx_token_end_def split: option.splits if_splits)

lemma device_receive_mask:
  "device_receive d m = (Some (f, i), d', m') \<Longrightarrow> tx_pool_free i m' = m"
  "device_receive d m = (None, d', m') \<Longrightarrow> m' = m"
  by (auto simp: device_receive_def Let_def tx_pool_alloc_free split: option.splits prod.splits)

lemma device_transmit_mask: "device_transmit d m = Some (i, m') \<Longrightarrow> tx_pool_free i m' = m"
  by (auto simp: device_transmit_def tx_pool_alloc_free split: if_splits)

lemma run_device_mask: "run_device cb p d m w = Some (c, d', m', w') \<Longrightarrow> m' = m"
proof (induction p arbitrary: d m w)
  case (Finish c)
  then show ?case by simp
next
  case (Receive reply nxt)
  note IH = Receive.IH [OF rangeI]
  from Receive.prems show ?case
    by (auto split: option.splits prod.splits dest!: tx_token_end_mask device_receive_mask IH)
next
  case (Transmit payload nxt)
  note IH = Transmit.IH [OF rangeI]
  from Transmit.prems show ?case
    by (auto split: option.splits prod.splits dest!: tx_token_end_mask device_transmit_mask IH)
qed

lemma tx_token_end_fits:
  "(\<And>r. p = Some r \<Longrightarrow> length r \<le> max_transmission_unit device_capabilities) \<Longrightarrow> \<exists>m' w'. tx_token_end cb iid i p m w = Some (m', w')"
  by (cases p) (auto simp: tx_token_end_def device_capabilities_def MTU_def TX_FRAME_def)

lemma run_device_returns: "frames_fit p \<Longrightarrow> \<exists>c d' w'. run_device cb p d m w = Some (c, d', m, w')"
proof (induction p arbitrary: d m w)
  case (Finish c)
  then show ?case by simp
next
  case (Receive reply nxt)
  note IH = Receive.IH [OF rangeI]
  show ?case
  proof (cases "device_receive d m")
    case (fields r d' m')
    show ?thesis
    proof (cases r)
      case None
      with fields IH [of None d' m w] Receive.prems device_receive_mask(2) [of d m d' m']
      show ?thesis by auto
    next
      case (Some fi)
      obtain f i where fi: "fi = (f, i)" by force
      obtain m2 w2 where t: "tx_token_end cb (dev_iface_id d) i (reply f) m' w = Some (m2, w2)"
        using tx_token_end_fits [of "reply f"] Receive.prems by fastforce
      have "m2 = m"
        using tx_token_end_mask [OF t] device_receive_mask(1) fields Some fi by fastforce
      with fields Some fi t IH [of "Some f" d' m w2] Receive.prems show ?thesis by auto
    qed
  qed
next
  case (Transmit payload nxt)
  note IH = Transmit.IH [OF rangeI]
  show ?case
  proof (cases "device_transmit d m")
    case None
    with IH [of False d m w] Transmit.prems show ?thesis by auto
  next
    case (Some im)
    obtain i m' where im: "im = (i, m')" by force
    obtain m2 w2 where t: "tx_token_end cb (dev_iface_id d) i payload m' w = Some (m2, w2)"
      using tx_token_end_fits [of payload] Transmit.prems by fastforce
    have "m2 = m"
      using tx_token_end_mask [OF t] device_transmit_mask Some im by fastforce
    with Some im t IH [of True d m w2] Transmit.prems show ?thesis by auto
  qed
qed

text \<open>What the transmit callback keeps, a whole poll keeps.\<close>

lemma tx_token_end_inv:
  assumes "tx_token_end cb iid i p m w = Some (m', w')" and "Q w"
    and "\<And>iid f w. Q w \<Longrightarrow> Q (snd (cb iid f w))"
  shows "Q w'"
  using assms by (auto simp: tx_token_end_def split: option.splits if_splits)

lemma run_device_inv:
  assumes cb: "\<And>iid f w. Q w \<Longrightarrow> Q (snd (cb iid f w))"
  shows "run_device cb p d m w = Some (c, d', m', w') \<Longrightarrow> Q w \<Longrightarrow> Q w'"
proof (induction p arbitrary: d m w)
  case (Finish c)
  then show ?case by simp
next
  case (Receive reply nxt)
  note IH = Receive.IH [OF rangeI]
  from Receive.prems show ?case
    by (auto split: option.splits prod.splits intro: IH tx_token_end_inv [where Q = Q, OF _ _ cb])
next
  case (Transmit payload nxt)
  note IH = Transmit.IH [OF rangeI]
  from Transmit.prems show ?case
    by (auto split: option.splits prod.splits intro: IH tx_token_end_inv [where Q = Q, OF _ _ cb])
qed

section \<open>The table of socket ids\<close>

definition handles_ok :: "'c iface_ctx \<Rightarrow> bool" where
  "handles_ok ctx \<longleftrightarrow> distinct (map fst (ctx_handles ctx)) \<and> 0 < ctx_next_id ctx
     \<and> (\<forall>i \<in> fst ` set (ctx_handles ctx). 0 < i \<and> i < ctx_next_id ctx)"

lemma ctx_lookup_alloc_id:
  "ctx_lookup i (snd (alloc_id sh ctx)) = (if i = ctx_next_id ctx then Some sh else ctx_lookup i ctx)"
  by (simp add: alloc_id_def ctx_lookup_def update_conv')

lemma handles_ok_dom: "handles_ok ctx \<Longrightarrow> ctx_lookup i ctx = Some sh \<Longrightarrow> 0 < i \<and> i < ctx_next_id ctx"
  by (force simp: handles_ok_def ctx_lookup_def dest: map_of_SomeD)

lemma handles_ok_unused [simp]: "handles_ok ctx \<Longrightarrow> ctx_lookup 0 ctx = None"
  by (cases "ctx_lookup 0 ctx") (auto dest: handles_ok_dom)

lemma next_id_step:
  assumes "unat (ctx_next_id ctx) + 1 < 2 ^ 32"
  shows "unat (max (ctx_next_id ctx + 1) 1) = unat (ctx_next_id ctx) + 1"
  using assms by (simp add: max_def word_le_nat_alt unat_word_ariths)

lemma alloc_id_handles_ok:
  assumes ok: "handles_ok ctx" and room: "unat (ctx_next_id ctx) + 1 < 2 ^ 32"
  shows "handles_ok (snd (alloc_id sh ctx))"
proof -
  have "ctx_next_id ctx < max (ctx_next_id ctx + 1) 1"
    by (simp add: word_less_nat_alt next_id_step [OF room])
  with ok show ?thesis
    by (auto simp: handles_ok_def alloc_id_def distinct_update dom_update
        intro: order.strict_trans)
qed

lemma alloc_id_count:
  assumes "handles_ok ctx"
  shows "length (ctx_handles (snd (alloc_id sh ctx))) = Suc (length (ctx_handles ctx))"
proof -
  have "ctx_next_id ctx \<notin> set (map fst (ctx_handles ctx))"
    using assms by (auto simp: handles_ok_def)
  then have "map fst (AList.update (ctx_next_id ctx) sh (ctx_handles ctx))
      = map fst (ctx_handles ctx) @ [ctx_next_id ctx]"
    by (simp only: update_keys if_False)
  from arg_cong [OF this, of length] show ?thesis by (simp add: alloc_id_def)
qed

lemma delete_count:
  assumes "distinct (map fst al)" and "map_of al k \<noteq> None"
  shows "length (AList.delete k al) = length al - 1"
proof -
  have "k \<in> set (map fst al)"
    using assms(2) by (auto simp: map_of_eq_None_iff)
  then have "length (removeAll k (map fst al)) = length (map fst al) - 1"
    using assms(1) by (simp only: distinct_remove1_removeAll [symmetric] length_remove1 if_True)
  then show ?thesis by (metis delete_keys length_map)
qed

lemma socket_close_lookup:
  "socket_close S t cl (Some ctx) i = Some ctx' \<Longrightarrow>
     ctx_lookup j ctx' = (if j = i then None else ctx_lookup j ctx)"
  by (auto simp: socket_close_def ctx_lookup_def delete_conv' split: option.splits)

lemma socket_close_handles_ok:
  assumes "handles_ok ctx" and "socket_close S t cl (Some ctx) i = Some ctx'"
  shows "handles_ok ctx'"
  using assms distinct_delete [of "ctx_handles ctx" i]
  by (fastforce simp: socket_close_def handles_ok_def AList.delete_eq split: option.splits)

lemma socket_close_next [simp]:
  "socket_close S t cl (Some ctx) i = Some ctx' \<Longrightarrow> ctx_next_id ctx' = ctx_next_id ctx"
  by (auto simp: socket_close_def split: option.splits)

text \<open>Every other call keeps the table as it is.\<close>

definition same_ids :: "'c iface_ctx option \<Rightarrow> 'c iface_ctx option \<Rightarrow> bool" where
  "same_ids h h' \<longleftrightarrow> (case (h, h') of
      (None, None) \<Rightarrow> True
    | (Some c, Some c') \<Rightarrow> ctx_handles c' = ctx_handles c \<and> ctx_next_id c' = ctx_next_id c
    | _ \<Rightarrow> False)"

lemma same_ids_refl [simp, intro]: "same_ids h h"
  by (cases h) (simp_all add: same_ids_def)

lemma same_ids_trans: "same_ids h h' \<Longrightarrow> same_ids h' h'' \<Longrightarrow> same_ids h h''"
  by (auto simp: same_ids_def split: option.splits)

lemma with_socket_same_ids: "same_ids h (snd (with_socket S t h i err f))"
  by (auto simp: with_socket_def same_ids_def split: option.splits prod.splits)

lemma socket_calls_same_ids [frame_simps]:
  "same_ids h (snd (smoltcp_tcp_connect S r h i d p l))"
  "same_ids h (snd (smoltcp_tcp_listen S h i p))"
  "same_ids h (snd (smoltcp_tcp_send S h i buf))"
  "same_ids h (snd (smoltcp_tcp_recv S h i bf))"
  "same_ids h (snd (smoltcp_udp_sendto S h i buf d p))"
  "same_ids h (snd (smoltcp_udp_recvfrom S h i bf))"
  by (simp_all add: smoltcp_tcp_connect_def smoltcp_tcp_listen_def smoltcp_tcp_send_def
      smoltcp_tcp_recv_def smoltcp_udp_sendto_def smoltcp_udp_recvfrom_def with_socket_same_ids
      split: option.split)

lemma mcast_same_ids [frame_simps]: "same_ids h (snd (smoltcp_iface_mcast ch h g))"
  by (auto simp: smoltcp_iface_mcast_def same_ids_def split: option.splits prod.splits)

lemma dhcp_step_ids [simp]:
  "ctx_handles (dhcp_step S ctx) = ctx_handles ctx" "ctx_next_id (dhcp_step S ctx) = ctx_next_id ctx"
  by (auto simp: dhcp_step_def Let_def split: option.splits prod.splits dhcp_event.splits)

lemma iface_calls_same_ids [frame_simps]:
  "same_ids h (smoltcp_iface_rx h f)"
  "same_ids h (smoltcp_iface_set_link_up h up)"
  "smoltcp_iface_set_static S h ip n gw = Some h' \<Longrightarrow> same_ids h h'"
  "same_ids h (smoltcp_iface_enable_dhcp S h)"
  "smoltcp_iface_poll S cb now h m w = Some (h', m', w') \<Longrightarrow> same_ids h h'"
  by (auto simp: smoltcp_iface_rx_def smoltcp_iface_set_link_up_def smoltcp_iface_set_static_def
      smoltcp_iface_enable_dhcp_def smoltcp_iface_poll_def ctx_poll_def same_ids_def Let_def
      split: option.splits prod.splits if_splits)

end
