(* ===== verification/Ref_Stack.thy ===== *)
theory Ref_Stack
  imports Glue_Core
begin

text \<open>
  A concrete instance of the smoltcp operations, used to show that the hypotheses the theorems
  put on the crate can hold: an address list, a table of sockets with byte buffers, and a poll
  that takes the pending frame and then asks for one transmit token it drops. The locale
  \<open>smoltcp_addrs\<close> collects what the crate documents of its address list.
\<close>

record ref_sock =
  rk_type :: sock_type
  rk_port :: u16
  rk_conn :: bool
  rk_rx :: "u8 list"
  rk_tx :: "u8 list"
  rk_dgrams :: "(u8 list \<times> ipv4_address \<times> u16) list"

record ref_stack =
  rs_addrs :: "ip_cidr list"
  rs_route :: "ipv4_address option"
  rs_socks :: "(nat \<times> ref_sock) list"
  rs_next :: nat

definition fresh_sock :: ref_sock where
  "fresh_sock = \<lparr>rk_type = Tcp, rk_port = 0, rk_conn = False, rk_rx = [], rk_tx = [], rk_dgrams = []\<rparr>"

definition rs_sock :: "nat \<Rightarrow> ref_stack \<Rightarrow> ref_sock" where
  "rs_sock sh c = (case map_of (rs_socks c) sh of Some k \<Rightarrow> k | None \<Rightarrow> fresh_sock)"

definition rs_put :: "nat \<Rightarrow> ref_sock \<Rightarrow> ref_stack \<Rightarrow> ref_stack" where
  "rs_put sh k c = c\<lparr>rs_socks := AList.update sh k (rs_socks c)\<rparr>"

text \<open>A handle no socket of the set has.\<close>

definition rs_fresh :: "ref_stack \<Rightarrow> nat" where
  "rs_fresh c = foldr (\<lambda>x m. max (Suc (fst x)) m) (rs_socks c) (rs_next c)"

definition rs_add :: "ref_sock \<Rightarrow> ref_stack \<Rightarrow> nat \<times> ref_stack" where
  "rs_add k c = (rs_fresh c, c\<lparr>rs_socks := (rs_fresh c, k) # rs_socks c, rs_next := rs_fresh c + 1\<rparr>)"

fun first_v4 :: "ip_cidr list \<Rightarrow> ipv4_address option" where
  "first_v4 [] = None"
| "first_v4 (Ipv4 a p # as) = Some a"
| "first_v4 (Ipv6 a p # as) = first_v4 as"

definition rs_send :: "nat \<Rightarrow> u8 list \<Rightarrow> ref_stack \<Rightarrow> nat option \<times> ref_stack" where
  "rs_send sh bs c =
     (let k = rs_sock sh c; n = min (length bs) (8 - length (rk_tx k)) in
      if rk_conn k then (Some n, rs_put sh (k\<lparr>rk_tx := rk_tx k @ take n bs\<rparr>) c) else (None, c))"

definition rs_recv :: "nat \<Rightarrow> nat \<Rightarrow> ref_stack \<Rightarrow> u8 list option \<times> ref_stack" where
  "rs_recv sh cap c =
     (let k = rs_sock sh c in
      if rk_conn k then (Some (take cap (rk_rx k)), rs_put sh (k\<lparr>rk_rx := drop cap (rk_rx k)\<rparr>) c)
      else (None, c))"

definition rs_udp_recv ::
  "nat \<Rightarrow> nat \<Rightarrow> ref_stack \<Rightarrow> (u8 list \<times> ipv4_address option \<times> u16) option \<times> ref_stack" where
  "rs_udp_recv sh cap c =
     (let k = rs_sock sh c in
      case rk_dgrams k of [] \<Rightarrow> (None, c)
      | (bs, a, p) # ds \<Rightarrow>
          (if length bs \<le> cap then Some (bs, Some a, p) else None, rs_put sh (k\<lparr>rk_dgrams := ds\<rparr>) c))"

definition ref_smoltcp :: "ref_stack smoltcp" where
  "ref_smoltcp = \<lparr>
     sm_new = (\<lambda>mac t. \<lparr>rs_addrs = [], rs_route = None, rs_socks = [], rs_next = 0\<rparr>),
     sm_poll = (\<lambda>t c. Receive (\<lambda>f. None) (\<lambda>r. Transmit None (\<lambda>b. Finish c))),
     sm_poll_delay = (\<lambda>t c. None),
     sm_ipv4_addr = (\<lambda>c. first_v4 (rs_addrs c)),
     sm_ip_addrs = rs_addrs,
     sm_set_ip_addrs = (\<lambda>as c. c\<lparr>rs_addrs := as\<rparr>),
     sm_max_addrs = 2,
     sm_add_route = (\<lambda>gw c. c\<lparr>rs_route := Some gw\<rparr>),
     sm_remove_route = (\<lambda>c. c\<lparr>rs_route := None\<rparr>),
     sm_dhcp_poll = (\<lambda>dh c. (None, c)),
     sm_join = (\<lambda>g c. (True, c)),
     sm_leave = (\<lambda>g c. (True, c)),
     sm_add_tcp = rs_add fresh_sock,
     sm_udp_bind_ok = (\<lambda>p. p \<noteq> 0),
     sm_add_udp = (\<lambda>p. rs_add (fresh_sock\<lparr>rk_type := Udp, rk_port := p\<rparr>)),
     sm_add_dhcp = rs_add (fresh_sock\<lparr>rk_type := Dhcpv4\<rparr>),
     sm_remove = (\<lambda>sh c. c\<lparr>rs_socks := AList.delete sh (rs_socks c)\<rparr>),
     sm_tcp_connect = (\<lambda>sh a p l c. (True, rs_put sh ((rs_sock sh c)\<lparr>rk_conn := True\<rparr>) c)),
     sm_tcp_listen = (\<lambda>sh p c. (p \<noteq> 0, rs_put sh ((rs_sock sh c)\<lparr>rk_port := p\<rparr>) c)),
     sm_tcp_send = rs_send,
     sm_tcp_recv = rs_recv,
     sm_tcp_is_active = (\<lambda>sh c. rk_conn (rs_sock sh c)),
     sm_tcp_may_recv = (\<lambda>sh c. rk_conn (rs_sock sh c)),
     sm_tcp_may_send = (\<lambda>sh c. rk_conn (rs_sock sh c)),
     sm_tcp_can_send = (\<lambda>sh c. rk_conn (rs_sock sh c) \<and> length (rk_tx (rs_sock sh c)) < 8),
     sm_tcp_recv_queue = (\<lambda>sh c. length (rk_rx (rs_sock sh c))),
     sm_tcp_send_capacity = (\<lambda>sh c. 8),
     sm_tcp_send_queue = (\<lambda>sh c. length (rk_tx (rs_sock sh c))),
     sm_tcp_close = (\<lambda>sh c. rs_put sh ((rs_sock sh c)\<lparr>rk_conn := False\<rparr>) c),
     sm_udp_send = (\<lambda>sh bs a p c. (length bs \<le> 64 \<and> rk_port (rs_sock sh c) \<noteq> 0, c)),
     sm_udp_recv = rs_udp_recv,
     sm_udp_close = (\<lambda>sh c. c),
     sm_kind = (\<lambda>sh c. map_option rk_type (map_of (rs_socks c) sh))\<rparr>"

section \<open>What the crate documents of its address list\<close>

locale smoltcp_addrs =
  fixes S :: "'c smoltcp"
  assumes get_set: "sm_ip_addrs S (sm_set_ip_addrs S as c) = as"
    and first: "sm_ipv4_addr S c = first_v4 (sm_ip_addrs S c)"
    and route_keeps: "sm_ip_addrs S (sm_add_route S gw c) = sm_ip_addrs S c"
    and unroute_keeps: "sm_ip_addrs S (sm_remove_route S c) = sm_ip_addrs S c"
begin

lemma first_v4_append: "first_v4 (filter (\<lambda>a. \<not> is_v4 a) as @ [Ipv4 a p]) = Some a"
  by (induction as) (simp_all add: is_v4_def split: ip_cidr.split)

lemma first_v4_filter: "first_v4 (filter (\<lambda>a. \<not> is_v4 a) as) = None"
  by (induction as) (simp_all add: is_v4_def split: ip_cidr.split)

lemma first_ipv6_filter: "first_ipv6 (filter (\<lambda>a. \<not> is_v4 a) as @ [Ipv4 a p]) = first_ipv6 as"
  "first_ipv6 (filter (\<lambda>a. \<not> is_v4 a) as) = first_ipv6 as"
  by (induction as) (simp_all add: is_v4_def split: ip_cidr.split)

lemma set_static_get:
  assumes "length (filter (\<lambda>a. \<not> is_v4 a) (sm_ip_addrs S (ctx_stack ctx))) < sm_max_addrs S"
    and "smoltcp_iface_set_static S (Some ctx) ip n gw = Some h"
  shows "smoltcp_iface_get_ipv4 S h = ip"
    and "smoltcp_iface_get_ipv6 S h = smoltcp_iface_get_ipv6 S (Some ctx)"
    and "smoltcp_iface_has_ip h"
    and "smoltcp_iface_get_netmask h = to_be (cidr_to_mask (ucast n))"
  using assms
  by (auto simp: smoltcp_iface_get_ipv4_def smoltcp_iface_set_static_def Let_def first get_set
      route_keeps push_addr_def first_v4_append smoltcp_iface_get_ipv6_def first_ipv6_filter
      smoltcp_iface_has_ip_def smoltcp_iface_get_netmask_def split: if_splits)

lemma dhcp_lease:
  assumes "ctx_dhcp ctx = Some dh"
    and "sm_dhcp_poll S dh (ctx_stack ctx) = (Some (Configured a p r), c)"
    and "length (filter (\<lambda>a. \<not> is_v4 a) (sm_ip_addrs S c)) < sm_max_addrs S"
  shows "smoltcp_iface_get_ipv4 S (Some (dhcp_step S ctx)) = ipv4_to_be a"
    and "smoltcp_iface_has_ip (Some (dhcp_step S ctx))"
    and "smoltcp_iface_get_ipv6 S (Some (dhcp_step S ctx)) = first_ipv6 (sm_ip_addrs S c)"
  using assms
  by (simp_all add: smoltcp_iface_get_ipv4_def dhcp_step_def Let_def first get_set route_keeps
      push_addr_def first_v4_append smoltcp_iface_has_ip_def smoltcp_iface_get_ipv6_def
      first_ipv6_filter split: option.splits)

lemma dhcp_lost:
  assumes "ctx_dhcp ctx = Some dh" and "sm_dhcp_poll S dh (ctx_stack ctx) = (Some Deconfigured, c)"
  shows "smoltcp_iface_get_ipv4 S (Some (dhcp_step S ctx)) = 0"
    and "\<not> smoltcp_iface_has_ip (Some (dhcp_step S ctx))"
    and "smoltcp_iface_get_ipv6 S (Some (dhcp_step S ctx)) = first_ipv6 (sm_ip_addrs S c)"
  using assms
  by (simp_all add: smoltcp_iface_get_ipv4_def dhcp_step_def Let_def first get_set unroute_keeps
      first_v4_filter smoltcp_iface_has_ip_def smoltcp_iface_get_ipv6_def first_ipv6_filter)

end

interpretation ref: smoltcp_addrs ref_smoltcp
  by unfold_locales (simp_all add: ref_smoltcp_def)

section \<open>What the crate documents of UDP sockets\<close>

text \<open>A socket has the local port it was bound to, 0 without a bind, and cannot send without one
  (\<open>SendError::Unaddressable\<close>).\<close>

locale smoltcp_udp =
  fixes S :: "'c smoltcp" and lport :: "nat \<Rightarrow> 'c \<Rightarrow> u16"
  assumes add_port: "sm_add_udp S p c = (sh, c') \<Longrightarrow> lport sh c' = p"
    and send_unbound: "lport sh c = 0 \<Longrightarrow> \<not> fst (sm_udp_send S sh bs a p c)"
begin

lemma open_unbound:
  assumes "smoltcp_udp_open S (Some ctx) 0 = (k, Some ctx')"
  shows "fst (smoltcp_udp_sendto S (Some ctx') k buf dst port) = -1"
proof -
  obtain sh c where add: "sm_add_udp S 0 (ctx_stack ctx) = (sh, c)" by force
  with assms have k: "k = ctx_next_id ctx" and ctx': "ctx' = snd (alloc_id sh (ctx\<lparr>ctx_stack := c\<rparr>))"
    by (auto simp: smoltcp_udp_open_def alloc_id_def)
  have "ctx_lookup k ctx' = Some sh" unfolding k ctx' by (subst ctx_lookup_alloc_id) simp
  moreover have "ctx_stack ctx' = c" unfolding ctx' by (simp add: alloc_id_def)
  ultimately show ?thesis
    using send_unbound [OF add_port [OF add]]
    by (auto simp: smoltcp_udp_sendto_def with_socket_def case_prod_unfold split: option.split)
qed

end

interpretation ref_udp: smoltcp_udp ref_smoltcp "\<lambda>sh c. rk_port (rs_sock sh c)"
  by unfold_locales (auto simp: ref_smoltcp_def rs_add_def rs_sock_def)

end
