(* ===== verification/Glue_Types.thy ===== *)
theory Glue_Types
  imports Ref_Stack
begin

text \<open>
  The types of sockets. An id of the C interface stands for a smoltcp socket of one type, and
  every call of the surface asks \<open>SocketSet::get_mut\<close> for a socket of the type it works on, which
  panics for any other. This theory says which contexts are well typed, what it means that an id
  has a type, and that every call made with ids of the right types keeps the context well typed
  and never changes the type of an id: once closed, an id stays unused. All this holds until
  \<open>2^24\<close> ids have been handed out, the number a handle of the native API can encode.
\<close>

section \<open>What the crate documents of its socket set\<close>

text \<open>Nothing is assumed of an operation on a handle of the wrong type.\<close>

locale smoltcp_sockets =
  fixes S :: "'c smoltcp"
  assumes new_empty: "sm_kind S j (sm_new S mac t) = None"
    and add_tcp: "sm_add_tcp S c = (sh, c') \<Longrightarrow> sm_kind S sh c = None \<and> (\<forall>j. sm_kind S j c' = (if j = sh then Some Tcp else sm_kind S j c))"
    and add_udp: "sm_add_udp S p c = (sh, c') \<Longrightarrow> sm_kind S sh c = None \<and> (\<forall>j. sm_kind S j c' = (if j = sh then Some Udp else sm_kind S j c))"
    and add_dhcp: "sm_add_dhcp S c = (sh, c') \<Longrightarrow> sm_kind S sh c = None \<and> (\<forall>j. sm_kind S j c' = (if j = sh then Some Dhcpv4 else sm_kind S j c))"
    and remove: "sm_kind S j (sm_remove S sh c) = (if j = sh then None else sm_kind S j c)"
    and poll: "c' \<in> set_dev_prog (sm_poll S t c) \<Longrightarrow> sm_kind S j c' = sm_kind S j c"
    and iface: "sm_kind S j (sm_set_ip_addrs S as c) = sm_kind S j c" "sm_kind S j (sm_add_route S gw c) = sm_kind S j c"
      "sm_kind S j (sm_remove_route S c) = sm_kind S j c" "sm_kind S j (snd (sm_join S g c)) = sm_kind S j c"
      "sm_kind S j (snd (sm_leave S g c)) = sm_kind S j c"
    and dhcp: "sm_kind S sh c = Some Dhcpv4 \<Longrightarrow> sm_kind S j (snd (sm_dhcp_poll S sh c)) = sm_kind S j c"
    and tcp: "sm_kind S sh c = Some Tcp \<Longrightarrow> sm_kind S j (snd (sm_tcp_connect S sh a p l c)) = sm_kind S j c"
      "sm_kind S sh c = Some Tcp \<Longrightarrow> sm_kind S j (snd (sm_tcp_listen S sh p c)) = sm_kind S j c"
      "sm_kind S sh c = Some Tcp \<Longrightarrow> sm_kind S j (snd (sm_tcp_send S sh bs c)) = sm_kind S j c"
      "sm_kind S sh c = Some Tcp \<Longrightarrow> sm_kind S j (snd (sm_tcp_recv S sh cap c)) = sm_kind S j c"
      "sm_kind S sh c = Some Tcp \<Longrightarrow> sm_kind S j (sm_tcp_close S sh c) = sm_kind S j c"
    and udp: "sm_kind S sh c = Some Udp \<Longrightarrow> sm_kind S j (snd (sm_udp_send S sh bs a p c)) = sm_kind S j c"
      "sm_kind S sh c = Some Udp \<Longrightarrow> sm_kind S j (snd (sm_udp_recv S sh cap c)) = sm_kind S j c"
      "sm_kind S sh c = Some Udp \<Longrightarrow> sm_kind S j (sm_udp_close S sh c) = sm_kind S j c"

lemma rs_fresh: "map_of (rs_socks c) (rs_fresh c) = None"
proof -
  have "fst x < foldr (\<lambda>x m. max (Suc (fst x)) m) xs k" if "x \<in> set xs" for x :: "nat \<times> ref_sock" and xs k
    using that by (induction xs) auto
  then show ?thesis by (fastforce simp: rs_fresh_def map_of_eq_None_iff)
qed

lemma rs_put_kind: "map_of (rs_socks c) sh = Some k \<Longrightarrow> rk_type k' = rk_type k \<Longrightarrow>
    map_option rk_type (map_of (rs_socks (rs_put sh k' c)) j) = map_option rk_type (map_of (rs_socks c) j)"
  by (simp add: rs_put_def update_conv')

interpretation ref_socks: smoltcp_sockets ref_smoltcp
  by unfold_locales
    (auto simp: ref_smoltcp_def rs_add_def rs_fresh fresh_sock_def delete_conv' rs_sock_def rs_send_def rs_recv_def rs_udp_recv_def
      Let_def intro: rs_put_kind split: option.splits list.splits prod.splits)

section \<open>Well-typed contexts\<close>

definition ctx_kind :: "'c smoltcp \<Rightarrow> 'c iface_ctx \<Rightarrow> nat \<Rightarrow> sock_type option" where
  "ctx_kind S ctx sh = sm_kind S sh (ctx_stack ctx)"

definition few :: "'c iface_ctx \<Rightarrow> bool" where
  "few ctx \<longleftrightarrow> ctx_opened ctx < 2 ^ 24"

text \<open>The table of ids and the socket set agree: every id stands for a TCP or UDP socket of its own,
  and every TCP or UDP socket of the set has an id.\<close>

definition ctx_typed :: "'c smoltcp \<Rightarrow> 'c iface_ctx \<Rightarrow> bool" where
  "ctx_typed S ctx \<longleftrightarrow> handles_ok ctx \<and> unat (ctx_next_id ctx) = ctx_opened ctx + 1
     \<and> distinct (map snd (ctx_handles ctx))
     \<and> (\<forall>sh \<in> snd ` set (ctx_handles ctx). ctx_kind S ctx sh = Some Tcp \<or> ctx_kind S ctx sh = Some Udp)
     \<and> (\<forall>sh. ctx_kind S ctx sh = Some Tcp \<or> ctx_kind S ctx sh = Some Udp \<longrightarrow> sh \<in> snd ` set (ctx_handles ctx))
     \<and> (\<forall>dh. ctx_dhcp ctx = Some dh \<longrightarrow> ctx_kind S ctx dh = Some Dhcpv4) \<and> \<not> ctx_panic ctx"

definition id_typed :: "'c smoltcp \<Rightarrow> sock_type \<Rightarrow> u32 \<Rightarrow> 'c iface_ctx \<Rightarrow> bool" where
  "id_typed S t k ctx \<longleftrightarrow> unat k \<le> ctx_opened ctx \<and> (\<forall>sh. ctx_lookup k ctx = Some sh \<longrightarrow> ctx_kind S ctx sh = Some t)"

text \<open>The ids of a context keep their sockets or lose them.\<close>

definition ids_kept :: "'c smoltcp \<Rightarrow> 'c iface_ctx \<Rightarrow> 'c iface_ctx \<Rightarrow> bool" where
  "ids_kept S ctx ctx' \<longleftrightarrow> (\<forall>k sh. unat k \<le> ctx_opened ctx \<longrightarrow> ctx_lookup k ctx' = Some sh \<longrightarrow>
     ctx_lookup k ctx = Some sh \<and> ctx_kind S ctx' sh = ctx_kind S ctx sh)"

text \<open>The same with the bound on the number of ids built in.\<close>

definition ctx_good :: "'c smoltcp \<Rightarrow> 'c iface_ctx \<Rightarrow> bool" where
  "ctx_good S ctx \<longleftrightarrow> (few ctx \<longrightarrow> ctx_typed S ctx)"

definition id_good :: "'c smoltcp \<Rightarrow> sock_type \<Rightarrow> u32 \<Rightarrow> 'c iface_ctx \<Rightarrow> bool" where
  "id_good S t k ctx \<longleftrightarrow> (few ctx \<longrightarrow> id_typed S t k ctx)"

definition ctx_grows :: "'c smoltcp \<Rightarrow> 'c iface_ctx \<Rightarrow> 'c iface_ctx \<Rightarrow> bool" where
  "ctx_grows S ctx ctx' \<longleftrightarrow> ctx_opened ctx \<le> ctx_opened ctx'
     \<and> (few ctx' \<longrightarrow> ctx_typed S ctx \<longrightarrow> ctx_typed S ctx' \<and> ids_kept S ctx ctx')"

lemma few_mono: "ctx_opened ctx \<le> ctx_opened ctx' \<Longrightarrow> few ctx' \<Longrightarrow> few ctx"
  by (simp add: few_def)

lemma ids_kept_trans:
  "ids_kept S a b \<Longrightarrow> ids_kept S b c \<Longrightarrow> ctx_opened a \<le> ctx_opened b \<Longrightarrow> ids_kept S a c"
  unfolding ids_kept_def by (metis le_trans)

lemma ctx_grows_refl [simp, intro]: "ctx_grows S ctx ctx"
  by (simp add: ctx_grows_def ids_kept_def)

lemma ctx_grows_trans:
  assumes "ctx_grows S a b" and "ctx_grows S b c"
  shows "ctx_grows S a c"
proof -
  have "few c \<Longrightarrow> few b" using assms(2) by (auto simp: ctx_grows_def intro: few_mono)
  with assms show ?thesis by (auto simp: ctx_grows_def intro: ids_kept_trans)
qed

lemma ctx_good_grows: "ctx_good S ctx \<Longrightarrow> ctx_grows S ctx ctx' \<Longrightarrow> ctx_good S ctx'"
  by (auto simp: ctx_good_def ctx_grows_def dest: few_mono)

lemma id_good_grows:
  assumes "ctx_good S ctx" and "id_good S t k ctx" and "ctx_grows S ctx ctx'"
  shows "id_good S t k ctx'"
proof -
  have "id_typed S t k ctx'" if "few ctx'"
  proof -
    have "few ctx" using assms(3) that by (auto simp: ctx_grows_def intro: few_mono)
    with assms that show ?thesis by (fastforce simp: ctx_good_def id_good_def ctx_grows_def id_typed_def ids_kept_def)
  qed
  then show ?thesis by (simp add: id_good_def)
qed

text \<open>Id 0 has every type, since it is never handed out.\<close>

lemma id_good_0: "ctx_good S ctx \<Longrightarrow> id_good S t 0 ctx"
  by (simp add: ctx_good_def id_good_def ctx_typed_def id_typed_def)

lemma ctx_typed_lookup:
  "ctx_typed S ctx \<Longrightarrow> ctx_lookup k ctx = Some sh \<Longrightarrow> ctx_kind S ctx sh = Some Tcp \<or> ctx_kind S ctx sh = Some Udp"
  unfolding ctx_typed_def ctx_lookup_def by (metis image_eqI map_of_SomeD snd_conv)

text \<open>A change that touches neither the table of ids nor the types.\<close>

lemma ctx_grows_same:
  assumes "ctx_handles ctx' = ctx_handles ctx" "ctx_next_id ctx' = ctx_next_id ctx" "ctx_opened ctx' = ctx_opened ctx"
    and "ctx_typed S ctx \<Longrightarrow> few ctx \<Longrightarrow> (\<forall>j. ctx_kind S ctx' j = ctx_kind S ctx j) \<and> ctx_panic ctx' = ctx_panic ctx
      \<and> (\<forall>dh. ctx_dhcp ctx' = Some dh \<longrightarrow> ctx_kind S ctx dh = Some Dhcpv4)"
  shows "ctx_grows S ctx ctx'"
proof -
  have "few ctx' = few ctx" by (simp add: few_def assms)
  moreover have "ctx_lookup k ctx' = ctx_lookup k ctx" for k by (simp add: ctx_lookup_def assms)
  moreover have "ctx_typed S ctx' \<and> ids_kept S ctx ctx'" if "ctx_typed S ctx" "few ctx"
  proof -
    note K = assms(4) [OF that]
    have "handles_ok ctx'" using that(1) by (simp add: ctx_typed_def handles_ok_def assms(1,2))
    with K that(1) show ?thesis unfolding ctx_typed_def ids_kept_def calculation(2) by (simp add: assms(1-3))
  qed
  ultimately show ?thesis by (simp add: ctx_grows_def assms(3))
qed

section \<open>The calls of the surface\<close>

text \<open>What a call on a context does to it, where the context may be absent.\<close>

definition h_grows :: "'c smoltcp \<Rightarrow> 'c iface_ctx option \<Rightarrow> 'c iface_ctx option \<Rightarrow> bool" where
  "h_grows S h h' \<longleftrightarrow> (case (h, h') of (None, None) \<Rightarrow> True | (Some ctx, Some ctx') \<Rightarrow> ctx_grows S ctx ctx' | _ \<Rightarrow> False)"

definition h_good :: "'c smoltcp \<Rightarrow> sock_type \<Rightarrow> u32 \<Rightarrow> 'c iface_ctx option \<Rightarrow> bool" where
  "h_good S t k h \<longleftrightarrow> (\<forall>ctx. h = Some ctx \<longrightarrow> ctx_good S ctx \<and> id_good S t k ctx)"

lemma h_grows_refl [simp, intro]: "h_grows S h h"
  by (simp add: h_grows_def split: option.split)

lemma with_socket_grows:
  assumes h: "h_good S t k h"
    and f: "\<And>sh c j. sm_kind S sh c = Some t \<Longrightarrow> sm_kind S j (snd (f sh c)) = sm_kind S j c"
  shows "h_grows S h (snd (with_socket S t h k err f))"
proof (cases h)
  case None
  then show ?thesis by (simp add: with_socket_def)
next
  case (Some ctx)
  show ?thesis
  proof (cases "ctx_lookup k ctx")
    case None
    with Some show ?thesis by (simp add: with_socket_def)
  next
    case (Some sh)
    have kd: "sm_kind S sh (ctx_stack ctx) = Some t" if "ctx_typed S ctx" "few ctx"
      using h \<open>h = Some ctx\<close> that Some by (simp add: h_good_def id_good_def id_typed_def ctx_kind_def)
    have "ctx_grows S ctx ((get_mut S t sh ctx)\<lparr>ctx_stack := snd (f sh (ctx_stack ctx))\<rparr>)"
    proof (rule ctx_grows_same)
      assume "ctx_typed S ctx" "few ctx"
      from kd [OF this] f [of sh "ctx_stack ctx"] \<open>ctx_typed S ctx\<close>
      show "(\<forall>j. ctx_kind S ((get_mut S t sh ctx)\<lparr>ctx_stack := snd (f sh (ctx_stack ctx))\<rparr>) j = ctx_kind S ctx j)
        \<and> ctx_panic ((get_mut S t sh ctx)\<lparr>ctx_stack := snd (f sh (ctx_stack ctx))\<rparr>) = ctx_panic ctx
        \<and> (\<forall>dh. ctx_dhcp ((get_mut S t sh ctx)\<lparr>ctx_stack := snd (f sh (ctx_stack ctx))\<rparr>) = Some dh \<longrightarrow> ctx_kind S ctx dh = Some Dhcpv4)"
        by (simp add: ctx_kind_def get_mut_def ctx_typed_def)
    qed simp_all
    with Some \<open>h = Some ctx\<close> show ?thesis by (simp add: with_socket_def h_grows_def case_prod_unfold Let_def)
  qed
qed

lemma update_new: "k \<notin> fst ` set al \<Longrightarrow> AList.update k v al = al @ [(k, v)]"
  by (induction al) auto

lemma run_device_leaf: "run_device cb p d m w = Some (c, d', m', w') \<Longrightarrow> c \<in> set_dev_prog p"
proof (induction p arbitrary: d m w)
  case (Finish c)
  then show ?case by simp
next
  case (Receive reply nxt)
  note IH = Receive.IH [OF rangeI]
  from Receive.prems show ?case
    by (auto split: option.splits prod.splits dest!: IH)
next
  case (Transmit payload nxt)
  note IH = Transmit.IH [OF rangeI]
  from Transmit.prems show ?case
    by (auto split: option.splits prod.splits dest!: IH)
qed

context smoltcp_sockets
begin

lemma socket_calls_grow:
  shows "h_good S Tcp k h \<Longrightarrow> h_grows S h (snd (smoltcp_tcp_connect S r h k d p l))"
    and "h_good S Tcp k h \<Longrightarrow> h_grows S h (snd (smoltcp_tcp_listen S h k p))"
    and "h_good S Tcp k h \<Longrightarrow> h_grows S h (snd (smoltcp_tcp_send S h k buf))"
    and "h_good S Tcp k h \<Longrightarrow> h_grows S h (snd (smoltcp_tcp_recv S h k cap))"
    and "h_good S Tcp k h \<Longrightarrow> h_grows S h (snd (smoltcp_tcp_is_active S h k))"
    and "h_good S Tcp k h \<Longrightarrow> h_grows S h (snd (smoltcp_tcp_is_connected S h k))"
    and "h_good S Tcp k h \<Longrightarrow> h_grows S h (snd (smoltcp_tcp_recv_queue S h k))"
    and "h_good S Tcp k h \<Longrightarrow> h_grows S h (snd (smoltcp_tcp_send_capacity S h k))"
    and "h_good S Udp k h \<Longrightarrow> h_grows S h (snd (smoltcp_udp_sendto S h k buf d p))"
    and "h_good S Udp k h \<Longrightarrow> h_grows S h (snd (smoltcp_udp_recvfrom S h k cap))"
  by (auto simp: smoltcp_tcp_connect_def smoltcp_tcp_listen_def smoltcp_tcp_send_def smoltcp_tcp_recv_def
      smoltcp_tcp_is_active_def smoltcp_tcp_is_connected_def smoltcp_tcp_recv_queue_def smoltcp_tcp_send_capacity_def
      smoltcp_udp_sendto_def smoltcp_udp_recvfrom_def Let_def case_prod_unfold tcp udp
      intro!: with_socket_grows split: option.splits)

lemma alloc_id_grows:
  assumes new: "sm_kind S sh (ctx_stack ctx) = None" and t: "t = Tcp \<or> t = Udp"
    and add: "\<And>j. sm_kind S j c = (if j = sh then Some t else sm_kind S j (ctx_stack ctx))"
    and al: "alloc_id sh (ctx\<lparr>ctx_stack := c\<rparr>) = (k, ctx')"
  shows "ctx_grows S ctx ctx'" and "ctx_good S ctx \<Longrightarrow> id_good S t k ctx'"
proof -
  have k: "k = ctx_next_id ctx" and c': "ctx_stack ctx' = c" "ctx_opened ctx' = Suc (ctx_opened ctx)" "ctx_dhcp ctx' = ctx_dhcp ctx"
      "ctx_panic ctx' = ctx_panic ctx" "ctx_next_id ctx' = max (ctx_next_id ctx + 1) 1" "ctx_handles ctx' = AList.update k sh (ctx_handles ctx)"
    using al by (auto simp: alloc_id_def)
  have lk: "ctx_lookup i ctx' = (if i = k then Some sh else ctx_lookup i ctx)" for i
    by (simp add: ctx_lookup_def c' update_conv')
  have kd: "ctx_kind S ctx' j = (if j = sh then Some t else ctx_kind S ctx j)" for j by (simp add: ctx_kind_def c' add)
  have typed: "ctx_typed S ctx' \<and> ids_kept S ctx ctx'" if "few ctx'" "ctx_typed S ctx"
  proof -
    have ok: "handles_ok ctx" and nx: "unat (ctx_next_id ctx) = ctx_opened ctx + 1" using that(2) by (simp_all add: ctx_typed_def)
    have room: "unat (ctx_next_id ctx) + 1 < 2 ^ 32" using that(1) nx by (simp add: few_def c')
    have "k \<notin> fst ` set (ctx_handles ctx)" using ok by (auto simp: handles_ok_def k)
    then have hs: "ctx_handles ctx' = ctx_handles ctx @ [(k, sh)]" by (simp add: c' update_new)
    have old: "sh \<notin> snd ` set (ctx_handles ctx)" "ctx_dhcp ctx \<noteq> Some sh"
      using that(2) new by (auto simp: ctx_typed_def ctx_kind_def)
    have "handles_ok ctx'" using alloc_id_handles_ok [of "ctx\<lparr>ctx_stack := c\<rparr>" sh] ok room al by (simp add: handles_ok_def)
    moreover have "unat (ctx_next_id ctx') = ctx_opened ctx' + 1" using next_id_step [OF room] nx by (simp add: c')
    ultimately have "ctx_typed S ctx'" using that(2) old t by (auto simp: ctx_typed_def hs kd c')
    moreover have "ids_kept S ctx ctx'"
      unfolding ids_kept_def
    proof (intro allI impI)
      fix i s assume "unat i \<le> ctx_opened ctx" and s: "ctx_lookup i ctx' = Some s"
      then have "i \<noteq> k" using nx k by auto
      with s have "ctx_lookup i ctx = Some s" by (simp add: lk)
      moreover have "s \<noteq> sh" using ctx_typed_lookup [OF that(2) calculation] new by (auto simp: ctx_kind_def)
      ultimately show "ctx_lookup i ctx = Some s \<and> ctx_kind S ctx' s = ctx_kind S ctx s" by (simp add: kd)
    qed
    ultimately show ?thesis ..
  qed
  then show "ctx_grows S ctx ctx'" by (simp add: ctx_grows_def c')
  assume "ctx_good S ctx"
  then have "unat k \<le> ctx_opened ctx'" if "few ctx'"
    using that by (simp add: ctx_good_def few_def c' ctx_typed_def k)
  then show "id_good S t k ctx'" by (simp add: id_good_def id_typed_def lk kd)
qed

lemma socket_close_grows:
  assumes h: "h_good S t k h"
    and cl: "\<And>sh c j. sm_kind S sh c = Some t \<Longrightarrow> sm_kind S j (cl sh c) = sm_kind S j c"
  shows "h_grows S h (socket_close S t cl h k)"
proof (cases h)
  case None
  then show ?thesis by (simp add: socket_close_def)
next
  case (Some ctx)
  show ?thesis
  proof (cases "ctx_lookup k ctx")
    case None
    with Some show ?thesis by (simp add: socket_close_def)
  next
    case (Some sh)
    let ?c = "(get_mut S t sh ctx)\<lparr>ctx_stack := sm_remove S sh (cl sh (ctx_stack ctx)), ctx_handles := AList.delete k (ctx_handles ctx)\<rparr>"
    have close: "socket_close S t cl h k = Some ?c" using Some \<open>h = Some ctx\<close> by (simp add: socket_close_def)
    have "ctx_typed S ?c \<and> ids_kept S ctx ?c" if ty: "ctx_typed S ctx" and "few ctx"
    proof -
      have kd: "sm_kind S sh (ctx_stack ctx) = Some t"
        using h \<open>h = Some ctx\<close> that Some by (simp add: h_good_def id_good_def id_typed_def ctx_kind_def)
      then have new: "ctx_kind S ?c j = (if j = sh then None else ctx_kind S ctx j)" for j
        by (simp add: ctx_kind_def remove cl)
      have mem: "(k, sh) \<in> set (ctx_handles ctx)" using Some by (simp add: ctx_lookup_def map_of_SomeD)
      then have d: "ctx_kind S ctx sh = Some Tcp \<or> ctx_kind S ctx sh = Some Udp" using ty by (auto simp: ctx_typed_def)
      have nsh: "s \<noteq> sh" if "(i, s) \<in> set (ctx_handles ctx)" "i \<noteq> k" for i s
        using ty mem that unfolding ctx_typed_def by (metis distinct_map inj_on_def prod.inject snd_conv)
      have hok: "handles_ok ?c"
        using socket_close_handles_ok [of ctx S t cl k ?c] close \<open>h = Some ctx\<close> ty by (simp add: ctx_typed_def)
      have dis: "distinct (map snd (AList.delete k (ctx_handles ctx)))"
        using ty by (simp add: ctx_typed_def AList.delete_eq distinct_map_filter)
      have kinds: "\<forall>s \<in> snd ` set (AList.delete k (ctx_handles ctx)). ctx_kind S ?c s = Some Tcp \<or> ctx_kind S ?c s = Some Udp"
        using ty nsh unfolding new by (fastforce simp: ctx_typed_def AList.delete_eq)
      have owned: "ctx_kind S ?c s = Some Tcp \<or> ctx_kind S ?c s = Some Udp \<longrightarrow> s \<in> snd ` set (AList.delete k (ctx_handles ctx))" for s
      proof
        assume "ctx_kind S ?c s = Some Tcp \<or> ctx_kind S ?c s = Some Udp"
        then have "s \<noteq> sh" and "s \<in> snd ` set (ctx_handles ctx)" using ty unfolding new by (auto simp: ctx_typed_def split: if_splits)
        then obtain i where "(i, s) \<in> set (ctx_handles ctx)" by auto
        moreover from this have "i \<noteq> k"
          using ty mem \<open>s \<noteq> sh\<close> unfolding ctx_typed_def handles_ok_def by (metis distinct_map fst_conv inj_on_def prod.inject)
        ultimately show "s \<in> snd ` set (AList.delete k (ctx_handles ctx))" by (force simp: AList.delete_eq)
      qed
      have dh: "\<forall>dh. ctx_dhcp ctx = Some dh \<longrightarrow> ctx_kind S ?c dh = Some Dhcpv4"
        using ty d unfolding new by (auto simp: ctx_typed_def)
      have "ctx_typed S ?c"
        using ty hok dis kinds owned dh kd unfolding ctx_typed_def by (simp add: get_mut_def)
      moreover have "ids_kept S ctx ?c"
        unfolding ids_kept_def
      proof (intro allI impI)
        fix i s assume "ctx_lookup i ?c = Some s"
        then have "ctx_lookup i ctx = Some s" "i \<noteq> k" by (auto simp: ctx_lookup_def delete_conv' split: if_splits)
        moreover from this have "s \<noteq> sh" using nsh by (metis ctx_lookup_def map_of_SomeD)
        ultimately show "ctx_lookup i ctx = Some s \<and> ctx_kind S ?c s = ctx_kind S ctx s" by (simp add: new)
      qed
      ultimately show ?thesis ..
    qed
    then have "ctx_grows S ctx ?c" by (simp add: ctx_grows_def few_def)
    with close \<open>h = Some ctx\<close> show ?thesis by (simp add: h_grows_def)
  qed
qed

lemma closes_grow:
  shows "h_good S Tcp k h \<Longrightarrow> h_grows S h (smoltcp_tcp_close S h k)"
    and "h_good S Udp k h \<Longrightarrow> h_grows S h (smoltcp_udp_close S h k)"
  by (simp_all add: smoltcp_tcp_close_def smoltcp_udp_close_def socket_close_grows tcp udp)

text \<open>Opening: the new id has the type of the socket.\<close>

lemma opens_grow:
  shows "smoltcp_tcp_open S (Some ctx) = (k, h') \<Longrightarrow>
      \<exists>ctx'. h' = Some ctx' \<and> ctx_grows S ctx ctx' \<and> (ctx_good S ctx \<longrightarrow> id_good S Tcp k ctx')"
    and "smoltcp_udp_open S (Some ctx) port = (k, h') \<Longrightarrow>
      \<exists>ctx'. h' = Some ctx' \<and> ctx_grows S ctx ctx' \<and> (k \<noteq> 0 \<longrightarrow> ctx_good S ctx \<longrightarrow> id_good S Udp k ctx')"
proof -
  assume o: "smoltcp_tcp_open S (Some ctx) = (k, h')"
  obtain sh c where a: "sm_add_tcp S (ctx_stack ctx) = (sh, c)" by force
  obtain i ctx' where al: "alloc_id sh (ctx\<lparr>ctx_stack := c\<rparr>) = (i, ctx')" by force
  with o a have "h' = Some ctx'" "k = i" by (auto simp: smoltcp_tcp_open_def)
  with alloc_id_grows [OF _ _ _ al, of Tcp] add_tcp [OF a]
  show "\<exists>ctx'. h' = Some ctx' \<and> ctx_grows S ctx ctx' \<and> (ctx_good S ctx \<longrightarrow> id_good S Tcp k ctx')" by simp
next
  assume o: "smoltcp_udp_open S (Some ctx) port = (k, h')"
  obtain sh c where a: "sm_add_udp S port (ctx_stack ctx) = (sh, c)" by force
  obtain i ctx' where al: "alloc_id sh (ctx\<lparr>ctx_stack := c\<rparr>) = (i, ctx')" by force
  from o a al have "(k = 0 \<and> h' = Some ctx) \<or> (h' = Some ctx' \<and> k = i)" by (auto simp: smoltcp_udp_open_def split: if_splits)
  with alloc_id_grows [OF _ _ _ al, of Udp] add_udp [OF a]
  show "\<exists>ctx'. h' = Some ctx' \<and> ctx_grows S ctx ctx' \<and> (k \<noteq> 0 \<longrightarrow> ctx_good S ctx \<longrightarrow> id_good S Udp k ctx')" by auto
qed

text \<open>The calls on the interface itself.\<close>

lemma dhcp_step_grows: "ctx_grows S ctx (dhcp_step S ctx)"
proof (rule ctx_grows_same)
  assume "ctx_typed S ctx"
  then have d: "ctx_dhcp ctx = Some dh \<Longrightarrow> sm_kind S dh (ctx_stack ctx) = Some Dhcpv4" for dh
    by (simp add: ctx_typed_def ctx_kind_def)
  have k: "sm_kind S j c = sm_kind S j (ctx_stack ctx)"
    if "ctx_dhcp ctx = Some dh" "sm_dhcp_poll S dh (ctx_stack ctx) = (e, c)" for dh e c j
    using dhcp [OF d [OF that(1)], of j] that(2) by simp
  show "(\<forall>j. ctx_kind S (dhcp_step S ctx) j = ctx_kind S ctx j) \<and> ctx_panic (dhcp_step S ctx) = ctx_panic ctx
    \<and> (\<forall>dh. ctx_dhcp (dhcp_step S ctx) = Some dh \<longrightarrow> ctx_kind S ctx dh = Some Dhcpv4)"
    using d by (auto simp: dhcp_step_def ctx_kind_def get_mut_def iface k Let_def split: option.splits prod.splits dhcp_event.splits)
qed (auto simp: dhcp_step_def Let_def split: option.splits prod.splits dhcp_event.splits)

lemma ctx_poll_grows:
  assumes "ctx_poll S cb now ctx m w = Some (ctx', m', w')"
  shows "ctx_grows S ctx ctx'"
proof -
  from assms obtain c d where r: "run_device cb (sm_poll S now (ctx_stack ctx)) (ctx_dev ctx) m w = Some (c, d, m', w')"
    and c': "ctx' = dhcp_step S (ctx\<lparr>ctx_stack := c, ctx_dev := d\<rparr>)"
    by (auto simp: ctx_poll_def split: option.splits prod.splits)
  have "ctx_grows S ctx (ctx\<lparr>ctx_stack := c, ctx_dev := d\<rparr>)"
    by (rule ctx_grows_same) (simp_all add: ctx_kind_def poll [OF run_device_leaf [OF r]] ctx_typed_def)
  with dhcp_step_grows c' show ?thesis by (blast intro: ctx_grows_trans)
qed

lemma enable_dhcp_grows: "h_grows S h (smoltcp_iface_enable_dhcp S h)"
proof (cases h)
  case (Some ctx)
  obtain dh c where a: "sm_add_dhcp S (ctx_stack ctx) = (dh, c)" by force
  have "ctx_grows S ctx (ctx\<lparr>ctx_stack := c, ctx_dhcp := Some dh\<rparr>)" if "ctx_dhcp ctx = None"
    using add_dhcp [OF a]
    by (auto simp: ctx_grows_def ctx_typed_def handles_ok_def ids_kept_def ctx_kind_def ctx_lookup_def few_def dest!: map_of_SomeD)
  with a Some show ?thesis by (auto simp: smoltcp_iface_enable_dhcp_def h_grows_def)
qed (simp add: smoltcp_iface_enable_dhcp_def)

lemma iface_calls_grow:
  shows "h_grows S h (smoltcp_iface_rx h f)" and "h_grows S h (smoltcp_iface_set_link_up h up)"
    and "smoltcp_iface_set_static S h ip len gw = Some h' \<Longrightarrow> h_grows S h h'"
    and "h_grows S h (snd (smoltcp_iface_mcast_join S h g))" and "h_grows S h (snd (smoltcp_iface_mcast_leave S h g))"
    and "smoltcp_iface_poll S cb now h m w = Some (h', m', w') \<Longrightarrow> h_grows S h h'"
proof -
  have same: "ctx_grows S ctx (ctx\<lparr>ctx_stack := c, ctx_dev := d, ctx_dhcp := dh, ctx_has_ip := b, ctx_netmask_be := x, ctx_gateway_be := y\<rparr>)"
    if "\<And>j. sm_kind S j c = sm_kind S j (ctx_stack ctx)" "dh = ctx_dhcp ctx \<or> dh = None" for ctx c d dh b x y
    by (rule ctx_grows_same) (use that in \<open>auto simp: ctx_kind_def ctx_typed_def\<close>)
  have dev: "ctx_grows S ctx (ctx\<lparr>ctx_dev := d\<rparr>)" for ctx d
    using same [where ctx = ctx and c = "ctx_stack ctx" and dh = "ctx_dhcp ctx" and d = d and b = "ctx_has_ip ctx"
      and x = "ctx_netmask_be ctx" and y = "ctx_gateway_be ctx"] by simp
  show "h_grows S h (smoltcp_iface_rx h f)" "h_grows S h (smoltcp_iface_set_link_up h up)"
    by (simp_all add: smoltcp_iface_rx_def smoltcp_iface_set_link_up_def h_grows_def dev split: option.split)
  have stack: "ctx_grows S ctx (ctx\<lparr>ctx_stack := c\<rparr>)" if "\<And>j. sm_kind S j c = sm_kind S j (ctx_stack ctx)" for ctx c
    using same [where ctx = ctx and c = c and dh = "ctx_dhcp ctx" and d = "ctx_dev ctx" and b = "ctx_has_ip ctx"
      and x = "ctx_netmask_be ctx" and y = "ctx_gateway_be ctx"] that by simp
  show "h_grows S h (snd (smoltcp_iface_mcast_join S h g))" "h_grows S h (snd (smoltcp_iface_mcast_leave S h g))"
    by (simp_all add: smoltcp_iface_mcast_join_def smoltcp_iface_mcast_leave_def smoltcp_iface_mcast_def h_grows_def Let_def
        case_prod_unfold iface stack split: option.split)
  show "smoltcp_iface_poll S cb now h m w = Some (h', m', w') \<Longrightarrow> h_grows S h h'"
    using ctx_poll_grows by (auto simp: smoltcp_iface_poll_def h_grows_def split: option.splits)
  show "smoltcp_iface_set_static S h ip len gw = Some h' \<Longrightarrow> h_grows S h h'"
    by (auto simp: smoltcp_iface_set_static_def h_grows_def Let_def iface intro!: ctx_grows_same simp: ctx_kind_def split: option.splits if_splits)
qed

lemma ctx_new_good: "ctx_good S (ctx_new S i mac now)"
  by (simp add: ctx_good_def ctx_typed_def ctx_new_def handles_ok_def Let_def ctx_kind_def iface new_empty)

end

end
