(* ===== verification/Net_State.thy ===== *)
theory Net_State
  imports Glue_Types
begin

text \<open>
  The global state of \<open>components/esp_smoltcp/src/esp_smoltcp.c\<close> and what it uses of its
  platform. FreeRTOS and ESP-IDF are not part of the repository: their operations are the
  fields of the record \<open>platform\<close>, which every definition that calls them takes as an argument
  (\<open>'q\<close> is a queue, \<open>'g\<close> an event group, \<open>'e\<close> the rest of the environment: driver, clock and
  random source). A handle of a queue, an event group or a Rust context is represented by the
  object it points to, stored at the handle's only owner; \<open>None\<close> is the null handle.

  \<open>lock_created\<close> and \<open>lock_held\<close> are the state of \<open>g_smoltcp_lock\<close>. Three flags record what the
  code must never do: \<open>lock_fault\<close>, taking the lock while it does not exist or is already held
  by the same task; \<open>unguarded\<close>, a call on a Rust context without the lock; \<open>cb_under_lock\<close>, an
  application callback invoked with the lock held. \<open>unguarded_new\<close> records that a context was created
  (\<open>smoltcp_iface_new\<close>) without the lock. \<open>cb_log\<close> lists the application callbacks in
  the order they were invoked and \<open>s_task\<close> counts the wake-ups given to the poll task.
\<close>

section \<open>Platform\<close>

record ('q, 'g, 'e) platform =
  queues :: "'q queue_ops"
  xEventGroupSetBits :: "u32 \<Rightarrow> 'g \<Rightarrow> 'g"
  xEventGroupClearBits :: "u32 \<Rightarrow> 'g \<Rightarrow> 'g"
  esp_eth_transmit :: "nat option \<Rightarrow> u8 list \<Rightarrow> 'e \<Rightarrow> esp_err \<times> 'e"
  esp_eth_start :: "nat option \<Rightarrow> 'e \<Rightarrow> 'e"
  esp_timer_get_time :: "'e \<Rightarrow> int \<times> 'e"
  esp_random :: "'e \<Rightarrow> u32 \<times> 'e"
  xTaskGetTickCount :: "'e \<Rightarrow> u32 \<times> 'e"
  pdMS_TO_TICKS :: "int \<Rightarrow> u32"

text \<open>
  A concrete platform for the witnesses: circular buffers, event groups that are their bits, a
  driver that records the frames it sends, a clock that advances at each read, a tick counter.
\<close>

record ref_ext =
  re_now :: int
  re_ticks :: nat
  re_sent :: "u8 list list"

definition ref_platform :: "(ring, u32, ref_ext) platform" where
  "ref_platform = \<lparr>queues = ring_ops,
     xEventGroupSetBits = (\<lambda>b g. g OR b),
     xEventGroupClearBits = (\<lambda>b g. g AND NOT b),
     esp_eth_transmit = (\<lambda>h f e. (ESP_OK, e\<lparr>re_sent := re_sent e @ [f]\<rparr>)),
     esp_eth_start = (\<lambda>h e. e),
     esp_timer_get_time = (\<lambda>e. (re_now e, e\<lparr>re_now := re_now e + 1\<rparr>)),
     esp_random = (\<lambda>e. (4, e)),
     xTaskGetTickCount = (\<lambda>e. (of_nat (re_ticks e), e)),
     pdMS_TO_TICKS = word_of_int\<rparr>"

definition ref_ext0 :: ref_ext where
  "ref_ext0 = \<lparr>re_now = 0, re_ticks = 0, re_sent = []\<rparr>"

section \<open>Interfaces, frames, taps\<close>

definition NET_IFACE_ETH :: nat where "NET_IFACE_ETH = 0"

definition NET_IFACE_WIFI :: nat where "NET_IFACE_WIFI = 1"

definition NET_IFACE_MAX :: nat where "NET_IFACE_MAX = 2"

definition NET_FRAME_BUF :: nat where "NET_FRAME_BUF = 1536"

datatype net_event = IFACE_UP | IFACE_DOWN | GOT_IP | LOST_IP | NTP_SYNCED

text \<open>The only transmit function of the sources.\<close>

datatype l2_tx_fn = Eth_tx

record ('q, 'c) net_iface =
  iface_id :: nat
  enabled :: bool
  link_up :: bool
  ip_up :: bool
  mac :: "u8 list"
  rx_queue :: "'q option"
  l2_tx :: "l2_tx_fn option"
  smoltcp_handle :: "'c iface_ctx option"
  rx_frames :: u32
  rx_bytes :: u64
  rx_drops :: u32
  tx_frames :: u32
  tx_bytes :: u64
  tx_fails :: u32
  link_ups :: u32
  link_downs :: u32

record net_frame =
  frame_len :: nat
  hw_ts_ns :: int
  frame_data :: "u8 list"

text \<open>A callback is a function pointer, here its address, together with the user argument.\<close>

record l2_tap =
  ethertype :: u16
  tap_cb :: "nat option"
  tap_user :: nat

datatype callback =
    UserEvent nat nat net_event nat
  | TapFrame nat nat "u8 list" int nat

record ('q, 'g, 'c, 'e) net =
  s_ifaces :: "('q, 'c) net_iface list"
  s_evt :: "'g option"
  s_progress_evt :: "'g option"
  s_task :: "nat option"
  s_user_cb :: "nat option"
  s_user_cb_arg :: nat
  lock_created :: bool
  lock_held :: bool
  lock_fault :: bool
  unguarded :: bool
  cb_under_lock :: bool
  unguarded_new :: bool
  s_frame_pool :: "net_frame list"
  s_frame_free_q :: "'q option"
  s_frame_alloc_fail :: u32
  s_taps :: "l2_tap list"
  s_eth_handle :: "nat option"
  s_inited :: bool
  tx_free_mask :: u32
  cb_log :: "callback list"
  ext :: 'e

text \<open>
  The statics as they are at power-up, all zero; the transmit pool of the Rust side starts with
  every buffer free. \<open>POOL_SZ\<close> is the configured number of frames.
\<close>

definition iface_boot :: "('q, 'c) net_iface" where
  "iface_boot = \<lparr>iface_id = 0, enabled = False, link_up = False, ip_up = False, mac = replicate 6 0,
     rx_queue = None, l2_tx = None, smoltcp_handle = None, rx_frames = 0, rx_bytes = 0, rx_drops = 0,
     tx_frames = 0, tx_bytes = 0, tx_fails = 0, link_ups = 0, link_downs = 0\<rparr>"

definition frame_boot :: net_frame where
  "frame_boot = \<lparr>frame_len = 0, hw_ts_ns = 0, frame_data = replicate NET_FRAME_BUF 0\<rparr>"

definition tap_boot :: l2_tap where
  "tap_boot = \<lparr>ethertype = 0, tap_cb = None, tap_user = 0\<rparr>"

definition net_boot :: "nat \<Rightarrow> 'e \<Rightarrow> ('q, 'g, 'c, 'e) net" where
  "net_boot POOL_SZ e = \<lparr>s_ifaces = replicate NET_IFACE_MAX iface_boot, s_evt = None,
     s_progress_evt = None, s_task = None, s_user_cb = None, s_user_cb_arg = 0,
     lock_created = False, lock_held = False, lock_fault = False, unguarded = False,
     cb_under_lock = False, unguarded_new = False, s_frame_pool = replicate POOL_SZ frame_boot, s_frame_free_q = None,
     s_frame_alloc_fail = 0, s_taps = replicate 4 tap_boot, s_eth_handle = None, s_inited = False,
     tx_free_mask = tx_pool_init, cb_log = [], ext = e\<rparr>"

section \<open>Access to the state\<close>

definition iface :: "nat \<Rightarrow> ('q, 'g, 'c, 'e) net \<Rightarrow> ('q, 'c) net_iface" where
  "iface i n = s_ifaces n ! i"

definition upd_iface ::
  "nat \<Rightarrow> (('q, 'c) net_iface \<Rightarrow> ('q, 'c) net_iface) \<Rightarrow> ('q, 'g, 'c, 'e) net \<Rightarrow> ('q, 'g, 'c, 'e) net" where
  "upd_iface i f n = n\<lparr>s_ifaces := (s_ifaces n)[i := f (s_ifaces n ! i)]\<rparr>"

definition set_handle :: "nat \<Rightarrow> 'c iface_ctx option \<Rightarrow> ('q, 'g, 'c, 'e) net \<Rightarrow> ('q, 'g, 'c, 'e) net" where
  "set_handle i h = upd_iface i (\<lambda>f. f\<lparr>smoltcp_handle := h\<rparr>)"

definition SMOLTCP_LOCK :: "('q, 'g, 'c, 'e) net \<Rightarrow> ('q, 'g, 'c, 'e) net" where
  "SMOLTCP_LOCK n = n\<lparr>lock_held := True, lock_fault := (lock_fault n \<or> \<not> lock_created n \<or> lock_held n)\<rparr>"

definition SMOLTCP_UNLOCK :: "('q, 'g, 'c, 'e) net \<Rightarrow> ('q, 'g, 'c, 'e) net" where
  "SMOLTCP_UNLOCK n = n\<lparr>lock_held := False\<rparr>"

text \<open>Entering the Rust core with a context: recorded as unguarded unless the lock is held.\<close>

definition core_call :: "('q, 'g, 'c, 'e) net \<Rightarrow> ('q, 'g, 'c, 'e) net" where
  "core_call n = n\<lparr>unguarded := (unguarded n \<or> \<not> lock_held n)\<rparr>"

text \<open>Entering the Rust core to create a context.\<close>

definition core_new :: "('q, 'g, 'c, 'e) net \<Rightarrow> ('q, 'g, 'c, 'e) net" where
  "core_new n = n\<lparr>unguarded_new := (unguarded_new n \<or> \<not> lock_held n)\<rparr>"

definition invoke_cb :: "callback \<Rightarrow> ('q, 'g, 'c, 'e) net \<Rightarrow> ('q, 'g, 'c, 'e) net" where
  "invoke_cb c n = n\<lparr>cb_log := cb_log n @ [c], cb_under_lock := (cb_under_lock n \<or> lock_held n)\<rparr>"

definition notify_task :: "('q, 'g, 'c, 'e) net \<Rightarrow> ('q, 'g, 'c, 'e) net" where
  "notify_task n = n\<lparr>s_task := map_option Suc (s_task n)\<rparr>"

text \<open>\<open>SMOLTCP_LOCK(); r = f(handle); SMOLTCP_UNLOCK();\<close> for a call that updates the context.\<close>

definition locked_call ::
  "nat \<Rightarrow> ('c iface_ctx option \<Rightarrow> 'r \<times> 'c iface_ctx option) \<Rightarrow> ('q, 'g, 'c, 'e) net \<Rightarrow> 'r \<times> ('q, 'g, 'c, 'e) net" where
  "locked_call i f n =
     (let n1 = core_call (SMOLTCP_LOCK n);
          (r, h) = f (smoltcp_handle (iface i n1))
      in (r, SMOLTCP_UNLOCK (set_handle i h n1)))"

section \<open>The locking discipline\<close>

text \<open>What holds between two calls of the API, and what every call has to keep.\<close>

definition lock_ok :: "('q, 'g, 'c, 'e) net \<Rightarrow> bool" where
  "lock_ok n \<longleftrightarrow> \<not> lock_held n \<and> \<not> lock_fault n \<and> \<not> unguarded n \<and> \<not> cb_under_lock n"

definition lock_ready :: "('q, 'g, 'c, 'e) net \<Rightarrow> bool" where
  "lock_ready n \<longleftrightarrow> lock_created n \<and> lock_ok n"

section \<open>Field equations\<close>

lemma iface_upd_iface [simp]:
  "i < length (s_ifaces n) \<Longrightarrow> iface j (upd_iface i f n) = (if j = i then f (iface i n) else iface j n)"
  by (simp add: iface_def upd_iface_def)

lemma upd_iface_length [simp]: "length (s_ifaces (upd_iface i f n)) = length (s_ifaces n)"
  by (simp add: upd_iface_def)

lemma upd_iface_frame [simp]:
  "s_evt (upd_iface i f n) = s_evt n" "s_progress_evt (upd_iface i f n) = s_progress_evt n"
  "s_task (upd_iface i f n) = s_task n" "s_user_cb (upd_iface i f n) = s_user_cb n"
  "s_user_cb_arg (upd_iface i f n) = s_user_cb_arg n" "lock_created (upd_iface i f n) = lock_created n"
  "lock_held (upd_iface i f n) = lock_held n" "lock_fault (upd_iface i f n) = lock_fault n"
  "unguarded (upd_iface i f n) = unguarded n" "cb_under_lock (upd_iface i f n) = cb_under_lock n"
  "unguarded_new (upd_iface i f n) = unguarded_new n"
  "s_frame_pool (upd_iface i f n) = s_frame_pool n" "s_frame_free_q (upd_iface i f n) = s_frame_free_q n"
  "s_frame_alloc_fail (upd_iface i f n) = s_frame_alloc_fail n" "s_taps (upd_iface i f n) = s_taps n"
  "s_eth_handle (upd_iface i f n) = s_eth_handle n" "s_inited (upd_iface i f n) = s_inited n"
  "tx_free_mask (upd_iface i f n) = tx_free_mask n" "cb_log (upd_iface i f n) = cb_log n"
  "ext (upd_iface i f n) = ext n"
  by (simp_all add: upd_iface_def)

lemmas lock_defs = SMOLTCP_LOCK_def SMOLTCP_UNLOCK_def core_call_def

text \<open>The ghost and lock updates leave the rest of the state alone.\<close>

lemma lock_frame [simp]:
  "s_ifaces (SMOLTCP_LOCK n) = s_ifaces n" "s_ifaces (SMOLTCP_UNLOCK n) = s_ifaces n"
  "s_ifaces (core_call n) = s_ifaces n" "s_ifaces (invoke_cb c n) = s_ifaces n"
  "s_ifaces (notify_task n) = s_ifaces n"
  "s_frame_pool (SMOLTCP_LOCK n) = s_frame_pool n" "s_frame_pool (SMOLTCP_UNLOCK n) = s_frame_pool n"
  "s_frame_pool (core_call n) = s_frame_pool n" "s_frame_pool (invoke_cb c n) = s_frame_pool n"
  "s_frame_pool (notify_task n) = s_frame_pool n"
  "s_frame_free_q (SMOLTCP_LOCK n) = s_frame_free_q n" "s_frame_free_q (SMOLTCP_UNLOCK n) = s_frame_free_q n"
  "s_frame_free_q (core_call n) = s_frame_free_q n" "s_frame_free_q (invoke_cb c n) = s_frame_free_q n"
  "s_frame_free_q (notify_task n) = s_frame_free_q n"
  "s_taps (SMOLTCP_LOCK n) = s_taps n" "s_taps (SMOLTCP_UNLOCK n) = s_taps n"
  "s_taps (core_call n) = s_taps n" "s_taps (invoke_cb c n) = s_taps n" "s_taps (notify_task n) = s_taps n"
  "cb_log (SMOLTCP_LOCK n) = cb_log n" "cb_log (SMOLTCP_UNLOCK n) = cb_log n"
  "cb_log (core_call n) = cb_log n" "cb_log (notify_task n) = cb_log n"
  "ext (SMOLTCP_LOCK n) = ext n" "ext (SMOLTCP_UNLOCK n) = ext n" "ext (core_call n) = ext n"
  "ext (invoke_cb c n) = ext n" "ext (notify_task n) = ext n"
  "tx_free_mask (SMOLTCP_LOCK n) = tx_free_mask n" "tx_free_mask (SMOLTCP_UNLOCK n) = tx_free_mask n"
  "tx_free_mask (core_call n) = tx_free_mask n" "tx_free_mask (invoke_cb c n) = tx_free_mask n"
  "tx_free_mask (notify_task n) = tx_free_mask n"
  "s_user_cb (SMOLTCP_LOCK n) = s_user_cb n" "s_user_cb (SMOLTCP_UNLOCK n) = s_user_cb n"
  "s_user_cb (core_call n) = s_user_cb n" "s_user_cb (notify_task n) = s_user_cb n"
  "s_evt (SMOLTCP_LOCK n) = s_evt n" "s_evt (SMOLTCP_UNLOCK n) = s_evt n" "s_evt (core_call n) = s_evt n"
  "s_evt (invoke_cb c n) = s_evt n" "s_evt (notify_task n) = s_evt n"
  by (simp_all add: lock_defs invoke_cb_def notify_task_def)

lemma iface_lock_frame [simp]:
  "iface i (SMOLTCP_LOCK n) = iface i n" "iface i (SMOLTCP_UNLOCK n) = iface i n"
  "iface i (core_call n) = iface i n" "iface i (invoke_cb c n) = iface i n"
  "iface i (notify_task n) = iface i n"
  by (simp_all add: iface_def)

lemma core_new_frame [simp]:
  "s_ifaces (core_new n) = s_ifaces n" "iface i (core_new n) = iface i n" "s_frame_pool (core_new n) = s_frame_pool n"
  "s_frame_free_q (core_new n) = s_frame_free_q n" "s_taps (core_new n) = s_taps n" "cb_log (core_new n) = cb_log n"
  "ext (core_new n) = ext n" "tx_free_mask (core_new n) = tx_free_mask n" "s_user_cb (core_new n) = s_user_cb n"
  "s_evt (core_new n) = s_evt n" "s_progress_evt (core_new n) = s_progress_evt n" "s_task (core_new n) = s_task n"
  "s_eth_handle (core_new n) = s_eth_handle n" "s_user_cb_arg (core_new n) = s_user_cb_arg n"
  "lock_created (core_new n) = lock_created n" "lock_held (core_new n) = lock_held n" "lock_fault (core_new n) = lock_fault n"
  "unguarded (core_new n) = unguarded n" "cb_under_lock (core_new n) = cb_under_lock n" "s_inited (core_new n) = s_inited n"
  by (simp_all add: core_new_def iface_def)

lemma set_handle_iface [simp]:
  "i < length (s_ifaces n) \<Longrightarrow>
     iface j (set_handle i h n) = (if j = i then (iface i n)\<lparr>smoltcp_handle := h\<rparr> else iface j n)"
  by (simp add: set_handle_def)

lemma set_handle_length [simp]: "length (s_ifaces (set_handle i h n)) = length (s_ifaces n)"
  by (simp add: set_handle_def)

text \<open>A bracketed call keeps the discipline, whatever it does to the context.\<close>

lemma locked_call_lock_ready [wf_intros]:
  assumes "lock_ready n" and "locked_call i f n = (r, n')"
  shows "lock_ready n'"
  using assms
  by (auto simp: locked_call_def Let_def lock_ready_def lock_ok_def lock_defs set_handle_def upd_iface_def
      split: prod.splits)

lemma locked_call_handle:
  assumes "locked_call i f n = (r, n')" and "i < length (s_ifaces n)"
  shows "smoltcp_handle (iface i n') = snd (f (smoltcp_handle (iface i n)))"
    and "r = fst (f (smoltcp_handle (iface i n)))"
    and "j \<noteq> i \<Longrightarrow> iface j n' = iface j n"
    and "length (s_ifaces n') = length (s_ifaces n)"
  using assms by (auto simp: locked_call_def Let_def split: prod.splits)

end
