(* ===== verification/L2_Tap.thy ===== *)
theory L2_Tap
  imports Net_State
begin

text \<open>
  The L2 tap table of \<open>esp_smoltcp.c\<close> (lines 122 to 164): four slots, EtherType 0 marks an
  unused one. \<open>net_stack_l2_tap\<close> registers, replaces or clears a callback and \<open>dispatch_tap\<close>
  hands a received frame to the callback of its EtherType. The table implements a finite map
  from EtherTypes to callbacks: it provides the \<open>slot_table\<close> interface.
\<close>

definition L2_TAP_SLOTS :: nat where "L2_TAP_SLOTS = 4"

definition tap_slots :: "u16 \<Rightarrow> nat option \<Rightarrow> nat \<Rightarrow> l2_tap list \<Rightarrow> esp_err \<times> l2_tap list" where
  "tap_slots et cb user taps =
     (case first_idx (\<lambda>t. ethertype t = et) taps of
        Some i \<Rightarrow>
          (ESP_OK, taps[i := (taps ! i)\<lparr>tap_cb := cb, tap_user := user,
                                       ethertype := (if cb = None then 0 else ethertype (taps ! i))\<rparr>])
      | None \<Rightarrow>
          if cb = None then (ESP_OK, taps)
          else (case first_idx (\<lambda>t. ethertype t = 0) taps of
                  Some i \<Rightarrow> (ESP_OK, taps[i := \<lparr>ethertype = et, tap_cb = cb, tap_user = user\<rparr>])
                | None \<Rightarrow> (ESP_ERR_NO_MEM, taps)))"

definition net_stack_l2_tap ::
  "u16 \<Rightarrow> nat option \<Rightarrow> nat \<Rightarrow> ('q, 'g, 'c, 'e) net \<Rightarrow> esp_err \<times> ('q, 'g, 'c, 'e) net" where
  "net_stack_l2_tap et cb user n =
     (let (r, taps) = tap_slots et cb user (s_taps n) in (r, n\<lparr>s_taps := taps\<rparr>))"

text \<open>The slot \<open>dispatch_tap\<close> stops at, and the EtherType of a frame.\<close>

definition tap_match :: "u16 \<Rightarrow> l2_tap list \<Rightarrow> (nat \<times> nat) option" where
  "tap_match et taps =
     (case first_idx (\<lambda>t. ethertype t = et \<and> tap_cb t \<noteq> None) taps of
        None \<Rightarrow> None
      | Some i \<Rightarrow> map_option (\<lambda>cb. (cb, tap_user (taps ! i))) (tap_cb (taps ! i)))"

definition frame_ethertype :: "u8 list \<Rightarrow> u16" where
  "frame_ethertype bs = push_bit 8 (ucast (bs ! 12)) OR ucast (bs ! 13)"

definition dispatch_tap ::
  "nat \<Rightarrow> net_frame \<Rightarrow> ('q, 'g, 'c, 'e) net \<Rightarrow> bool \<times> ('q, 'g, 'c, 'e) net" where
  "dispatch_tap ifc f n =
     (if frame_len f < 14 then (False, n)
      else case tap_match (frame_ethertype (frame_data f)) (s_taps n) of
          None \<Rightarrow> (False, n)
        | Some (cb, user) \<Rightarrow>
            (True, invoke_cb (TapFrame cb ifc (take (frame_len f) (frame_data f)) (hw_ts_ns f) user) n))"

section \<open>The table as a finite map\<close>

definition tap_lookup :: "l2_tap list \<Rightarrow> u16 \<Rightarrow> (nat \<times> nat) option" where
  "tap_lookup taps et = (if et = 0 then None else tap_match et taps)"

definition tap_bind :: "u16 \<Rightarrow> nat \<times> nat \<Rightarrow> l2_tap list \<Rightarrow> l2_tap list option" where
  "tap_bind et v taps =
     (case tap_slots et (Some (fst v)) (snd v) taps of
        (ESP_OK, taps') \<Rightarrow> Some taps' | _ \<Rightarrow> None)"

definition tap_unbind :: "u16 \<Rightarrow> l2_tap list \<Rightarrow> l2_tap list" where
  "tap_unbind et taps = snd (tap_slots et None 0 taps)"

text \<open>Four slots, no EtherType twice, and a used slot has a callback.\<close>

definition taps_ok :: "l2_tap list \<Rightarrow> bool" where
  "taps_ok taps \<longleftrightarrow> length taps = L2_TAP_SLOTS
     \<and> (\<forall>i < length taps. \<forall>j < length taps.
          ethertype (taps ! i) = ethertype (taps ! j) \<and> ethertype (taps ! i) \<noteq> 0 \<longrightarrow> i = j)
     \<and> (\<forall>t \<in> set taps. ethertype t \<noteq> 0 \<longrightarrow> tap_cb t \<noteq> None)"

lemma taps_ok_length: "taps_ok taps \<Longrightarrow> length taps = 4"
  by (simp add: taps_ok_def L2_TAP_SLOTS_def)

lemma tap_lookup_at:
  assumes ok: "taps_ok taps" and i: "i < length taps" and et: "ethertype (taps ! i) = et" "et \<noteq> 0"
  shows "tap_lookup taps et = map_option (\<lambda>cb. (cb, tap_user (taps ! i))) (tap_cb (taps ! i))"
    and "first_idx (\<lambda>t. ethertype t = et) taps = Some i"
proof -
  have u: "j = i" if "j < length taps" "ethertype (taps ! j) = et" for j
    using ok i et that unfolding taps_ok_def by metis
  have cb: "tap_cb (taps ! i) \<noteq> None"
    using ok i et unfolding taps_ok_def by (metis nth_mem)
  show "first_idx (\<lambda>t. ethertype t = et) taps = Some i"
    by (rule first_idx_unique [OF i]) (use et(1) u in blast)+
  have "first_idx (\<lambda>t. ethertype t = et \<and> tap_cb t \<noteq> None) taps = Some i"
    by (rule first_idx_unique [OF i]) (use et(1) u cb in blast)+
  then have "tap_match et taps = map_option (\<lambda>cb. (cb, tap_user (taps ! i))) (tap_cb (taps ! i))"
    unfolding tap_match_def by (simp only: option.case)
  then show "tap_lookup taps et = map_option (\<lambda>cb. (cb, tap_user (taps ! i))) (tap_cb (taps ! i))"
    using et by (simp only: tap_lookup_def if_False)
qed

lemma tap_lookup_None_iff:
  assumes "taps_ok taps" and "et \<noteq> 0"
  shows "tap_lookup taps et = None \<longleftrightarrow> (\<forall>t \<in> set taps. ethertype t \<noteq> et)"
proof (cases "\<exists>t \<in> set taps. ethertype t = et")
  case True
  then obtain i where i: "i < length taps" "ethertype (taps ! i) = et"
    by (auto simp: in_set_conv_nth)
  then have "tap_cb (taps ! i) \<noteq> None"
    using assms nth_mem [OF i(1)] by (auto simp: taps_ok_def)
  with tap_lookup_at(1) [OF assms(1) i assms(2)] True show ?thesis by auto
next
  case False
  then have "first_idx (\<lambda>t. ethertype t = et \<and> tap_cb t \<noteq> None) taps = None"
    unfolding first_idx_None_iff by blast
  then have "tap_match et taps = None"
    unfolding tap_match_def by (simp only: option.case)
  with False assms(2) show ?thesis by (auto simp: tap_lookup_def)
qed

lemma tap_lookup_dom:
  assumes "taps_ok taps"
  shows "dom (tap_lookup taps) = ethertype ` set taps - {0}"
proof -
  have "tap_lookup taps et \<noteq> None \<longleftrightarrow> et \<in> ethertype ` set taps - {0}" for et
  proof (cases "et = 0")
    case True
    then show ?thesis by (simp add: tap_lookup_def)
  next
    case False
    with tap_lookup_None_iff [OF assms False] show ?thesis by auto
  qed
  then show ?thesis by (auto simp: dom_def)
qed

text \<open>Replacing one slot of a well-formed table.\<close>

lemma taps_ok_update:
  assumes ok: "taps_ok taps" and i: "i < length taps"
    and new: "ethertype t \<noteq> 0 \<longrightarrow> tap_cb t \<noteq> None"
    and fresh: "ethertype t \<noteq> 0 \<longrightarrow> (\<forall>j < length taps. j \<noteq> i \<longrightarrow> ethertype (taps ! j) \<noteq> ethertype t)"
  shows "taps_ok (taps[i := t])"
proof -
  have "\<forall>u \<in> set (taps[i := t]). ethertype u \<noteq> 0 \<longrightarrow> tap_cb u \<noteq> None"
    using ok new unfolding taps_ok_def by (metis set_list_updateD)
  then show ?thesis
    using ok i fresh unfolding taps_ok_def by (simp add: nth_list_update) metis
qed

lemma tap_lookup_update:
  assumes ok: "taps_ok taps" and ok': "taps_ok (taps[i := t])" and i: "i < length taps"
  shows "tap_lookup (taps[i := t]) =
    (\<lambda>et. if et \<noteq> 0 \<and> et = ethertype t then map_option (\<lambda>cb. (cb, tap_user t)) (tap_cb t)
         else if et \<noteq> 0 \<and> et = ethertype (taps ! i) then None else tap_lookup taps et)"
proof
  fix et
  let ?taps = "taps[i := t]"
  consider "et = 0" | "et \<noteq> 0" "et = ethertype t"
    | "et \<noteq> 0" "et \<noteq> ethertype t" "et = ethertype (taps ! i)"
    | "et \<noteq> 0" "et \<noteq> ethertype t" "et \<noteq> ethertype (taps ! i)" by blast
  then show "tap_lookup ?taps et = (if et \<noteq> 0 \<and> et = ethertype t then map_option (\<lambda>cb. (cb, tap_user t)) (tap_cb t)
         else if et \<noteq> 0 \<and> et = ethertype (taps ! i) then None else tap_lookup taps et)"
  proof cases
    case 1
    then show ?thesis by (simp add: tap_lookup_def)
  next
    case 2
    with tap_lookup_at(1) [OF ok', of i et] i show ?thesis by simp
  next
    case 3
    have "\<forall>u \<in> set ?taps. ethertype u \<noteq> et"
    proof
      fix u assume "u \<in> set ?taps"
      then consider "u = t" | j where "j < length taps" "j \<noteq> i" "taps ! j = u"
        using mem_list_update_iff [OF i] by blast
      then show "ethertype u \<noteq> et"
        using ok i 3 unfolding taps_ok_def by cases metis+
    qed
    with tap_lookup_None_iff [OF ok' 3(1)] 3 show ?thesis by simp
  next
    case 4
    have same: "(\<exists>j < length taps. taps ! j = u) \<longleftrightarrow> u \<in> set ?taps" if "ethertype u = et" for u
      using mem_list_update_iff [OF i, of u t] 4 that i by auto
    show ?thesis
    proof (cases "tap_lookup taps et")
      case None
      with tap_lookup_None_iff [OF ok 4(1)] tap_lookup_None_iff [OF ok' 4(1)] same 4
      show ?thesis by (metis in_set_conv_nth)
    next
      case (Some v)
      then obtain j where j: "j < length taps" "ethertype (taps ! j) = et"
        using tap_lookup_None_iff [OF ok 4(1)] by (auto simp: in_set_conv_nth)
      with 4 have "j \<noteq> i" by auto
      with tap_lookup_at(1) [OF ok j 4(1)] tap_lookup_at(1) [OF ok', of j et] j 4 show ?thesis by simp
    qed
  qed
qed

lemma taps_free_slot:
  assumes ok: "taps_ok taps"
  shows "(\<forall>t \<in> set taps. ethertype t \<noteq> 0) \<longleftrightarrow> card (dom (tap_lookup taps)) = L2_TAP_SLOTS"
    and "finite (dom (tap_lookup taps)) \<and> card (dom (tap_lookup taps)) \<le> L2_TAP_SLOTS"
proof -
  let ?E = "ethertype ` set taps"
  have len: "length taps = L2_TAP_SLOTS" using ok by (simp add: taps_ok_def)
  have le: "card ?E \<le> L2_TAP_SLOTS"
    using card_image_le [of "set taps" ethertype] card_length [of taps] len by simp
  have dom: "dom (tap_lookup taps) = ?E - {0}" by (rule tap_lookup_dom [OF ok])
  have "card (?E - {0}) \<le> card ?E" by (rule card_mono) auto
  with le dom show "finite (dom (tap_lookup taps)) \<and> card (dom (tap_lookup taps)) \<le> L2_TAP_SLOTS"
    by simp
  show "(\<forall>t \<in> set taps. ethertype t \<noteq> 0) \<longleftrightarrow> card (dom (tap_lookup taps)) = L2_TAP_SLOTS"
  proof
    assume all: "\<forall>t \<in> set taps. ethertype t \<noteq> 0"
    then have "?E - {0} = ?E" by auto
    moreover have "distinct (map ethertype taps)"
      using ok all unfolding taps_ok_def distinct_conv_nth by (metis length_map nth_map nth_mem)
    then have "card (set (map ethertype taps)) = length taps"
      using distinct_card by fastforce
    ultimately show "card (dom (tap_lookup taps)) = L2_TAP_SLOTS"
      using dom len by simp
  next
    assume full: "card (dom (tap_lookup taps)) = L2_TAP_SLOTS"
    show "\<forall>t \<in> set taps. ethertype t \<noteq> 0"
    proof (rule ccontr)
      assume "\<not> (\<forall>t \<in> set taps. ethertype t \<noteq> 0)"
      then have "0 \<in> ?E" by force
      then have "card (?E - {0}) < card ?E" by (intro psubset_card_mono) auto
      with full dom le show False by simp
    qed
  qed
qed

lemma tap_slots_cases:
  assumes ok: "taps_ok taps" and et: "et \<noteq> 0"
  obtains (present) i where "i < length taps" "ethertype (taps ! i) = et"
      "\<And>cb user. tap_slots et cb user taps = (ESP_OK, taps[i := \<lparr>ethertype = (if cb = None then 0 else et),
         tap_cb = cb, tap_user = user\<rparr>])"
  | (free) i where "i < length taps" "ethertype (taps ! i) = 0" "tap_lookup taps et = None"
      "\<And>cb user. tap_slots et (Some cb) user taps = (ESP_OK, taps[i := \<lparr>ethertype = et,
         tap_cb = Some cb, tap_user = user\<rparr>])"
      "\<And>user. tap_slots et None user taps = (ESP_OK, taps)"
  | (full) "\<forall>t \<in> set taps. ethertype t \<noteq> 0" "tap_lookup taps et = None"
      "\<And>cb user. tap_slots et (Some cb) user taps = (ESP_ERR_NO_MEM, taps)"
      "\<And>user. tap_slots et None user taps = (ESP_OK, taps)"
proof (cases "first_idx (\<lambda>t. ethertype t = et) taps")
  case (Some i)
  note i = first_idx_lt [OF Some] first_idx_holds [OF Some]
  have whole: "t\<lparr>tap_cb := a, tap_user := b, ethertype := c\<rparr> = \<lparr>ethertype = c, tap_cb = a, tap_user = b\<rparr>"
    for t a b c by (cases t) simp
  show ?thesis
  proof (rule present [of i])
    show "i < length taps" and "ethertype (taps ! i) = et" by (fact i)+
    show "tap_slots et cb user taps = (ESP_OK, taps[i := \<lparr>ethertype = (if cb = None then 0 else et),
         tap_cb = cb, tap_user = user\<rparr>])" for cb user
      using i by (simp add: tap_slots_def Some whole)
  qed
next
  case None
  then have "tap_lookup taps et = None"
    using tap_lookup_None_iff [OF ok et] by simp
  note absent = None this
  show ?thesis
  proof (cases "first_idx (\<lambda>t. ethertype t = 0) taps")
    case (Some i)
    show ?thesis
      by (rule free [OF first_idx_lt [OF Some]])
        (use first_idx_holds [OF Some] in \<open>simp_all only: tap_slots_def absent Some option.case option.distinct if_True if_False simp_thms\<close>)
  next
    case none: None
    then have "\<forall>t \<in> set taps. ethertype t \<noteq> 0" by simp
    then show ?thesis
      by (rule full) (use none in \<open>simp_all only: tap_slots_def absent none option.case
          option.distinct if_True if_False simp_thms\<close>)
  qed
qed

interpretation taps: slot_table tap_lookup tap_bind tap_unbind taps_ok "\<lambda>et. et \<noteq> 0" L2_TAP_SLOTS
proof
  fix t t' :: "l2_tap list" and k :: u16 and v :: "nat \<times> nat"
  assume ok: "taps_ok t"
  show "finite (dom (tap_lookup t)) \<and> card (dom (tap_lookup t)) \<le> L2_TAP_SLOTS"
    by (rule taps_free_slot(2) [OF ok])
  assume k: "k \<noteq> 0"
  show "taps_ok t' \<and> tap_lookup t' = (tap_lookup t)(k \<mapsto> v)" if b: "tap_bind k v t = Some t'"
  proof -
    obtain i where i: "i < length t" and fresh: "ethertype (t ! i) = k \<or> ethertype (t ! i) = 0 \<and> tap_lookup t k = None"
      and t': "t' = t[i := \<lparr>ethertype = k, tap_cb = Some (fst v), tap_user = snd v\<rparr>]"
      using ok k by (rule tap_slots_cases) (use b in \<open>auto simp: tap_bind_def\<close>)
    have "taps_ok t'"
      unfolding t' using fresh tap_lookup_None_iff [OF ok k] ok i k
      by (intro taps_ok_update) (auto simp: taps_ok_def)
    moreover have "tap_lookup t' = (tap_lookup t)(k \<mapsto> v)"
      using tap_lookup_update [OF ok _ i] \<open>taps_ok t'\<close> fresh k unfolding t' by (auto simp: fun_eq_iff)
    ultimately show ?thesis ..
  qed
  show "tap_bind k v t = None \<longleftrightarrow> tap_lookup t k = None \<and> card (dom (tap_lookup t)) = L2_TAP_SLOTS"
    using ok k
  proof (cases rule: tap_slots_cases)
    case (present i)
    then have "tap_lookup t k \<noteq> None"
      using tap_lookup_None_iff [OF ok k] nth_mem by blast
    with present show ?thesis by (simp add: tap_bind_def)
  next
    case (free i)
    then have "card (dom (tap_lookup t)) \<noteq> L2_TAP_SLOTS"
      using taps_free_slot(1) [OF ok] nth_mem by blast
    with free show ?thesis by (simp add: tap_bind_def)
  next
    case full
    with taps_free_slot(1) [OF ok] show ?thesis by (simp add: tap_bind_def)
  qed
  show "taps_ok (tap_unbind k t) \<and> tap_lookup (tap_unbind k t) = (tap_lookup t)(k := None)"
    using ok k
  proof (cases rule: tap_slots_cases)
    case (present i)
    let ?t = "t[i := \<lparr>ethertype = 0, tap_cb = None, tap_user = 0\<rparr>]"
    have u: "tap_unbind k t = ?t" using present(3) by (simp add: tap_unbind_def)
    have "taps_ok ?t" by (rule taps_ok_update [OF ok present(1)]) simp_all
    with tap_lookup_update [OF ok this present(1)] present k show ?thesis
      unfolding u by (auto simp: fun_eq_iff)
  qed (use ok in \<open>auto simp: tap_unbind_def fun_eq_iff\<close>)
qed

section \<open>Properties\<close>

lemma net_stack_l2_tap_bind:
  "fst (net_stack_l2_tap et (Some cb) user n) = ESP_OK \<Longrightarrow>
     tap_bind et (cb, user) (s_taps n) = Some (s_taps (snd (net_stack_l2_tap et (Some cb) user n)))"
  by (auto simp: net_stack_l2_tap_def tap_bind_def split: prod.splits esp_err.splits)

text \<open>C19: Registering a callback for an EtherType and later looking a frame's EtherType up behave
  like a finite map with room for four entries: the registration succeeds unless the table
  already holds four other EtherTypes, in which case it returns \<open>ESP_ERR_NO_MEM\<close> and changes
  nothing; on success exactly this EtherType's callback is replaced.\<close>

theorem l2_tap_refines_map:
  assumes "taps_ok (s_taps n)" and "et \<noteq> 0"
    and "net_stack_l2_tap et (Some cb) user n = (r, n')"
  shows "(r = ESP_OK \<and> taps_ok (s_taps n') \<and>
            tap_lookup (s_taps n') = (tap_lookup (s_taps n))(et \<mapsto> (cb, user)))
       \<or> (r = ESP_ERR_NO_MEM \<and> n' = n \<and> tap_lookup (s_taps n) et = None \<and>
            card (dom (tap_lookup (s_taps n))) = L2_TAP_SLOTS)"
proof (cases "tap_bind et (cb, user) (s_taps n)")
  case None
  then have "tap_lookup (s_taps n) et = None \<and> card (dom (tap_lookup (s_taps n))) = L2_TAP_SLOTS"
    using taps.bind_None_iff [OF assms(1,2)] by blast
  moreover have "r = ESP_ERR_NO_MEM \<and> n' = n"
    using assms(1,2)
    by (rule tap_slots_cases) (use None assms(3) in \<open>auto simp: tap_bind_def net_stack_l2_tap_def\<close>)
  ultimately show ?thesis by blast
next
  case (Some taps')
  have "r = ESP_OK \<and> s_taps n' = taps'"
    using Some assms(3)
    by (auto simp: tap_bind_def net_stack_l2_tap_def split: prod.splits esp_err.splits)
  with taps.bind_SomeD [OF assms(1,2) Some] show ?thesis by simp
qed

lemma taps_ok_boot: "taps_ok (s_taps (net_boot k e))"
  by (auto simp: net_boot_def tap_boot_def taps_ok_def L2_TAP_SLOTS_def)

theorem l2_tap_refines_map_witness:
  "let n = net_boot 4 () :: (unit, unit, unit, unit) net in
     taps_ok (s_taps n) \<and> fst (net_stack_l2_tap 0x88F7 (Some 7) 0 n) = ESP_OK \<and>
     tap_lookup (s_taps (snd (net_stack_l2_tap 0x88F7 (Some 7) 0 n))) 0x88F7 = Some (7, 0)"
proof -
  let ?n = "net_boot 4 () :: (unit, unit, unit, unit) net"
  have r: "fst (net_stack_l2_tap 0x88F7 (Some 7) 0 ?n) = ESP_OK"
    by (simp add: net_stack_l2_tap_def tap_slots_def net_boot_def tap_boot_def numeral_eq_Suc)
  have "tap_lookup (s_taps (snd (net_stack_l2_tap 0x88F7 (Some 7) 0 ?n))) 0x88F7 = Some (7, 0)"
    using l2_tap_refines_map [where n = ?n and et = "0x88F7" and cb = 7 and user = 0, OF taps_ok_boot _
        prod.collapse [symmetric]] r
    by auto
  with r show ?thesis by (simp only: Let_def taps_ok_boot simp_thms)
qed

text \<open>What \<open>dispatch_tap\<close> does with a frame depends on the table only through the look-up of the
  frame's EtherType.\<close>

lemma dispatch_tap_lookup:
  assumes "frame_ethertype (frame_data f) \<noteq> 0"
  shows "dispatch_tap i f n =
     (case (if frame_len f < 14 then None else tap_lookup (s_taps n) (frame_ethertype (frame_data f))) of
        None \<Rightarrow> (False, n)
      | Some (cb, user) \<Rightarrow> (True, invoke_cb (TapFrame cb i (take (frame_len f) (frame_data f)) (hw_ts_ns f) user) n))"
  using assms by (simp add: dispatch_tap_def tap_lookup_def)

lemma net_stack_l2_tap_log: "cb_log (snd (net_stack_l2_tap et cb user n)) = cb_log n"
  by (simp add: net_stack_l2_tap_def case_prod_unfold Let_def)

text \<open>Two tables that agree on an EtherType treat a frame of that type alike.\<close>

lemma dispatch_tap_cong:
  assumes "frame_ethertype (frame_data f) \<noteq> 0" and "cb_log n' = cb_log n"
    and "tap_lookup (s_taps n') (frame_ethertype (frame_data f)) = tap_lookup (s_taps n) (frame_ethertype (frame_data f))"
  shows "fst (dispatch_tap i f n') = fst (dispatch_tap i f n) \<and> cb_log (snd (dispatch_tap i f n')) = cb_log (snd (dispatch_tap i f n))"
  using assms by (simp add: dispatch_tap_lookup invoke_cb_def split: option.split)

text \<open>C28: Once a callback is registered for an EtherType it receives exactly the frames of that type.
  A frame of at least 14 bytes with the EtherType goes to this callback and not to smoltcp, with
  exactly the received bytes, the receive timestamp and the registered user argument; a frame
  shorter than an Ethernet header is never consumed, whatever its bytes; a frame of another type (0,
  the mark of an unused slot, apart) is consumed or not, and by the same callback, as before the
  registration. After the registration is cleared no frame with the EtherType is consumed and the
  frames of other types are treated as before.\<close>

theorem tap_register_dispatch:
  assumes ok: "taps_ok (s_taps n)" and et: "et \<noteq> 0"
    and reg: "net_stack_l2_tap et (Some cb) user n = (ESP_OK, n')" and clr: "net_stack_l2_tap et None 0 n' = (r, n'')"
  shows "(frame_len f < 14 \<longrightarrow> dispatch_tap i f n' = (False, n') \<and> dispatch_tap i f n'' = (False, n''))
    \<and> (14 \<le> frame_len f \<longrightarrow> frame_ethertype (frame_data f) = et \<longrightarrow>
         dispatch_tap i f n' = (True, invoke_cb (TapFrame cb i (take (frame_len f) (frame_data f)) (hw_ts_ns f) user) n')
       \<and> dispatch_tap i f n'' = (False, n''))
    \<and> (frame_ethertype (frame_data f) \<notin> {0, et} \<longrightarrow> (\<forall>m \<in> {n', n''}.
         fst (dispatch_tap i f m) = fst (dispatch_tap i f n) \<and> cb_log (snd (dispatch_tap i f m)) = cb_log (snd (dispatch_tap i f n))))"
proof -
  from reg have b: "tap_bind et (cb, user) (s_taps n) = Some (s_taps n')"
    using net_stack_l2_tap_bind [of et cb user n] by simp
  note B = taps.bind_SomeD [OF ok et b]
  have "s_taps n'' = tap_unbind et (s_taps n')"
    using clr by (auto simp: net_stack_l2_tap_def tap_unbind_def split: prod.splits)
  then have U: "tap_lookup (s_taps n'') = (tap_lookup (s_taps n'))(et := None)"
    using taps.unbind [OF B [THEN conjunct1] et] by simp
  have log: "cb_log n' = cb_log n" "cb_log n'' = cb_log n"
    using net_stack_l2_tap_log [of et "Some cb" user n] net_stack_l2_tap_log [of et None 0 n'] reg clr by simp_all
  have "frame_len f < 14 \<longrightarrow> dispatch_tap i f n' = (False, n') \<and> dispatch_tap i f n'' = (False, n'')"
    by (simp add: dispatch_tap_def)
  moreover have "dispatch_tap i f n' = (True, invoke_cb (TapFrame cb i (take (frame_len f) (frame_data f)) (hw_ts_ns f) user) n')
       \<and> dispatch_tap i f n'' = (False, n'')" if "14 \<le> frame_len f" "frame_ethertype (frame_data f) = et"
    using that et B U by (simp add: dispatch_tap_lookup)
  moreover have "fst (dispatch_tap i f m) = fst (dispatch_tap i f n) \<and> cb_log (snd (dispatch_tap i f m)) = cb_log (snd (dispatch_tap i f n))"
    if "frame_ethertype (frame_data f) \<notin> {0, et}" "m \<in> {n', n''}" for m
    by (rule dispatch_tap_cong) (use that B U log in auto)
  ultimately show ?thesis by blast
qed

definition ptp_frame :: net_frame where
  "ptp_frame = \<lparr>frame_len = 14, hw_ts_ns = -1, frame_data = replicate 12 0 @ [0x88, 0xF7]\<rparr>"

theorem tap_register_dispatch_witness:
  "let n = snd (net_stack_l2_tap 0x88F7 (Some 7) 3 (net_boot 4 () :: (unit, unit, unit, unit) net)) in
     dispatch_tap 0 ptp_frame n =
       (True, invoke_cb (TapFrame 7 0 (replicate 12 0 @ [0x88, 0xF7]) (-1) 3) n)"
proof -
  let ?b = "net_boot 4 () :: (unit, unit, unit, unit) net"
  have r: "net_stack_l2_tap 0x88F7 (Some 7) 3 ?b = (ESP_OK, snd (net_stack_l2_tap 0x88F7 (Some 7) 3 ?b))"
    by (simp add: net_stack_l2_tap_def tap_slots_def net_boot_def tap_boot_def numeral_eq_Suc)
  have e: "frame_ethertype (frame_data ptp_frame) = 0x88F7" "14 \<le> frame_len ptp_frame"
    by (simp_all add: ptp_frame_def frame_ethertype_def nth_append push_bit_eq_mult)
  from tap_register_dispatch [OF taps_ok_boot _ r prod.collapse [symmetric], of ptp_frame 0] e show ?thesis
    by (simp add: Let_def ptp_frame_def)
qed

end
