(* ===== verification/Frame_Pool.thy ===== *)
theory Frame_Pool
  imports L2_Tap "HOL-Library.Multiset"
begin

text \<open>
  The receive-frame slab pool of \<open>esp_smoltcp.c\<close> (lines 34 to 79): \<open>POOL_SZ\<close> preallocated frames
  recycled through a queue of free frames. A \<open>net_frame_t *\<close> is the index of the frame in
  \<open>s_frame_pool\<close>, \<open>None\<close> for NULL. \<open>xQueueSend\<close> on a null queue fails an assertion of FreeRTOS and
  stops the firmware: the result \<open>None\<close> of \<open>frame_pool_init\<close>.

  The pool relies on the queue only through the laws of \<open>rtos_queue\<close>; over any such queue it
  provides the \<open>slab\<close> interface.
\<close>

section \<open>Operations\<close>

fun frame_pool_fill :: "('q, 'g, 'e) platform \<Rightarrow> nat list \<Rightarrow> 'q option \<Rightarrow> 'q option option" where
  "frame_pool_fill P [] q = Some q"
| "frame_pool_fill P (p # ps) None = None"
| "frame_pool_fill P (p # ps) (Some q) =
     frame_pool_fill P ps (Some (case xQueueSend (queues P) q p of Some q' \<Rightarrow> q' | None \<Rightarrow> q))"

text \<open>\<open>created\<close> is what \<open>xQueueCreate\<close> returned.\<close>

definition frame_pool_init ::
  "('q, 'g, 'e) platform \<Rightarrow> 'q option \<Rightarrow> ('q, 'g, 'c, 'e) net \<Rightarrow> ('q, 'g, 'c, 'e) net option" where
  "frame_pool_init P created n =
     map_option (\<lambda>q. n\<lparr>s_frame_free_q := q\<rparr>)
       (frame_pool_fill P [0..<length (s_frame_pool n)] created)"

definition net_frame_alloc ::
  "('q, 'g, 'e) platform \<Rightarrow> nat \<Rightarrow> ('q, 'g, 'c, 'e) net \<Rightarrow> nat option \<times> ('q, 'g, 'c, 'e) net" where
  "net_frame_alloc P len n =
     (case s_frame_free_q n of
        None \<Rightarrow> (None, n\<lparr>s_frame_alloc_fail := s_frame_alloc_fail n + 1\<rparr>)
      | Some q \<Rightarrow>
          if len > NET_FRAME_BUF then (None, n\<lparr>s_frame_alloc_fail := s_frame_alloc_fail n + 1\<rparr>)
          else (case xQueueReceive (queues P) q of
              None \<Rightarrow> (None, n\<lparr>s_frame_alloc_fail := s_frame_alloc_fail n + 1\<rparr>)
            | Some (f, q') \<Rightarrow>
                (Some f, n\<lparr>s_frame_free_q := Some q',
                   s_frame_pool := (s_frame_pool n)[f := (s_frame_pool n ! f)\<lparr>frame_len := len, hw_ts_ns := -1\<rparr>]\<rparr>)))"

definition net_frame_free ::
  "('q, 'g, 'e) platform \<Rightarrow> nat option \<Rightarrow> ('q, 'g, 'c, 'e) net \<Rightarrow> ('q, 'g, 'c, 'e) net" where
  "net_frame_free P f n =
     (case (f, s_frame_free_q n) of
        (Some p, Some q) \<Rightarrow>
          n\<lparr>s_frame_free_q := Some (case xQueueSend (queues P) q p of Some q' \<Rightarrow> q' | None \<Rightarrow> q)\<rparr>
      | _ \<Rightarrow> n)"

definition net_stack_frame_drops :: "('q, 'g, 'c, 'e) net \<Rightarrow> u32" where
  "net_stack_frame_drops n = s_frame_alloc_fail n"

section \<open>What is in the free queue\<close>

definition free_list :: "('q \<Rightarrow> nat list) \<Rightarrow> ('q, 'g, 'c, 'e) net \<Rightarrow> nat list" where
  "free_list contents n = (case s_frame_free_q n of None \<Rightarrow> [] | Some q \<Rightarrow> contents q)"

text \<open>The pool of \<open>N\<close> frames: the queue has room for all of them and holds each at most once.\<close>

definition pool_ok :: "('q \<Rightarrow> nat list) \<Rightarrow> ('q \<Rightarrow> nat) \<Rightarrow> nat \<Rightarrow> ('q, 'g, 'c, 'e) net \<Rightarrow> bool" where
  "pool_ok contents capacity N n \<longleftrightarrow> length (s_frame_pool n) = N
     \<and> (\<exists>q. s_frame_free_q n = Some q \<and> capacity q = N \<and> distinct (contents q) \<and> set (contents q) \<subseteq> {..<N})"

definition pool_alloc ::
  "('q, 'g, 'e) platform \<Rightarrow> nat \<Rightarrow> ('q, 'g, 'c, 'e) net \<Rightarrow> (nat \<times> ('q, 'g, 'c, 'e) net) option" where
  "pool_alloc P len n = (case net_frame_alloc P len n of (Some f, n') \<Rightarrow> Some (f, n') | (None, _) \<Rightarrow> None)"

lemma net_frame_frame [simp]:
  "s_ifaces (net_frame_free P f n) = s_ifaces n" "s_frame_pool (net_frame_free P f n) = s_frame_pool n"
  "s_taps (net_frame_free P f n) = s_taps n" "cb_log (net_frame_free P f n) = cb_log n"
  "tx_free_mask (net_frame_free P f n) = tx_free_mask n" "s_evt (net_frame_free P f n) = s_evt n"
  "s_progress_evt (net_frame_free P f n) = s_progress_evt n" "s_user_cb (net_frame_free P f n) = s_user_cb n"
  "lock_created (net_frame_free P f n) = lock_created n" "lock_held (net_frame_free P f n) = lock_held n"
  "lock_fault (net_frame_free P f n) = lock_fault n" "unguarded (net_frame_free P f n) = unguarded n"
  "cb_under_lock (net_frame_free P f n) = cb_under_lock n" "iface i (net_frame_free P f n) = iface i n"
  "ext (net_frame_free P f n) = ext n" "s_task (net_frame_free P f n) = s_task n"
  by (auto simp: net_frame_free_def iface_def split: option.split)

lemma net_frame_alloc_frame:
  assumes "net_frame_alloc P len n = (r, n')"
  shows "s_ifaces n' = s_ifaces n" "s_taps n' = s_taps n" "cb_log n' = cb_log n"
    "tx_free_mask n' = tx_free_mask n" "s_evt n' = s_evt n" "s_progress_evt n' = s_progress_evt n"
    "s_user_cb n' = s_user_cb n" "lock_created n' = lock_created n" "lock_held n' = lock_held n"
    "lock_fault n' = lock_fault n" "unguarded n' = unguarded n" "cb_under_lock n' = cb_under_lock n"
    "length (s_frame_pool n') = length (s_frame_pool n)" "s_task n' = s_task n"
  using assms by (auto simp: net_frame_alloc_def split: option.splits if_splits)

section \<open>The pool over any queue that keeps the FreeRTOS laws\<close>

locale net_platform = rtos_queue "queues P" contents capacity
  for P :: "('q, 'g, 'e) platform" and contents :: "'q \<Rightarrow> nat list" and capacity :: "'q \<Rightarrow> nat"
begin

lemma frame_pool_fill_contents:
  "length (contents q) + length ps \<le> capacity q \<Longrightarrow>
     \<exists>q'. frame_pool_fill P ps (Some q) = Some (Some q') \<and> contents q' = contents q @ ps
       \<and> capacity q' = capacity q"
proof (induction ps arbitrary: q)
  case Nil
  then show ?case by simp
next
  case (Cons p ps)
  then obtain q1 where q1: "xQueueSend (queues P) q p = Some q1" "contents q1 = contents q @ [p]"
    "capacity q1 = capacity q"
    using send_room [of q p] by auto
  with Cons.IH [of q1] Cons.prems show ?case by auto
qed

lemma net_frame_alloc_SomeD:
  assumes "net_frame_alloc P len n = (Some f, n')"
  shows "free_list contents n = f # free_list contents n'"
    and "len \<le> NET_FRAME_BUF"
    and "s_frame_pool n' = (s_frame_pool n)[f := (s_frame_pool n ! f)\<lparr>frame_len := len, hw_ts_ns := -1\<rparr>]"
    and "\<exists>q q'. s_frame_free_q n = Some q \<and> s_frame_free_q n' = Some q' \<and> capacity q' = capacity q"
    and "s_frame_alloc_fail n' = s_frame_alloc_fail n"
  using assms
  by (auto simp: net_frame_alloc_def free_list_def split: option.splits if_splits dest: receive_SomeD)

lemma net_frame_alloc_None_iff:
  "fst (net_frame_alloc P len n) = None \<longleftrightarrow> NET_FRAME_BUF < len \<or> free_list contents n = []"
  by (auto simp: net_frame_alloc_def free_list_def receive_None_iff dest: receive_SomeD
      split: option.splits if_splits)

lemma net_frame_alloc_NoneD:
  assumes "net_frame_alloc P len n = (None, n')"
  shows "n' = n\<lparr>s_frame_alloc_fail := s_frame_alloc_fail n + 1\<rparr>"
  using assms by (auto simp: net_frame_alloc_def split: option.splits if_splits)

lemma net_frame_free_list:
  assumes "s_frame_free_q n = Some q" and "length (contents q) < capacity q"
  shows "free_list contents (net_frame_free P (Some f) n) = free_list contents n @ [f]"
    and "\<exists>q'. s_frame_free_q (net_frame_free P (Some f) n) = Some q' \<and> capacity q' = capacity q"
  using assms send_room [of q f] by (auto simp: net_frame_free_def free_list_def)

lemma pool_ok_room:
  assumes "distinct xs" and "set xs \<subseteq> {..<N}" and "f < N" and "f \<notin> set xs"
  shows "length xs < N"
proof -
  have "card (insert f (set xs)) \<le> N"
    using assms card_mono [of "{..<N}" "insert f (set xs)"] by simp
  with assms distinct_card [of xs] show ?thesis by simp
qed

end

text \<open>Allocation and release of frames are a slab of \<open>N\<close> buffers.\<close>

sublocale net_platform \<subseteq> fpool: slab "pool_alloc P NET_FRAME_BUF" "\<lambda>f. net_frame_free P (Some f)"
  "\<lambda>n. set (free_list contents n)" "pool_ok contents capacity N" "{..<N}" for N
proof
  fix n n' :: "('q, 'g, 'h, 'e) net" and f :: nat
  show "finite {..<N}" by simp
  assume ok: "pool_ok contents capacity N n"
  then obtain q where q: "s_frame_free_q n = Some q" "capacity q = N" "distinct (contents q)"
    "set (contents q) \<subseteq> {..<N}" and len: "length (s_frame_pool n) = N"
    by (auto simp: pool_ok_def)
  from q show "set (free_list contents n) \<subseteq> {..<N}" by (simp add: free_list_def)
  show "f \<in> set (free_list contents n) \<and> set (free_list contents n') = set (free_list contents n) - {f}
      \<and> pool_ok contents capacity N n'"
    if a: "pool_alloc P NET_FRAME_BUF n = Some (f, n')"
  proof -
    from a have alloc: "net_frame_alloc P NET_FRAME_BUF n = (Some f, n')"
      by (auto simp: pool_alloc_def split: prod.splits option.splits)
    note A = net_frame_alloc_SomeD [OF alloc]
    from A(4) q(1,2) obtain q' where q': "s_frame_free_q n' = Some q'" "capacity q' = N" by auto
    from A(1) q q' have "contents q = f # contents q'" by (simp add: free_list_def)
    with q q' len A(3) show ?thesis
      by (auto simp: free_list_def pool_ok_def)
  qed
  show "pool_alloc P NET_FRAME_BUF n = None \<longleftrightarrow> set (free_list contents n) = {}"
    using net_frame_alloc_None_iff [of NET_FRAME_BUF n]
    by (auto simp: pool_alloc_def split: prod.splits option.splits)
  show "set (free_list contents (net_frame_free P (Some f) n)) = insert f (set (free_list contents n))
      \<and> pool_ok contents capacity N (net_frame_free P (Some f) n)"
    if f: "f \<in> {..<N}" "f \<notin> set (free_list contents n)"
  proof -
    have room: "length (contents q) < capacity q"
      using pool_ok_room [of "contents q" N f] q f by (simp add: free_list_def)
    note F = net_frame_free_list [OF q(1) room, of f]
    then show ?thesis
      using q f len by (auto simp: free_list_def pool_ok_def)
  qed
qed

context net_platform
begin

lemma frame_pool_init_ok:
  assumes "contents q = []" and "capacity q = length (s_frame_pool n)"
  shows "\<exists>n'. frame_pool_init P (Some q) n = Some n' \<and> pool_ok contents capacity (length (s_frame_pool n)) n'
    \<and> free_list contents n' = [0..<length (s_frame_pool n)]"
  using frame_pool_fill_contents [of q "[0..<length (s_frame_pool n)]"] assms
  by (auto simp: frame_pool_init_def pool_ok_def free_list_def)

lemma pool_is_exact:
  assumes "contents q = []" and "capacity q = length (s_frame_pool n)"
  shows "\<exists>n'. frame_pool_init P (Some q) n = Some n' \<and>
    (\<forall>k. (\<exists>fs m. alloc_many (pool_alloc P NET_FRAME_BUF) k n' = Some (fs, m)) \<longleftrightarrow> k \<le> length (s_frame_pool n)) \<and>
    (\<forall>k fs m. alloc_many (pool_alloc P NET_FRAME_BUF) k n' = Some (fs, m) \<longrightarrow>
       distinct fs \<and> length fs = k \<and> set fs \<subseteq> {..<length (s_frame_pool n)} \<and>
       (\<forall>f \<in> set fs. f \<notin> set (free_list contents m) \<and>
          set (free_list contents (net_frame_free P (Some f) m)) = insert f (set (free_list contents m))))"
proof -
  let ?N = "length (s_frame_pool n)"
  from frame_pool_init_ok [OF assms] obtain n' where init: "frame_pool_init P (Some q) n = Some n'"
    and ok: "pool_ok contents capacity ?N n'" and free: "free_list contents n' = [0..<?N]" by blast
  note iff = fpool.alloc_many_iff [OF ok]
  note dist = fpool.alloc_many_distinct [OF ok]
  note rel = fpool.release
  show ?thesis
  proof (intro exI conjI allI impI)
    show "frame_pool_init P (Some q) n = Some n'" by (fact init)
    show "(\<exists>fs m. alloc_many (pool_alloc P NET_FRAME_BUF) k n' = Some (fs, m)) \<longleftrightarrow> k \<le> ?N" for k
      using iff [of k] free by simp
    fix k fs m assume "alloc_many (pool_alloc P NET_FRAME_BUF) k n' = Some (fs, m)"
    note D = dist [OF this]
    then show "distinct fs" and "length fs = k" and "set fs \<subseteq> {..<?N}" using free by auto
    show "\<forall>f \<in> set fs. f \<notin> set (free_list contents m) \<and>
          set (free_list contents (net_frame_free P (Some f) m)) = insert f (set (free_list contents m))"
    proof
      fix f assume "f \<in> set fs"
      with D free have "f \<in> {..<?N}" "f \<notin> set (free_list contents m)" by auto
      with rel [of ?N m f] D show "f \<notin> set (free_list contents m) \<and>
          set (free_list contents (net_frame_free P (Some f) m)) = insert f (set (free_list contents m))" by blast
    qed
  qed
qed

end

lemma ref_platform_queues [simp]: "queues ref_platform = ring_ops"
  by (simp add: ref_platform_def)

interpretation ref_net: net_platform ref_platform ring_contents ring_capacity
  by unfold_locales (simp_all add: rq.send_room rq.send_full rq.receive_empty rq.receive_next rq.waiting)

section \<open>Properties\<close>

text \<open>C24: The frame pool is an exact allocator. After \<open>frame_pool_init\<close> on a new queue, \<open>k\<close> frames
  can be allocated one after the other exactly when \<open>k\<close> is at most \<open>POOL_SZ\<close>; the frames handed
  out are pairwise different and inside the static array, and each of them, given back, is
  available again.\<close>

theorem frame_pool_exact:
  assumes P: "net_platform P contents capacity"
    and q: "contents q = []" "capacity q = length (s_frame_pool n)"
  shows "\<exists>n'. frame_pool_init P (Some q) n = Some n' \<and>
    (\<forall>k. (\<exists>fs m. alloc_many (pool_alloc P NET_FRAME_BUF) k n' = Some (fs, m)) \<longleftrightarrow> k \<le> length (s_frame_pool n)) \<and>
    (\<forall>k fs m. alloc_many (pool_alloc P NET_FRAME_BUF) k n' = Some (fs, m) \<longrightarrow>
       distinct fs \<and> length fs = k \<and> set fs \<subseteq> {..<length (s_frame_pool n)} \<and>
       (\<forall>f \<in> set fs. f \<notin> set (free_list contents m) \<and>
          set (free_list contents (net_frame_free P (Some f) m)) = insert f (set (free_list contents m))))"
  by (rule net_platform.pool_is_exact [OF P q])

theorem frame_pool_exact_witness:
  "\<exists>n'. frame_pool_init ref_platform (Some (ring_new 3)) (net_boot 3 ref_ext0 :: (ring, u32, ref_stack, ref_ext) net) = Some n'
     \<and> (\<exists>fs m. alloc_many (pool_alloc ref_platform NET_FRAME_BUF) 3 n' = Some (fs, m))
     \<and> \<not> (\<exists>fs m. alloc_many (pool_alloc ref_platform NET_FRAME_BUF) 4 n' = Some (fs, m))"
proof -
  let ?n = "net_boot 3 ref_ext0 :: (ring, u32, ref_stack, ref_ext) net"
  have len: "length (s_frame_pool ?n) = 3" by (simp add: net_boot_def)
  from frame_pool_exact [OF ref_net.net_platform_axioms, of "ring_new 3" ?n] obtain n'
    where init: "frame_pool_init ref_platform (Some (ring_new 3)) ?n = Some n'"
      and iff: "\<forall>k. (\<exists>fs m. alloc_many (pool_alloc ref_platform NET_FRAME_BUF) k n' = Some (fs, m)) \<longleftrightarrow> k \<le> 3"
    unfolding len by auto
  show ?thesis
    by (rule exI [of _ n'], intro conjI init, unfold iff [rule_format]) simp_all
qed

end
