(* ===== verification/Net_Stack.thy ===== *)
theory Net_Stack
  imports Frame_Pool "HOL-Library.Signed_Division"
begin

text \<open>
  The network stack proper (\<open>components/esp_smoltcp/src/esp_smoltcp.c\<close> from line 81, and the tap
  registration of \<open>ptp.c\<close>): the receive path from the Ethernet driver into the per-interface
  queue, the poll task, the transmit path, initialisation, attachment of the driver and the
  public queries.

  A result \<open>None\<close> means that the call does not return: FreeRTOS stops the firmware on a null
  queue or event group, or the Rust core panics. What FreeRTOS and the drivers answer to a
  creation or configuration request is an argument (\<open>init_env\<close>, \<open>attach_env\<close>); what the other
  tasks do while a task is blocked is the record \<open>rtos\<close>.
\<close>

section \<open>Event delivery and the receive path\<close>

definition emit_event :: "nat \<Rightarrow> net_event \<Rightarrow> ('q, 'g, 'c, 'e) net \<Rightarrow> ('q, 'g, 'c, 'e) net" where
  "emit_event ifc evt n =
     (case s_user_cb n of None \<Rightarrow> n | Some cb \<Rightarrow> invoke_cb (UserEvent cb ifc evt (s_user_cb_arg n)) n)"

definition net_stack_link_event :: "nat \<Rightarrow> bool \<Rightarrow> ('q, 'g, 'c, 'e) net \<Rightarrow> ('q, 'g, 'c, 'e) net" where
  "net_stack_link_event ifc up n =
     (if ifc \<ge> NET_IFACE_MAX then n
      else
        let n1 = upd_iface ifc (\<lambda>f. f\<lparr>link_up := up\<rparr>) n;
            n2 = (if up then upd_iface ifc (\<lambda>f. f\<lparr>link_ups := link_ups f + 1\<rparr>) n1
                  else upd_iface ifc (\<lambda>f. f\<lparr>link_downs := link_downs f + 1\<rparr>) n1);
            n3 = (if lock_created n2
                  then snd (locked_call ifc (\<lambda>h. ((), smoltcp_iface_set_link_up h up)) n2) else n2)
        in notify_task (emit_event ifc (if up then IFACE_UP else IFACE_DOWN) n3))"

definition net_stack_post_rx ::
  "('q, 'g, 'e) platform \<Rightarrow> nat \<Rightarrow> nat \<Rightarrow> ('q, 'g, 'c, 'e) net \<Rightarrow> ('q, 'g, 'c, 'e) net option" where
  "net_stack_post_rx P ifc f n =
     (if ifc \<ge> NET_IFACE_MAX \<or> \<not> enabled (iface ifc n) then Some (net_frame_free P (Some f) n)
      else
        let n1 = upd_iface ifc (\<lambda>i. i\<lparr>rx_frames := rx_frames i + 1,
                   rx_bytes := rx_bytes i + of_nat (frame_len (s_frame_pool n ! f))\<rparr>) n
        in case rx_queue (iface ifc n1) of
             None \<Rightarrow> None
           | Some q \<Rightarrow>
               (case xQueueSend (queues P) q f of
                  None \<Rightarrow> Some (net_frame_free P (Some f) (upd_iface ifc (\<lambda>i. i\<lparr>rx_drops := rx_drops i + 1\<rparr>) n1))
                | Some q' \<Rightarrow> Some (notify_task (upd_iface ifc (\<lambda>i. i\<lparr>rx_queue := Some q'\<rparr>) n1))))"

text \<open>\<open>memcpy(f->data, buf, len)\<close>.\<close>

definition copy_frame :: "nat \<Rightarrow> u8 list \<Rightarrow> ('q, 'g, 'c, 'e) net \<Rightarrow> ('q, 'g, 'c, 'e) net" where
  "copy_frame f buf n =
     n\<lparr>s_frame_pool := (s_frame_pool n)[f := (s_frame_pool n ! f)
          \<lparr>frame_data := buf @ drop (length buf) (frame_data (s_frame_pool n ! f))\<rparr>]\<rparr>"

definition eth_input_cb ::
  "('q, 'g, 'e) platform \<Rightarrow> u8 list \<Rightarrow> ('q, 'g, 'c, 'e) net \<Rightarrow> (esp_err \<times> ('q, 'g, 'c, 'e) net) option" where
  "eth_input_cb P buf n =
     (case net_frame_alloc P (length buf) n of
        (None, n1) \<Rightarrow> Some (ESP_ERR_NO_MEM, n1)
      | (Some f, n1) \<Rightarrow>
          map_option (\<lambda>n2. (ESP_OK, n2)) (net_stack_post_rx P NET_IFACE_ETH f (copy_frame f buf n1)))"

datatype eth_event_id = ETHERNET_EVENT_START | ETHERNET_EVENT_STOP | ETHERNET_EVENT_CONNECTED
  | ETHERNET_EVENT_DISCONNECTED

definition eth_event :: "eth_event_id \<Rightarrow> ('q, 'g, 'c, 'e) net \<Rightarrow> ('q, 'g, 'c, 'e) net" where
  "eth_event evt n =
     (case evt of
        ETHERNET_EVENT_CONNECTED \<Rightarrow> net_stack_link_event NET_IFACE_ETH True n
      | ETHERNET_EVENT_DISCONNECTED \<Rightarrow> net_stack_link_event NET_IFACE_ETH False n
      | _ \<Rightarrow> n)"

section \<open>The transmit path\<close>

definition eth_tx ::
  "('q, 'g, 'e) platform \<Rightarrow> u8 list \<Rightarrow> ('q, 'g, 'c, 'e) net \<Rightarrow> esp_err \<times> ('q, 'g, 'c, 'e) net" where
  "eth_tx P frame n =
     (let (r, e) = esp_eth_transmit P (s_eth_handle n) frame (ext n) in (r, n\<lparr>ext := e\<rparr>))"

fun l2_transmit ::
  "('q, 'g, 'e) platform \<Rightarrow> l2_tx_fn \<Rightarrow> u8 list \<Rightarrow> ('q, 'g, 'c, 'e) net \<Rightarrow> esp_err \<times> ('q, 'g, 'c, 'e) net" where
  "l2_transmit P Eth_tx = eth_tx P"

definition smoltcp_glue_tx_cb ::
  "('q, 'g, 'e) platform \<Rightarrow> u32 \<Rightarrow> u8 list \<Rightarrow> ('q, 'g, 'c, 'e) net \<Rightarrow> int \<times> ('q, 'g, 'c, 'e) net" where
  "smoltcp_glue_tx_cb P ifc frame n =
     (let i = unat ifc in
      if i \<ge> NET_IFACE_MAX \<or> \<not> enabled (iface i n) then (-1, n)
      else case l2_tx (iface i n) of
          None \<Rightarrow> (-1, n)
        | Some tx \<Rightarrow>
            (case l2_transmit P tx frame n of
               (ESP_OK, n') \<Rightarrow>
                 (0, upd_iface i (\<lambda>f. f\<lparr>tx_frames := tx_frames f + 1, tx_bytes := tx_bytes f + of_nat (length frame)\<rparr>) n')
             | (_, n') \<Rightarrow> (-1, upd_iface i (\<lambda>f. f\<lparr>tx_fails := tx_fails f + 1\<rparr>) n')))"

definition smoltcp_glue_now_us ::
  "('q, 'g, 'e) platform \<Rightarrow> ('q, 'g, 'c, 'e) net \<Rightarrow> int \<times> ('q, 'g, 'c, 'e) net" where
  "smoltcp_glue_now_us P n = (let (t, e) = esp_timer_get_time P (ext n) in (t, n\<lparr>ext := e\<rparr>))"

definition smoltcp_glue_rand32 ::
  "('q, 'g, 'e) platform \<Rightarrow> ('q, 'g, 'c, 'e) net \<Rightarrow> u32 \<times> ('q, 'g, 'c, 'e) net" where
  "smoltcp_glue_rand32 P n = (let (r, e) = esp_random P (ext n) in (r, n\<lparr>ext := e\<rparr>))"

section \<open>The poll task\<close>

definition net_iface_get :: "nat \<Rightarrow> ('q, 'g, 'c, 'e) net \<Rightarrow> nat option" where
  "net_iface_get ifc n = (if ifc \<ge> NET_IFACE_MAX \<or> \<not> enabled (iface ifc n) then None else Some ifc)"

definition rx_take ::
  "('q, 'g, 'e) platform \<Rightarrow> nat \<Rightarrow> ('q, 'g, 'c, 'e) net \<Rightarrow> (nat option \<times> ('q, 'g, 'c, 'e) net) option" where
  "rx_take P i n =
     (case rx_queue (iface i n) of
        None \<Rightarrow> None
      | Some q \<Rightarrow>
          (case xQueueReceive (queues P) q of
             None \<Rightarrow> Some (None, n)
           | Some (f, q') \<Rightarrow> Some (Some f, upd_iface i (\<lambda>j. j\<lparr>rx_queue := Some q'\<rparr>) n)))"

definition rx_deliver ::
  "nat \<Rightarrow> nat \<Rightarrow> ('q, 'g, 'c, 'e) net \<Rightarrow> ('q, 'g, 'c, 'e) net" where
  "rx_deliver i f n =
     (let fr = s_frame_pool n ! f; (taken, n1) = dispatch_tap (iface_id (iface i n)) fr n
      in if taken then n1
         else snd (locked_call i (\<lambda>h. ((), smoltcp_iface_rx h (Some (take (frame_len fr) (frame_data fr))))) n1))"

partial_function (option) rx_drain ::
  "('q, 'g, 'e) platform \<Rightarrow> nat \<Rightarrow> ('q, 'g, 'c, 'e) net \<Rightarrow> ('q, 'g, 'c, 'e) net option" where
  "rx_drain P i n =
     (case rx_take P i n of
        None \<Rightarrow> None
      | Some (None, n1) \<Rightarrow> Some n1
      | Some (Some f, n1) \<Rightarrow> rx_drain P i (net_frame_free P (Some f) (rx_deliver i f n1)))"

text \<open>\<open>smoltcp_iface_poll\<close> on the interface's context, with the C callbacks it makes.\<close>

definition core_poll ::
  "('q, 'g, 'e) platform \<Rightarrow> 'c smoltcp \<Rightarrow> nat \<Rightarrow> ('q, 'g, 'c, 'e) net \<Rightarrow> ('q, 'g, 'c, 'e) net option" where
  "core_poll P S i n =
     (if smoltcp_handle (iface i n) = None then Some n
      else
        let (now, n1) = smoltcp_glue_now_us P n
        in case smoltcp_iface_poll S (smoltcp_glue_tx_cb P) now (smoltcp_handle (iface i n1)) (tx_free_mask n1) n1 of
             None \<Rightarrow> None
           | Some (h, m, n2) \<Rightarrow> Some (set_handle i h (n2\<lparr>tx_free_mask := m\<rparr>)))"

definition PROGRESS_BIT :: u32 where "PROGRESS_BIT = 1"

definition IP_UP_BIT :: "nat \<Rightarrow> u32" where "IP_UP_BIT i = push_bit i 1"

text \<open>The comparison of the address state with the previous one, and what it triggers.\<close>

definition ip_edge ::
  "('q, 'g, 'e) platform \<Rightarrow> nat \<Rightarrow> bool \<Rightarrow> ('q, 'g, 'c, 'e) net \<Rightarrow> ('q, 'g, 'c, 'e) net option" where
  "ip_edge P i up n =
     (let was_up = ip_up (iface i n);
          n1 = upd_iface i (\<lambda>f. f\<lparr>ip_up := up\<rparr>) n;
          k = iface_id (iface i n)
      in if up = was_up then Some n1
         else
           let n2 = emit_event k (if up then GOT_IP else LOST_IP) n1
           in case s_evt n2 of
                None \<Rightarrow> None
              | Some g \<Rightarrow> Some (n2\<lparr>s_evt := Some ((if up then xEventGroupSetBits P else xEventGroupClearBits P) (IP_UP_BIT k) g)\<rparr>))"

definition poll_run ::
  "('q, 'g, 'e) platform \<Rightarrow> 'c smoltcp \<Rightarrow> nat \<Rightarrow> ('q, 'g, 'c, 'e) net \<Rightarrow> ('q, 'g, 'c, 'e) net option" where
  "poll_run P S i n =
     (case core_poll P S i (core_call (SMOLTCP_LOCK n)) of
        None \<Rightarrow> None
      | Some n1 \<Rightarrow>
          let up = smoltcp_iface_has_ip (smoltcp_handle (iface i n1));
              n2 = SMOLTCP_UNLOCK n1
          in case s_progress_evt n2 of
               None \<Rightarrow> None
             | Some g \<Rightarrow> ip_edge P i up (n2\<lparr>s_progress_evt := Some (xEventGroupSetBits P PROGRESS_BIT g)\<rparr>))"

definition poll_iface ::
  "('q, 'g, 'e) platform \<Rightarrow> 'c smoltcp \<Rightarrow> nat \<Rightarrow> ('q, 'g, 'c, 'e) net \<Rightarrow> ('q, 'g, 'c, 'e) net option" where
  "poll_iface P S i n = (case rx_drain P i n of None \<Rightarrow> None | Some n1 \<Rightarrow> poll_run P S i n1)"

fun poll_all ::
  "('q, 'g, 'e) platform \<Rightarrow> 'c smoltcp \<Rightarrow> nat list \<Rightarrow> ('q, 'g, 'c, 'e) net \<Rightarrow> ('q, 'g, 'c, 'e) net option" where
  "poll_all P S [] n = Some n"
| "poll_all P S (i # is) n =
     (if enabled (iface i n)
      then (case poll_iface P S i n of None \<Rightarrow> None | Some n1 \<Rightarrow> poll_all P S is n1)
      else poll_all P S is n)"

definition INT64_MAX :: int where "INT64_MAX = 2 ^ 63 - 1"

definition portMAX_DELAY :: u32 where "portMAX_DELAY = -1"

fun next_deadline ::
  "('q, 'g, 'e) platform \<Rightarrow> 'c smoltcp \<Rightarrow> nat list \<Rightarrow> int \<Rightarrow> ('q, 'g, 'c, 'e) net \<Rightarrow> int \<times> ('q, 'g, 'c, 'e) net" where
  "next_deadline P S [] next_us n = (next_us, n)"
| "next_deadline P S (i # is) next_us n =
     (if \<not> enabled (iface i n) then next_deadline P S is next_us n
      else
        let h = smoltcp_handle (iface i n);
            (now, n1) = (if h = None then (0, n) else smoltcp_glue_now_us P n);
            d = smoltcp_iface_poll_delay_us S now h
        in next_deadline P S is (if d \<ge> 0 \<and> d < next_us then d else next_us) n1)"

text \<open>One round of \<open>net_stack_task\<close>: the number of ticks it asks to sleep for and the state when
  it goes to sleep. \<open>ulTaskNotifyTake(pdTRUE, ..)\<close> clears the pending wake-ups when it returns.
  \<open>next_us + 999\<close> is an addition of type \<open>int64_t\<close>, and \<open>/\<close> rounds towards zero.\<close>

definition task_wait :: "('q, 'g, 'e) platform \<Rightarrow> int \<Rightarrow> u32" where
  "task_wait P next_us =
     (let wait = (if next_us = INT64_MAX then portMAX_DELAY else pdMS_TO_TICKS P (signed_take_bit 63 (next_us + 999) sdiv 1000))
      in if wait \<noteq> 0 then wait else 1)"

definition task_sleep ::
  "('q, 'g, 'e) platform \<Rightarrow> 'c smoltcp \<Rightarrow> ('q, 'g, 'c, 'e) net \<Rightarrow> u32 \<times> ('q, 'g, 'c, 'e) net" where
  "task_sleep P S n =
     (let (next_us, n1) = next_deadline P S [0..<NET_IFACE_MAX] INT64_MAX (core_call (SMOLTCP_LOCK n))
      in (task_wait P next_us, (SMOLTCP_UNLOCK n1)\<lparr>s_task := map_option (\<lambda>_. 0) (s_task n1)\<rparr>))"

definition task_round ::
  "('q, 'g, 'e) platform \<Rightarrow> 'c smoltcp \<Rightarrow> ('q, 'g, 'c, 'e) net \<Rightarrow> (u32 \<times> ('q, 'g, 'c, 'e) net) option" where
  "task_round P S n = map_option (task_sleep P S) (poll_all P S [0..<NET_IFACE_MAX] n)"

section \<open>Public API\<close>

definition net_stack_register_event_cb ::
  "nat option \<Rightarrow> nat \<Rightarrow> ('q, 'g, 'c, 'e) net \<Rightarrow> esp_err \<times> ('q, 'g, 'c, 'e) net" where
  "net_stack_register_event_cb cb user n = (ESP_OK, n\<lparr>s_user_cb := cb, s_user_cb_arg := user\<rparr>)"

definition net_stack_kick_poll :: "('q, 'g, 'c, 'e) net \<Rightarrow> ('q, 'g, 'c, 'e) net" where
  "net_stack_kick_poll n = notify_task n"

text \<open>What happens while the calling task is blocked: the state when it runs again, and the bits
  of the event group it waited on.\<close>

record ('q, 'g, 'c, 'e) rtos =
  vTaskDelay :: "u32 \<Rightarrow> ('q, 'g, 'c, 'e) net \<Rightarrow> ('q, 'g, 'c, 'e) net"
  wait_bits_progress :: "u32 \<Rightarrow> u32 \<Rightarrow> ('q, 'g, 'c, 'e) net \<Rightarrow> u32 \<times> ('q, 'g, 'c, 'e) net"
  wait_bits_evt :: "u32 \<Rightarrow> u32 \<Rightarrow> ('q, 'g, 'c, 'e) net \<Rightarrow> u32 \<times> ('q, 'g, 'c, 'e) net"

definition net_stack_wait_progress ::
  "('q, 'g, 'e) platform \<Rightarrow> ('q, 'g, 'c, 'e) rtos \<Rightarrow> u32 \<Rightarrow> ('q, 'g, 'c, 'e) net \<Rightarrow> ('q, 'g, 'c, 'e) net" where
  "net_stack_wait_progress P R timeout_ms n =
     (if s_progress_evt n = None then vTaskDelay R 1 n
      else snd (wait_bits_progress R PROGRESS_BIT (pdMS_TO_TICKS P (uint timeout_ms)) n))"

definition iface_query ::
  "nat \<Rightarrow> 'r \<Rightarrow> ('c iface_ctx option \<Rightarrow> 'r) \<Rightarrow> ('q, 'g, 'c, 'e) net \<Rightarrow> 'r \<times> ('q, 'g, 'c, 'e) net" where
  "iface_query ifc err get n =
     (if ifc \<ge> NET_IFACE_MAX \<or> \<not> enabled (iface ifc n) then (err, n)
      else locked_call ifc (\<lambda>h. (get h, h)) n)"

definition net_stack_get_ipv4 ::
  "'c smoltcp \<Rightarrow> nat \<Rightarrow> ('q, 'g, 'c, 'e) net \<Rightarrow> u32 \<times> ('q, 'g, 'c, 'e) net" where
  "net_stack_get_ipv4 S ifc = iface_query ifc 0 (smoltcp_iface_get_ipv4 S)"

definition net_stack_get_gateway :: "nat \<Rightarrow> ('q, 'g, 'c, 'e) net \<Rightarrow> u32 \<times> ('q, 'g, 'c, 'e) net" where
  "net_stack_get_gateway ifc = iface_query ifc 0 smoltcp_iface_get_gw"

definition net_stack_get_netmask :: "nat \<Rightarrow> ('q, 'g, 'c, 'e) net \<Rightarrow> u32 \<times> ('q, 'g, 'c, 'e) net" where
  "net_stack_get_netmask ifc = iface_query ifc 0 smoltcp_iface_get_netmask"

text \<open>\<open>out\<close> tells whether the caller passed a buffer; the address is returned beside the code.\<close>

definition esp_smoltcp_get_ipv6_link_local ::
  "'c smoltcp \<Rightarrow> nat \<Rightarrow> bool \<Rightarrow> ('q, 'g, 'c, 'e) net \<Rightarrow> (esp_err \<times> u8 list option) \<times> ('q, 'g, 'c, 'e) net" where
  "esp_smoltcp_get_ipv6_link_local S ifc out n =
     (if \<not> out then ((ESP_ERR_NOT_FOUND, None), n)
      else let (a, n1) = iface_query ifc None (smoltcp_iface_get_ipv6 S) n
           in ((if a = None then ESP_ERR_NOT_FOUND else ESP_OK, a), n1))"

definition net_stack_l2_send ::
  "('q, 'g, 'e) platform \<Rightarrow> nat \<Rightarrow> u8 list \<Rightarrow> ('q, 'g, 'c, 'e) net \<Rightarrow> esp_err \<times> ('q, 'g, 'c, 'e) net" where
  "net_stack_l2_send P ifc frame n =
     (if ifc \<ge> NET_IFACE_MAX then (ESP_ERR_INVALID_ARG, n)
      else if \<not> enabled (iface ifc n) then (ESP_ERR_INVALID_STATE, n)
      else case l2_tx (iface ifc n) of
          None \<Rightarrow> (ESP_ERR_INVALID_STATE, n)
        | Some tx \<Rightarrow> l2_transmit P tx frame n)"

record net_iface_stats =
  st_rx_frames :: u32
  st_rx_bytes :: u64
  st_rx_drops :: u32
  st_tx_frames :: u32
  st_tx_bytes :: u64
  st_tx_fails :: u32
  st_link_ups :: u32
  st_link_downs :: u32
  st_active_sockets :: u32

definition net_stack_get_stats ::
  "nat \<Rightarrow> bool \<Rightarrow> ('q, 'g, 'c, 'e) net \<Rightarrow> (esp_err \<times> net_iface_stats option) \<times> ('q, 'g, 'c, 'e) net" where
  "net_stack_get_stats ifc out n =
     (if ifc \<ge> NET_IFACE_MAX \<or> \<not> out then ((ESP_ERR_INVALID_ARG, None), n)
      else
        let i = iface ifc n;
            (active, n1) = (if enabled i \<and> smoltcp_handle i \<noteq> None
                            then locked_call ifc (\<lambda>h. (smoltcp_iface_socket_count h, h)) n else (0, n))
        in ((ESP_OK, Some \<lparr>st_rx_frames = rx_frames i, st_rx_bytes = rx_bytes i, st_rx_drops = rx_drops i,
               st_tx_frames = tx_frames i, st_tx_bytes = tx_bytes i, st_tx_fails = tx_fails i,
               st_link_ups = link_ups i, st_link_downs = link_downs i, st_active_sockets = active\<rparr>), n1))"

definition net_stack_smoltcp_handle :: "nat \<Rightarrow> ('q, 'g, 'c, 'e) net \<Rightarrow> 'c iface_ctx option" where
  "net_stack_smoltcp_handle ifc n =
     (if ifc \<ge> NET_IFACE_MAX \<or> \<not> enabled (iface ifc n) then None else smoltcp_handle (iface ifc n))"

definition esp_smoltcp_wait_for_ip ::
  "('q, 'g, 'e) platform \<Rightarrow> ('q, 'g, 'c, 'e) rtos \<Rightarrow> nat \<Rightarrow> u32 \<Rightarrow> ('q, 'g, 'c, 'e) net
     \<Rightarrow> (esp_err \<times> ('q, 'g, 'c, 'e) net) option" where
  "esp_smoltcp_wait_for_ip P R ifc timeout_ms n =
     (if ifc \<ge> NET_IFACE_MAX then Some (ESP_ERR_INVALID_ARG, n)
      else if s_evt n = None then None
      else let (got, n1) = wait_bits_evt R (IP_UP_BIT ifc) (pdMS_TO_TICKS P (uint timeout_ms)) n
           in Some (if got AND IP_UP_BIT ifc \<noteq> 0 then ESP_OK else ESP_ERR_TIMEOUT, n1))"

section \<open>Initialisation\<close>

text \<open>The answers of NVS, of the event loop and of the FreeRTOS creation calls.\<close>

record ('q, 'g) init_env =
  nvs_flash_init :: esp_err
  esp_event_loop_create_default :: esp_err
  created_evt :: "'g option"
  created_progress_evt :: "'g option"
  created_mutex :: bool
  created_free_q :: "'q option"
  created_rx_q :: "nat \<Rightarrow> 'q option"
  created_task :: bool

definition net_stack_init ::
  "('q, 'g, 'e) platform \<Rightarrow> ('q, 'g) init_env \<Rightarrow> ('q, 'g, 'c, 'e) net \<Rightarrow> (esp_err \<times> ('q, 'g, 'c, 'e) net) option" where
  "net_stack_init P E n =
     (if s_inited n then Some (ESP_OK, n)
      else
        let n1 = n\<lparr>s_inited := True\<rparr>
        in if nvs_flash_init E \<noteq> ESP_OK then Some (nvs_flash_init E, n1)
           else if esp_event_loop_create_default E \<noteq> ESP_OK then Some (esp_event_loop_create_default E, n1)
           else
             let n2 = n1\<lparr>s_evt := created_evt E, s_progress_evt := created_progress_evt E\<rparr>
             in if s_evt n2 = None \<or> s_progress_evt n2 = None then Some (ESP_ERR_NO_MEM, n2)
                else if \<not> created_mutex E then Some (ESP_ERR_NO_MEM, n2)
                else case frame_pool_init P (created_free_q E) (n2\<lparr>lock_created := True\<rparr>) of
                    None \<Rightarrow> None
                  | Some n3 \<Rightarrow>
                      let n4 = fold (\<lambda>i. upd_iface i (\<lambda>f. f\<lparr>iface_id := i, rx_queue := created_rx_q E i\<rparr>)) [0..<NET_IFACE_MAX] n3
                      in if created_task E then Some (ESP_OK, n4\<lparr>s_task := Some 0\<rparr>) else Some (ESP_ERR_NO_MEM, n4))"

section \<open>Attaching the Ethernet driver\<close>

definition ETHERTYPE_PTP :: u16 where "ETHERTYPE_PTP = 0x88F7"

text \<open>The PTP tap: the message type it logs, \<open>None\<close> for a frame that is too short. Nothing else is
  done with the frame yet.\<close>

definition ptp_rx :: "u8 list \<Rightarrow> u8 option" where
  "ptp_rx frame = (if length frame < 14 + 34 then None else Some (frame ! 14 AND 0x0F))"

text \<open>\<open>rx_fn\<close> is the address of \<open>ptp_rx\<close>.\<close>

definition ptp_start :: "nat \<Rightarrow> ('q, 'g, 'c, 'e) net \<Rightarrow> esp_err \<times> ('q, 'g, 'c, 'e) net" where
  "ptp_start rx_fn n = net_stack_l2_tap ETHERTYPE_PTP (Some rx_fn) 0 n"

text \<open>The options of the build; \<open>cfg_ptp\<close> is the address of \<open>ptp_rx\<close> when PTP is compiled in.\<close>

record net_config =
  cfg_dhcpv4_client :: bool
  cfg_static_ip :: string
  cfg_static_gw :: string
  cfg_ptp :: "nat option"

text \<open>The answers of the Ethernet driver and of the event loop.\<close>

record attach_env =
  got_mac :: "esp_err \<times> u8 list"
  esp_eth_update_input_path :: esp_err
  esp_event_handler_register :: esp_err

definition start_ip ::
  "'c smoltcp \<Rightarrow> net_config \<Rightarrow> nat \<Rightarrow> ('q, 'g, 'c, 'e) net \<Rightarrow> ('q, 'g, 'c, 'e) net option" where
  "start_ip S K i n =
     (if cfg_dhcpv4_client K
      then Some (snd (locked_call i (\<lambda>h. ((), smoltcp_iface_enable_dhcp S h)) n))
      else
        let ip_be = (case smoltcp_parse_ipv4 (Some (cfg_static_ip K)) of Some a \<Rightarrow> a | None \<Rightarrow> 0);
            gw_be = (case smoltcp_parse_ipv4 (Some (cfg_static_gw K)) of Some a \<Rightarrow> a | None \<Rightarrow> 0);
            n1 = core_call (SMOLTCP_LOCK n)
        in case smoltcp_iface_set_static S (smoltcp_handle (iface i n1)) ip_be 24 gw_be of
             None \<Rightarrow> None
           | Some h \<Rightarrow> Some (SMOLTCP_UNLOCK (set_handle i h n1)))"

definition esp_smoltcp_attach_eth ::
  "('q, 'g, 'e) platform \<Rightarrow> 'c smoltcp \<Rightarrow> net_config \<Rightarrow> attach_env \<Rightarrow> nat option \<Rightarrow> ('q, 'g, 'c, 'e) net
     \<Rightarrow> (esp_err \<times> ('q, 'g, 'c, 'e) net) option" where
  "esp_smoltcp_attach_eth P S K A eth_handle n =
     (if eth_handle = None then Some (ESP_ERR_INVALID_ARG, n)
      else if enabled (iface NET_IFACE_ETH n) then Some (ESP_ERR_INVALID_STATE, n)
      else
        let n1 = upd_iface NET_IFACE_ETH (\<lambda>f. f\<lparr>enabled := True, l2_tx := Some Eth_tx, mac := snd (got_mac A)\<rparr>)
                   (n\<lparr>s_eth_handle := eth_handle\<rparr>)
        in if fst (got_mac A) \<noteq> ESP_OK then Some (fst (got_mac A), n1)
           else if esp_eth_update_input_path A \<noteq> ESP_OK then Some (esp_eth_update_input_path A, n1)
           else if esp_event_handler_register A \<noteq> ESP_OK then Some (esp_event_handler_register A, n1)
           else
             let (now, n2) = smoltcp_glue_now_us P n1;
                 n3 = set_handle NET_IFACE_ETH (smoltcp_iface_new S (of_nat NET_IFACE_ETH) (Some (mac (iface NET_IFACE_ETH n2))) now) (core_new n2);
                 n4 = n3\<lparr>ext := esp_eth_start P eth_handle (ext n3)\<rparr>
             in case start_ip S K NET_IFACE_ETH n4 of
                  None \<Rightarrow> None
                | Some n5 \<Rightarrow>
                    let n6 = (case cfg_ptp K of None \<Rightarrow> n5 | Some f \<Rightarrow> snd (ptp_start f n5))
                    in Some (ESP_OK, notify_task n6))"

end
