(* ===== verification/Net_Run.thy ===== *)
theory Net_Run
  imports Net_Stack
begin

text \<open>
  The stack as a state machine. The Ethernet driver and the poll task run concurrently and each
  of them owns a frame for a while: the driver between \<open>net_frame_alloc\<close> and
  \<open>net_stack_post_rx\<close>, the poll task between \<open>xQueueReceive\<close> and \<open>net_frame_free\<close>. A state
  \<open>sys\<close> is the global state with the frames in their hands, and the steps of \<open>net_step\<close> are the
  parts of the functions of \<open>Net_Stack\<close> between two such points, in any order; a socket call is
  any change of an interface's context under the lock.
\<close>

section \<open>States and steps\<close>

record ('q, 'g, 'c, 'e) sys =
  sys_net :: "('q, 'g, 'c, 'e) net"
  drv_hold :: "nat option"
  poll_hold :: "(nat \<times> nat) option"

datatype act = RxAlloc "u8 list" | RxPost | PollTake nat | PollDeliver | PollRun nat | Sleep
  | Link nat bool | Attach | Tap u16 | RegisterCb "nat option" nat | L2Send nat "u8 list" | Api nat | Kick

inductive net_step ::
  "('q, 'g, 'e) platform \<Rightarrow> 'c smoltcp \<Rightarrow> net_config \<Rightarrow> ('q, 'g, 'c, 'e) sys \<Rightarrow> act \<Rightarrow> ('q, 'g, 'c, 'e) sys \<Rightarrow> bool"
  for P S K where
  rx_none: "net_step P S K \<lparr>sys_net = n, drv_hold = None, poll_hold = p\<rparr> (RxAlloc buf) \<lparr>sys_net = n', drv_hold = None, poll_hold = p\<rparr>"
    if "net_frame_alloc P (length buf) n = (None, n')"
| rx_some: "net_step P S K \<lparr>sys_net = n, drv_hold = None, poll_hold = p\<rparr> (RxAlloc buf) \<lparr>sys_net = copy_frame f buf n', drv_hold = Some f, poll_hold = p\<rparr>"
    if "net_frame_alloc P (length buf) n = (Some f, n')"
| rx_post: "net_step P S K \<lparr>sys_net = n, drv_hold = Some f, poll_hold = p\<rparr> RxPost \<lparr>sys_net = n', drv_hold = None, poll_hold = p\<rparr>"
    if "net_stack_post_rx P NET_IFACE_ETH f n = Some n'"
| poll_take: "net_step P S K \<lparr>sys_net = n, drv_hold = d, poll_hold = None\<rparr> (PollTake i) \<lparr>sys_net = n', drv_hold = d, poll_hold = map_option (Pair i) r\<rparr>"
    if "i < NET_IFACE_MAX" and "enabled (iface i n)" and "rx_take P i n = Some (r, n')"
| poll_deliver: "net_step P S K \<lparr>sys_net = n, drv_hold = d, poll_hold = Some (i, f)\<rparr> PollDeliver
      \<lparr>sys_net = net_frame_free P (Some f) (rx_deliver i f n), drv_hold = d, poll_hold = None\<rparr>"
| poll_run: "net_step P S K \<lparr>sys_net = n, drv_hold = d, poll_hold = None\<rparr> (PollRun i) \<lparr>sys_net = n', drv_hold = d, poll_hold = None\<rparr>"
    if "i < NET_IFACE_MAX" and "enabled (iface i n)" and "poll_run P S i n = Some n'"
| sleep: "net_step P S K \<lparr>sys_net = n, drv_hold = d, poll_hold = None\<rparr> Sleep \<lparr>sys_net = snd (task_sleep P S n), drv_hold = d, poll_hold = None\<rparr>"
| link: "net_step P S K \<lparr>sys_net = n, drv_hold = d, poll_hold = p\<rparr> (Link i up) \<lparr>sys_net = net_stack_link_event i up n, drv_hold = d, poll_hold = p\<rparr>"
| attach: "net_step P S K \<lparr>sys_net = n, drv_hold = d, poll_hold = p\<rparr> Attach \<lparr>sys_net = n', drv_hold = d, poll_hold = p\<rparr>"
    if "esp_smoltcp_attach_eth P S K A h n = Some (r, n')"
| tap: "net_step P S K \<lparr>sys_net = n, drv_hold = d, poll_hold = p\<rparr> (Tap et) \<lparr>sys_net = snd (net_stack_l2_tap et cb user n), drv_hold = d, poll_hold = p\<rparr>"
| register_cb: "net_step P S K \<lparr>sys_net = n, drv_hold = d, poll_hold = p\<rparr> (RegisterCb cb user)
      \<lparr>sys_net = snd (net_stack_register_event_cb cb user n), drv_hold = d, poll_hold = p\<rparr>"
| l2_send: "net_step P S K \<lparr>sys_net = n, drv_hold = d, poll_hold = p\<rparr> (L2Send i frame) \<lparr>sys_net = snd (net_stack_l2_send P i frame n), drv_hold = d, poll_hold = p\<rparr>"
| api: "net_step P S K \<lparr>sys_net = n, drv_hold = d, poll_hold = p\<rparr> (Api i) \<lparr>sys_net = snd (locked_call i (\<lambda>h. ((), f h)) n), drv_hold = d, poll_hold = p\<rparr>"
    if "i < NET_IFACE_MAX"
| kick: "net_step P S K \<lparr>sys_net = n, drv_hold = d, poll_hold = p\<rparr> Kick \<lparr>sys_net = net_stack_kick_poll n, drv_hold = d, poll_hold = p\<rparr>"

inductive net_run ::
  "('q, 'g, 'e) platform \<Rightarrow> 'c smoltcp \<Rightarrow> net_config \<Rightarrow> ('q, 'g, 'c, 'e) sys \<Rightarrow> act list \<Rightarrow> ('q, 'g, 'c, 'e) sys \<Rightarrow> bool"
  for P S K where
  run_nil: "net_run P S K s [] s"
| run_snoc: "net_run P S K s as s1 \<Longrightarrow> net_step P S K s1 a s2 \<Longrightarrow> net_run P S K s (as @ [a]) s2"

text \<open>The poll task between two rounds, with or without a frame in the hands of the driver, and the
  state a successful initialisation leaves behind, with nothing in flight.\<close>

definition between :: "nat option \<Rightarrow> ('q, 'g, 'c, 'e) net \<Rightarrow> ('q, 'g, 'c, 'e) sys" where
  "between d n = \<lparr>sys_net = n, drv_hold = d, poll_hold = None\<rparr>"

definition idle :: "('q, 'g, 'c, 'e) net \<Rightarrow> ('q, 'g, 'c, 'e) sys" where
  "idle n = \<lparr>sys_net = n, drv_hold = None, poll_hold = None\<rparr>"

text \<open>The steps of the poll task.\<close>

definition poll_acts :: "act set" where
  "poll_acts = range PollTake \<union> {PollDeliver} \<union> range PollRun \<union> {Sleep}"

lemma run_trans:
  "net_run P S K s1 bs s2 \<Longrightarrow> net_run P S K s as s1 \<Longrightarrow> net_run P S K s (as @ bs) s2"
proof (induction rule: net_run.induct)
  case (run_nil s)
  then show ?case by simp
next
  case (run_snoc s bs s1 a s2)
  then show ?case using net_run.run_snoc [of P S K _ "as @ bs"] by simp
qed

lemma run_one: "net_step P S K s a s' \<Longrightarrow> net_run P S K s [a] s'"
  using run_snoc [OF run_nil] by fastforce

section \<open>What the transmit callback may change\<close>

text \<open>A call of \<open>smoltcp_glue_tx_cb\<close> changes transmit counters and the outside world, nothing else.\<close>

definition strip_tx :: "('q, 'c) net_iface \<Rightarrow> ('q, 'c) net_iface" where
  "strip_tx f = f\<lparr>tx_frames := 0, tx_bytes := 0, tx_fails := 0\<rparr>"

definition tx_only :: "('q, 'g, 'c, 'e) net \<Rightarrow> ('q, 'g, 'c, 'e) net \<Rightarrow> bool" where
  "tx_only n n' \<longleftrightarrow> n'\<lparr>s_ifaces := s_ifaces n, ext := ext n\<rparr> = n
     \<and> map strip_tx (s_ifaces n') = map strip_tx (s_ifaces n)"

lemma tx_only_refl [simp, intro]: "tx_only n n"
  by (simp add: tx_only_def)

lemma tx_only_trans: "tx_only n1 n2 \<Longrightarrow> tx_only n2 n3 \<Longrightarrow> tx_only n1 n3"
  by (cases n1; cases n2; cases n3) (simp add: tx_only_def)

lemma tx_only_fields:
  assumes "tx_only n n'"
  shows "s_evt n' = s_evt n" "s_progress_evt n' = s_progress_evt n" "s_task n' = s_task n"
    "s_user_cb n' = s_user_cb n" "s_user_cb_arg n' = s_user_cb_arg n" "lock_created n' = lock_created n"
    "lock_held n' = lock_held n" "lock_fault n' = lock_fault n" "unguarded n' = unguarded n"
    "cb_under_lock n' = cb_under_lock n" "s_frame_pool n' = s_frame_pool n"
    "s_frame_free_q n' = s_frame_free_q n" "s_taps n' = s_taps n" "tx_free_mask n' = tx_free_mask n"
    "cb_log n' = cb_log n" "s_frame_alloc_fail n' = s_frame_alloc_fail n"
    "length (s_ifaces n') = length (s_ifaces n)" "s_eth_handle n' = s_eth_handle n" "unguarded_new n' = unguarded_new n"
  using assms by (cases n; cases n'; simp add: tx_only_def; metis length_map)+

lemma tx_only_iface:
  assumes "tx_only n n'" and "i < length (s_ifaces n)"
  shows "rx_queue (iface i n') = rx_queue (iface i n)" "enabled (iface i n') = enabled (iface i n)"
    "iface_id (iface i n') = iface_id (iface i n)" "ip_up (iface i n') = ip_up (iface i n)"
    "smoltcp_handle (iface i n') = smoltcp_handle (iface i n)" "l2_tx (iface i n') = l2_tx (iface i n)"
proof -
  have "map strip_tx (s_ifaces n') ! i = map strip_tx (s_ifaces n) ! i"
    using assms(1) by (simp add: tx_only_def)
  then have eq: "strip_tx (iface i n') = strip_tx (iface i n)"
    using assms tx_only_fields(17) [OF assms(1)] by (simp add: iface_def)
  from eq [THEN arg_cong, of rx_queue] eq [THEN arg_cong, of enabled] eq [THEN arg_cong, of iface_id]
    eq [THEN arg_cong, of ip_up] eq [THEN arg_cong, of smoltcp_handle] eq [THEN arg_cong, of l2_tx]
  show "rx_queue (iface i n') = rx_queue (iface i n)" "enabled (iface i n') = enabled (iface i n)"
    "iface_id (iface i n') = iface_id (iface i n)" "ip_up (iface i n') = ip_up (iface i n)"
    "smoltcp_handle (iface i n') = smoltcp_handle (iface i n)" "l2_tx (iface i n') = l2_tx (iface i n)"
    by (simp_all add: strip_tx_def)
qed

lemma tx_only_ext [intro]: "tx_only n (n\<lparr>ext := e\<rparr>)"
  by (cases n) (simp add: tx_only_def)

lemma tx_only_counters:
  assumes "tx_only n n'" and "\<And>f. strip_tx (g f) = strip_tx f"
  shows "tx_only n (upd_iface i g n')"
proof -
  have "map strip_tx ((s_ifaces n')[i := g (s_ifaces n' ! i)]) = map strip_tx (s_ifaces n')"
    using assms(2) by (simp add: map_update) (metis list_update_beyond list_update_id map_update not_le nth_map length_map)
  with assms(1) show ?thesis by (cases n; cases n') (simp add: tx_only_def upd_iface_def)
qed

lemma eth_tx_tx_only: "tx_only n (snd (eth_tx P frame n))"
  by (auto simp: eth_tx_def split: prod.split)

lemma l2_transmit_tx_only: "tx_only n (snd (l2_transmit P tx frame n))"
  by (cases tx) (simp add: eth_tx_tx_only)

lemma tx_cb_tx_only: "tx_only n (snd (smoltcp_glue_tx_cb P ifc frame n))"
proof -
  have "tx_only n n'" if "l2_transmit P tx frame n = (r, n')" for tx r n'
    using l2_transmit_tx_only [of n P tx frame] that by simp
  then show ?thesis
    by (auto simp: smoltcp_glue_tx_cb_def Let_def strip_tx_def intro!: tx_only_counters
        split: option.split prod.split esp_err.split)
qed

lemma now_us_tx_only: "tx_only n (snd (smoltcp_glue_now_us P n))"
  by (auto simp: smoltcp_glue_now_us_def split: prod.split)

text \<open>A poll of the core, apart from the context of its interface.\<close>

lemma core_pollD:
  assumes "core_poll P S i n = Some n'" and "i < length (s_ifaces n)"
  shows "\<exists>n1 h. tx_only n n1 \<and> n' = set_handle i h n1"
proof (cases "smoltcp_handle (iface i n) = None")
  case True
  have "set_handle i (smoltcp_handle (iface i n)) n = n"
    by (cases n) (simp add: set_handle_def upd_iface_def iface_def)
  moreover have "n' = n" using True assms(1) by (simp add: core_poll_def)
  ultimately show ?thesis using tx_only_refl by metis
next
  case False
  obtain now n1 where now: "smoltcp_glue_now_us P n = (now, n1)" by force
  have n1: "tx_only n n1" using now_us_tx_only [of n P] now by simp
  from assms(1) False now obtain h m n2 where
    poll: "smoltcp_iface_poll S (smoltcp_glue_tx_cb P) now (smoltcp_handle (iface i n1)) (tx_free_mask n1) n1 = Some (h, m, n2)"
    and n': "n' = set_handle i h (n2\<lparr>tx_free_mask := m\<rparr>)"
    by (auto simp: core_poll_def split: option.splits)
  have "m = tx_free_mask n1 \<and> tx_only n n2"
  proof (cases "smoltcp_handle (iface i n1)")
    case None
    with poll n1 show ?thesis by (auto simp: smoltcp_iface_poll_def)
  next
    case (Some ctx)
    with poll obtain c d where run: "run_device (smoltcp_glue_tx_cb P) (sm_poll S now (ctx_stack ctx))
        (ctx_dev ctx) (tx_free_mask n1) n1 = Some (c, d, m, n2)"
      by (auto simp: smoltcp_iface_poll_def ctx_poll_def split: option.splits)
    have "tx_only n n2"
      by (rule run_device_inv [where Q = "tx_only n", OF _ run n1]) (rule tx_only_trans [OF _ tx_cb_tx_only])
    with run_device_mask [OF run] show ?thesis ..
  qed
  moreover have "n2\<lparr>tx_free_mask := m\<rparr> = n2" if "m = tx_free_mask n2"
    using that by (cases n2) simp
  ultimately show ?thesis
    using n' tx_only_fields(14) [OF n1] tx_only_fields(14) [of n n2] by metis
qed

lemma core_poll_returns:
  assumes "\<And>t c. frames_fit (sm_poll S t c)"
  shows "\<exists>n'. core_poll P S i n = Some n'"
proof (cases "smoltcp_glue_now_us P n")
  case (Pair now n1)
  have "\<exists>r. smoltcp_iface_poll S (smoltcp_glue_tx_cb P) now h m w = Some r" for h m w
  proof (cases h)
    case None
    then show ?thesis by (simp add: smoltcp_iface_poll_def)
  next
    case (Some ctx)
    with run_device_returns [OF assms, of "smoltcp_glue_tx_cb P" now "ctx_stack ctx" "ctx_dev ctx" m w]
    show ?thesis by (auto simp: smoltcp_iface_poll_def ctx_poll_def)
  qed
  then obtain h m n2 where "smoltcp_iface_poll S (smoltcp_glue_tx_cb P) now (smoltcp_handle (iface i n1))
      (tx_free_mask n1) n1 = Some (h, m, n2)" by fastforce
  then show ?thesis by (simp add: core_poll_def Pair)
qed

lemma set_handle_frame [simp]:
  "s_evt (set_handle i h n) = s_evt n" "s_progress_evt (set_handle i h n) = s_progress_evt n"
  "s_task (set_handle i h n) = s_task n" "s_user_cb (set_handle i h n) = s_user_cb n"
  "lock_created (set_handle i h n) = lock_created n" "lock_held (set_handle i h n) = lock_held n"
  "lock_fault (set_handle i h n) = lock_fault n" "unguarded (set_handle i h n) = unguarded n"
  "cb_under_lock (set_handle i h n) = cb_under_lock n" "s_frame_pool (set_handle i h n) = s_frame_pool n"
  "s_frame_free_q (set_handle i h n) = s_frame_free_q n" "s_taps (set_handle i h n) = s_taps n"
  "tx_free_mask (set_handle i h n) = tx_free_mask n" "cb_log (set_handle i h n) = cb_log n"
  "ext (set_handle i h n) = ext n"
  by (simp_all add: set_handle_def)

section \<open>Two views of the state\<close>

text \<open>
  \<open>rx_view\<close> is what the receive path and the two pools own, \<open>ip_view\<close> what the address events
  read and write. Most operations leave both alone.
\<close>

definition rx_view :: "('q, 'g, 'c, 'e) net \<Rightarrow> 'q option \<times> net_frame list \<times> ('q option \<times> nat) list \<times> u32" where
  "rx_view n = (s_frame_free_q n, s_frame_pool n, map (\<lambda>f. (rx_queue f, iface_id f)) (s_ifaces n), tx_free_mask n)"

definition ip_view :: "('q, 'g, 'c, 'e) net \<Rightarrow> 'g option \<times> bool list \<times> bool" where
  "ip_view n = (s_evt n, map ip_up (s_ifaces n), s_progress_evt n = None)"

lemma map_upd_iface:
  "(\<And>f. v (g f) = v f) \<Longrightarrow> map v (s_ifaces (upd_iface i g n)) = map v (s_ifaces n)"
  by (simp add: upd_iface_def map_update)
    (metis length_map list_update_beyond list_update_id not_le nth_map)

lemma view_upd_iface [simp]:
  "(\<And>f. rx_queue (g f) = rx_queue f) \<Longrightarrow> (\<And>f. iface_id (g f) = iface_id f) \<Longrightarrow>
     rx_view (upd_iface i g n) = rx_view n"
  "(\<And>f. ip_up (g f) = ip_up f) \<Longrightarrow> ip_view (upd_iface i g n) = ip_view n"
  using map_upd_iface [of "\<lambda>f. (rx_queue f, iface_id f)" g i n] map_upd_iface [of ip_up g i n]
  by (simp_all add: rx_view_def ip_view_def)

lemma view_lock [simp]:
  "rx_view (SMOLTCP_LOCK n) = rx_view n" "rx_view (SMOLTCP_UNLOCK n) = rx_view n"
  "rx_view (core_new n) = rx_view n" "ip_view (core_new n) = ip_view n"
  "rx_view (core_call n) = rx_view n" "rx_view (invoke_cb c n) = rx_view n" "rx_view (notify_task n) = rx_view n"
  "ip_view (SMOLTCP_LOCK n) = ip_view n" "ip_view (SMOLTCP_UNLOCK n) = ip_view n"
  "ip_view (core_call n) = ip_view n" "ip_view (invoke_cb c n) = ip_view n" "ip_view (notify_task n) = ip_view n"
  by (simp_all add: rx_view_def ip_view_def lock_defs invoke_cb_def notify_task_def)

lemma view_simple [simp]:
  "rx_view (set_handle i h n) = rx_view n" "ip_view (set_handle i h n) = ip_view n"
  "rx_view (emit_event i evt n) = rx_view n" "ip_view (emit_event i evt n) = ip_view n"
  by (simp_all add: set_handle_def emit_event_def split: option.split)

lemma view_fields [simp]:
  "rx_view (n\<lparr>s_task := t\<rparr>) = rx_view n" "ip_view (n\<lparr>s_task := t\<rparr>) = ip_view n"
  "rx_view (n\<lparr>ext := e\<rparr>) = rx_view n" "ip_view (n\<lparr>ext := e\<rparr>) = ip_view n"
  "rx_view (n\<lparr>s_taps := ts\<rparr>) = rx_view n" "ip_view (n\<lparr>s_taps := ts\<rparr>) = ip_view n"
  "rx_view (n\<lparr>s_eth_handle := eh\<rparr>) = rx_view n" "ip_view (n\<lparr>s_eth_handle := eh\<rparr>) = ip_view n"
  "rx_view (n\<lparr>s_progress_evt := g\<rparr>) = rx_view n" "rx_view (n\<lparr>s_evt := g'\<rparr>) = rx_view n"
  "rx_view (n\<lparr>s_user_cb := cb, s_user_cb_arg := u\<rparr>) = rx_view n"
  "ip_view (n\<lparr>s_user_cb := cb, s_user_cb_arg := u\<rparr>) = ip_view n"
  "ip_view (n\<lparr>s_frame_free_q := fq\<rparr>) = ip_view n" "ip_view (n\<lparr>s_frame_pool := fp\<rparr>) = ip_view n"
  "ip_view (n\<lparr>s_frame_alloc_fail := af\<rparr>) = ip_view n" "rx_view (n\<lparr>s_frame_alloc_fail := af\<rparr>) = rx_view n"
  by (simp_all add: rx_view_def ip_view_def)

lemma tx_only_views:
  assumes "tx_only n n'"
  shows "rx_view n' = rx_view n" and "ip_view n' = ip_view n"
proof -
  have m: "map strip_tx (s_ifaces n') = map strip_tx (s_ifaces n)"
    using assms by (simp add: tx_only_def)
  from arg_cong [OF m, of "map (\<lambda>f. (rx_queue f, iface_id f))"] arg_cong [OF m, of "map ip_up"]
  show "rx_view n' = rx_view n" and "ip_view n' = ip_view n"
    by (simp_all add: rx_view_def ip_view_def tx_only_fields [OF assms] strip_tx_def comp_def)
qed

lemma locked_call_views [simp]:
  "rx_view (snd (locked_call i f n)) = rx_view n" "ip_view (snd (locked_call i f n)) = ip_view n"
  by (simp_all add: locked_call_def Let_def split: prod.split)

lemma link_event_views [frame_simps]:
  "rx_view (net_stack_link_event i up n) = rx_view n" "ip_view (net_stack_link_event i up n) = ip_view n"
  by (simp_all add: net_stack_link_event_def Let_def)

lemma tap_views [frame_simps]:
  "rx_view (snd (net_stack_l2_tap et cb user n)) = rx_view n" "ip_view (snd (net_stack_l2_tap et cb user n)) = ip_view n"
  by (simp_all add: net_stack_l2_tap_def split: prod.split)

lemma register_views [frame_simps]:
  "rx_view (snd (net_stack_register_event_cb cb user n)) = rx_view n"
  "ip_view (snd (net_stack_register_event_cb cb user n)) = ip_view n"
  by (simp_all add: net_stack_register_event_cb_def)

lemma l2_send_tx_only: "tx_only n (snd (net_stack_l2_send P i frame n))"
  by (auto simp: net_stack_l2_send_def l2_transmit_tx_only split: option.split)

lemma next_deadline_tx_only: "tx_only n (snd (next_deadline P S is d n))"
proof (induction "is" arbitrary: d n)
  case Nil
  then show ?case by simp
next
  case (Cons i "is")
  have "tx_only n (snd (next_deadline P S is d' (snd (smoltcp_glue_now_us P n))))" for d'
    by (rule tx_only_trans [OF now_us_tx_only Cons.IH])
  with Cons.IH show ?case by (auto simp: Let_def case_prod_unfold)
qed

lemma task_sleep_views [frame_simps]:
  "rx_view (snd (task_sleep P S n)) = rx_view n" "ip_view (snd (task_sleep P S n)) = ip_view n"
  using tx_only_views [OF next_deadline_tx_only [of "core_call (SMOLTCP_LOCK n)" P S "[0..<NET_IFACE_MAX]" INT64_MAX]]
  by (simp_all add: task_sleep_def Let_def case_prod_unfold)

lemma dispatch_tap_views [simp]:
  "rx_view (snd (dispatch_tap i f n)) = rx_view n" "ip_view (snd (dispatch_tap i f n)) = ip_view n"
  by (auto simp: dispatch_tap_def split: option.split)

lemma rx_deliver_views [frame_simps]:
  "rx_view (rx_deliver i f n) = rx_view n" "ip_view (rx_deliver i f n) = ip_view n"
  using dispatch_tap_views [of "iface_id (iface i n)" "s_frame_pool n ! f" n]
  by (auto simp: rx_deliver_def Let_def case_prod_unfold)

lemma start_ip_views:
  assumes "start_ip S K i n = Some n'"
  shows "rx_view n' = rx_view n \<and> ip_view n' = ip_view n"
  using assms by (auto simp: start_ip_def Let_def split: if_splits option.splits)

lemma attach_views:
  assumes "esp_smoltcp_attach_eth P S K A h n = Some (r, n')"
  shows "rx_view n' = rx_view n" and "ip_view n' = ip_view n"
proof -
  let ?n1 = "upd_iface NET_IFACE_ETH (\<lambda>f. f\<lparr>enabled := True, l2_tx := Some Eth_tx, mac := snd (got_mac A)\<rparr>) (n\<lparr>s_eth_handle := h\<rparr>)"
  note now = tx_only_views [OF now_us_tx_only [of ?n1 P]]
  have "rx_view n' = rx_view n \<and> ip_view n' = ip_view n"
    using assms now
    by (auto simp: esp_smoltcp_attach_eth_def Let_def case_prod_unfold ptp_start_def frame_simps
        dest!: start_ip_views split: if_splits option.splits)
  then show "rx_view n' = rx_view n" and "ip_view n' = ip_view n" by auto
qed

lemma ip_edge_rx_view: "ip_edge P i up n = Some n' \<Longrightarrow> rx_view n' = rx_view n"
  by (auto simp: ip_edge_def Let_def split: if_splits option.splits)

lemma poll_run_rx_view:
  assumes "poll_run P S i n = Some n'" and "i < length (s_ifaces n)"
  shows "rx_view n' = rx_view n"
proof -
  from assms(1) obtain n1 where n1: "core_poll P S i (core_call (SMOLTCP_LOCK n)) = Some n1"
    by (auto simp: poll_run_def split: option.splits)
  obtain n2 h where "tx_only (core_call (SMOLTCP_LOCK n)) n2" and "n1 = set_handle i h n2"
    using core_pollD [OF n1] assms(2) by auto
  then have "rx_view n1 = rx_view n" using tx_only_views(1) by fastforce
  with assms(1) n1 show ?thesis
    by (auto simp: poll_run_def Let_def dest: ip_edge_rx_view split: option.splits)
qed

section \<open>Every frame has exactly one owner\<close>

definition rx_list :: "('q \<Rightarrow> nat list) \<Rightarrow> nat \<Rightarrow> ('q, 'g, 'c, 'e) net \<Rightarrow> nat list" where
  "rx_list contents i n = (case rx_queue (iface i n) of None \<Rightarrow> [] | Some q \<Rightarrow> contents q)"

definition held :: "('q, 'g, 'c, 'e) sys \<Rightarrow> nat list" where
  "held s = (case drv_hold s of None \<Rightarrow> [] | Some f \<Rightarrow> [f]) @ (case poll_hold s of None \<Rightarrow> [] | Some (i, f) \<Rightarrow> [f])"

text \<open>The frames of the free list, of the two receive queues and in the hands of the driver and
  of the poll task.\<close>

definition all_frames :: "('q \<Rightarrow> nat list) \<Rightarrow> ('q, 'g, 'c, 'e) sys \<Rightarrow> nat list" where
  "all_frames contents s = held s @ free_list contents (sys_net s)
     @ rx_list contents NET_IFACE_ETH (sys_net s) @ rx_list contents NET_IFACE_WIFI (sys_net s)"

text \<open>The queues exist, the free list has room for every frame, and the frames are well formed.\<close>

definition queues_ok :: "('q \<Rightarrow> nat) \<Rightarrow> nat \<Rightarrow> ('q, 'g, 'c, 'e) net \<Rightarrow> bool" where
  "queues_ok capacity N n \<longleftrightarrow> length (s_ifaces n) = NET_IFACE_MAX \<and> length (s_frame_pool n) = N
     \<and> (\<exists>q. s_frame_free_q n = Some q \<and> capacity q = N)
     \<and> (\<forall>i < NET_IFACE_MAX. rx_queue (iface i n) \<noteq> None \<and> iface_id (iface i n) = i)
     \<and> (\<forall>f \<in> set (s_frame_pool n). length (frame_data f) = NET_FRAME_BUF \<and> frame_len f \<le> NET_FRAME_BUF)
     \<and> tx_free_mask n = tx_pool_init"

definition frames_ok :: "('q \<Rightarrow> nat list) \<Rightarrow> ('q \<Rightarrow> nat) \<Rightarrow> nat \<Rightarrow> ('q, 'g, 'c, 'e) sys \<Rightarrow> bool" where
  "frames_ok contents capacity N s \<longleftrightarrow> queues_ok capacity N (sys_net s)
     \<and> mset (all_frames contents s) = mset [0..<N]"

lemma iface_consts [simp]: "NET_IFACE_ETH < NET_IFACE_MAX" "NET_IFACE_WIFI < NET_IFACE_MAX"
  "NET_IFACE_ETH \<noteq> NET_IFACE_WIFI" "NET_IFACE_WIFI \<noteq> NET_IFACE_ETH"
  by (simp_all add: NET_IFACE_ETH_def NET_IFACE_WIFI_def NET_IFACE_MAX_def)

lemma less_NET_IFACE_MAX: "i < NET_IFACE_MAX \<longleftrightarrow> i = NET_IFACE_ETH \<or> i = NET_IFACE_WIFI"
  by (auto simp: NET_IFACE_ETH_def NET_IFACE_WIFI_def NET_IFACE_MAX_def)

lemma rx_view_eqD:
  assumes "rx_view n' = rx_view n"
  shows "s_frame_free_q n' = s_frame_free_q n" "s_frame_pool n' = s_frame_pool n"
    "tx_free_mask n' = tx_free_mask n" "length (s_ifaces n') = length (s_ifaces n)"
    "i < length (s_ifaces n) \<Longrightarrow> rx_queue (iface i n') = rx_queue (iface i n)"
    "i < length (s_ifaces n) \<Longrightarrow> iface_id (iface i n') = iface_id (iface i n)"
proof -
  let ?v = "\<lambda>f. (rx_queue f, iface_id f)"
  have m: "map ?v (s_ifaces n') = map ?v (s_ifaces n)"
    using assms by (simp add: rx_view_def)
  show len: "length (s_ifaces n') = length (s_ifaces n)"
    using arg_cong [OF m, of length] by simp
  show "s_frame_free_q n' = s_frame_free_q n" "s_frame_pool n' = s_frame_pool n"
    "tx_free_mask n' = tx_free_mask n" using assms by (simp_all add: rx_view_def)
  show "rx_queue (iface i n') = rx_queue (iface i n)" "iface_id (iface i n') = iface_id (iface i n)"
    if "i < length (s_ifaces n)"
    using arg_cong [OF m, of "\<lambda>xs. xs ! i"] that len by (simp_all add: iface_def)
qed

lemma frames_ok_view:
  assumes "frames_ok contents capacity N \<lparr>sys_net = n, drv_hold = d, poll_hold = p\<rparr>"
    and "rx_view n' = rx_view n"
  shows "frames_ok contents capacity N \<lparr>sys_net = n', drv_hold = d, poll_hold = p\<rparr>"
proof -
  note V = rx_view_eqD [OF assms(2)]
  have len: "length (s_ifaces n) = NET_IFACE_MAX"
    using assms(1) by (simp add: frames_ok_def queues_ok_def)
  have "queues_ok capacity N n'"
    using assms(1) by (auto simp: frames_ok_def queues_ok_def V len)
  then show ?thesis
    using assms(1) by (simp add: frames_ok_def all_frames_def held_def free_list_def rx_list_def V len)
qed

context net_platform
begin

text \<open>A frame that somebody holds is in range, and the free list has room for it.\<close>

lemma held_frame:
  assumes ok: "frames_ok contents capacity N s" and f: "f \<in> set (held s)"
  shows "f < N" and "\<exists>q. s_frame_free_q (sys_net s) = Some q \<and> capacity q = N \<and> length (contents q) < capacity q"
proof -
  obtain q where q: "s_frame_free_q (sys_net s) = Some q" "capacity q = N"
    using ok by (auto simp: frames_ok_def queues_ok_def)
  have m: "mset (all_frames contents s) = mset [0..<N]"
    using ok by (simp add: frames_ok_def)
  have "f \<in> set (all_frames contents s)" using f by (simp add: all_frames_def)
  then have "f \<in># mset [0..<N]" using m by (metis set_mset_mset)
  then show "f < N" by simp
  have "length (held s) + length (contents q) \<le> N"
    using arg_cong [OF m, of size] q by (simp add: all_frames_def free_list_def)
  moreover have "0 < length (held s)" using f by (cases "held s") auto
  ultimately have "length (contents q) < N" by linarith
  with q show "\<exists>q. s_frame_free_q (sys_net s) = Some q \<and> capacity q = N \<and> length (contents q) < capacity q"
    by simp
qed

lemma queues_ok_free:
  assumes "queues_ok capacity N n" and "s_frame_free_q n = Some q" and "length (contents q) < capacity q"
  shows "queues_ok capacity N (net_frame_free P (Some f) n)"
  using assms(1) net_frame_free_list(2) [OF assms(2,3), of f] assms(2)
  by (auto simp: queues_ok_def)

lemma rx_list_free [simp]: "rx_list contents i (net_frame_free P f n) = rx_list contents i n"
  by (simp add: rx_list_def)

lemma rx_alloc_frames_ok:
  assumes ok: "frames_ok contents capacity N \<lparr>sys_net = n, drv_hold = None, poll_hold = p\<rparr>"
    and a: "net_frame_alloc P (length buf) n = (Some f, n')"
  shows "frames_ok contents capacity N \<lparr>sys_net = copy_frame f buf n', drv_hold = Some f, poll_hold = p\<rparr>"
proof -
  note A = net_frame_alloc_SomeD [OF a] and F = net_frame_alloc_frame [OF a]
  have Q: "queues_ok capacity N n" using ok by (simp add: frames_ok_def)
  have m: "mset (all_frames contents \<lparr>sys_net = n, drv_hold = None, poll_hold = p\<rparr>) = mset [0..<N]"
    using ok by (simp add: frames_ok_def)
  have "f \<in># mset (all_frames contents \<lparr>sys_net = n, drv_hold = None, poll_hold = p\<rparr>)"
    using A(1) by (simp add: all_frames_def)
  then have f: "f < length (s_frame_pool n)" using Q unfolding m by (simp add: queues_ok_def)
  then have old: "length (frame_data (s_frame_pool n ! f)) = NET_FRAME_BUF"
    using Q by (simp add: queues_ok_def)
  have "queues_ok capacity N (copy_frame f buf n')"
    using Q A(2,3,4) F f old
    by (auto simp: queues_ok_def copy_frame_def iface_def dest!: set_list_updateD)
  moreover have "mset (all_frames contents \<lparr>sys_net = copy_frame f buf n', drv_hold = Some f, poll_hold = p\<rparr>)
      = mset (all_frames contents \<lparr>sys_net = n, drv_hold = None, poll_hold = p\<rparr>)"
    using A(1) F(1) by (simp add: all_frames_def held_def copy_frame_def free_list_def rx_list_def iface_def)
  ultimately show ?thesis using m by (simp add: frames_ok_def)
qed

lemma free_frames_ok:
  assumes ok: "frames_ok contents capacity N s" and h: "mset (held s) = add_mset f (mset (held s'))"
    and n: "sys_net s' = net_frame_free P (Some f) (sys_net s)"
  shows "frames_ok contents capacity N s'"
proof -
  have "f \<in> set (held s)" using arg_cong [OF h, of set_mset] by auto
  from held_frame(2) [OF ok this] obtain q where q: "s_frame_free_q (sys_net s) = Some q"
    "length (contents q) < capacity q" by blast
  have "queues_ok capacity N (sys_net s')"
    using queues_ok_free [OF _ q] ok n by (simp add: frames_ok_def)
  moreover have "mset (all_frames contents s') = mset (all_frames contents s)"
    using net_frame_free_list(1) [OF q, of f] h by (simp add: all_frames_def n)
  ultimately show ?thesis using ok by (simp add: frames_ok_def)
qed

text \<open>Moving a frame between a hand and a receive queue.\<close>

lemma queues_ok_rx_queue:
  assumes "queues_ok capacity N n" and "\<And>f. iface_id (g f) = iface_id f" and "\<And>f. rx_queue (g f) \<noteq> None"
  shows "queues_ok capacity N (upd_iface i g n)"
proof (cases "i < length (s_ifaces n)")
  case True
  with assms show ?thesis by (auto simp: queues_ok_def)
next
  case False
  then have "upd_iface i g n = n" by (cases n) (simp add: upd_iface_def list_update_beyond)
  with assms show ?thesis by simp
qed

lemma rx_list_upd:
  assumes "j < length (s_ifaces n)"
  shows "rx_list contents i (upd_iface j (\<lambda>f. f\<lparr>rx_queue := Some q\<rparr>) n) = (if i = j then contents q else rx_list contents i n)"
  using assms by (simp add: rx_list_def)

lemma free_list_upd [simp]: "free_list contents (upd_iface i g n) = free_list contents n"
  by (simp add: free_list_def)

lemma rx_post_frames_ok:
  assumes ok: "frames_ok contents capacity N \<lparr>sys_net = n, drv_hold = Some f, poll_hold = p\<rparr>"
    and i: "i < NET_IFACE_MAX" and post: "net_stack_post_rx P i f n = Some n'"
  shows "frames_ok contents capacity N \<lparr>sys_net = n', drv_hold = None, poll_hold = p\<rparr>"
proof (cases "enabled (iface i n)")
  case False
  with post have "n' = net_frame_free P (Some f) n" by (simp add: net_stack_post_rx_def)
  then show ?thesis by (intro free_frames_ok [OF ok]) (simp_all add: held_def)
next
  case True
  let ?n1 = "upd_iface i (\<lambda>j. j\<lparr>rx_frames := rx_frames j + 1, rx_bytes := rx_bytes j + of_nat (frame_len (s_frame_pool n ! f))\<rparr>) n"
  have ok1: "frames_ok contents capacity N \<lparr>sys_net = ?n1, drv_hold = Some f, poll_hold = p\<rparr>"
    by (rule frames_ok_view [OF ok]) simp
  then have len: "length (s_ifaces ?n1) = NET_IFACE_MAX" by (simp add: frames_ok_def queues_ok_def)
  obtain q where q: "rx_queue (iface i ?n1) = Some q"
    using ok1 i by (auto simp: frames_ok_def queues_ok_def simp del: iface_upd_iface)
  show ?thesis
  proof (cases "xQueueSend (queues P) q f")
    case None
    let ?n2 = "upd_iface i (\<lambda>j. j\<lparr>rx_drops := rx_drops j + 1\<rparr>) ?n1"
    have ok2: "frames_ok contents capacity N \<lparr>sys_net = ?n2, drv_hold = Some f, poll_hold = p\<rparr>"
      by (rule frames_ok_view [OF ok1]) simp
    have "n' = net_frame_free P (Some f) ?n2"
      using post i True q None by (simp add: net_stack_post_rx_def Let_def del: iface_upd_iface)
    then show ?thesis by (intro free_frames_ok [OF ok2]) (simp_all add: held_def)
  next
    case (Some q')
    let ?n2 = "upd_iface i (\<lambda>j. j\<lparr>rx_queue := Some q'\<rparr>) ?n1"
    have n': "n' = notify_task ?n2"
      using post i True q Some by (simp add: net_stack_post_rx_def Let_def del: iface_upd_iface)
    have q': "contents q' = contents q @ [f]" using send_SomeD [OF Some] by simp
    have old: "rx_list contents i ?n1 = contents q" unfolding rx_list_def q by simp
    have "queues_ok capacity N ?n2"
      by (rule queues_ok_rx_queue) (use ok1 in \<open>simp_all add: frames_ok_def\<close>)
    moreover have "mset (all_frames contents \<lparr>sys_net = ?n2, drv_hold = None, poll_hold = p\<rparr>)
        = mset (all_frames contents \<lparr>sys_net = ?n1, drv_hold = Some f, poll_hold = p\<rparr>)"
      using i len q' old by (auto simp: all_frames_def held_def rx_list_upd less_NET_IFACE_MAX)
    ultimately have "frames_ok contents capacity N \<lparr>sys_net = ?n2, drv_hold = None, poll_hold = p\<rparr>"
      using ok1 by (simp add: frames_ok_def)
    then show ?thesis unfolding n' by (rule frames_ok_view) simp
  qed
qed

lemma poll_take_frames_ok:
  assumes ok: "frames_ok contents capacity N \<lparr>sys_net = n, drv_hold = d, poll_hold = None\<rparr>"
    and i: "i < NET_IFACE_MAX" and take: "rx_take P i n = Some (r, n')"
  shows "frames_ok contents capacity N \<lparr>sys_net = n', drv_hold = d, poll_hold = map_option (Pair i) r\<rparr>"
proof (cases r)
  case None
  with take have "n' = n" by (auto simp: rx_take_def split: option.splits)
  with None ok show ?thesis by simp
next
  case (Some f)
  with take obtain q q' where q: "rx_queue (iface i n) = Some q"
    and recv: "xQueueReceive (queues P) q = Some (f, q')"
    and n': "n' = upd_iface i (\<lambda>j. j\<lparr>rx_queue := Some q'\<rparr>) n"
    by (auto simp: rx_take_def split: option.splits)
  have len: "length (s_ifaces n) = NET_IFACE_MAX" using ok by (simp add: frames_ok_def queues_ok_def)
  have "rx_list contents i n = f # contents q'" using receive_SomeD [OF recv] q by (simp add: rx_list_def)
  then have "mset (all_frames contents \<lparr>sys_net = n', drv_hold = d, poll_hold = Some (i, f)\<rparr>)
      = mset (all_frames contents \<lparr>sys_net = n, drv_hold = d, poll_hold = None\<rparr>)"
    using i len n' by (auto simp: all_frames_def held_def rx_list_upd less_NET_IFACE_MAX)
  moreover have "queues_ok capacity N n'"
    unfolding n' by (rule queues_ok_rx_queue) (use ok in \<open>simp_all add: frames_ok_def\<close>)
  ultimately show ?thesis using ok Some by (simp add: frames_ok_def)
qed

lemma poll_deliver_frames_ok:
  assumes "frames_ok contents capacity N \<lparr>sys_net = n, drv_hold = d, poll_hold = Some (i, f)\<rparr>"
  shows "frames_ok contents capacity N \<lparr>sys_net = net_frame_free P (Some f) (rx_deliver i f n), drv_hold = d, poll_hold = None\<rparr>"
  by (rule free_frames_ok [OF frames_ok_view [OF assms, of "rx_deliver i f n"]])
    (simp_all add: held_def frame_simps)

lemma step_frames_ok:
  assumes "net_step P S K s a s'" and "frames_ok contents capacity N s"
  shows "frames_ok contents capacity N s'"
  using assms
proof (induction rule: net_step.induct)
  case (rx_none buf n n' p)
  then show ?case
    by (auto elim!: frames_ok_view simp: net_frame_alloc_NoneD [OF rx_none(1)])
next
  case (poll_run i n n' d)
  then have "rx_view n' = rx_view n"
    by (intro poll_run_rx_view) (simp_all add: frames_ok_def queues_ok_def)
  with poll_run show ?case by (blast intro: frames_ok_view)
next
  case (attach A h n r n' d p)
  then show ?case by (auto elim!: frames_ok_view dest: attach_views(1))
next
  case (l2_send n d p i frame)
  then show ?case using tx_only_views(1) [OF l2_send_tx_only] by (blast intro: frames_ok_view)
qed (auto elim!: frames_ok_view rx_alloc_frames_ok rx_post_frames_ok [where i = NET_IFACE_ETH] poll_take_frames_ok
    poll_deliver_frames_ok simp: frame_simps net_stack_kick_poll_def)

lemma run_frames_ok:
  "net_run P S K s as s' \<Longrightarrow> frames_ok contents capacity N s \<Longrightarrow> frames_ok contents capacity N s'"
  by (induction rule: net_run.induct) (auto intro: step_frames_ok)

end

end
