(* ===== verification/Net_Inv.thy ===== *)
theory Net_Inv
  imports Net_Run
begin

text \<open>
  Invariants of the running stack: the locking discipline, the agreement of the address events
  with the event group the application waits on, and what holds when \<open>net_stack_init\<close> returns.
\<close>

section \<open>The locking discipline\<close>

definition lock_view :: "('q, 'g, 'c, 'e) net \<Rightarrow> bool \<times> bool \<times> bool \<times> bool \<times> bool" where
  "lock_view n = (lock_created n, lock_held n, lock_fault n, unguarded n, cb_under_lock n)"

lemma lock_ready_view: "lock_ready n \<longleftrightarrow> lock_view n = (True, False, False, False, False)"
  by (auto simp: lock_ready_def lock_ok_def lock_view_def)

lemma lock_view_simps [simp]:
  "lock_view (upd_iface i g n) = lock_view n" "lock_view (set_handle i h n) = lock_view n"
  "lock_view (notify_task n) = lock_view n" "lock_view (net_frame_free P f n) = lock_view n"
  "lock_view (n\<lparr>s_task := t\<rparr>) = lock_view n" "lock_view (n\<lparr>ext := e\<rparr>) = lock_view n"
  "lock_view (n\<lparr>s_taps := ts\<rparr>) = lock_view n" "lock_view (n\<lparr>s_eth_handle := eh\<rparr>) = lock_view n"
  "lock_view (n\<lparr>s_progress_evt := pg\<rparr>) = lock_view n" "lock_view (n\<lparr>s_evt := g'\<rparr>) = lock_view n"
  "lock_view (n\<lparr>s_user_cb := cb, s_user_cb_arg := u\<rparr>) = lock_view n"
  "lock_view (copy_frame p bs n) = lock_view n" "lock_view (core_new n) = lock_view n"
  by (simp_all add: lock_view_def notify_task_def copy_frame_def)

lemma lock_view_ops:
  assumes "lock_view n = (True, False, False, False, False)"
  shows "lock_view (invoke_cb c n) = (True, False, False, False, False)"
    and "lock_view (emit_event i evt n) = (True, False, False, False, False)"
    and "lock_view (core_call (SMOLTCP_LOCK n)) = (True, True, False, False, False)"
    and "lock_view (snd (locked_call i f n)) = (True, False, False, False, False)"
  using assms
  by (auto simp: lock_view_def invoke_cb_def emit_event_def lock_defs locked_call_def Let_def case_prod_unfold
      split: option.split)

lemma lock_view_unlock:
  "lock_view n = (True, True, False, False, False) \<Longrightarrow>
     lock_view (SMOLTCP_UNLOCK n) = (True, False, False, False, False)"
  by (simp add: lock_view_def lock_defs)

lemma tx_only_lock_view: "tx_only n n' \<Longrightarrow> lock_view n' = lock_view n"
  by (simp add: lock_view_def tx_only_fields)

lemma core_poll_lock_view:
  assumes "core_poll P S i n = Some n'" and "i < length (s_ifaces n)"
  shows "lock_view n' = lock_view n"
  using core_pollD [OF assms] tx_only_lock_view by fastforce

lemma ip_edge_lock_ready:
  "ip_edge P i up n = Some n' \<Longrightarrow> lock_ready n \<Longrightarrow> lock_ready n'"
  by (auto simp: lock_ready_view ip_edge_def Let_def lock_view_ops split: if_splits option.splits)

lemma poll_run_lock_ready [wf_intros]:
  assumes run: "poll_run P S i n = Some n'" and i: "i < length (s_ifaces n)" and ok: "lock_ready n"
  shows "lock_ready n'"
proof -
  from run obtain n1 where n1: "core_poll P S i (core_call (SMOLTCP_LOCK n)) = Some n1"
    by (auto simp: poll_run_def split: option.splits)
  have "lock_view n1 = (True, True, False, False, False)"
    using core_poll_lock_view [OF n1] i ok by (simp add: lock_view_ops lock_ready_view)
  then have "lock_ready (SMOLTCP_UNLOCK n1)" by (simp add: lock_ready_view lock_view_unlock)
  then have "lock_ready ((SMOLTCP_UNLOCK n1)\<lparr>s_progress_evt := g\<rparr>)" for g by (simp add: lock_ready_view)
  with run n1 show ?thesis
    by (auto simp: poll_run_def Let_def split: option.splits elim: ip_edge_lock_ready)
qed

lemma link_event_lock_ready [wf_intros]: "lock_ready n \<Longrightarrow> lock_ready (net_stack_link_event i up n)"
  by (simp add: lock_ready_view net_stack_link_event_def Let_def lock_view_ops)

lemma rx_deliver_lock_ready [wf_intros]: "lock_ready n \<Longrightarrow> lock_ready (rx_deliver i f n)"
  by (auto simp: lock_ready_view rx_deliver_def dispatch_tap_def Let_def lock_view_ops split: option.split)

lemma task_sleep_lock_ready [wf_intros]:
  assumes "lock_ready n"
  shows "lock_ready (snd (task_sleep P S n))"
  using assms tx_only_lock_view [OF next_deadline_tx_only [of "core_call (SMOLTCP_LOCK n)" P S "[0..<NET_IFACE_MAX]" INT64_MAX]]
  by (simp add: lock_ready_view task_sleep_def Let_def case_prod_unfold lock_view_ops lock_view_unlock)

lemma start_ip_lock_ready: "start_ip S K i n = Some n' \<Longrightarrow> lock_ready n \<Longrightarrow> lock_ready n'"
  by (auto simp: lock_ready_view start_ip_def Let_def lock_view_ops lock_view_unlock split: if_splits option.splits)

lemma net_stack_l2_tap_lock_view [simp]: "lock_view (snd (net_stack_l2_tap et cb user n)) = lock_view n"
  by (simp add: net_stack_l2_tap_def Let_def case_prod_unfold)

lemma attach_lock_ready [wf_intros]:
  assumes "esp_smoltcp_attach_eth P S K A h n = Some (r, n')" and "lock_ready n"
  shows "lock_ready n'"
proof -
  let ?n1 = "upd_iface NET_IFACE_ETH (\<lambda>f. f\<lparr>enabled := True, l2_tx := Some Eth_tx, mac := snd (got_mac A)\<rparr>) (n\<lparr>s_eth_handle := h\<rparr>)"
  have "lock_view (snd (smoltcp_glue_now_us P ?n1)) = lock_view n"
    using tx_only_lock_view [OF now_us_tx_only [of ?n1 P]] by simp
  with assms show ?thesis
    by (auto simp: esp_smoltcp_attach_eth_def Let_def case_prod_unfold ptp_start_def lock_ready_view
        dest!: start_ip_lock_ready split: if_splits option.splits)
qed

lemma post_rx_lock_view: "net_stack_post_rx P i f n = Some n' \<Longrightarrow> lock_view n' = lock_view n"
  by (auto simp: net_stack_post_rx_def Let_def split: if_splits option.splits)

lemma rx_take_lock_view: "rx_take P i n = Some (r, n') \<Longrightarrow> lock_view n' = lock_view n"
  by (auto simp: rx_take_def split: option.splits)

lemma alloc_lock_view: "net_frame_alloc P len n = (r, n') \<Longrightarrow> lock_view n' = lock_view n"
  by (simp add: lock_view_def net_frame_alloc_frame)

lemma step_lock_ready:
  assumes "net_step P S K s a s'" and "lock_ready (sys_net s)" and "length (s_ifaces (sys_net s)) = NET_IFACE_MAX"
  shows "lock_ready (sys_net s')"
  using assms
proof (induction rule: net_step.induct)
  case (l2_send n d p i frame)
  then show ?case by (simp add: lock_ready_view tx_only_lock_view [OF l2_send_tx_only])
qed (auto intro: wf_intros [unfolded lock_ready_view] simp: lock_ready_view lock_view_ops net_stack_kick_poll_def net_stack_register_event_cb_def
    alloc_lock_view post_rx_lock_view rx_take_lock_view)

section \<open>Creating a context\<close>

text \<open>Only an attachment creates a context, and a successful one does so without the lock.\<close>

lemma unguarded_new_simps [simp]:
  "unguarded_new (set_handle i h n) = unguarded_new n" "unguarded_new (SMOLTCP_LOCK n) = unguarded_new n"
  "unguarded_new (SMOLTCP_UNLOCK n) = unguarded_new n" "unguarded_new (core_call n) = unguarded_new n"
  "unguarded_new (invoke_cb c n) = unguarded_new n" "unguarded_new (notify_task n) = unguarded_new n"
  "unguarded_new (emit_event i evt n) = unguarded_new n" "unguarded_new (net_frame_free P f n) = unguarded_new n"
  "unguarded_new (copy_frame p bs n) = unguarded_new n" "unguarded_new (snd (locked_call i call n)) = unguarded_new n"
  "unguarded_new (snd (net_stack_l2_tap et cb user n)) = unguarded_new n"
  "unguarded_new (snd (net_stack_register_event_cb cb user n)) = unguarded_new n"
  "unguarded_new (net_stack_link_event i up n) = unguarded_new n" "unguarded_new (snd (dispatch_tap i fr n)) = unguarded_new n"
  by (simp_all add: set_handle_def lock_defs invoke_cb_def notify_task_def copy_frame_def emit_event_def locked_call_def
      net_stack_l2_tap_def net_stack_register_event_cb_def net_stack_link_event_def dispatch_tap_def net_frame_free_def
      Let_def case_prod_unfold split: option.split)

lemma unguarded_new_calls:
  "unguarded_new (rx_deliver i f n) = unguarded_new n"
  "net_frame_alloc P len n = (r, n') \<Longrightarrow> unguarded_new n' = unguarded_new n"
  "net_stack_post_rx P i f n = Some n' \<Longrightarrow> unguarded_new n' = unguarded_new n"
  "rx_take P i n = Some (ro, n') \<Longrightarrow> unguarded_new n' = unguarded_new n"
  "start_ip S K i n = Some n' \<Longrightarrow> unguarded_new n' = unguarded_new n"
  "ip_edge P i up n = Some n' \<Longrightarrow> unguarded_new n' = unguarded_new n"
  by (auto simp: rx_deliver_def net_frame_alloc_def net_stack_post_rx_def rx_take_def start_ip_def ip_edge_def Let_def
      case_prod_unfold split: option.splits if_splits)

lemma poll_run_unguarded_new:
  assumes "poll_run P S i n = Some n'" and "i < length (s_ifaces n)"
  shows "unguarded_new n' = unguarded_new n"
proof -
  from assms(1) obtain n1 where n1: "core_poll P S i (core_call (SMOLTCP_LOCK n)) = Some n1"
    by (auto simp: poll_run_def split: option.splits)
  have "unguarded_new n1 = unguarded_new n" using core_pollD [OF n1] assms(2) tx_only_fields(19) by fastforce
  with assms(1) n1 show ?thesis by (auto simp: poll_run_def Let_def dest!: unguarded_new_calls(6) split: option.splits)
qed

lemma task_sleep_unguarded_new: "unguarded_new (snd (task_sleep P S n)) = unguarded_new n"
  using tx_only_fields(19) [OF next_deadline_tx_only [of "core_call (SMOLTCP_LOCK n)" P S "[0..<NET_IFACE_MAX]" INT64_MAX]]
  by (simp add: task_sleep_def Let_def case_prod_unfold)

lemma step_unguarded_new:
  assumes "net_step P S K s a s'" and "a \<noteq> Attach" and "length (s_ifaces (sys_net s)) = NET_IFACE_MAX"
  shows "unguarded_new (sys_net s') = unguarded_new (sys_net s)"
  using assms
proof (induction rule: net_step.induct)
  case (l2_send n d p i frame)
  then show ?case by (simp add: tx_only_fields(19) [OF l2_send_tx_only])
qed (simp_all add: unguarded_new_calls poll_run_unguarded_new task_sleep_unguarded_new net_stack_kick_poll_def)

lemma attach_unguarded_new:
  assumes "esp_smoltcp_attach_eth P S K A h n = Some (ESP_OK, n')" and "\<not> lock_held n"
  shows "unguarded_new n'"
proof -
  let ?n1 = "upd_iface NET_IFACE_ETH (\<lambda>f. f\<lparr>enabled := True, l2_tx := Some Eth_tx, mac := snd (got_mac A)\<rparr>) (n\<lparr>s_eth_handle := h\<rparr>)"
  have "\<not> lock_held (snd (smoltcp_glue_now_us P ?n1))"
    using tx_only_fields(7) [OF now_us_tx_only [of ?n1 P]] assms(2) by simp
  then have "unguarded_new (core_new (snd (smoltcp_glue_now_us P ?n1)))" by (simp add: core_new_def)
  with assms(1) show ?thesis
    by (auto simp: esp_smoltcp_attach_eth_def Let_def case_prod_unfold ptp_start_def
        dest!: unguarded_new_calls(5) split: if_splits option.splits)
qed

section \<open>Address events\<close>

locale net_events = net_platform P contents capacity
  for P :: "('q, 'g, 'e) platform" and contents :: "'q \<Rightarrow> nat list" and capacity :: "'q \<Rightarrow> nat" +
  fixes bits :: "'g \<Rightarrow> u32"
  assumes set_bits: "bits (xEventGroupSetBits P b g) = bits g OR b"
    and clear_bits: "bits (xEventGroupClearBits P b g) = bits g AND NOT b"

text \<open>The event group the application waits on shows exactly the interfaces that have an address.\<close>

definition evt_ok :: "('g \<Rightarrow> u32) \<Rightarrow> ('q, 'g, 'c, 'e) net \<Rightarrow> bool" where
  "evt_ok bits n \<longleftrightarrow> s_progress_evt n \<noteq> None
     \<and> (\<exists>g. s_evt n = Some g \<and> (\<forall>i < length (s_ifaces n). bit (bits g) i \<longleftrightarrow> ip_up (iface i n)))"

lemma evt_ok_view: "ip_view n' = ip_view n \<Longrightarrow> evt_ok bits n' = evt_ok bits n"
proof -
  assume v: "ip_view n' = ip_view n"
  then have len: "length (s_ifaces n') = length (s_ifaces n)"
    by (metis (no_types, lifting) ip_view_def length_map prod.inject)
  have "ip_up (iface i n') = ip_up (iface i n)" if "i < length (s_ifaces n)" for i
    using arg_cong [of _ _ "\<lambda>xs. xs ! i"] v that len by (simp add: ip_view_def iface_def) (metis nth_map)
  with v len show ?thesis by (auto simp: evt_ok_def ip_view_def)
qed

definition ip_event :: "nat \<Rightarrow> callback \<Rightarrow> bool list" where
  "ip_event i c = (case c of
      UserEvent cb j evt u \<Rightarrow> if j = i \<and> evt = GOT_IP then [True] else if j = i \<and> evt = LOST_IP then [False] else []
    | TapFrame _ _ _ _ _ \<Rightarrow> [])"

text \<open>The address events of an interface the application has seen, \<open>True\<close> for GOT_IP.\<close>

definition ip_events :: "nat \<Rightarrow> ('q, 'g, 'c, 'e) net \<Rightarrow> bool list" where
  "ip_events i n = concat (map (ip_event i) (cb_log n))"

definition cb_view :: "('q, 'g, 'c, 'e) net \<Rightarrow> bool \<times> (nat \<Rightarrow> bool list)" where
  "cb_view n = (s_user_cb n = None, \<lambda>i. ip_events i n)"

definition events_ok :: "nat \<Rightarrow> ('q, 'g, 'c, 'e) net \<Rightarrow> bool" where
  "events_ok i n \<longleftrightarrow> successively (\<noteq>) (ip_events i n)
     \<and> (s_user_cb n = None \<longrightarrow> ip_events i n = [])
     \<and> (ip_events i n \<noteq> [] \<longrightarrow> last (ip_events i n) = ip_up (iface i n))"

lemma cb_view_simps [simp]:
  "cb_view (upd_iface i g n) = cb_view n" "cb_view (set_handle i h n) = cb_view n"
  "cb_view (notify_task n) = cb_view n" "cb_view (net_frame_free P f n) = cb_view n"
  "cb_view (n\<lparr>s_task := t\<rparr>) = cb_view n" "cb_view (n\<lparr>ext := e\<rparr>) = cb_view n"
  "cb_view (n\<lparr>s_taps := ts\<rparr>) = cb_view n" "cb_view (n\<lparr>s_eth_handle := eh\<rparr>) = cb_view n"
  "cb_view (n\<lparr>s_progress_evt := pg\<rparr>) = cb_view n" "cb_view (n\<lparr>s_evt := g'\<rparr>) = cb_view n"
  "cb_view (copy_frame p bs n) = cb_view n" "cb_view (SMOLTCP_LOCK n) = cb_view n"
  "cb_view (SMOLTCP_UNLOCK n) = cb_view n" "cb_view (core_call n) = cb_view n" "cb_view (core_new n) = cb_view n"
  "cb_view (invoke_cb (TapFrame a b c d u) n) = cb_view n"
  "cb_view (emit_event i IFACE_UP n) = cb_view n" "cb_view (emit_event i IFACE_DOWN n) = cb_view n"
  by (simp_all add: cb_view_def ip_events_def ip_event_def notify_task_def copy_frame_def lock_defs
      invoke_cb_def emit_event_def split: option.split)

lemma locked_call_cb_view [simp]: "cb_view (snd (locked_call i f n)) = cb_view n"
  by (simp add: locked_call_def Let_def case_prod_unfold)

lemma tx_only_cb_view: "tx_only n n' \<Longrightarrow> cb_view n' = cb_view n"
  by (simp add: cb_view_def ip_events_def tx_only_fields)

lemma cb_view_calls [frame_simps]:
  "cb_view (net_stack_link_event i up n) = cb_view n"
  "cb_view (rx_deliver i f n) = cb_view n"
  "cb_view (snd (net_stack_l2_tap et cb user n)) = cb_view n"
  by (auto simp: net_stack_link_event_def rx_deliver_def dispatch_tap_def net_stack_l2_tap_def Let_def
      case_prod_unfold split: option.split)

lemma task_sleep_cb_view [frame_simps]: "cb_view (snd (task_sleep P S n)) = cb_view n"
  using tx_only_cb_view [OF next_deadline_tx_only [of "core_call (SMOLTCP_LOCK n)" P S "[0..<NET_IFACE_MAX]" INT64_MAX]]
  by (simp add: task_sleep_def Let_def case_prod_unfold)

lemma cb_view_rx:
  "net_stack_post_rx P i f n = Some n' \<Longrightarrow> cb_view n' = cb_view n"
  "rx_take P i n = Some (r, n') \<Longrightarrow> cb_view n' = cb_view n"
  "net_frame_alloc P len n = (r', n') \<Longrightarrow> cb_view n' = cb_view n"
  by (auto simp: net_stack_post_rx_def rx_take_def Let_def cb_view_def ip_events_def net_frame_alloc_frame
      split: if_splits option.splits)

lemma start_ip_cb_view: "start_ip S K i n = Some n' \<Longrightarrow> cb_view n' = cb_view n"
  by (auto simp: start_ip_def Let_def split: if_splits option.splits)

lemma attach_cb_view:
  assumes "esp_smoltcp_attach_eth P S K A h n = Some (r, n')"
  shows "cb_view n' = cb_view n"
proof -
  let ?n1 = "upd_iface NET_IFACE_ETH (\<lambda>f. f\<lparr>enabled := True, l2_tx := Some Eth_tx, mac := snd (got_mac A)\<rparr>) (n\<lparr>s_eth_handle := h\<rparr>)"
  have "cb_view (snd (smoltcp_glue_now_us P ?n1)) = cb_view n"
    using tx_only_cb_view [OF now_us_tx_only [of ?n1 P]] by simp
  with assms show ?thesis
    by (auto simp: esp_smoltcp_attach_eth_def Let_def case_prod_unfold ptp_start_def frame_simps
        dest!: start_ip_cb_view split: if_splits option.splits)
qed

lemma views_len: "ip_view n' = ip_view n \<Longrightarrow> length (s_ifaces n') = length (s_ifaces n)"
  by (metis (no_types, lifting) ip_view_def length_map prod.inject)

lemma events_ok_view:
  assumes "ip_view n' = ip_view n" and "cb_view n' = cb_view n" and "i < length (s_ifaces n)"
  shows "events_ok i n' = events_ok i n"
proof -
  have "ip_up (iface i n') = ip_up (iface i n)"
    using assms(1,3) views_len [OF assms(1)] by (simp add: ip_view_def iface_def) (metis nth_map)
  with assms(2) show ?thesis by (auto simp: events_ok_def cb_view_def fun_eq_iff)
qed

lemma ip_view_up: "ip_view n' = ip_view n \<Longrightarrow> i < length (s_ifaces n) \<Longrightarrow> ip_up (iface i n') = ip_up (iface i n)"
  using views_len [of n' n] by (simp add: ip_view_def iface_def) (metis nth_map)

lemma IP_UP_BIT_exp: "IP_UP_BIT i = 2 ^ i"
  by (simp add: IP_UP_BIT_def push_bit_eq_mult)

lemma poll_runD:
  assumes "poll_run P S i n = Some n'" and "i < length (s_ifaces n)"
  obtains up n1 where "rx_view n1 = rx_view n" and "ip_view n1 = ip_view n" and "cb_view n1 = cb_view n"
    and "enabled (iface i n1) = enabled (iface i n)" and "ip_edge P i up n1 = Some n'"
    and "up = smoltcp_iface_has_ip (smoltcp_handle (iface i n1))"
proof -
  from assms(1) obtain n1 g where n1: "core_poll P S i (core_call (SMOLTCP_LOCK n)) = Some n1"
    and g: "s_progress_evt (SMOLTCP_UNLOCK n1) = Some g"
    and e: "ip_edge P i (smoltcp_iface_has_ip (smoltcp_handle (iface i n1)))
      ((SMOLTCP_UNLOCK n1)\<lparr>s_progress_evt := Some (xEventGroupSetBits P PROGRESS_BIT g)\<rparr>) = Some n'"
    by (auto simp: poll_run_def Let_def split: option.splits)
  let ?n = "core_call (SMOLTCP_LOCK n)"
  obtain n2 h where n2: "tx_only ?n n2" and n1': "n1 = set_handle i h n2"
    using core_pollD [OF n1] assms(2) by auto
  note V = tx_only_views [OF n2] tx_only_cb_view [OF n2]
  have len: "i < length (s_ifaces n2)" using tx_only_fields(17) [OF n2] assms(2) by simp
  have en: "enabled (iface i n2) = enabled (iface i n)"
    using tx_only_iface(2) [OF n2] assms(2) by simp
  let ?n3 = "(SMOLTCP_UNLOCK n1)\<lparr>s_progress_evt := Some (xEventGroupSetBits P PROGRESS_BIT g)\<rparr>"
  have pv: "ip_view ?n3 = ip_view n"
  proof -
    have "ip_view (SMOLTCP_UNLOCK n1) = ip_view n" using V(2) n1' by simp
    with g show ?thesis by (auto simp: ip_view_def)
  qed
  have if3: "iface i ?n3 = iface i n1" by (simp add: iface_def)
  show ?thesis
    by (rule that [of ?n3 "smoltcp_iface_has_ip (smoltcp_handle (iface i n1))"])
      (use V pv e en if3 len n1' in \<open>simp_all\<close>)
qed

lemma ip_edgeD:
  assumes "ip_edge P i up n = Some n'"
  shows "iface j n' = iface j (upd_iface i (\<lambda>f. f\<lparr>ip_up := up\<rparr>) n)" "length (s_ifaces n') = length (s_ifaces n)"
    "s_progress_evt n' = s_progress_evt n" "s_user_cb n' = s_user_cb n"
  using assms by (auto simp: ip_edge_def Let_def iface_def emit_event_def invoke_cb_def upd_iface_def split: if_splits option.splits)

lemma ip_edge_events:
  assumes "ip_edge P i up n = Some n'" and "iface_id (iface i n) = i"
  shows "ip_events j n' = ip_events j n @ (if s_user_cb n \<noteq> None \<and> j = i \<and> up \<noteq> ip_up (iface i n) then [up] else [])"
  using assms by (auto simp: ip_edge_def Let_def emit_event_def invoke_cb_def upd_iface_def ip_events_def ip_event_def
      split: if_splits option.splits)

lemma events_ok_edge:
  assumes e: "ip_edge P i up n = Some n'" and k: "iface_id (iface i n) = i" and i: "i < length (s_ifaces n)"
    and ok: "events_ok j n" "j < length (s_ifaces n)"
  shows "events_ok j n'"
proof -
  note E = ip_edgeD [OF e] ip_edge_events [OF e k, of j]
  have up: "ip_up (iface j n') = (if j = i then up else ip_up (iface j n))" using E(1) i by simp
  have "successively (\<noteq>) (ip_events j n @ [up])" if "j = i" "up \<noteq> ip_up (iface i n)"
    using ok that by (auto simp: events_ok_def successively_append_iff)
  with ok up E(4,5) show ?thesis by (auto simp: events_ok_def)
qed

inductive_cases PollRunE: "net_step P S K s (PollRun i) s'"

inductive_cases RegisterCbE: "net_step P S K s (RegisterCb cb u) s'"

text \<open>Only a poll changes the address state, and only it and a registration the event log.\<close>

lemma ip_view_more [simp]:
  "ip_view (net_frame_free P f n) = ip_view n" "ip_view (copy_frame p bs n) = ip_view n"
  by (simp_all add: ip_view_def copy_frame_def)

lemma ip_view_rx:
  "net_stack_post_rx P i f n = Some n' \<Longrightarrow> ip_view n' = ip_view n"
  "rx_take P i n = Some (r, n') \<Longrightarrow> ip_view n' = ip_view n"
  by (auto simp: net_stack_post_rx_def rx_take_def Let_def split: if_splits option.splits)

lemma ip_view_alloc: "net_frame_alloc P len n = (r, n') \<Longrightarrow> ip_view n' = ip_view n"
  by (simp add: ip_view_def net_frame_alloc_frame)

lemma step_ip_view:
  assumes "net_step P S K s a s'" and "\<forall>i. a \<noteq> PollRun i"
  shows "ip_view (sys_net s') = ip_view (sys_net s)"
  using assms
proof (induction rule: net_step.induct)
  case (l2_send n d p i frame)
  then show ?case by (simp add: tx_only_views(2) [OF l2_send_tx_only])
qed (auto simp: frame_simps net_stack_kick_poll_def ip_view_rx ip_view_alloc attach_views(2))

lemma step_cb_view:
  assumes "net_step P S K s a s'" and "\<forall>i. a \<noteq> PollRun i" and "\<forall>c u. a \<noteq> RegisterCb c u"
  shows "cb_view (sys_net s') = cb_view (sys_net s)"
  using assms
proof (induction rule: net_step.induct)
  case (l2_send n d p i frame)
  then show ?case by (simp add: tx_only_cb_view [OF l2_send_tx_only])
qed (auto simp: frame_simps net_stack_kick_poll_def cb_view_rx attach_cb_view)

text \<open>The invariant of the running stack.\<close>

definition stack_ok ::
  "('q \<Rightarrow> nat list) \<Rightarrow> ('q \<Rightarrow> nat) \<Rightarrow> ('g \<Rightarrow> u32) \<Rightarrow> nat \<Rightarrow> ('q, 'g, 'c, 'e) sys \<Rightarrow> bool" where
  "stack_ok contents capacity bits N s \<longleftrightarrow>
     frames_ok contents capacity N s \<and> lock_ready (sys_net s) \<and> evt_ok bits (sys_net s)"

context net_events
begin

lemma evt_ok_edge:
  assumes e: "ip_edge P i up n = Some n'" and k: "iface_id (iface i n) = i" and i: "i < length (s_ifaces n)"
    and len: "length (s_ifaces n) \<le> 32" and ok: "evt_ok bits n"
  shows "evt_ok bits n'"
proof -
  note E = ip_edgeD [OF e]
  from ok obtain g where g: "s_evt n = Some g" "\<And>j. j < length (s_ifaces n) \<Longrightarrow> bit (bits g) j \<longleftrightarrow> ip_up (iface j n)"
    and pg: "s_progress_evt n \<noteq> None"
    by (auto simp: evt_ok_def)
  have "i < 32" using i len by simp
  let ?g = "if up = ip_up (iface i n) then g
    else if up then xEventGroupSetBits P (IP_UP_BIT i) g else xEventGroupClearBits P (IP_UP_BIT i) g"
  have g': "s_evt n' = Some ?g"
    using e k g by (auto simp: ip_edge_def Let_def emit_event_def invoke_cb_def upd_iface_def split: if_splits option.splits)
  have "bit (bits ?g) j \<longleftrightarrow> ip_up (iface j n')" if "j < length (s_ifaces n)" for j
    using g(2) [OF that] E(1) [of j] that i \<open>i < 32\<close>
    by (auto simp: set_bits clear_bits IP_UP_BIT_exp bit_tx_set bit_tx_clear)
  with g' E pg show ?thesis by (auto simp: evt_ok_def)
qed

lemma stack_okD:
  assumes "stack_ok contents capacity bits N s"
  shows "length (s_ifaces (sys_net s)) = NET_IFACE_MAX" "frames_ok contents capacity N s"
    "lock_ready (sys_net s)" "evt_ok bits (sys_net s)"
    "i < NET_IFACE_MAX \<Longrightarrow> iface_id (iface i (sys_net s)) = i"
    "i < NET_IFACE_MAX \<Longrightarrow> \<exists>q. rx_queue (iface i (sys_net s)) = Some q"
  using assms by (auto simp: stack_ok_def frames_ok_def queues_ok_def)

lemma poll_run_edge:
  assumes "poll_run P S i n = Some n'" and "i < NET_IFACE_MAX"
    and "length (s_ifaces n) = NET_IFACE_MAX" and "iface_id (iface i n) = i"
  obtains up n1 where "ip_view n1 = ip_view n" "cb_view n1 = cb_view n" "ip_edge P i up n1 = Some n'"
    "iface_id (iface i n1) = i" "length (s_ifaces n1) = NET_IFACE_MAX"
proof -
  have i: "i < length (s_ifaces n)" using assms by simp
  obtain up n1 where V: "rx_view n1 = rx_view n" "ip_view n1 = ip_view n" "cb_view n1 = cb_view n"
    and e: "ip_edge P i up n1 = Some n'"
    using poll_runD [OF assms(1) i] by metis
  from rx_view_eqD(4) [OF V(1)] rx_view_eqD(6) [OF V(1) i] V e assms(3,4) that show ?thesis by metis
qed

lemma NET_IFACE_MAX_le: "NET_IFACE_MAX \<le> 32"
  by (simp add: NET_IFACE_MAX_def)

lemma step_evt_ok:
  assumes step: "net_step P S K s a s'" and ok: "stack_ok contents capacity bits N s"
  shows "evt_ok bits (sys_net s')"
proof (cases "\<exists>i. a = PollRun i")
  case False
  then show ?thesis
    using evt_ok_view [OF step_ip_view [OF step]] stack_okD(4) [OF ok] by blast
next
  case True
  then obtain i where "net_step P S K s (PollRun i) s'" using step by blast
  then show ?thesis
  proof (rule PollRunE)
    fix n n' d
    assume 1: "s = \<lparr>sys_net = n, drv_hold = d, poll_hold = None\<rparr>" "s' = \<lparr>sys_net = n', drv_hold = d, poll_hold = None\<rparr>"
      "i < NET_IFACE_MAX" "enabled (iface i n)" "poll_run P S i n = Some n'"
    note ok = stack_okD [OF ok, unfolded 1 sys.simps]
    obtain up n1 where n1: "ip_view n1 = ip_view n" "ip_edge P i up n1 = Some n'"
      "iface_id (iface i n1) = i" "length (s_ifaces n1) = NET_IFACE_MAX"
      using poll_run_edge [OF 1(5,3) ok(1) ok(5) [OF 1(3)]] by metis
    have "evt_ok bits n1" using evt_ok_view [OF n1(1)] ok(4) by simp
    from evt_ok_edge [OF n1(2,3) _ _ this] n1(4) 1(2,3) NET_IFACE_MAX_le show ?thesis by simp
  qed
qed

text \<open>The address flag of an interface is what its own poll found, and no other step touches it.\<close>

lemma step_ip_up:
  assumes step: "net_step P S K s a s'" and ok: "stack_ok contents capacity bits N s" and i: "i < NET_IFACE_MAX"
  shows "ip_up (iface i (sys_net s')) =
    (if a = PollRun i then smoltcp_iface_has_ip (smoltcp_handle (iface i (sys_net s'))) else ip_up (iface i (sys_net s)))"
proof (cases "\<exists>k. a = PollRun k")
  case False
  with step_ip_view [OF step] have "ip_view (sys_net s') = ip_view (sys_net s)" by blast
  from ip_view_up [OF this] i stack_okD(1) [OF ok] have "ip_up (iface i (sys_net s')) = ip_up (iface i (sys_net s))" by simp
  with False show ?thesis by auto
next
  case True
  then obtain k where a: "a = PollRun k" by blast
  with step have "net_step P S K s (PollRun k) s'" by simp
  then show ?thesis
  proof (rule PollRunE)
    fix n n' d
    assume 1: "s = \<lparr>sys_net = n, drv_hold = d, poll_hold = None\<rparr>" "s' = \<lparr>sys_net = n', drv_hold = d, poll_hold = None\<rparr>"
      "k < NET_IFACE_MAX" "enabled (iface k n)" "poll_run P S k n = Some n'"
    have len: "length (s_ifaces n) = NET_IFACE_MAX" using stack_okD(1) [OF ok] 1(1) by simp
    obtain up n1 where n1: "ip_view n1 = ip_view n" "ip_edge P k up n1 = Some n'"
      and up: "up = smoltcp_iface_has_ip (smoltcp_handle (iface k n1))"
      using poll_runD [OF 1(5)] 1(3) len by metis
    have len1: "length (s_ifaces n1) = NET_IFACE_MAX" using views_len [OF n1(1)] len by simp
    have "ip_up (iface i n1) = ip_up (iface i n)" using ip_view_up [OF n1(1)] len i by simp
    with ip_edgeD(1) [OF n1(2), of i] len1 i 1(3) show ?thesis
      unfolding 1(1,2) a sys.simps by (cases "k = i") (simp_all add: up)
  qed
qed

lemma step_stack_ok:
  assumes "net_step P S K s a s'" and "stack_ok contents capacity bits N s"
  shows "stack_ok contents capacity bits N s'"
  using step_frames_ok [OF assms(1)] step_lock_ready [OF assms(1)] step_evt_ok [OF assms] stack_okD [OF assms(2)]
  by (simp add: stack_ok_def)

lemma run_stack_ok:
  "net_run P S K s as s' \<Longrightarrow> stack_ok contents capacity bits N s \<Longrightarrow> stack_ok contents capacity bits N s'"
  by (induction rule: net_run.induct) (auto intro: step_stack_ok)

lemma step_events_ok:
  assumes step: "net_step P S K s a s'" and ok: "stack_ok contents capacity bits N s"
    and ev: "events_ok i (sys_net s)" and i: "i < NET_IFACE_MAX" and cb: "\<And>u. a \<noteq> RegisterCb None u"
  shows "events_ok i (sys_net s')"
proof -
  have len: "i < length (s_ifaces (sys_net s))" using stack_okD(1) [OF ok] i by simp
  consider (run) k where "a = PollRun k" | (register) c u where "a = RegisterCb (Some c) u"
    | (other) "\<forall>k. a \<noteq> PollRun k" "\<forall>c u. a \<noteq> RegisterCb c u"
    using cb by (metis not_None_eq)
  then show ?thesis
  proof cases
    case run
    with step have "net_step P S K s (PollRun k) s'" by simp
    then show ?thesis
    proof (rule PollRunE)
      fix n n' d
      assume 1: "s = \<lparr>sys_net = n, drv_hold = d, poll_hold = None\<rparr>" "s' = \<lparr>sys_net = n', drv_hold = d, poll_hold = None\<rparr>"
        "k < NET_IFACE_MAX" "enabled (iface k n)" "poll_run P S k n = Some n'"
      note ok = stack_okD [OF ok, unfolded 1 sys.simps]
      obtain up n1 where n1: "ip_view n1 = ip_view n" "cb_view n1 = cb_view n" "ip_edge P k up n1 = Some n'"
        "iface_id (iface k n1) = k" "length (s_ifaces n1) = NET_IFACE_MAX"
        using poll_run_edge [OF 1(5,3) ok(1) ok(5) [OF 1(3)]] by metis
      have "events_ok i n1" using events_ok_view [OF n1(1,2)] len ev 1(1) by simp
      from events_ok_edge [OF n1(3,4) _ this] n1(5) 1(2,3) i show ?thesis by simp
    qed
  next
    case register
    with step have "net_step P S K s (RegisterCb (Some c) u) s'" by simp
    then show ?thesis
      by (rule RegisterCbE)
        (use ev in \<open>auto simp: net_stack_register_event_cb_def events_ok_def ip_events_def iface_def\<close>)
  next
    case other
    with events_ok_view [OF step_ip_view [OF step] step_cb_view [OF step] len] ev show ?thesis by simp
  qed
qed

lemma run_events_ok:
  "net_run P S K s as s' \<Longrightarrow> stack_ok contents capacity bits N s \<Longrightarrow> events_ok i (sys_net s) \<Longrightarrow>
     i < NET_IFACE_MAX \<Longrightarrow> (\<forall>u. RegisterCb None u \<notin> set as) \<Longrightarrow> events_ok i (sys_net s')"
proof (induction rule: net_run.induct)
  case (run_nil s)
  then show ?case by simp
next
  case (run_snoc s as s1 a s2)
  have "events_ok i (sys_net s1)" using run_snoc by simp
  with step_events_ok [OF run_snoc.hyps(2) run_stack_ok [OF run_snoc.hyps(1) run_snoc.prems(1)]] run_snoc.prems
  show ?case by auto
qed

lemma run_unguarded_new:
  "net_run P S K s as s' \<Longrightarrow> stack_ok contents capacity bits N s \<Longrightarrow> Attach \<notin> set as \<Longrightarrow>
     unguarded_new (sys_net s') = unguarded_new (sys_net s)"
proof (induction rule: net_run.induct)
  case (run_snoc s as s1 a s2)
  then show ?case
    using step_unguarded_new [OF run_snoc.hyps(2)] stack_okD(1) [OF run_stack_ok [OF run_snoc.hyps(1) run_snoc.prems(1)]] by auto
qed simp

end

section \<open>What the last poll found\<close>

text \<open>\<open>b\<close> is what the last poll of interface \<open>i\<close> in the run found: whether the context had an address
  when that poll ended, and \<open>False\<close> when the interface was not polled.\<close>

definition ip_at_last_poll ::
  "('q, 'g, 'e) platform \<Rightarrow> 'c smoltcp \<Rightarrow> net_config \<Rightarrow> nat \<Rightarrow> ('q, 'g, 'c, 'e) sys \<Rightarrow> act list \<Rightarrow> ('q, 'g, 'c, 'e) sys \<Rightarrow> bool \<Rightarrow> bool" where
  "ip_at_last_poll P S K i s as s' b \<longleftrightarrow>
     (PollRun i \<notin> set as \<and> b = False) \<or>
     (\<exists>as1 s1 s2 as2. as = as1 @ PollRun i # as2 \<and> PollRun i \<notin> set as2
        \<and> net_run P S K s as1 s1 \<and> net_step P S K s1 (PollRun i) s2 \<and> net_run P S K s2 as2 s'
        \<and> b = smoltcp_iface_has_ip (smoltcp_handle (iface i (sys_net s2))))"

lemma ip_at_last_poll_now:
  assumes "net_run P S K s as s1" and "net_step P S K s1 (PollRun i) s2"
  shows "ip_at_last_poll P S K i s (as @ [PollRun i]) s2 (smoltcp_iface_has_ip (smoltcp_handle (iface i (sys_net s2))))"
  unfolding ip_at_last_poll_def using assms run_nil [of P S K s2] by (intro disjI2 exI [of _ as] exI [of _ s1] exI [of _ s2] exI [of _ "[]"]) simp

lemma ip_at_last_poll_step:
  assumes "ip_at_last_poll P S K i s as s1 b" and "net_step P S K s1 a s2" and "a \<noteq> PollRun i"
  shows "ip_at_last_poll P S K i s (as @ [a]) s2 b"
  using assms(1) unfolding ip_at_last_poll_def
proof (elim disjE exE conjE)
  fix as1 t1 t2 as2
  assume 1: "as = as1 @ PollRun i # as2" "PollRun i \<notin> set as2" "net_run P S K s as1 t1" "net_step P S K t1 (PollRun i) t2"
    "net_run P S K t2 as2 s1" "b = smoltcp_iface_has_ip (smoltcp_handle (iface i (sys_net t2)))"
  have "net_run P S K t2 (as2 @ [a]) s2" by (rule run_snoc [OF 1(5) assms(2)])
  with 1 assms(3) show "(PollRun i \<notin> set (as @ [a]) \<and> b = False) \<or>
     (\<exists>as1 s1 s2' as2. as @ [a] = as1 @ PollRun i # as2 \<and> PollRun i \<notin> set as2
        \<and> net_run P S K s as1 s1 \<and> net_step P S K s1 (PollRun i) s2' \<and> net_run P S K s2' as2 s2
        \<and> b = smoltcp_iface_has_ip (smoltcp_handle (iface i (sys_net s2'))))"
    by (intro disjI2 exI [of _ as1] exI [of _ t1] exI [of _ t2] exI [of _ "as2 @ [a]"]) simp
qed (use assms(3) in simp)

context net_events
begin

lemma run_ip_up:
  assumes "net_run P S K s as s'" and "stack_ok contents capacity bits N s" and "\<not> ip_up (iface i (sys_net s))" and "i < NET_IFACE_MAX"
  shows "ip_at_last_poll P S K i s as s' (ip_up (iface i (sys_net s')))"
  using assms
proof (induction rule: net_run.induct)
  case (run_nil s)
  then show ?case by (simp add: ip_at_last_poll_def)
next
  case (run_snoc s as s1 a s2)
  note up = step_ip_up [OF run_snoc.hyps(2) run_stack_ok [OF run_snoc.hyps(1) run_snoc.prems(1)] run_snoc.prems(3)]
  have IH: "ip_at_last_poll P S K i s as s1 (ip_up (iface i (sys_net s1)))" using run_snoc by simp
  show ?case
  proof (cases "a = PollRun i")
    case True
    with run_snoc.hyps up show ?thesis using ip_at_last_poll_now [of P S K s as s1 i s2] by simp
  next
    case False
    with up show ?thesis using ip_at_last_poll_step [OF IH run_snoc.hyps(2) False] by simp
  qed
qed

end

end
