(* ===== verification/Net_Props.thy ===== *)
theory Net_Props
  imports Net_Inv
begin

text \<open>
  What the running stack guarantees: from the state a successful \<open>net_stack_init\<close> leaves, and
  whatever the driver, the poll task and the applications do afterwards, no frame is lost or
  duplicated, the transmit pool is complete between two polls, the lock is used correctly but for
  the creation of a context, and the address events alternate and agree with the event group and
  with what the last poll has seen. (The rounds of the poll task are in \<open>Net_Types\<close>.)
\<close>

section \<open>Initialisation\<close>

text \<open>FreeRTOS creates queues and event groups empty, and a free-frame queue of the requested
  size. That the receive queues could be created is an assumption of the code, which does not
  test them.\<close>

definition init_env_ok ::
  "('q \<Rightarrow> nat list) \<Rightarrow> ('q \<Rightarrow> nat) \<Rightarrow> ('g \<Rightarrow> u32) \<Rightarrow> nat \<Rightarrow> ('q, 'g) init_env \<Rightarrow> bool" where
  "init_env_ok contents capacity bits N E \<longleftrightarrow>
     (\<forall>q. created_free_q E = Some q \<longrightarrow> contents q = [] \<and> capacity q = N)
   \<and> (\<forall>i < NET_IFACE_MAX. \<exists>q. created_rx_q E i = Some q \<and> contents q = [])
   \<and> (\<forall>g. created_evt E = Some g \<longrightarrow> bits g = 0)"

definition booted ::
  "('q, 'g, 'e) platform \<Rightarrow> ('q \<Rightarrow> nat list) \<Rightarrow> ('q \<Rightarrow> nat) \<Rightarrow> ('g \<Rightarrow> u32) \<Rightarrow> nat \<Rightarrow> ('q, 'g, 'c, 'e) net \<Rightarrow> bool" where
  "booted P contents capacity bits N n \<longleftrightarrow> 0 < N
     \<and> (\<exists>E e. init_env_ok contents capacity bits N E \<and> net_stack_init P E (net_boot N e) = Some (ESP_OK, n))"

lemma upt_ifaces: "[0..<NET_IFACE_MAX] = [NET_IFACE_ETH, NET_IFACE_WIFI]"
  by (simp add: NET_IFACE_MAX_def NET_IFACE_ETH_def NET_IFACE_WIFI_def numeral_eq_Suc)

lemma net_stack_init_OK:
  assumes "net_stack_init P E n = Some (ESP_OK, n')" and "\<not> s_inited n"
  obtains g pg n3 where "created_evt E = Some g" and "created_progress_evt E = Some pg"
    and "frame_pool_init P (created_free_q E) (n\<lparr>s_inited := True, s_evt := Some g, s_progress_evt := Some pg, lock_created := True\<rparr>) = Some n3"
    and "n' = (upd_iface NET_IFACE_WIFI (\<lambda>f. f\<lparr>iface_id := NET_IFACE_WIFI, rx_queue := created_rx_q E NET_IFACE_WIFI\<rparr>)
      (upd_iface NET_IFACE_ETH (\<lambda>f. f\<lparr>iface_id := NET_IFACE_ETH, rx_queue := created_rx_q E NET_IFACE_ETH\<rparr>) n3))\<lparr>s_task := Some 0\<rparr>"
  using assms that by (auto simp: net_stack_init_def Let_def upt_ifaces split: if_splits option.splits)

lemma net_boot_fields [simp]:
  "length (s_ifaces (net_boot N e)) = NET_IFACE_MAX" "s_inited (net_boot N e) = False"
  "length (s_frame_pool (net_boot N e)) = N" "tx_free_mask (net_boot N e) = tx_pool_init"
  "cb_log (net_boot N e) = []" "s_user_cb (net_boot N e) = None"
  "i < NET_IFACE_MAX \<Longrightarrow> iface i (net_boot N e) = iface_boot"
  "f \<in> set (s_frame_pool (net_boot N e)) \<Longrightarrow> f = frame_boot"
  by (auto simp: net_boot_def iface_def)

context net_events
begin

lemma booted_stack_ok:
  fixes n :: "('q, 'g, 'c, 'e) net"
  assumes "booted P contents capacity bits N n"
  shows "stack_ok contents capacity bits N (idle n)" and "events_ok i n" and "\<not> unguarded_new n"
    and "i < NET_IFACE_MAX \<Longrightarrow> \<not> ip_up (iface i n)"
proof -
  from assms obtain E e where N: "0 < N" and E: "init_env_ok contents capacity bits N E"
    and init: "net_stack_init P E (net_boot N e :: ('q, 'g, 'c, 'e) net) = Some (ESP_OK, n)"
    by (auto simp: booted_def)
  let ?b = "net_boot N e :: ('q, 'g, 'c, 'e) net"
  obtain g pg n3 where g: "created_evt E = Some g" and pg: "created_progress_evt E = Some pg"
    and pool: "frame_pool_init P (created_free_q E) (?b\<lparr>s_inited := True, s_evt := Some g, s_progress_evt := Some pg, lock_created := True\<rparr>) = Some n3"
    and n: "n = (upd_iface NET_IFACE_WIFI (\<lambda>f. f\<lparr>iface_id := NET_IFACE_WIFI, rx_queue := created_rx_q E NET_IFACE_WIFI\<rparr>)
      (upd_iface NET_IFACE_ETH (\<lambda>f. f\<lparr>iface_id := NET_IFACE_ETH, rx_queue := created_rx_q E NET_IFACE_ETH\<rparr>) n3))\<lparr>s_task := Some 0\<rparr>"
    using init by (rule net_stack_init_OK) simp_all
  let ?n2 = "?b\<lparr>s_inited := True, s_evt := Some g, s_progress_evt := Some pg, lock_created := True\<rparr>"
  have "created_free_q E \<noteq> None"
    using pool N by (cases "[0..<N]"; cases "created_free_q E") (auto simp: frame_pool_init_def)
  then obtain q where q: "created_free_q E = Some q" "contents q = []" "capacity q = N"
    using E by (auto simp: init_env_ok_def)
  have "\<exists>n'. frame_pool_init P (Some q) ?n2 = Some n' \<and> pool_ok contents capacity N n' \<and> free_list contents n' = [0..<N]"
    using frame_pool_init_ok [of q ?n2] q(2,3) by simp
  then have P3: "pool_ok contents capacity N n3" "free_list contents n3 = [0..<N]"
    using pool q(1) by auto
  from pool obtain fq where n3: "n3 = ?n2\<lparr>s_frame_free_q := fq\<rparr>"
    by (auto simp: frame_pool_init_def)
  have len: "length (s_ifaces n3) = NET_IFACE_MAX" by (simp add: n3)
  obtain qe qw where rx: "created_rx_q E NET_IFACE_ETH = Some qe" "contents qe = []"
    "created_rx_q E NET_IFACE_WIFI = Some qw" "contents qw = []"
    using E unfolding init_env_ok_def by (metis iface_consts(1,2))
  have iface: "iface i (n\<lparr>s_task := t\<rparr>) = iface i n" for i t and n :: "('q, 'g, 'c, 'e) net"
    by (simp add: iface_def)
  have free: "free_list contents n = [0..<N]" using P3(2) by (simp add: n free_list_def)
  have if3: "iface i n3 = iface_boot" if "i < NET_IFACE_MAX" for i
    using that by (simp add: n3 iface_def) (simp add: iface_def [symmetric])
  have frames: "length (frame_data f) = NET_FRAME_BUF \<and> frame_len f \<le> NET_FRAME_BUF" if "f \<in> set (s_frame_pool n)" for f
    using that by (auto simp: n n3 net_boot_def frame_boot_def)
  have "\<exists>q. s_frame_free_q n = Some q \<and> capacity q = N" "length (s_frame_pool n) = N"
    using P3(1) by (auto simp: pool_ok_def n)
  moreover have "rx_queue (iface i n) \<noteq> None \<and> iface_id (iface i n) = i" if "i < NET_IFACE_MAX" for i
    using that len rx by (auto simp: n iface less_NET_IFACE_MAX)
  moreover have "length (s_ifaces n) = NET_IFACE_MAX" "tx_free_mask n = tx_pool_init"
    by (simp_all add: n n3)
  ultimately have "queues_ok capacity N n"
    using frames by (simp add: queues_ok_def)
  moreover have "rx_list contents NET_IFACE_ETH n = []" "rx_list contents NET_IFACE_WIFI n = []"
    using len rx by (simp_all add: rx_list_def n iface)
  ultimately have "frames_ok contents capacity N (idle n)"
    using free by (simp add: frames_ok_def all_frames_def held_def idle_def)
  moreover have "lock_ready n"
    by (simp add: n n3 lock_ready_def lock_ok_def net_boot_def)
  moreover have "evt_ok bits n"
    using E g if3 len by (auto simp: evt_ok_def n n3 iface init_env_ok_def less_NET_IFACE_MAX iface_boot_def)
  ultimately show "stack_ok contents capacity bits N (idle n)"
    by (simp add: stack_ok_def idle_def)
  show "events_ok i n"
    by (simp add: events_ok_def ip_events_def n n3)
  show "\<not> unguarded_new n"
    by (simp add: n n3 net_boot_def)
  show "\<not> ip_up (iface i n)" if "i < NET_IFACE_MAX"
    using that if3 len by (simp add: n iface less_NET_IFACE_MAX) (auto simp: iface_boot_def)
qed

end

section \<open>A round of the poll task\<close>

definition en_view :: "('q, 'g, 'c, 'e) net \<Rightarrow> bool list" where
  "en_view n = map enabled (s_ifaces n)"

lemma en_view_upd [simp]: "(\<And>f. enabled (g f) = enabled f) \<Longrightarrow> en_view (upd_iface i g n) = en_view n"
  by (simp add: en_view_def map_upd_iface)

lemma en_view_simps [simp]:
  "en_view (set_handle i h n) = en_view n" "en_view (SMOLTCP_LOCK n) = en_view n"
  "en_view (SMOLTCP_UNLOCK n) = en_view n" "en_view (core_call n) = en_view n" "en_view (core_new n) = en_view n"
  "en_view (invoke_cb c n) = en_view n" "en_view (net_frame_free P f n) = en_view n"
  "en_view (n\<lparr>s_evt := e\<rparr>) = en_view n" "en_view (n\<lparr>s_progress_evt := e\<rparr>) = en_view n"
  "en_view (emit_event i evt n) = en_view n" "en_view (snd (locked_call i call n)) = en_view n"
  by (simp_all add: set_handle_def) (simp_all add: en_view_def emit_event_def locked_call_def Let_def case_prod_unfold
      set_handle_def map_upd_iface split: option.split)

lemma en_view_calls:
  "en_view (rx_deliver i f n) = en_view n"
  "rx_take P i n = Some (r, n') \<Longrightarrow> en_view n' = en_view n"
  "ip_edge P i up n = Some n' \<Longrightarrow> en_view n' = en_view n"
  by (auto simp: rx_deliver_def dispatch_tap_def rx_take_def ip_edge_def Let_def split: option.splits if_splits)

lemma tx_only_en_view: "tx_only n n' \<Longrightarrow> en_view n' = en_view n"
proof -
  assume "tx_only n n'"
  then have m: "map strip_tx (s_ifaces n') = map strip_tx (s_ifaces n)" by (simp add: tx_only_def)
  from arg_cong [OF m, of "map enabled"] show ?thesis by (simp add: en_view_def strip_tx_def comp_def)
qed

lemma poll_run_en_view:
  assumes "poll_run P S i n = Some n'" and "i < length (s_ifaces n)"
  shows "en_view n' = en_view n"
proof -
  from assms(1) obtain n1 where n1: "core_poll P S i (core_call (SMOLTCP_LOCK n)) = Some n1"
    by (auto simp: poll_run_def split: option.splits)
  obtain n2 h where "tx_only (core_call (SMOLTCP_LOCK n)) n2" and "n1 = set_handle i h n2"
    using core_pollD [OF n1] assms(2) by auto
  then have "en_view n1 = en_view n" using tx_only_en_view by fastforce
  with assms(1) n1 show ?thesis
    by (auto simp: poll_run_def Let_def dest: en_view_calls(3) split: option.splits)
qed

lemma en_view_iface: "en_view n' = en_view n \<Longrightarrow> i < length (s_ifaces n) \<Longrightarrow> enabled (iface i n') = enabled (iface i n)"
  unfolding en_view_def iface_def by (metis length_map nth_map)

text \<open>Once its context, its queue and the event groups exist, nothing in a poll can fail.\<close>

lemma poll_run_returns:
  assumes "\<And>t c. frames_fit (sm_poll S t c)" and ok: "evt_ok bits n" and i: "i < length (s_ifaces n)"
  shows "\<exists>n'. poll_run P S i n = Some n'"
proof -
  obtain n1 where n1: "core_poll P S i (core_call (SMOLTCP_LOCK n)) = Some n1"
    using core_poll_returns [OF assms(1)] by blast
  then obtain n2 h where n2: "tx_only (core_call (SMOLTCP_LOCK n)) n2" and "n1 = set_handle i h n2"
    using core_pollD i by fastforce
  then have "s_evt n1 = s_evt n" "s_progress_evt n1 = s_progress_evt n"
    using tx_only_fields(1,2) [OF n2] by (simp_all add: lock_defs)
  with ok obtain g pg where "s_evt (SMOLTCP_UNLOCK n1) = Some g" "s_progress_evt (SMOLTCP_UNLOCK n1) = Some pg"
    by (auto simp: evt_ok_def lock_defs)
  with n1 show ?thesis
    by (auto simp: poll_run_def ip_edge_def Let_def emit_event_def invoke_cb_def upd_iface_def split: option.split)
qed

lemma idle_simps [simp]: "sys_net (idle n) = n" "drv_hold (idle n) = None" "poll_hold (idle n) = None"
  by (simp_all add: idle_def)

lemma between_simps [simp]: "sys_net (between d n) = n" "drv_hold (between d n) = d" "poll_hold (between d n) = None"
  by (simp_all add: between_def)

lemma between_eq: "poll_hold s = None \<Longrightarrow> s = between (drv_hold s) (sys_net s)"
  by (cases s) (simp add: between_def)

lemma poll_acts_simps [simp]: "PollTake i \<in> poll_acts" "PollDeliver \<in> poll_acts" "PollRun i \<in> poll_acts" "Sleep \<in> poll_acts"
  by (simp_all add: poll_acts_def)

context net_platform
begin

lemma rx_list_deliver:
  assumes "j < length (s_ifaces n)"
  shows "rx_list contents j (net_frame_free P (Some f) (rx_deliver i f n)) = rx_list contents j n"
  using rx_view_eqD(5) [OF rx_deliver_views(1) assms, of i f] by (simp add: rx_list_def)

text \<open>The drain loop comes to an end and empties the queue; it is a sequence of take and deliver
  steps of the poll task.\<close>

lemma rx_drain_returns:
  assumes "i < NET_IFACE_MAX" and "length (s_ifaces n) = NET_IFACE_MAX" and "rx_queue (iface i n) \<noteq> None"
    and "enabled (iface i n)"
  shows "\<exists>n' as. rx_drain P i n = Some n' \<and> rx_list contents i n' = [] \<and> en_view n' = en_view n
    \<and> (\<forall>j. j < NET_IFACE_MAX \<longrightarrow> j \<noteq> i \<longrightarrow> rx_list contents j n' = rx_list contents j n)
    \<and> net_run P S K (between d n) as (between d n') \<and> set as \<subseteq> poll_acts"
  using assms
proof (induction "length (rx_list contents i n)" arbitrary: n)
  case 0
  then obtain q where q: "rx_queue (iface i n) = Some q" "contents q = []" by (auto simp: rx_list_def)
  then have take: "rx_take P i n = Some (None, n)" by (simp add: rx_take_def receive_None_iff [THEN iffD2])
  then have "rx_drain P i n = Some n" by (subst rx_drain.simps) simp
  moreover have "net_run P S K (between d n) [] (between d n)" by (rule run_nil)
  ultimately show ?case using q by (auto simp: rx_list_def)
next
  case (Suc k)
  then obtain q f fs where q: "rx_queue (iface i n) = Some q" "contents q = f # fs"
    by (cases "rx_list contents i n") (auto simp: rx_list_def)
  then obtain q' where recv: "xQueueReceive (queues P) q = Some (f, q')" "contents q' = fs"
    using receive_next by blast
  let ?n1 = "upd_iface i (\<lambda>j. j\<lparr>rx_queue := Some q'\<rparr>) n"
  let ?n2 = "net_frame_free P (Some f) (rx_deliver i f ?n1)"
  have take: "rx_take P i n = Some (Some f, ?n1)" using q recv by (simp add: rx_take_def)
  have step: "rx_drain P i n = rx_drain P i ?n2" by (subst rx_drain.simps) (simp add: take)
  note V = rx_view_eqD [OF rx_deliver_views(1) [of i f ?n1]]
  have len: "length (s_ifaces ?n2) = NET_IFACE_MAX" using V(4) Suc.prems(2) by simp
  have en: "en_view ?n2 = en_view n" by (simp add: en_view_calls)
  have "rx_list contents j ?n2 = (if j = i then fs else rx_list contents j n)" if "j < NET_IFACE_MAX" for j
    using rx_list_deliver [of j ?n1 f i] rx_list_upd [of i n j q'] that Suc.prems(1,2) recv(2) by simp
  note L = this
  have r1: "net_run P S K (between d n) [PollTake i] \<lparr>sys_net = ?n1, drv_hold = d, poll_hold = Some (i, f)\<rparr>"
    unfolding between_def using poll_take [OF Suc.prems(1,4) take, of S K d] by (intro run_one) simp
  have "net_run P S K (between d n) ([PollTake i] @ [PollDeliver]) (between d ?n2)"
    unfolding between_def by (rule run_snoc [OF r1 [unfolded between_def] poll_deliver])
  note r2 = this
  have k: "k = length (rx_list contents i ?n2)"
    using Suc.hyps(2) L [OF Suc.prems(1)] q by (simp add: rx_list_def)
  have rq: "rx_queue (iface i ?n2) \<noteq> None"
    using V(5) [of i] Suc.prems(1,2) by simp
  have ei: "enabled (iface i ?n2)"
    using en_view_iface [OF en] Suc.prems by simp
  from Suc.hyps(1) [OF k Suc.prems(1) len rq ei] obtain n' as where
    IH: "rx_drain P i ?n2 = Some n'" "rx_list contents i n' = []" "en_view n' = en_view ?n2"
    "\<forall>j. j < NET_IFACE_MAX \<longrightarrow> j \<noteq> i \<longrightarrow> rx_list contents j n' = rx_list contents j ?n2"
    "net_run P S K (between d ?n2) as (between d n')" "set as \<subseteq> poll_acts" by blast
  have "set (([PollTake i] @ [PollDeliver]) @ as) \<subseteq> poll_acts" using IH(6) by simp
  with run_trans [OF IH(5) r2] IH(1-4) step en L show ?case by fastforce
qed

end

context net_events
begin

lemma poll_iface_returns:
  assumes fit: "\<And>t c. frames_fit (sm_poll S t c)" and ok: "stack_ok contents capacity bits N (between d n)"
    and i: "i < NET_IFACE_MAX" and en: "enabled (iface i n)"
  shows "\<exists>n' as. poll_iface P S i n = Some n' \<and> rx_list contents i n' = [] \<and> en_view n' = en_view n
    \<and> (\<forall>j. j < NET_IFACE_MAX \<longrightarrow> j \<noteq> i \<longrightarrow> rx_list contents j n' = rx_list contents j n)
    \<and> net_run P S K (between d n) as (between d n') \<and> set as \<subseteq> poll_acts \<and> stack_ok contents capacity bits N (between d n')"
proof -
  note O = stack_okD [OF ok, simplified]
  obtain n1 as where D: "rx_drain P i n = Some n1" "rx_list contents i n1 = []" "en_view n1 = en_view n"
    "\<forall>j. j < NET_IFACE_MAX \<longrightarrow> j \<noteq> i \<longrightarrow> rx_list contents j n1 = rx_list contents j n"
    "net_run P S K (between d n) as (between d n1)" "set as \<subseteq> poll_acts"
    using rx_drain_returns [OF i O(1) _ en, of S K d] O(6) [OF i] by auto
  have ok1: "stack_ok contents capacity bits N (between d n1)" by (rule run_stack_ok [OF D(5) ok])
  note O1 = stack_okD [OF ok1, simplified]
  obtain n' where n': "poll_run P S i n1 = Some n'"
    using poll_run_returns [OF fit O1(4), of i] i O1(1) by auto
  have en1: "enabled (iface i n1)" using en_view_iface [OF D(3)] en i O(1) by simp
  have "net_run P S K (between d n1) [PollRun i] (between d n')"
    using run_one [OF net_step.poll_run [OF i en1 n']] by (simp add: between_def)
  note r = run_trans [OF this D(5)]
  have L: "rx_list contents j n' = rx_list contents j n1" if "j < NET_IFACE_MAX" for j
    using rx_view_eqD(5) [OF poll_run_rx_view [OF n'], of j] that i O1(1) by (simp add: rx_list_def)
  have "en_view n' = en_view n" using poll_run_en_view [OF n'] i O1(1) D(3) by simp
  moreover have "set (as @ [PollRun i]) \<subseteq> poll_acts" using D(6) by simp
  with r have "\<exists>cs. net_run P S K (between d n) cs (between d n') \<and> set cs \<subseteq> poll_acts" by blast
  ultimately show ?thesis using run_stack_ok [OF r ok] D(1-4) n' L i by (auto simp: poll_iface_def)
qed

lemma poll_all_returns:
  assumes fit: "\<And>t c. frames_fit (sm_poll S t c)"
  shows "stack_ok contents capacity bits N (between d n) \<Longrightarrow> set is \<subseteq> {..<NET_IFACE_MAX} \<Longrightarrow>
    \<exists>n' as. poll_all P S is n = Some n' \<and> en_view n' = en_view n
      \<and> (\<forall>i < NET_IFACE_MAX. rx_list contents i n = [] \<or> enabled (iface i n) \<and> i \<in> set is \<longrightarrow> rx_list contents i n' = [])
      \<and> net_run P S K (between d n) as (between d n') \<and> set as \<subseteq> poll_acts"
proof (induction "is" arbitrary: n)
  case Nil
  have "net_run P S K (between d n) [] (between d n)" by (rule run_nil)
  then show ?case by auto
next
  case (Cons i "is")
  note O = stack_okD [OF Cons.prems(1), simplified]
  show ?case
  proof (cases "enabled (iface i n)")
    case False
    from Cons.IH [OF Cons.prems(1)] Cons.prems(2) obtain n' as where
      "poll_all P S is n = Some n'" "en_view n' = en_view n" "net_run P S K (between d n) as (between d n')" "set as \<subseteq> poll_acts"
      "\<forall>i < NET_IFACE_MAX. rx_list contents i n = [] \<or> enabled (iface i n) \<and> i \<in> set is \<longrightarrow> rx_list contents i n' = []"
      by auto
    with False show ?thesis by auto
  next
    case True
    obtain n1 as where A: "poll_iface P S i n = Some n1" "rx_list contents i n1 = []" "en_view n1 = en_view n"
      "\<forall>j. j < NET_IFACE_MAX \<longrightarrow> j \<noteq> i \<longrightarrow> rx_list contents j n1 = rx_list contents j n"
      "net_run P S K (between d n) as (between d n1)" "stack_ok contents capacity bits N (between d n1)" "set as \<subseteq> poll_acts"
      using poll_iface_returns [OF fit Cons.prems(1) _ True, of K] Cons.prems(2) by auto
    from Cons.IH [OF A(6)] Cons.prems(2) obtain n' bs where
      B: "poll_all P S is n1 = Some n'" "en_view n' = en_view n1" "net_run P S K (between d n1) bs (between d n')"
      "\<forall>i < NET_IFACE_MAX. rx_list contents i n1 = [] \<or> enabled (iface i n1) \<and> i \<in> set is \<longrightarrow> rx_list contents i n' = []" "set bs \<subseteq> poll_acts"
      by auto
    have en: "enabled (iface j n1) = enabled (iface j n)" if "j < NET_IFACE_MAX" for j
      using en_view_iface [OF A(3)] that O(1) by simp
    have "rx_list contents j n' = []"
      if "j < NET_IFACE_MAX" "rx_list contents j n = [] \<or> enabled (iface j n) \<and> j \<in> set (i # is)" for j
      using A(2,4) B(4) en that by (metis set_ConsD)
    moreover have "set (as @ bs) \<subseteq> poll_acts" using A(7) B(5) by simp
    with run_trans [OF B(3) A(5)] have "\<exists>cs. net_run P S K (between d n) cs (between d n') \<and> set cs \<subseteq> poll_acts" by blast
    ultimately show ?thesis using A(1,3) B(1,2) True by auto
  qed
qed

lemma task_round_returns:
  assumes fit: "\<And>t c. frames_fit (sm_poll S t c)" and ok: "stack_ok contents capacity bits N (between d n)"
  shows "\<exists>w n' as. task_round P S n = Some (w, n') \<and> w \<noteq> 0
    \<and> (\<forall>i < NET_IFACE_MAX. enabled (iface i n) \<longrightarrow> rx_list contents i n' = [])
    \<and> net_run P S K (between d n) as (between d n') \<and> set as \<subseteq> poll_acts"
proof -
  obtain n1 as where A: "poll_all P S [0..<NET_IFACE_MAX] n = Some n1"
    "\<forall>i < NET_IFACE_MAX. rx_list contents i n = [] \<or> enabled (iface i n) \<and> i \<in> set [0..<NET_IFACE_MAX] \<longrightarrow> rx_list contents i n1 = []"
    "net_run P S K (between d n) as (between d n1)" "set as \<subseteq> poll_acts"
    using poll_all_returns [OF fit ok, of "[0..<NET_IFACE_MAX]" K] by (metis (no_types, lifting) atLeastLessThan_iff lessThan_iff set_upt subsetI)
  obtain w n' where s: "task_sleep P S n1 = (w, n')" by force
  have "w \<noteq> 0" using s by (auto simp: task_sleep_def Let_def task_wait_def case_prod_unfold split: if_splits)
  have V: "rx_view n' = rx_view n1" using task_sleep_views(1) [of P S n1] s by simp
  have "length (s_ifaces n1) = NET_IFACE_MAX"
    using stack_okD(1) [OF run_stack_ok [OF A(3) ok]] by simp
  then have "rx_list contents i n' = rx_list contents i n1" if "i < NET_IFACE_MAX" for i
    using rx_view_eqD(5) [OF V] that by (simp add: rx_list_def)
  moreover have "net_run P S K (between d n1) [Sleep] (between d n')"
    using run_one [OF net_step.sleep [of P S K n1 d]] s by (simp add: between_def)
  moreover have "set (as @ [Sleep]) \<subseteq> poll_acts" using A(4) by simp
  ultimately show ?thesis
    using A run_trans [OF _ A(3)] s \<open>w \<noteq> 0\<close> by (fastforce simp: task_round_def)
qed

end

interpretation ref_evt: net_events ref_platform ring_contents ring_capacity "\<lambda>g. g"
  by unfold_locales (simp_all add: ref_platform_def)

section \<open>A booted stack\<close>

text \<open>A configuration with two frames and receive queues of depth two, for the witnesses.\<close>

definition ref_init :: "(ring, u32) init_env" where
  "ref_init = \<lparr>nvs_flash_init = ESP_OK, esp_event_loop_create_default = ESP_OK, created_evt = Some 0,
     created_progress_evt = Some 0, created_mutex = True, created_free_q = Some (ring_new 2),
     created_rx_q = (\<lambda>i. Some (ring_new 2)), created_task = True\<rparr>"

definition ref_config :: net_config where
  "ref_config = \<lparr>cfg_dhcpv4_client = True, cfg_static_ip = [], cfg_static_gw = [], cfg_ptp = None\<rparr>"

definition ref_attach :: attach_env where
  "ref_attach = \<lparr>got_mac = (ESP_OK, [2, 0, 0, 0, 0, 1]), esp_eth_update_input_path = ESP_OK, esp_event_handler_register = ESP_OK\<rparr>"

definition ref_booted :: "(ring, u32, ref_stack, ref_ext) net" where
  "ref_booted = (case net_stack_init ref_platform ref_init (net_boot 2 ref_ext0) of Some (r, n) \<Rightarrow> n)"

lemma ref_init_ok: "init_env_ok ring_contents ring_capacity (\<lambda>g. g) 2 ref_init"
  by (simp add: init_env_ok_def ref_init_def)

lemma ref_boot_init: "net_stack_init ref_platform ref_init (net_boot 2 ref_ext0) = Some (ESP_OK, ref_booted)"
proof -
  let ?b = "net_boot 2 ref_ext0 :: (ring, u32, ref_stack, ref_ext) net"
  let ?n2 = "?b\<lparr>s_inited := True, s_evt := Some 0, s_progress_evt := Some 0, lock_created := True\<rparr>"
  obtain n3 where "frame_pool_init ref_platform (Some (ring_new 2)) ?n2 = Some n3"
    using ref_net.frame_pool_init_ok [of "ring_new 2" ?n2] by auto
  then obtain n where "net_stack_init ref_platform ref_init ?b = Some (ESP_OK, n)"
    by (simp add: net_stack_init_def ref_init_def Let_def)
  then show ?thesis by (simp add: ref_booted_def)
qed

lemma ref_booted: "booted ref_platform ring_contents ring_capacity (\<lambda>g. g) 2 ref_booted"
  using ref_init_ok ref_boot_init by (auto simp: booted_def)

lemma ref_booted_handles:
  assumes "i < NET_IFACE_MAX"
  shows "smoltcp_handle (iface i ref_booted) = None" and ref_booted_disabled: "\<not> enabled (iface i ref_booted)"
proof -
  let ?b = "net_boot 2 ref_ext0 :: (ring, u32, ref_stack, ref_ext) net"
  have "net_stack_init ref_platform ref_init ?b = Some (ESP_OK, ref_booted)"
    using ref_boot_init by simp
  then obtain g pg n3 where pool: "frame_pool_init ref_platform (created_free_q ref_init)
      (?b\<lparr>s_inited := True, s_evt := Some g, s_progress_evt := Some pg, lock_created := True\<rparr>) = Some n3"
    and n: "ref_booted = (upd_iface NET_IFACE_WIFI (\<lambda>f. f\<lparr>iface_id := NET_IFACE_WIFI, rx_queue := created_rx_q ref_init NET_IFACE_WIFI\<rparr>)
      (upd_iface NET_IFACE_ETH (\<lambda>f. f\<lparr>iface_id := NET_IFACE_ETH, rx_queue := created_rx_q ref_init NET_IFACE_ETH\<rparr>) n3))\<lparr>s_task := Some 0\<rparr>"
    by (rule net_stack_init_OK) simp_all
  from pool obtain fq where n3: "s_ifaces n3 = s_ifaces ?b" by (auto simp: frame_pool_init_def)
  then show "smoltcp_handle (iface i ref_booted) = None" "\<not> enabled (iface i ref_booted)" using assms
    by (auto simp: n n3 iface_def upd_iface_def nth_list_update less_NET_IFACE_MAX net_boot_def iface_boot_def NET_IFACE_MAX_def NET_IFACE_ETH_def
        NET_IFACE_WIFI_def)
qed

lemma attach_returns: "\<exists>r n'. esp_smoltcp_attach_eth P S K A h n = Some (r, n')"
  by (simp add: esp_smoltcp_attach_eth_def Let_def start_ip_def smoltcp_iface_set_static_def case_prod_unfold split: option.split)

lemma en_view_attach:
  "en_view (n\<lparr>ext := x\<rparr>) = en_view n" "en_view (notify_task n) = en_view n"
  "en_view (snd (net_stack_l2_tap et cb u n)) = en_view n"
  by (simp_all add: en_view_def net_stack_l2_tap_def Let_def case_prod_unfold)

lemma start_ip_en_view: "start_ip S K i n = Some n' \<Longrightarrow> en_view n' = en_view n"
  by (auto simp: start_ip_def Let_def split: if_splits option.splits)

lemma attach_enabled:
  assumes "esp_smoltcp_attach_eth P S K A h n = Some (r, n')" and "h \<noteq> None"
    and "NET_IFACE_ETH < length (s_ifaces n)"
  shows "enabled (iface NET_IFACE_ETH n')"
proof -
  let ?n1 = "upd_iface NET_IFACE_ETH (\<lambda>f. f\<lparr>enabled := True, l2_tx := Some Eth_tx, mac := snd (got_mac A)\<rparr>) (n\<lparr>s_eth_handle := h\<rparr>)"
  have n1: "enabled (iface NET_IFACE_ETH ?n1)" using assms(3) by simp
  note now = tx_only_en_view [OF now_us_tx_only [of ?n1 P]]
  have "enabled (iface NET_IFACE_ETH n) \<and> n' = n \<or> en_view n' = en_view ?n1"
    using assms(1,2) now
    by (auto simp: esp_smoltcp_attach_eth_def Let_def case_prod_unfold ptp_start_def en_view_attach
        dest!: start_ip_en_view split: if_splits option.splits)
  then show ?thesis using en_view_iface [of n' ?n1 NET_IFACE_ETH] n1 assms(3) by auto
qed

lemma ref_run:
  "\<exists>s. net_run ref_platform ref_smoltcp ref_config (idle ref_booted) [RegisterCb (Some 1) 0, Attach, RxAlloc [1, 2, 3]] s"
proof -
  let ?step = "net_step ref_platform ref_smoltcp ref_config"
  let ?n1 = "snd (net_stack_register_event_cb (Some 1) 0 ref_booted)"
  obtain r n2 where a: "esp_smoltcp_attach_eth ref_platform ref_smoltcp ref_config ref_attach (Some 1) ?n1 = Some (r, n2)"
    using attach_returns [of ref_platform ref_smoltcp ref_config ref_attach "Some 1" ?n1]
    by (auto simp: ref_config_def)
  have "?step (idle ref_booted) (RegisterCb (Some 1) 0) (idle ?n1)"
    unfolding idle_def by (rule register_cb)
  moreover have "?step (idle ?n1) Attach (idle n2)"
    unfolding idle_def by (rule attach [OF a])
  moreover have "\<exists>s. ?step (idle n2) (RxAlloc [1, 2, 3]) s"
    unfolding idle_def by (cases "net_frame_alloc ref_platform (length [1, 2, 3 :: u8]) n2")
      (metis not_None_eq rx_none rx_some)
  ultimately show ?thesis
    using run_snoc [OF run_snoc [OF run_snoc [OF run_nil]]] by fastforce
qed

section \<open>Properties of every run\<close>

text \<open>C1: No receive frame is ever lost, duplicated or shared. After initialisation and any
  sequence of steps of the driver, the poll task and the applications, the frames in the free
  queue, in the receive queues of both interfaces, in the hands of the driver callback and in
  the hands of the poll task are together exactly the frames of the pool, each of them once.\<close>

theorem frames_conserved:
  assumes "net_events P contents capacity bits" and "booted P contents capacity bits N n"
    and "net_run P S K (idle n) as s"
  shows "mset (all_frames contents s) = mset [0..<N]"
  using net_events.run_stack_ok [OF assms(1,3) net_events.booted_stack_ok(1) [OF assms(1,2)]]
  by (simp add: stack_ok_def frames_ok_def)

theorem frames_conserved_witness:
  "\<exists>s. net_run ref_platform ref_smoltcp ref_config (idle ref_booted) [RegisterCb (Some 1) 0, Attach, RxAlloc [1, 2, 3]] s
     \<and> mset (all_frames ring_contents s) = mset [0..<2]"
  using ref_run frames_conserved [OF ref_evt.net_events_axioms ref_booted] by blast

text \<open>C21: Between two calls no buffer of the Rust core's static transmit pool is missing: every
  token smoltcp obtained during a poll, consumed or dropped, has given its buffer back.\<close>

theorem tx_pool_complete:
  assumes "net_events P contents capacity bits" and "booted P contents capacity bits N n"
    and "net_run P S K (idle n) as s"
  shows "tx_free_mask (sys_net s) = tx_pool_init"
  using net_events.run_stack_ok [OF assms(1,3) net_events.booted_stack_ok(1) [OF assms(1,2)]]
  by (simp add: stack_ok_def frames_ok_def queues_ok_def)

theorem tx_pool_complete_witness:
  "\<exists>s. net_run ref_platform ref_smoltcp ref_config (idle ref_booted) [RegisterCb (Some 1) 0, Attach, RxAlloc [1, 2, 3]] s
     \<and> tx_free_mask (sys_net s) = tx_pool_init"
  using ref_run tx_pool_complete [OF ref_evt.net_events_axioms ref_booted] by blast



text \<open>C23: The event group \<open>esp_smoltcp_wait_for_ip\<close> waits on shows what the poll task last saw: in
  every reachable state bit \<open>i\<close> is the interface's \<open>ip_up\<close> flag, and both say whether the Rust context
  had an address when the last poll of the interface ended, clear as long as it has not been
  polled. Right after a poll the bit is exactly \<open>smoltcp_iface_has_ip\<close>; an address set by
  an attachment shows with the next poll.\<close>

theorem ip_bits_agree:
  assumes "net_events P contents capacity bits" and "booted P contents capacity bits N n"
    and "net_run P S K (idle n) as s" and "i < NET_IFACE_MAX"
  shows "\<exists>g. s_evt (sys_net s) = Some g \<and> (bit (bits g) i \<longleftrightarrow> ip_up (iface i (sys_net s)))
    \<and> ip_at_last_poll P S K i (idle n) as s (bit (bits g) i)
    \<and> (as \<noteq> [] \<longrightarrow> last as = PollRun i \<longrightarrow> (bit (bits g) i \<longleftrightarrow> smoltcp_iface_has_ip (smoltcp_handle (iface i (sys_net s)))))"
proof -
  note b = net_events.booted_stack_ok [OF assms(1,2)]
  obtain g where g: "s_evt (sys_net s) = Some g" "bit (bits g) i \<longleftrightarrow> ip_up (iface i (sys_net s))"
    using net_events.run_stack_ok [OF assms(1,3) b(1)] assms(4) by (auto simp: stack_ok_def evt_ok_def frames_ok_def queues_ok_def)
  have "ip_at_last_poll P S K i (idle n) as s (ip_up (iface i (sys_net s)))"
    by (rule net_events.run_ip_up [OF assms(1,3) b(1)]) (use b(4) assms(4) in simp_all)
  moreover have "ip_up (iface i (sys_net s)) = smoltcp_iface_has_ip (smoltcp_handle (iface i (sys_net s)))"
    if "as \<noteq> []" "last as = PollRun i"
    using assms(3)
  proof cases
    case (run_snoc as1 s1 a)
    then show ?thesis
      using net_events.step_ip_up [OF assms(1) run_snoc(3) net_events.run_stack_ok [OF assms(1) run_snoc(2) b(1)] assms(4)] that by simp
  qed (use that in simp)
  ultimately show ?thesis using g by auto
qed

theorem ip_bits_agree_witness:
  "\<exists>s g. net_run ref_platform ref_smoltcp ref_config (idle ref_booted) [RegisterCb (Some 1) 0, Attach, RxAlloc [1, 2, 3]] s
     \<and> s_evt (sys_net s) = Some g \<and> (bit g NET_IFACE_ETH \<longleftrightarrow> ip_up (iface NET_IFACE_ETH (sys_net s)))"
  using ref_run ip_bits_agree [OF ref_evt.net_events_axioms ref_booted _ iface_consts(1)] by blast

text \<open>C22: As long as the application does not take its callback away, the address events it receives
  for an interface alternate between GOT_IP and LOST_IP, and the last one received tells whether the
  Rust context had an address when the last poll of the interface ended.\<close>

theorem ip_events_alternate:
  assumes "net_events P contents capacity bits" and "booted P contents capacity bits N n"
    and "net_run P S K (idle n) as s" and "\<forall>u. RegisterCb None u \<notin> set as" and "i < NET_IFACE_MAX"
  shows "successively (\<noteq>) (ip_events i (sys_net s)) \<and>
    (ip_events i (sys_net s) \<noteq> [] \<longrightarrow> last (ip_events i (sys_net s)) = ip_up (iface i (sys_net s))
       \<and> ip_at_last_poll P S K i (idle n) as s (last (ip_events i (sys_net s))))"
proof -
  note b = net_events.booted_stack_ok [OF assms(1,2)]
  have "events_ok i (sys_net s)"
    by (rule net_events.run_events_ok [OF assms(1,3) b(1) _ assms(5,4)]) (simp add: b(2))
  moreover have "ip_at_last_poll P S K i (idle n) as s (ip_up (iface i (sys_net s)))"
    by (rule net_events.run_ip_up [OF assms(1,3) b(1)]) (use b(4) assms(5) in simp_all)
  ultimately show ?thesis by (simp add: events_ok_def)
qed

theorem ip_events_alternate_witness:
  "\<exists>s. net_run ref_platform ref_smoltcp ref_config (idle ref_booted) [RegisterCb (Some 1) 0, Attach, RxAlloc [1, 2, 3]] s
     \<and> successively (\<noteq>) (ip_events NET_IFACE_ETH (sys_net s)) \<and>
    (ip_events NET_IFACE_ETH (sys_net s) \<noteq> [] \<longrightarrow>
       last (ip_events NET_IFACE_ETH (sys_net s)) = ip_up (iface NET_IFACE_ETH (sys_net s)))"
proof -
  obtain s where s: "net_run ref_platform ref_smoltcp ref_config (idle ref_booted) [RegisterCb (Some 1) 0, Attach, RxAlloc [1, 2, 3]] s"
    using ref_run by blast
  show ?thesis
    using ip_events_alternate [OF ref_evt.net_events_axioms ref_booted s _ iface_consts(1)] s by auto
qed

lemma ref_attached:
  "\<exists>n1. net_run ref_platform ref_smoltcp ref_config (idle ref_booted) [Attach] (idle n1) \<and> enabled (iface NET_IFACE_ETH n1)"
proof -
  obtain r n1 where a: "esp_smoltcp_attach_eth ref_platform ref_smoltcp ref_config ref_attach (Some 1) ref_booted = Some (r, n1)"
    using attach_returns [of ref_platform ref_smoltcp ref_config ref_attach "Some 1" ref_booted]
    by (auto simp: ref_config_def)
  have "length (s_ifaces ref_booted) = NET_IFACE_MAX"
    using ref_evt.stack_okD(1) [OF ref_evt.booted_stack_ok(1) [OF ref_booted]] by simp
  then have "enabled (iface NET_IFACE_ETH n1)" by (intro attach_enabled [OF a]) simp_all
  moreover have "net_run ref_platform ref_smoltcp ref_config (idle ref_booted) [Attach] (idle n1)"
    unfolding idle_def by (rule run_one [OF attach [OF a]])
  ultimately show ?thesis by blast
qed

end
