(* ===== verification/Net_Rx.thy ===== *)
theory Net_Rx
  imports Net_Props
begin

text \<open>
  The receive path as a whole: what \<open>eth_input_cb\<close> does with a frame in every case, that the
  receive queue is a faithful FIFO of frame contents, and what the drain loop of the poll task
  hands to the Rust core. Also the two start-up functions after a failure.
\<close>

section \<open>The queue of received frames\<close>

definition frame_bytes :: "net_frame \<Rightarrow> u8 list" where
  "frame_bytes f = take (frame_len f) (frame_data f)"

definition rx_payloads :: "('q \<Rightarrow> nat list) \<Rightarrow> nat \<Rightarrow> ('q, 'g, 'c, 'e) net \<Rightarrow> u8 list list" where
  "rx_payloads contents i n = map (\<lambda>f. frame_bytes (s_frame_pool n ! f)) (rx_list contents i n)"

definition rx_room :: "('q \<Rightarrow> nat list) \<Rightarrow> ('q \<Rightarrow> nat) \<Rightarrow> nat \<Rightarrow> ('q, 'g, 'c, 'e) net \<Rightarrow> bool" where
  "rx_room contents capacity i n =
     (case rx_queue (iface i n) of None \<Rightarrow> False | Some q \<Rightarrow> length (contents q) < capacity q)"

lemma frames_ok_distinct:
  assumes "frames_ok contents capacity N s"
  shows "distinct (all_frames contents s)" and "set (all_frames contents s) = {..<N}"
proof -
  have m: "mset (all_frames contents s) = mset [0..<N]" using assms by (simp add: frames_ok_def)
  show "distinct (all_frames contents s)" using mset_eq_imp_distinct_iff [OF m] by simp
  show "set (all_frames contents s) = {..<N}" using mset_eq_setD [OF m] by (simp only: set_upt atLeast0LessThan)
qed

lemma iface_not_le [simp]: "\<not> NET_IFACE_MAX \<le> NET_IFACE_ETH" "\<not> NET_IFACE_MAX \<le> NET_IFACE_WIFI"
  by (simp_all add: not_le)

lemma copy_frame_ifaces [simp]: "s_ifaces (copy_frame f buf n) = s_ifaces n"
  by (simp add: copy_frame_def)

lemma iface_copy_frame [simp]: "iface i (copy_frame f buf n) = iface i n"
  by (simp add: copy_frame_def iface_def)

lemma rx_list_copy [simp]: "rx_list contents i (copy_frame f buf n) = rx_list contents i n"
  by (simp add: rx_list_def)

lemma frame_pool_frame [simp]:
  "s_frame_pool (notify_task n) = s_frame_pool n" "rx_list contents i (notify_task n) = rx_list contents i n"
  by (simp_all add: rx_list_def)

context net_platform
begin

lemma alloc_copy:
  assumes ok: "frames_ok contents capacity N \<lparr>sys_net = n, drv_hold = None, poll_hold = p\<rparr>"
    and a: "net_frame_alloc P (length buf) n = (Some f, n1)" and i: "i < NET_IFACE_MAX"
  shows "frame_bytes (s_frame_pool (copy_frame f buf n1) ! f) = buf"
    and "frame_len (s_frame_pool (copy_frame f buf n1) ! f) = length buf"
    and "g \<noteq> f \<Longrightarrow> s_frame_pool (copy_frame f buf n1) ! g = s_frame_pool n ! g"
    and "f \<notin> set (rx_list contents i n)"
    and "rx_list contents i (copy_frame f buf n1) = rx_list contents i n"
proof -
  note A = net_frame_alloc_SomeD [OF a] and F = net_frame_alloc_frame [OF a]
  note D = frames_ok_distinct [OF ok]
  have "f \<in> set (all_frames contents \<lparr>sys_net = n, drv_hold = None, poll_hold = p\<rparr>)"
    using A(1) by (simp add: all_frames_def)
  then have "f < N" using D(2) by simp
  then have f: "f < length (s_frame_pool n)" using ok by (simp add: frames_ok_def queues_ok_def)
  have len: "length buf \<le> length (frame_data (s_frame_pool n ! f))"
    using A(2) ok f nth_mem [OF f] by (auto simp: frames_ok_def queues_ok_def)
  show "frame_bytes (s_frame_pool (copy_frame f buf n1) ! f) = buf"
    and "frame_len (s_frame_pool (copy_frame f buf n1) ! f) = length buf"
    and "g \<noteq> f \<Longrightarrow> s_frame_pool (copy_frame f buf n1) ! g = s_frame_pool n ! g"
    using f len by (simp_all add: copy_frame_def A(3) frame_bytes_def)
  show "rx_list contents i (copy_frame f buf n1) = rx_list contents i n"
    using F(1) by (simp add: rx_list_def iface_def)
  show "f \<notin> set (rx_list contents i n)"
    using D(1) A(1) i by (auto simp: all_frames_def less_NET_IFACE_MAX)
qed

lemma payloads_after_copy:
  assumes "frames_ok contents capacity N \<lparr>sys_net = n, drv_hold = None, poll_hold = p\<rparr>"
    and "net_frame_alloc P (length buf) n = (Some f, n1)" and "i < NET_IFACE_MAX"
  shows "rx_payloads contents i (copy_frame f buf n1) = rx_payloads contents i n"
proof -
  note C = alloc_copy [OF assms]
  have "s_frame_pool (copy_frame f buf n1) ! g = s_frame_pool n ! g" if "g \<in> set (rx_list contents i n)" for g
    using C(3,4) that by metis
  then show ?thesis unfolding rx_payloads_def C(5) by (auto intro: map_cong)
qed

lemma payloads_cong:
  assumes "s_frame_pool n' = s_frame_pool n" and "rx_list contents i n' = rx_list contents i n"
  shows "rx_payloads contents i n' = rx_payloads contents i n"
  using assms by (simp add: rx_payloads_def)

lemma eth_input_accepts:
  assumes ok: "frames_ok contents capacity N \<lparr>sys_net = n, drv_hold = None, poll_hold = p\<rparr>"
    and en: "enabled (iface NET_IFACE_ETH n)" and buf: "length buf \<le> NET_FRAME_BUF"
    and free: "free_list contents n \<noteq> []" and room: "rx_room contents capacity NET_IFACE_ETH n"
  shows "\<exists>n'. eth_input_cb P buf n = Some (ESP_OK, n')
    \<and> rx_payloads contents NET_IFACE_ETH n' = rx_payloads contents NET_IFACE_ETH n @ [buf]
    \<and> rx_payloads contents NET_IFACE_WIFI n' = rx_payloads contents NET_IFACE_WIFI n
    \<and> rx_frames (iface NET_IFACE_ETH n') = rx_frames (iface NET_IFACE_ETH n) + 1
    \<and> rx_bytes (iface NET_IFACE_ETH n') = rx_bytes (iface NET_IFACE_ETH n) + of_nat (length buf)
    \<and> rx_drops (iface NET_IFACE_ETH n') = rx_drops (iface NET_IFACE_ETH n)"
proof -
  obtain f n1 where a: "net_frame_alloc P (length buf) n = (Some f, n1)"
    using net_frame_alloc_None_iff [of "length buf" n] free buf
    by (cases "net_frame_alloc P (length buf) n") fastforce
  note C = alloc_copy [OF ok a iface_consts(1)]
  let ?m = "copy_frame f buf n1"
  have if1: "iface i ?m = iface i n" for i
    using net_frame_alloc_frame(1) [OF a] by (simp add: iface_def)
  have len: "length (s_ifaces ?m) = NET_IFACE_MAX"
    using net_frame_alloc_frame(1) [OF a] ok by (simp add: copy_frame_def frames_ok_def queues_ok_def)
  obtain q where q: "rx_queue (iface NET_IFACE_ETH n) = Some q" "length (contents q) < capacity q"
    using room by (auto simp: rx_room_def split: option.splits)
  then obtain q' where q': "xQueueSend (queues P) q f = Some q'" "contents q' = contents q @ [f]"
    using send_room by blast
  let ?u = "upd_iface NET_IFACE_ETH (\<lambda>i. i\<lparr>rx_frames := rx_frames i + 1, rx_bytes := rx_bytes i + of_nat (frame_len (s_frame_pool ?m ! f))\<rparr>) ?m"
  let ?n' = "notify_task (upd_iface NET_IFACE_ETH (\<lambda>i. i\<lparr>rx_queue := Some q'\<rparr>) ?u)"
  have post: "net_stack_post_rx P NET_IFACE_ETH f ?m = Some ?n'"
    using en if1 len q q' by (simp add: net_stack_post_rx_def Let_def)
  have r: "rx_list contents NET_IFACE_ETH ?n' = rx_list contents NET_IFACE_ETH n @ [f]"
    using q q' len by (simp add: rx_list_def)
  have w: "rx_list contents NET_IFACE_WIFI ?n' = rx_list contents NET_IFACE_WIFI n"
    using len if1 by (simp add: rx_list_def)
  have pool: "s_frame_pool ?n' = s_frame_pool ?m" by simp
  have "rx_payloads contents NET_IFACE_ETH ?n' = rx_payloads contents NET_IFACE_ETH n @ [buf]"
    using payloads_after_copy [OF ok a iface_consts(1)] unfolding rx_payloads_def r pool C(5) by (simp add: C(1))
  moreover have "rx_payloads contents NET_IFACE_WIFI ?n' = rx_payloads contents NET_IFACE_WIFI n"
    using payloads_after_copy [OF ok a iface_consts(2)] alloc_copy(5) [OF ok a iface_consts(2)]
    unfolding rx_payloads_def w pool by simp
  moreover have "iface NET_IFACE_ETH ?n' = (iface NET_IFACE_ETH n)\<lparr>rx_frames := rx_frames (iface NET_IFACE_ETH n) + 1,
      rx_bytes := rx_bytes (iface NET_IFACE_ETH n) + of_nat (length buf), rx_queue := Some q'\<rparr>"
    using len if1 C(2) by simp
  moreover have "eth_input_cb P buf n = Some (ESP_OK, ?n')"
    using a post by (simp add: eth_input_cb_def)
  ultimately show ?thesis by (intro exI [of _ ?n']) simp
qed

lemma eth_input_refuses:
  assumes "NET_FRAME_BUF < length buf \<or> free_list contents n = []"
  shows "eth_input_cb P buf n = Some (ESP_ERR_NO_MEM, n\<lparr>s_frame_alloc_fail := s_frame_alloc_fail n + 1\<rparr>)"
proof -
  obtain n1 where a: "net_frame_alloc P (length buf) n = (None, n1)"
    using net_frame_alloc_None_iff [of "length buf" n] assms by (cases "net_frame_alloc P (length buf) n") auto
  then show ?thesis using net_frame_alloc_NoneD [OF a] by (simp add: eth_input_cb_def)
qed

lemma eth_input_drops:
  assumes ok: "frames_ok contents capacity N \<lparr>sys_net = n, drv_hold = None, poll_hold = p\<rparr>"
    and en: "enabled (iface NET_IFACE_ETH n)" and buf: "length buf \<le> NET_FRAME_BUF"
    and free: "free_list contents n \<noteq> []" and full: "\<not> rx_room contents capacity NET_IFACE_ETH n"
  shows "\<exists>n'. eth_input_cb P buf n = Some (ESP_OK, n') \<and> (\<forall>i < NET_IFACE_MAX. rx_payloads contents i n' = rx_payloads contents i n)
    \<and> mset (free_list contents n') = mset (free_list contents n)
    \<and> rx_drops (iface NET_IFACE_ETH n') = rx_drops (iface NET_IFACE_ETH n) + 1"
proof -
  obtain f n1 where a: "net_frame_alloc P (length buf) n = (Some f, n1)"
    using net_frame_alloc_None_iff [of "length buf" n] free buf
    by (cases "net_frame_alloc P (length buf) n") fastforce
  note A = net_frame_alloc_SomeD [OF a]
  let ?m = "copy_frame f buf n1"
  have if1: "iface i ?m = iface i n" for i
    using net_frame_alloc_frame(1) [OF a] by (simp add: iface_def)
  have len: "length (s_ifaces ?m) = NET_IFACE_MAX"
    using net_frame_alloc_frame(1) [OF a] ok by (simp add: frames_ok_def queues_ok_def)
  have "rx_queue (iface NET_IFACE_ETH n) \<noteq> None"
    using ok unfolding frames_ok_def queues_ok_def sys.simps by (metis iface_consts(1))
  then obtain q where q: "rx_queue (iface NET_IFACE_ETH n) = Some q" by blast
  with full have none: "xQueueSend (queues P) q f = None"
    using send_full by (simp add: rx_room_def)
  let ?u = "upd_iface NET_IFACE_ETH (\<lambda>i. i\<lparr>rx_frames := rx_frames i + 1, rx_bytes := rx_bytes i + of_nat (frame_len (s_frame_pool ?m ! f))\<rparr>) ?m"
  let ?d = "upd_iface NET_IFACE_ETH (\<lambda>i. i\<lparr>rx_drops := rx_drops i + 1\<rparr>) ?u"
  have post: "net_stack_post_rx P NET_IFACE_ETH f ?m = Some (net_frame_free P (Some f) ?d)"
    using en if1 len q none by (simp add: net_stack_post_rx_def Let_def)
  have ok1: "frames_ok contents capacity N \<lparr>sys_net = ?d, drv_hold = Some f, poll_hold = p\<rparr>"
    by (rule frames_ok_view [OF rx_alloc_frames_ok [OF ok a]]) simp
  then obtain qf where qf: "s_frame_free_q ?d = Some qf" "length (contents qf) < capacity qf"
    using held_frame(2) [OF ok1, of f] by (auto simp: held_def)
  have "free_list contents ?d = free_list contents n1"
    by (simp add: free_list_def copy_frame_def)
  then have "mset (free_list contents (net_frame_free P (Some f) ?d)) = mset (free_list contents n)"
    using net_frame_free_list(1) [OF qf, of f] A(1) by simp
  moreover have "rx_payloads contents i (net_frame_free P (Some f) ?d) = rx_payloads contents i n" if "i < NET_IFACE_MAX" for i
  proof -
    have "rx_list contents i (net_frame_free P (Some f) ?d) = rx_list contents i ?m"
      using len by (simp add: rx_list_def)
    then show ?thesis
      using payloads_cong [of "net_frame_free P (Some f) ?d" ?m i] payloads_after_copy [OF ok a that] by simp
  qed
  moreover have "eth_input_cb P buf n = Some (ESP_OK, net_frame_free P (Some f) ?d)"
    using a post by (simp add: eth_input_cb_def)
  moreover have "rx_drops (iface NET_IFACE_ETH (net_frame_free P (Some f) ?d)) = rx_drops (iface NET_IFACE_ETH n) + 1"
    using len if1 by simp
  ultimately show ?thesis by blast
qed

end

section \<open>Properties of the receive path\<close>

text \<open>The states in which the driver callback may be entered: nothing in its hands.\<close>

lemma reachable_frames_ok:
  assumes "net_events P contents capacity bits" and "booted P contents capacity bits N n"
    and "net_run P S K (idle n) as s" and "drv_hold s = None"
  shows "frames_ok contents capacity N \<lparr>sys_net = sys_net s, drv_hold = None, poll_hold = poll_hold s\<rparr>"
proof -
  have "frames_ok contents capacity N s"
    using net_events.run_stack_ok [OF assms(1,3) net_events.booted_stack_ok(1) [OF assms(1,2)]]
    by (simp add: stack_ok_def)
  moreover have "\<lparr>sys_net = sys_net s, drv_hold = None, poll_hold = poll_hold s\<rparr> = s"
    using assms(4) by (cases s) simp
  ultimately show ?thesis by simp
qed

lemma net_events_platform: "net_events P contents capacity bits \<Longrightarrow> net_platform P contents capacity"
  by (simp add: net_events_def)

text \<open>C8: The driver's receive callback in every reachable state with the Ethernet interface
  attached. A frame that fits, when a pool frame and a queue entry are available, is appended
  to the receive queue with exactly the bytes received, after the frames already waiting, and
  counted; nothing else in either queue changes. With the queue full the call still succeeds,
  the frame is counted as dropped and the pool frame goes back to the free list. A frame that is
  too long, or arrives when the pool is exhausted, is refused with \<open>ESP_ERR_NO_MEM\<close>, and only the
  failure counter changes.\<close>

theorem eth_input_cases:
  assumes "net_events P contents capacity bits" and "booted P contents capacity bits N n0"
    and "net_run P S K (idle n0) as s" and "drv_hold s = None"
    and "n = sys_net s" and "enabled (iface NET_IFACE_ETH n)"
  shows "if NET_FRAME_BUF < length buf \<or> free_list contents n = []
    then eth_input_cb P buf n = Some (ESP_ERR_NO_MEM, n\<lparr>s_frame_alloc_fail := s_frame_alloc_fail n + 1\<rparr>)
    else if rx_room contents capacity NET_IFACE_ETH n
    then \<exists>n'. eth_input_cb P buf n = Some (ESP_OK, n')
      \<and> rx_payloads contents NET_IFACE_ETH n' = rx_payloads contents NET_IFACE_ETH n @ [buf]
      \<and> rx_payloads contents NET_IFACE_WIFI n' = rx_payloads contents NET_IFACE_WIFI n
      \<and> rx_frames (iface NET_IFACE_ETH n') = rx_frames (iface NET_IFACE_ETH n) + 1
      \<and> rx_bytes (iface NET_IFACE_ETH n') = rx_bytes (iface NET_IFACE_ETH n) + of_nat (length buf)
      \<and> rx_drops (iface NET_IFACE_ETH n') = rx_drops (iface NET_IFACE_ETH n)
    else \<exists>n'. eth_input_cb P buf n = Some (ESP_OK, n')
      \<and> (\<forall>i < NET_IFACE_MAX. rx_payloads contents i n' = rx_payloads contents i n)
      \<and> mset (free_list contents n') = mset (free_list contents n)
      \<and> rx_drops (iface NET_IFACE_ETH n') = rx_drops (iface NET_IFACE_ETH n) + 1"
proof -
  note P = net_events_platform [OF assms(1)]
  have ok: "frames_ok contents capacity N \<lparr>sys_net = n, drv_hold = None, poll_hold = poll_hold s\<rparr>"
    using reachable_frames_ok [OF assms(1-4)] assms(5) by simp
  note R = net_platform.eth_input_refuses [OF P, of buf n]
    and A = net_platform.eth_input_accepts [OF P ok assms(6), of buf]
    and D = net_platform.eth_input_drops [OF P ok assms(6), of buf]
  show ?thesis
  proof (cases "NET_FRAME_BUF < length buf \<or> free_list contents n = []")
    case True
    with R show ?thesis by (simp only: if_True)
  next
    case False
    then have b: "length buf \<le> NET_FRAME_BUF" "free_list contents n \<noteq> []" by auto
    show ?thesis
      using A [OF b] D [OF b] False by (simp only: if_False) (cases "rx_room contents capacity NET_IFACE_ETH n"; simp only: if_True if_False simp_thms)
  qed
qed

lemma ref_booted_queues:
  "free_list ring_contents ref_booted = [0..<2]" "rx_queue (iface NET_IFACE_ETH ref_booted) = Some (ring_new 2)"
proof -
  let ?b = "net_boot 2 ref_ext0 :: (ring, u32, ref_stack, ref_ext) net"
  let ?n2 = "?b\<lparr>s_inited := True, s_evt := Some 0, s_progress_evt := Some 0, lock_created := True\<rparr>"
  obtain n3 where n3: "frame_pool_init ref_platform (Some (ring_new 2)) ?n2 = Some n3" "free_list ring_contents n3 = [0..<2]"
    using ref_net.frame_pool_init_ok [of "ring_new 2" ?n2] by auto
  have len: "length (s_ifaces n3) = NET_IFACE_MAX" using n3(1) by (auto simp: frame_pool_init_def)
  have eq: "ref_booted = (upd_iface NET_IFACE_WIFI (\<lambda>f. f\<lparr>iface_id := NET_IFACE_WIFI, rx_queue := Some (ring_new 2)\<rparr>)
      (upd_iface NET_IFACE_ETH (\<lambda>f. f\<lparr>iface_id := NET_IFACE_ETH, rx_queue := Some (ring_new 2)\<rparr>) n3))\<lparr>s_task := Some 0\<rparr>"
    using n3 by (simp add: ref_booted_def net_stack_init_def ref_init_def Let_def upt_ifaces)
  show "free_list ring_contents ref_booted = [0..<2]" "rx_queue (iface NET_IFACE_ETH ref_booted) = Some (ring_new 2)"
    unfolding eq using n3(2) len by (simp_all add: free_list_def iface_def upd_iface_def)
qed

lemma ref_attached_queues:
  "\<exists>n1. net_run ref_platform ref_smoltcp ref_config (idle ref_booted) [Attach] (idle n1) \<and> enabled (iface NET_IFACE_ETH n1)
     \<and> rx_view n1 = rx_view ref_booted"
proof -
  obtain n1 where n1: "net_run ref_platform ref_smoltcp ref_config (idle ref_booted) [Attach] (idle n1)"
    "enabled (iface NET_IFACE_ETH n1)" using ref_attached by blast
  from n1(1) obtain s where "net_run ref_platform ref_smoltcp ref_config (idle ref_booted) [] s"
    "net_step ref_platform ref_smoltcp ref_config s Attach (idle n1)"
    by (cases rule: net_run.cases) auto
  then have "net_step ref_platform ref_smoltcp ref_config (idle ref_booted) Attach (idle n1)"
    by (metis append_is_Nil_conv list.distinct(1) net_run.cases)
  then have "rx_view n1 = rx_view ref_booted"
    unfolding idle_def by (cases rule: net_step.cases) (auto dest: attach_views(1))
  with n1 show ?thesis by blast
qed

theorem eth_input_cases_witness:
  "\<exists>(n :: (ring, u32, ref_stack, ref_ext) net) n'. enabled (iface NET_IFACE_ETH n)
     \<and> eth_input_cb ref_platform [1, 2, 3] n = Some (ESP_OK, n')
     \<and> rx_payloads ring_contents NET_IFACE_ETH n' = rx_payloads ring_contents NET_IFACE_ETH n @ [[1, 2, 3]]"
proof -
  obtain n1 where n1: "net_run ref_platform ref_smoltcp ref_config (idle ref_booted) [Attach] (idle n1)"
    "enabled (iface NET_IFACE_ETH n1)" "rx_view n1 = rx_view ref_booted" using ref_attached_queues by blast
  have len: "length (s_ifaces ref_booted) = NET_IFACE_MAX"
    using ref_evt.stack_okD(1) [OF ref_evt.booted_stack_ok(1) [OF ref_booted]] by simp
  have q: "free_list ring_contents n1 = [0, 1]" "rx_queue (iface NET_IFACE_ETH n1) = Some (ring_new 2)"
    using rx_view_eqD(1,5) [OF n1(3)] ref_booted_queues len by (simp_all add: free_list_def numeral_eq_Suc)
  then have c: "\<not> (NET_FRAME_BUF < length [1, 2, 3 :: u8] \<or> free_list ring_contents n1 = [])"
    "rx_room ring_contents ring_capacity NET_IFACE_ETH n1"
    by (simp_all add: NET_FRAME_BUF_def rx_room_def)
  show ?thesis
    using eth_input_cases [OF ref_evt.net_events_axioms ref_booted n1(1) _ _ n1(2), of "[1, 2, 3]"] n1(2)
    unfolding if_not_P [OF c(1)] if_P [OF c(2)] idle_simps by blast
qed

section \<open>From the queue into the Rust core\<close>

definition inbox :: "nat \<Rightarrow> ('q, 'g, 'c, 'e) net \<Rightarrow> u8 list option" where
  "inbox i n = (case smoltcp_handle (iface i n) of None \<Rightarrow> None | Some ctx \<Rightarrow> rx_inbox (ctx_dev ctx))"

definition no_taps :: "('q, 'g, 'c, 'e) net \<Rightarrow> bool" where
  "no_taps n \<longleftrightarrow> (\<forall>t \<in> set (s_taps n). tap_cb t = None)"

lemma tap_match_None: "\<forall>t \<in> set taps. tap_cb t = None \<Longrightarrow> tap_match et taps = None"
proof -
  assume "\<forall>t \<in> set taps. tap_cb t = None"
  then have "first_idx (\<lambda>t. ethertype t = et \<and> tap_cb t \<noteq> None) taps = None"
    unfolding first_idx_None_iff by simp
  then show ?thesis unfolding tap_match_def by (simp only: option.case)
qed

lemma rx_deliver_untapped:
  assumes "no_taps n" and "i < length (s_ifaces n)"
  shows "inbox i (rx_deliver i f n) = (case inbox i n of None \<Rightarrow>
      (if smoltcp_handle (iface i n) = None then None else Some (frame_bytes (s_frame_pool n ! f))) | Some b \<Rightarrow> Some b)"
    and "no_taps (rx_deliver i f n)"
    and "(smoltcp_handle (iface i (rx_deliver i f n)) = None) = (smoltcp_handle (iface i n) = None)"
proof -
  have d: "dispatch_tap k fr n = (False, n)" for k fr
    using tap_match_None [of "s_taps n"] assms(1) by (simp add: dispatch_tap_def no_taps_def)
  show "inbox i (rx_deliver i f n) = (case inbox i n of None \<Rightarrow>
      (if smoltcp_handle (iface i n) = None then None else Some (frame_bytes (s_frame_pool n ! f))) | Some b \<Rightarrow> Some b)"
    and "no_taps (rx_deliver i f n)"
    and "(smoltcp_handle (iface i (rx_deliver i f n)) = None) = (smoltcp_handle (iface i n) = None)"
    using assms by (auto simp: rx_deliver_def d Let_def locked_call_def inbox_def no_taps_def smoltcp_iface_rx_def
        push_rx_def frame_bytes_def split: option.split)
qed

context net_platform
begin

lemma rx_drain_inbox:
  assumes "i < length (s_ifaces n)" and "rx_queue (iface i n) \<noteq> None" and "no_taps n"
    and "smoltcp_handle (iface i n) \<noteq> None" and "rx_drain P i n = Some n'"
  shows "inbox i n' = (case inbox i n of Some b \<Rightarrow> Some b
     | None \<Rightarrow> (case rx_payloads contents i n of [] \<Rightarrow> None | p # ps \<Rightarrow> Some p))"
  using assms
proof (induction "length (rx_list contents i n)" arbitrary: n)
  case 0
  then obtain q where q: "rx_queue (iface i n) = Some q" "contents q = []" by (auto simp: rx_list_def)
  then have "rx_take P i n = Some (None, n)" by (simp add: rx_take_def receive_None_iff [THEN iffD2])
  with 0(6) have "n' = n" by (subst (asm) rx_drain.simps) simp
  with q show ?case by (simp add: rx_payloads_def rx_list_def split: option.split)
next
  case (Suc k)
  then obtain q f fs where q: "rx_queue (iface i n) = Some q" "contents q = f # fs"
    by (cases "rx_list contents i n") (auto simp: rx_list_def)
  then obtain q' where recv: "xQueueReceive (queues P) q = Some (f, q')" "contents q' = fs"
    using receive_next by blast
  let ?n1 = "upd_iface i (\<lambda>j. j\<lparr>rx_queue := Some q'\<rparr>) n"
  let ?n2 = "net_frame_free P (Some f) (rx_deliver i f ?n1)"
  have "rx_take P i n = Some (Some f, ?n1)" using q recv by (simp add: rx_take_def)
  with Suc.prems(5) have rest: "rx_drain P i ?n2 = Some n'" by (subst (asm) rx_drain.simps) simp
  note V = rx_view_eqD [OF rx_deliver_views(1) [of i f ?n1]]
  have n1: "no_taps ?n1" "i < length (s_ifaces ?n1)" using Suc.prems by (simp_all add: no_taps_def)
  note D = rx_deliver_untapped [OF n1, of f]
  have l2: "rx_list contents i ?n2 = fs"
    using rx_list_deliver [OF n1(2), of f i] rx_list_upd [OF Suc.prems(1), of i q'] recv(2) by simp
  have rq: "rx_queue (iface i ?n2) \<noteq> None" and len: "i < length (s_ifaces ?n2)"
    using V(4,5) Suc.prems(1) by simp_all
  have in2: "inbox i ?n2 = inbox i (rx_deliver i f ?n1)" by (simp add: inbox_def)
  have h2: "smoltcp_handle (iface i ?n2) \<noteq> None" using D(3) Suc.prems by simp
  have t2: "no_taps ?n2" using D(2) by (simp add: no_taps_def)
  have k: "k = length (rx_list contents i ?n2)" using Suc.hyps(2) q l2 by (simp add: rx_list_def)
  have "inbox i n' = (case inbox i ?n2 of Some b \<Rightarrow> Some b
     | None \<Rightarrow> (case rx_payloads contents i ?n2 of [] \<Rightarrow> None | p # ps \<Rightarrow> Some p))"
    by (rule Suc.hyps(1) [OF k len rq t2 h2 rest])
  then show ?case
    using D(1) Suc.prems(1,4) q in2 by (auto simp: inbox_def rx_payloads_def rx_list_def split: option.splits)
qed

end

text \<open>C34: The poll task empties the receive queue into the Rust core before it lets smoltcp run,
  and the core's inbox holds one frame: of the frames waiting in the queue (with no tap
  registered and the inbox empty) only the first reaches smoltcp, all others of the batch are
  discarded without being counted.\<close>

theorem drain_delivers_only_first:
  assumes "net_platform P contents capacity" and "i < NET_IFACE_MAX" and "length (s_ifaces n) = NET_IFACE_MAX"
    and "enabled (iface i n)" and "rx_queue (iface i n) \<noteq> None" and "no_taps n"
    and "smoltcp_handle (iface i n) \<noteq> None" and "inbox i n = None" and "rx_payloads contents i n = p # ps"
  shows "\<exists>n'. rx_drain P i n = Some n' \<and> rx_payloads contents i n' = [] \<and> inbox i n' = Some p"
proof -
  obtain n' where n': "rx_drain P i n = Some n'" "rx_list contents i n' = []"
    using net_platform.rx_drain_returns [OF assms(1-3,5,4)] by blast
  have "inbox i n' = Some p"
    using net_platform.rx_drain_inbox [OF assms(1) _ assms(5-7) n'(1)] assms(2,3,8,9) by simp
  with n' show ?thesis by (simp add: rx_payloads_def)
qed

definition two_waiting :: "(ring, u32, ref_stack, ref_ext) net" where
  "two_waiting = upd_iface NET_IFACE_ETH (\<lambda>f. f\<lparr>enabled := True,
       rx_queue := Some \<lparr>rg_store = [0, 1], rg_head = 0, rg_count = 2\<rparr>,
       smoltcp_handle := Some (ctx_new ref_smoltcp 0 [2, 0, 0, 0, 0, 1] 0)\<rparr>)
     ((net_boot 2 ref_ext0)\<lparr>s_frame_pool := [\<lparr>frame_len = 1, hw_ts_ns = -1, frame_data = [5]\<rparr>, \<lparr>frame_len = 1, hw_ts_ns = -1, frame_data = [6]\<rparr>]\<rparr>)"

theorem drain_delivers_only_first_witness:
  "rx_payloads ring_contents NET_IFACE_ETH two_waiting = [[5], [6]] \<and>
   (\<exists>n'. rx_drain ref_platform NET_IFACE_ETH two_waiting = Some n' \<and> rx_payloads ring_contents NET_IFACE_ETH n' = []
      \<and> inbox NET_IFACE_ETH n' = Some [5])"
proof -
  have len: "length (s_ifaces two_waiting) = NET_IFACE_MAX" by (simp add: two_waiting_def net_boot_def)
  have i: "iface NET_IFACE_ETH two_waiting = iface_boot\<lparr>enabled := True,
       rx_queue := Some \<lparr>rg_store = [0, 1], rg_head = 0, rg_count = 2\<rparr>,
       smoltcp_handle := Some (ctx_new ref_smoltcp 0 [2, 0, 0, 0, 0, 1] 0)\<rparr>"
    by (simp add: two_waiting_def net_boot_def iface_def upd_iface_def)
  have p: "rx_payloads ring_contents NET_IFACE_ETH two_waiting = [[5], [6]]"
    unfolding rx_payloads_def rx_list_def i
    by (simp add: ring_contents_def ring_at_def two_waiting_def frame_bytes_def numeral_eq_Suc)
  have "no_taps two_waiting" by (simp add: no_taps_def two_waiting_def net_boot_def tap_boot_def)
  moreover have "inbox NET_IFACE_ETH two_waiting = None"
    unfolding inbox_def i by (simp add: ctx_new_def Let_def device_new_def)
  ultimately show ?thesis
    using drain_delivers_only_first [OF ref_net.net_platform_axioms iface_consts(1) len, of "[5]" "[[6]]"] p i by simp
qed

section \<open>When to wake up\<close>

fun poll_delays ::
  "('q, 'g, 'e) platform \<Rightarrow> 'c smoltcp \<Rightarrow> nat list \<Rightarrow> ('q, 'g, 'c, 'e) net \<Rightarrow> int list" where
  "poll_delays P S [] n = []"
| "poll_delays P S (i # is) n =
     (if \<not> enabled (iface i n) then poll_delays P S is n
      else
        let h = smoltcp_handle (iface i n);
            (now, n1) = (if h = None then (0, n) else smoltcp_glue_now_us P n)
        in smoltcp_iface_poll_delay_us S now h # poll_delays P S is n1)"

text \<open>The deadline the poll task computes is the least of the delays the enabled interfaces
  report, where a negative delay means that the interface has nothing scheduled; with nothing
  scheduled at all it is the initial value, which \<open>task_wait\<close> turns into an unlimited sleep.\<close>

theorem next_deadline_least:
  "fst (next_deadline P S is d n) = Min (insert d {x. x \<in> set (poll_delays P S is n) \<and> 0 \<le> x})"
proof (induction "is" arbitrary: d n)
  case Nil
  then show ?case by simp
next
  case (Cons i "is")
  have fin: "finite {x. x \<in> A \<and> 0 \<le> x}" if "finite A" for A :: "int set" using that by simp
  have pos: "Min (insert (if 0 \<le> e \<and> e < d then e else d) {x. x \<in> A \<and> 0 \<le> x})
      = Min (insert d {x. x \<in> insert e A \<and> 0 \<le> x})" if "finite A" for e A
  proof (cases "0 \<le> e")
    case True
    then have "{x. x \<in> insert e A \<and> 0 \<le> x} = insert e {x. x \<in> A \<and> 0 \<le> x}" by auto
    moreover have "Min (insert (min d e) B) = Min (insert d (insert e B))" if "finite B" for B
      using that by (cases "B = {}") (simp_all add: min.assoc)
    moreover have "(if 0 \<le> e \<and> e < d then e else d) = min d e" using True by (simp add: min_def)
    ultimately show ?thesis using fin [OF that] by simp
  next
    case False
    then have "{x. x \<in> insert e A \<and> 0 \<le> x} = {x. x \<in> A \<and> 0 \<le> x}" by auto
    with False show ?thesis by simp
  qed
  show ?case
  proof (cases "enabled (iface i n)")
    case False
    with Cons.IH show ?thesis by simp
  next
    case True
    let ?h = "smoltcp_handle (iface i n)"
    let ?p = "if ?h = None then (0, n) else smoltcp_glue_now_us P n"
    let ?e = "smoltcp_iface_poll_delay_us S (fst ?p) ?h"
    have "fst (next_deadline P S (i # is) d n) = fst (next_deadline P S is (if 0 \<le> ?e \<and> ?e < d then ?e else d) (snd ?p))"
      using True by (simp add: Let_def case_prod_unfold)
    also have "\<dots> = Min (insert (if 0 \<le> ?e \<and> ?e < d then ?e else d) {x. x \<in> set (poll_delays P S is (snd ?p)) \<and> 0 \<le> x})"
      by (rule Cons.IH)
    also have "\<dots> = Min (insert d {x. x \<in> insert ?e (set (poll_delays P S is (snd ?p))) \<and> 0 \<le> x})"
      by (rule pos) simp
    also have "insert ?e (set (poll_delays P S is (snd ?p))) = set (poll_delays P S (i # is) n)"
      using True by (simp add: Let_def case_prod_unfold)
    finally show ?thesis .
  qed
qed

section \<open>Start-up after a failure\<close>

lemma init_failure:
  assumes "net_stack_init P E n = Some (r, n')" and "r \<noteq> ESP_OK" and "s_task n = None"
  shows "net_stack_init P E' n' = Some (ESP_OK, n') \<and> s_task n' = None"
proof -
  have "s_inited n'" and "s_task n' = None"
    using assms unfolding net_stack_init_def frame_pool_init_def upt_ifaces Let_def
    by (simp split: if_split_asm option.split_asm; elim conjE; hypsubst; simp)+
  then show ?thesis by (simp add: net_stack_init_def)
qed

lemma attach_failure:
  assumes "esp_smoltcp_attach_eth P S K A h n = Some (r, n')" and "r \<noteq> ESP_OK" and "h \<noteq> None"
    and "\<not> enabled (iface NET_IFACE_ETH n)" and "NET_IFACE_ETH < length (s_ifaces n)"
  shows "esp_smoltcp_attach_eth P S K A' h n' = Some (ESP_ERR_INVALID_STATE, n')
    \<and> smoltcp_handle (iface NET_IFACE_ETH n') = smoltcp_handle (iface NET_IFACE_ETH n)"
proof -
  have en: "enabled (iface NET_IFACE_ETH n')" by (rule attach_enabled [OF assms(1,3,5)])
  have "n' = upd_iface NET_IFACE_ETH (\<lambda>f. f\<lparr>enabled := True, l2_tx := Some Eth_tx, mac := snd (got_mac A)\<rparr>) (n\<lparr>s_eth_handle := h\<rparr>)"
    using assms(1-4) by (auto simp: esp_smoltcp_attach_eth_def Let_def case_prod_unfold split: if_splits option.splits)
  then have "smoltcp_handle (iface NET_IFACE_ETH n') = smoltcp_handle (iface NET_IFACE_ETH n)"
    using assms(5) by (simp add: iface_def upd_iface_def)
  with en assms(3) show ?thesis by (simp add: esp_smoltcp_attach_eth_def)
qed

text \<open>C38: A failed start cannot be retried. After a failed \<open>net_stack_init\<close>, whatever the reason, the
  next call reports \<open>ESP_OK\<close> without doing anything, and the poll task still does not exist; after a
  failed \<open>esp_smoltcp_attach_eth\<close> the interface is enabled without a context, and every further
  attempt is refused with \<open>ESP_ERR_INVALID_STATE\<close>, although nothing was attached.\<close>

theorem setup_failure_sticks:
  assumes "r \<noteq> ESP_OK"
  shows "(net_stack_init P E n = Some (r, n') \<longrightarrow> s_task n = None \<longrightarrow> net_stack_init P E' n' = Some (ESP_OK, n') \<and> s_task n' = None)
    \<and> (esp_smoltcp_attach_eth P S K A h m = Some (r, m') \<longrightarrow> h \<noteq> None \<longrightarrow> \<not> enabled (iface NET_IFACE_ETH m) \<longrightarrow> NET_IFACE_ETH < length (s_ifaces m)
      \<longrightarrow> esp_smoltcp_attach_eth P S K A' h m' = Some (ESP_ERR_INVALID_STATE, m')
        \<and> smoltcp_handle (iface NET_IFACE_ETH m') = smoltcp_handle (iface NET_IFACE_ETH m))"
  using init_failure [of P E n r n'] attach_failure [of P S K A h m r m'] assms by blast

theorem setup_failure_sticks_witness:
  "let n = net_boot 2 ref_ext0 :: (ring, u32, ref_stack, ref_ext) net;
       E = ref_init\<lparr>esp_event_loop_create_default := ESP_FAIL\<rparr>; A = ref_attach\<lparr>esp_eth_update_input_path := ESP_FAIL\<rparr>
   in \<exists>n' m'. net_stack_init ref_platform E n = Some (ESP_FAIL, n') \<and> net_stack_init ref_platform ref_init n' = Some (ESP_OK, n')
     \<and> esp_smoltcp_attach_eth ref_platform ref_smoltcp ref_config A (Some 1) n = Some (ESP_FAIL, m')
     \<and> esp_smoltcp_attach_eth ref_platform ref_smoltcp ref_config ref_attach (Some 1) m' = Some (ESP_ERR_INVALID_STATE, m')"
proof -
  let ?n = "net_boot 2 ref_ext0 :: (ring, u32, ref_stack, ref_ext) net"
  let ?E = "ref_init\<lparr>esp_event_loop_create_default := ESP_FAIL\<rparr>"
  let ?A = "ref_attach\<lparr>esp_eth_update_input_path := ESP_FAIL\<rparr>"
  have f: "net_stack_init ref_platform ?E ?n = Some (ESP_FAIL, ?n\<lparr>s_inited := True\<rparr>)"
    by (simp add: net_stack_init_def ref_init_def Let_def)
  have t: "s_task ?n = None" by (simp add: net_boot_def)
  have en: "\<not> enabled (iface NET_IFACE_ETH ?n)" by (simp add: iface_boot_def)
  obtain m' where m': "esp_smoltcp_attach_eth ref_platform ref_smoltcp ref_config ?A (Some 1) ?n = Some (ESP_FAIL, m')"
    using en by (simp add: esp_smoltcp_attach_eth_def ref_attach_def Let_def)
  have "NET_IFACE_ETH < length (s_ifaces ?n)" by (simp add: net_boot_def NET_IFACE_ETH_def NET_IFACE_MAX_def)
  with setup_failure_sticks [of ESP_FAIL ref_platform ?E ?n "?n\<lparr>s_inited := True\<rparr>" ref_init ref_smoltcp ref_config ?A "Some 1" ?n m' ref_attach] f t en m'
  show ?thesis unfolding Let_def by (intro exI [of _ "?n\<lparr>s_inited := True\<rparr>"] exI [of _ m']) simp
qed

end
