(* ===== verification/Net_Sock.thy ===== *)
theory Net_Sock
  imports Net_Rx
begin

text \<open>
  The native socket API (\<open>components/esp_smoltcp/src/esp_smoltcp_sock.c\<close>, handles of
  \<open>esp_smoltcp_socket.h\<close>): every call finds the interface in the upper byte of the handle,
  brackets a call of the Rust core with the lock, and the blocking calls repeat until a result
  or a deadline in ticks. The context pointer read at the start of a call stays valid, since no
  C function destroys a context: it is represented by the index of its interface.

  The loops are partial functions with the result \<open>None\<close> for "does not return". While a call is
  blocked the other tasks run: \<open>vTaskDelay\<close> and the wait on the progress group, fields of the
  record \<open>rtos\<close>, may change the whole state.
\<close>

section \<open>Handles\<close>

type_synonym net_sock = u32

definition NET_SOCK_INVALID :: net_sock where "NET_SOCK_INVALID = 0"

definition net_sock_valid :: "net_sock \<Rightarrow> bool" where "net_sock_valid s \<longleftrightarrow> s \<noteq> 0"

definition sock_of :: "nat \<Rightarrow> u32 \<Rightarrow> net_sock" where
  "sock_of ifc i = push_bit 24 (of_nat ifc) OR (i AND 0x00FFFFFF)"

definition IFACE :: "net_sock \<Rightarrow> nat" where "IFACE s = unat (drop_bit 24 s AND 0xFF)"

definition LOCAL :: "net_sock \<Rightarrow> u32" where "LOCAL s = s AND 0x00FFFFFF"

definition handle_for :: "nat \<Rightarrow> ('q, 'g, 'c, 'e) net \<Rightarrow> nat option" where
  "handle_for ifc n =
     (case net_iface_get ifc n of None \<Rightarrow> None
      | Some i \<Rightarrow> if smoltcp_handle (iface i n) = None then None else Some i)"

text \<open>The prologue of the calls on an open socket: the error value without a context.\<close>

definition on_sock ::
  "net_sock \<Rightarrow> 'r \<Rightarrow> (nat \<Rightarrow> u32 \<Rightarrow> ('q, 'g, 'c, 'e) net \<Rightarrow> 'r \<times> ('q, 'g, 'c, 'e) net) \<Rightarrow> ('q, 'g, 'c, 'e) net \<Rightarrow> 'r \<times> ('q, 'g, 'c, 'e) net" where
  "on_sock s err f n = (case handle_for (IFACE s) n of None \<Rightarrow> (err, n) | Some i \<Rightarrow> f i (LOCAL s) n)"

definition tick_count :: "('q, 'g, 'e) platform \<Rightarrow> ('q, 'g, 'c, 'e) net \<Rightarrow> u32 \<times> ('q, 'g, 'c, 'e) net" where
  "tick_count P n = (let (t, e) = xTaskGetTickCount P (ext n) in (t, n\<lparr>ext := e\<rparr>))"

section \<open>TCP\<close>

definition net_open ::
  "('c iface_ctx option \<Rightarrow> u32 \<times> 'c iface_ctx option) \<Rightarrow> nat \<Rightarrow> ('q, 'g, 'c, 'e) net \<Rightarrow> net_sock \<times> ('q, 'g, 'c, 'e) net" where
  "net_open opn ifc n =
     (case handle_for ifc n of None \<Rightarrow> (NET_SOCK_INVALID, n)
      | Some i \<Rightarrow> (let (k, n1) = locked_call i opn n
                  in (if k \<noteq> 0 then sock_of ifc k else NET_SOCK_INVALID, n1)))"

definition net_tcp_open ::
  "'c smoltcp \<Rightarrow> nat \<Rightarrow> ('q, 'g, 'c, 'e) net \<Rightarrow> net_sock \<times> ('q, 'g, 'c, 'e) net" where
  "net_tcp_open S = net_open (smoltcp_tcp_open S)"

text \<open>The random local port is drawn inside the call, when the socket exists.\<close>

definition locked_connect ::
  "('q, 'g, 'e) platform \<Rightarrow> 'c smoltcp \<Rightarrow> nat \<Rightarrow> u32 \<Rightarrow> u32 \<Rightarrow> u16 \<Rightarrow> ('q, 'g, 'c, 'e) net \<Rightarrow> int \<times> ('q, 'g, 'c, 'e) net" where
  "locked_connect P S i k ip port n =
     (let found = (case smoltcp_handle (iface i n) of None \<Rightarrow> False | Some ctx \<Rightarrow> ctx_lookup k ctx \<noteq> None);
          (rand, n1) = (if found then smoltcp_glue_rand32 P n else (0, n))
      in locked_call i (\<lambda>h. smoltcp_tcp_connect S rand h k ip port 0) n1)"

partial_function (option) connect_wait ::
  "('q, 'g, 'e) platform \<Rightarrow> ('q, 'g, 'c, 'e) rtos \<Rightarrow> 'c smoltcp \<Rightarrow> nat \<Rightarrow> u32 \<Rightarrow> u32 \<Rightarrow> ('q, 'g, 'c, 'e) net
     \<Rightarrow> (esp_err \<times> ('q, 'g, 'c, 'e) net) option" where
  "connect_wait P R S i k deadline n =
     (let (now, n1) = tick_count P n
      in if \<not> now < deadline then Some (ESP_ERR_TIMEOUT, n1)
         else let (active, n2) = locked_call i (\<lambda>h. smoltcp_tcp_is_active S h k) n1
              in if active then Some (ESP_OK, n2)
                 else connect_wait P R S i k deadline (vTaskDelay R (pdMS_TO_TICKS P 20) n2))"

definition net_tcp_connect ::
  "('q, 'g, 'e) platform \<Rightarrow> ('q, 'g, 'c, 'e) rtos \<Rightarrow> 'c smoltcp \<Rightarrow> net_sock \<Rightarrow> u32 \<Rightarrow> u16 \<Rightarrow> u32 \<Rightarrow> ('q, 'g, 'c, 'e) net
     \<Rightarrow> (esp_err \<times> ('q, 'g, 'c, 'e) net) option" where
  "net_tcp_connect P R S s ip port timeout_ms n =
     (case handle_for (IFACE s) n of None \<Rightarrow> Some (ESP_ERR_INVALID_ARG, n)
      | Some i \<Rightarrow>
          let (rc, n1) = locked_connect P S i (LOCAL s) ip port n
          in if rc \<noteq> 0 then Some (ESP_FAIL, n1)
             else let (now, n2) = tick_count P n1
                  in connect_wait P R S i (LOCAL s) (now + pdMS_TO_TICKS P (uint timeout_ms)) n2)"

definition net_tcp_listen ::
  "'c smoltcp \<Rightarrow> net_sock \<Rightarrow> u16 \<Rightarrow> ('q, 'g, 'c, 'e) net \<Rightarrow> esp_err \<times> ('q, 'g, 'c, 'e) net" where
  "net_tcp_listen S s port =
     on_sock s ESP_ERR_INVALID_ARG (\<lambda>i k n.
       let (rc, n1) = locked_call i (\<lambda>h. smoltcp_tcp_listen S h k port) n
       in (if rc = 0 then ESP_OK else ESP_FAIL, n1))"

partial_function (option) send_loop ::
  "('q, 'g, 'e) platform \<Rightarrow> ('q, 'g, 'c, 'e) rtos \<Rightarrow> 'c smoltcp \<Rightarrow> nat \<Rightarrow> u32 \<Rightarrow> u8 list \<Rightarrow> u32 \<Rightarrow> nat \<Rightarrow> ('q, 'g, 'c, 'e) net
     \<Rightarrow> (nat \<times> ('q, 'g, 'c, 'e) net) option" where
  "send_loop P R S i k buf deadline tot n =
     (if \<not> tot < length buf then Some (tot, n)
      else
        let (r, n1) = locked_call i (\<lambda>h. smoltcp_tcp_send S h k (Some (drop tot buf))) n
        in if r > 0 then send_loop P R S i k buf deadline (tot + nat r) (net_stack_kick_poll n1)
           else let (now, n2) = tick_count P n1
                in if now \<ge> deadline then Some (tot, n2)
                   else send_loop P R S i k buf deadline tot
                          (net_stack_wait_progress P R 50 (net_stack_kick_poll n2)))"

text \<open>The result is \<open>(int)total\<close>, the number of bytes as a signed 32-bit integer.\<close>

definition net_tcp_send ::
  "('q, 'g, 'e) platform \<Rightarrow> ('q, 'g, 'c, 'e) rtos \<Rightarrow> 'c smoltcp \<Rightarrow> net_sock \<Rightarrow> u8 list \<Rightarrow> u32 \<Rightarrow> ('q, 'g, 'c, 'e) net
     \<Rightarrow> (int \<times> ('q, 'g, 'c, 'e) net) option" where
  "net_tcp_send P R S s buf timeout_ms n =
     (case handle_for (IFACE s) n of None \<Rightarrow> Some (-1, n)
      | Some i \<Rightarrow>
          let (now, n1) = tick_count P n
          in map_option (\<lambda>(tot, n2). (if tot \<noteq> 0 then sint (of_nat tot :: u32) else -1, n2))
               (send_loop P R S i (LOCAL s) buf (now + pdMS_TO_TICKS P (uint timeout_ms)) 0 n1))"

text \<open>The bytes received are returned beside the count; on a time-out the buffer is untouched.\<close>

partial_function (option) recv_loop ::
  "('q, 'g, 'e) platform \<Rightarrow> ('q, 'g, 'c, 'e) rtos \<Rightarrow> 'c smoltcp \<Rightarrow> nat \<Rightarrow> u32 \<Rightarrow> nat \<Rightarrow> u32 \<Rightarrow> ('q, 'g, 'c, 'e) net
     \<Rightarrow> ((int \<times> u8 list) \<times> ('q, 'g, 'c, 'e) net) option" where
  "recv_loop P R S i k cap deadline n =
     (let (now, n1) = tick_count P n
      in if \<not> now \<le> deadline then Some ((0, []), n1)
         else let (r, n2) = locked_call i (\<lambda>h. smoltcp_tcp_recv S h k (Some cap)) n1
              in if fst r > 0 then Some (r, net_stack_kick_poll n2)
                 else recv_loop P R S i k cap deadline (net_stack_wait_progress P R 50 n2))"

definition net_tcp_recv ::
  "('q, 'g, 'e) platform \<Rightarrow> ('q, 'g, 'c, 'e) rtos \<Rightarrow> 'c smoltcp \<Rightarrow> net_sock \<Rightarrow> nat \<Rightarrow> u32 \<Rightarrow> ('q, 'g, 'c, 'e) net
     \<Rightarrow> ((int \<times> u8 list) \<times> ('q, 'g, 'c, 'e) net) option" where
  "net_tcp_recv P R S s cap timeout_ms n =
     (case handle_for (IFACE s) n of None \<Rightarrow> Some ((-1, []), n)
      | Some i \<Rightarrow>
          let (now, n1) = tick_count P n
          in recv_loop P R S i (LOCAL s) cap (now + pdMS_TO_TICKS P (uint timeout_ms)) n1)"

definition net_tcp_close :: "'c smoltcp \<Rightarrow> net_sock \<Rightarrow> ('q, 'g, 'c, 'e) net \<Rightarrow> esp_err \<times> ('q, 'g, 'c, 'e) net" where
  "net_tcp_close S s =
     on_sock s ESP_ERR_INVALID_ARG (\<lambda>i k. locked_call i (\<lambda>h. (ESP_OK, smoltcp_tcp_close S h k)))"

definition net_tcp_is_active :: "'c smoltcp \<Rightarrow> net_sock \<Rightarrow> ('q, 'g, 'c, 'e) net \<Rightarrow> bool \<times> ('q, 'g, 'c, 'e) net" where
  "net_tcp_is_active S s = on_sock s False (\<lambda>i k. locked_call i (\<lambda>h. smoltcp_tcp_is_active S h k))"

definition net_tcp_is_connected :: "'c smoltcp \<Rightarrow> net_sock \<Rightarrow> ('q, 'g, 'c, 'e) net \<Rightarrow> bool \<times> ('q, 'g, 'c, 'e) net" where
  "net_tcp_is_connected S s = on_sock s False (\<lambda>i k. locked_call i (\<lambda>h. smoltcp_tcp_is_connected S h k))"

definition net_tcp_recv_queue :: "'c smoltcp \<Rightarrow> net_sock \<Rightarrow> ('q, 'g, 'c, 'e) net \<Rightarrow> nat \<times> ('q, 'g, 'c, 'e) net" where
  "net_tcp_recv_queue S s = on_sock s 0 (\<lambda>i k. locked_call i (\<lambda>h. smoltcp_tcp_recv_queue S h k))"

definition net_tcp_send_capacity :: "'c smoltcp \<Rightarrow> net_sock \<Rightarrow> ('q, 'g, 'c, 'e) net \<Rightarrow> nat \<times> ('q, 'g, 'c, 'e) net" where
  "net_tcp_send_capacity S s = on_sock s 0 (\<lambda>i k. locked_call i (\<lambda>h. smoltcp_tcp_send_capacity S h k))"

section \<open>UDP and multicast\<close>

definition net_udp_open ::
  "'c smoltcp \<Rightarrow> nat \<Rightarrow> u16 \<Rightarrow> ('q, 'g, 'c, 'e) net \<Rightarrow> net_sock \<times> ('q, 'g, 'c, 'e) net" where
  "net_udp_open S ifc local_port = net_open (\<lambda>h. smoltcp_udp_open S h local_port) ifc"

definition net_udp_sendto ::
  "'c smoltcp \<Rightarrow> net_sock \<Rightarrow> u8 list \<Rightarrow> u32 \<Rightarrow> u16 \<Rightarrow> ('q, 'g, 'c, 'e) net \<Rightarrow> int \<times> ('q, 'g, 'c, 'e) net" where
  "net_udp_sendto S s buf dst_be dst_port =
     on_sock s (-1) (\<lambda>i k n.
       let (r, n1) = locked_call i (\<lambda>h. smoltcp_udp_sendto S h k (Some buf) dst_be dst_port) n
       in (r, if r > 0 then net_stack_kick_poll n1 else n1))"

partial_function (option) recvfrom_loop ::
  "('q, 'g, 'e) platform \<Rightarrow> ('q, 'g, 'c, 'e) rtos \<Rightarrow> 'c smoltcp \<Rightarrow> nat \<Rightarrow> u32 \<Rightarrow> nat \<Rightarrow> u32 \<Rightarrow> ('q, 'g, 'c, 'e) net
     \<Rightarrow> ((int \<times> udp_datagram option) \<times> ('q, 'g, 'c, 'e) net) option" where
  "recvfrom_loop P R S i k cap deadline n =
     (let (now, n1) = tick_count P n
      in if \<not> now \<le> deadline then Some ((0, None), n1)
         else let (r, n2) = locked_call i (\<lambda>h. smoltcp_udp_recvfrom S h k (Some cap)) n1
              in if fst r > 0 then Some (r, n2)
                 else recvfrom_loop P R S i k cap deadline (net_stack_wait_progress P R 50 n2))"

definition net_udp_recvfrom ::
  "('q, 'g, 'e) platform \<Rightarrow> ('q, 'g, 'c, 'e) rtos \<Rightarrow> 'c smoltcp \<Rightarrow> net_sock \<Rightarrow> nat \<Rightarrow> u32 \<Rightarrow> ('q, 'g, 'c, 'e) net
     \<Rightarrow> ((int \<times> udp_datagram option) \<times> ('q, 'g, 'c, 'e) net) option" where
  "net_udp_recvfrom P R S s cap timeout_ms n =
     (case handle_for (IFACE s) n of None \<Rightarrow> Some ((-1, None), n)
      | Some i \<Rightarrow>
          let (now, n1) = tick_count P n
          in recvfrom_loop P R S i (LOCAL s) cap (now + pdMS_TO_TICKS P (uint timeout_ms)) n1)"

definition net_udp_close :: "'c smoltcp \<Rightarrow> net_sock \<Rightarrow> ('q, 'g, 'c, 'e) net \<Rightarrow> esp_err \<times> ('q, 'g, 'c, 'e) net" where
  "net_udp_close S s =
     on_sock s ESP_ERR_INVALID_ARG (\<lambda>i k. locked_call i (\<lambda>h. (ESP_OK, smoltcp_udp_close S h k)))"

definition net_mcast ::
  "('c iface_ctx option \<Rightarrow> int \<times> 'c iface_ctx option) \<Rightarrow> nat \<Rightarrow> ('q, 'g, 'c, 'e) net \<Rightarrow> esp_err \<times> ('q, 'g, 'c, 'e) net" where
  "net_mcast change ifc n =
     (case handle_for ifc n of None \<Rightarrow> (ESP_ERR_INVALID_ARG, n)
      | Some i \<Rightarrow> (let (rc, n1) = locked_call i change n in (if rc = 0 then ESP_OK else ESP_FAIL, n1)))"

definition net_mcast_join :: "'c smoltcp \<Rightarrow> nat \<Rightarrow> u32 \<Rightarrow> ('q, 'g, 'c, 'e) net \<Rightarrow> esp_err \<times> ('q, 'g, 'c, 'e) net" where
  "net_mcast_join S ifc g = net_mcast (\<lambda>h. smoltcp_iface_mcast_join S h g) ifc"

definition net_mcast_leave :: "'c smoltcp \<Rightarrow> nat \<Rightarrow> u32 \<Rightarrow> ('q, 'g, 'c, 'e) net \<Rightarrow> esp_err \<times> ('q, 'g, 'c, 'e) net" where
  "net_mcast_leave S ifc g = net_mcast (\<lambda>h. smoltcp_iface_mcast_leave S h g) ifc"

section \<open>The encoding of handles\<close>

lemma sock_of_IFACE:
  assumes "ifc < 256"
  shows "IFACE (sock_of ifc k) = ifc"
proof -
  have "drop_bit 24 (sock_of ifc k) AND 0xFF = (of_nat ifc :: u32)"
  proof (rule bit_word_eqI)
    fix j assume "j < LENGTH(32)"
    have m: "(0xFF :: u32) = mask 8" "(0x00FFFFFF :: u32) = mask 24" by (simp_all add: mask_eq_exp_minus_1)
    have "bit (of_nat ifc :: u32) j \<Longrightarrow> j < 8"
    proof -
      assume "bit (of_nat ifc :: u32) j"
      then have "bit ifc j" by (simp add: bit_simps)
      then have "2 ^ j \<le> ifc" by (simp add: bit_iff_odd) (metis div_less even_zero not_le_imp_less)
      show "j < 8"
      proof (rule ccontr)
        assume "\<not> j < 8"
        then have "(2::nat) ^ 8 \<le> 2 ^ j" by (intro power_increasing) simp_all
        with \<open>2 ^ j \<le> ifc\<close> assms show False by simp
      qed
    qed
    then show "bit (drop_bit 24 (sock_of ifc k) AND 0xFF) j \<longleftrightarrow> bit (of_nat ifc :: u32) j"
      using \<open>j < LENGTH(32)\<close> unfolding m sock_of_def by (auto simp: bit_simps)
  qed
  then show ?thesis using assms by (simp add: IFACE_def unat_of_nat)
qed

lemma sock_of_LOCAL: "LOCAL (sock_of ifc k) = k AND 0x00FFFFFF"
proof -
  have m: "(0x00FFFFFF :: u32) = mask 24" by (simp add: mask_eq_exp_minus_1)
  show ?thesis unfolding LOCAL_def sock_of_def m by (rule bit_eqI) (auto simp: bit_simps)
qed

lemma local_mask: "unat (k :: u32) < 2 ^ 24 \<Longrightarrow> k AND 0x00FFFFFF = k"
proof -
  assume "unat k < 2 ^ 24"
  then have "take_bit 24 k = k" by (simp add: word_unat_eq_iff unsigned_take_bit_eq take_bit_nat_eq_self)
  moreover have m: "(0x00FFFFFF :: u32) = mask 24" by (simp add: mask_eq_exp_minus_1)
  ultimately show ?thesis unfolding m by (simp add: take_bit_eq_mask)
qed

section \<open>Opening and closing\<close>

lemma handle_for_SomeD:
  "handle_for ifc n = Some i \<Longrightarrow> i = ifc \<and> ifc < NET_IFACE_MAX \<and> enabled (iface ifc n) \<and> (\<exists>ctx. smoltcp_handle (iface ifc n) = Some ctx)"
  by (auto simp: handle_for_def net_iface_get_def split: option.splits if_splits)

lemma handle_for_iff:
  "handle_for ifc n = Some ifc \<longleftrightarrow> ifc < NET_IFACE_MAX \<and> enabled (iface ifc n) \<and> smoltcp_handle (iface ifc n) \<noteq> None"
  by (auto simp: handle_for_def net_iface_get_def)

lemma tick_count_frame [simp]:
  "s_ifaces (snd (tick_count P n)) = s_ifaces n" "iface i (snd (tick_count P n)) = iface i n"
  "lock_view (snd (tick_count P n)) = lock_view n"
  by (simp_all add: tick_count_def iface_def lock_view_def Let_def case_prod_unfold)

lemma locked_call_iface:
  assumes "i < length (s_ifaces n)"
  shows "smoltcp_handle (iface i (snd (locked_call i f n))) = snd (f (smoltcp_handle (iface i n)))"
    and "fst (locked_call i f n) = fst (f (smoltcp_handle (iface i n)))"
    and "length (s_ifaces (snd (locked_call i f n))) = length (s_ifaces n)"
    and "enabled (iface i (snd (locked_call i f n))) = enabled (iface i n)"
    and "ext (snd (locked_call i f n)) = ext n"
  using assms by (simp_all add: locked_call_def Let_def case_prod_unfold)

definition sock_ctx :: "nat \<Rightarrow> ('q, 'g, 'c, 'e) net \<Rightarrow> 'c iface_ctx" where
  "sock_ctx ifc n = the (smoltcp_handle (iface ifc n))"

lemma tcp_open_ctx:
  assumes h: "handle_for ifc n = Some ifc" and len: "length (s_ifaces n) = NET_IFACE_MAX"
    and ok: "handles_ok (sock_ctx ifc n)" and opn: "net_tcp_open S ifc n = (s, n')"
  obtains sh c where "sm_add_tcp S (ctx_stack (sock_ctx ifc n)) = (sh, c)" and "s = sock_of ifc (ctx_next_id (sock_ctx ifc n))"
    and "smoltcp_handle (iface ifc n') = Some (snd (alloc_id sh ((sock_ctx ifc n)\<lparr>ctx_stack := c\<rparr>)))"
    and "handle_for ifc n' = Some ifc" and "ifc < length (s_ifaces n')" and "ifc < 256"
proof -
  note H = handle_for_SomeD [OF h]
  have ctx: "smoltcp_handle (iface ifc n) = Some (sock_ctx ifc n)" using H by (auto simp: sock_ctx_def)
  have i: "ifc < length (s_ifaces n)" using H len by simp
  obtain sh c where add: "sm_add_tcp S (ctx_stack (sock_ctx ifc n)) = (sh, c)" by force
  let ?ctx' = "snd (alloc_id sh ((sock_ctx ifc n)\<lparr>ctx_stack := c\<rparr>))"
  have core: "smoltcp_tcp_open S (Some (sock_ctx ifc n)) = (ctx_next_id (sock_ctx ifc n), Some ?ctx')"
    by (simp add: smoltcp_tcp_open_def add alloc_id_def)
  note L = locked_call_iface [OF i, of "smoltcp_tcp_open S"]
  have s: "s = sock_of ifc (ctx_next_id (sock_ctx ifc n))" and n': "n' = snd (locked_call ifc (smoltcp_tcp_open S) n)"
    using opn h L(2) ctx core ok by (auto simp: net_tcp_open_def net_open_def case_prod_unfold Let_def handles_ok_def)
  have ctx': "smoltcp_handle (iface ifc n') = Some ?ctx'" using L(1) n' ctx core by simp
  moreover have "handle_for ifc n' = Some ifc" using H L(3,4) n' ctx' by (simp add: handle_for_iff)
  ultimately show ?thesis using that [OF add] s L(3) n' i H by (simp add: NET_IFACE_MAX_def)
qed

lemma tcp_close_ctx:
  assumes h: "handle_for (IFACE s) n = Some (IFACE s)" and i: "IFACE s < length (s_ifaces n)"
    and ctx: "smoltcp_handle (iface (IFACE s) n) = Some ctx"
  shows "\<exists>n' ctx'. net_tcp_close S s n = (ESP_OK, n') \<and> smoltcp_handle (iface (IFACE s) n') = Some ctx'
    \<and> smoltcp_tcp_close S (Some ctx) (LOCAL s) = Some ctx'
    \<and> (\<forall>k. ctx_lookup k ctx' = (if k = LOCAL s then None else ctx_lookup k ctx))"
proof -
  obtain ctx' where close: "smoltcp_tcp_close S (Some ctx) (LOCAL s) = Some ctx'"
    by (cases "ctx_lookup (LOCAL s) ctx") (auto simp: smoltcp_tcp_close_def socket_close_def)
  note L = locked_call_iface [OF i, of "\<lambda>h. (ESP_OK, smoltcp_tcp_close S h (LOCAL s))"]
  let ?n' = "snd (locked_call (IFACE s) (\<lambda>h. (ESP_OK, smoltcp_tcp_close S h (LOCAL s))) n)"
  have "net_tcp_close S s n = (ESP_OK, ?n')"
    using h L(2) by (simp add: net_tcp_close_def on_sock_def prod_eq_iff)
  moreover have "smoltcp_handle (iface (IFACE s) ?n') = Some ctx'" using L(1) ctx close by simp
  ultimately show ?thesis
    using close socket_close_lookup [OF close [unfolded smoltcp_tcp_close_def]] by blast
qed

text \<open>Closing takes the socket out of the set, and no other.\<close>

context smoltcp_sockets
begin

lemma tcp_close_kinds:
  assumes "smoltcp_tcp_close S (Some ctx) k = Some ctx'" and "ctx_lookup k ctx = Some sh" and "sm_kind S sh (ctx_stack ctx) = Some Tcp"
  shows "sm_kind S j (ctx_stack ctx') = (if j = sh then None else sm_kind S j (ctx_stack ctx))"
  using assms by (auto simp: smoltcp_tcp_close_def socket_close_def remove tcp)

end

text \<open>C20: Handles of the native API. As long as the core has handed out fewer than \<open>2^24\<close> ids,
  \<open>net_tcp_open\<close> on an attached interface returns a valid handle, different from every handle in
  use; its upper byte names the interface and its lower 24 bits the core's id, which now stands
  for a new TCP socket of smoltcp's socket set, while every other id and every other socket is
  what it was. \<open>net_tcp_close\<close> on the handle removes exactly this id from the table and exactly this
  socket from the set again.\<close>

theorem tcp_open_close:
  assumes S: "smoltcp_sockets S" and h: "handle_for ifc n = Some ifc" and len: "length (s_ifaces n) = NET_IFACE_MAX"
    and ok: "handles_ok (sock_ctx ifc n)" and few: "unat (ctx_next_id (sock_ctx ifc n)) < 2 ^ 24"
    and opn: "net_tcp_open S ifc n = (s, n')"
  shows "net_sock_valid s \<and> IFACE s = ifc \<and> ctx_lookup (LOCAL s) (sock_ctx ifc n) = None \<and> handles_ok (sock_ctx ifc n')
    \<and> (\<forall>k. k \<noteq> LOCAL s \<longrightarrow> ctx_lookup k (sock_ctx ifc n') = ctx_lookup k (sock_ctx ifc n))
    \<and> (\<exists>sh. ctx_lookup (LOCAL s) (sock_ctx ifc n') = Some sh \<and> sm_kind S sh (ctx_stack (sock_ctx ifc n)) = None
         \<and> (\<forall>j. sm_kind S j (ctx_stack (sock_ctx ifc n')) = (if j = sh then Some Tcp else sm_kind S j (ctx_stack (sock_ctx ifc n)))))
    \<and> (\<exists>n''. net_tcp_close S s n' = (ESP_OK, n'')
         \<and> (\<forall>k. ctx_lookup k (sock_ctx ifc n'') = ctx_lookup k (sock_ctx ifc n))
         \<and> (\<forall>j. sm_kind S j (ctx_stack (sock_ctx ifc n'')) = sm_kind S j (ctx_stack (sock_ctx ifc n))))"
proof -
  let ?ctx = "sock_ctx ifc n" and ?k = "ctx_next_id (sock_ctx ifc n)"
  obtain sh c where add: "sm_add_tcp S (ctx_stack ?ctx) = (sh, c)" and s: "s = sock_of ifc ?k"
    and ctx': "smoltcp_handle (iface ifc n') = Some (snd (alloc_id sh (?ctx\<lparr>ctx_stack := c\<rparr>)))"
    and h': "handle_for ifc n' = Some ifc" "ifc < length (s_ifaces n')" and ifc: "ifc < 256"
    using tcp_open_ctx [OF h len ok opn] .
  note K = smoltcp_sockets.add_tcp [OF S add]
  let ?ctx' = "snd (alloc_id sh (?ctx\<lparr>ctx_stack := c\<rparr>))"
  have c': "sock_ctx ifc n' = ?ctx'" and st: "ctx_stack ?ctx' = c" using ctx' by (simp_all add: sock_ctx_def alloc_id_def)
  have I: "IFACE s = ifc" and L: "LOCAL s = ?k"
    using sock_of_IFACE [OF ifc] sock_of_LOCAL local_mask [OF few] s by simp_all
  have "?k \<noteq> 0" using ok by (auto simp: handles_ok_def)
  then have v: "net_sock_valid s" using L by (auto simp: net_sock_valid_def LOCAL_def)
  have free: "ctx_lookup ?k ?ctx = None"
    using handles_ok_dom [OF ok, of ?k] by (cases "ctx_lookup ?k ?ctx") auto
  have lk: "ctx_lookup j ?ctx' = (if j = ?k then Some sh else ctx_lookup j ?ctx)" for j
    by (subst ctx_lookup_alloc_id) (simp add: ctx_lookup_def)
  have "handles_ok (?ctx\<lparr>ctx_stack := c\<rparr>)" using ok by (simp add: handles_ok_def)
  then have ok': "handles_ok ?ctx'" using few by (intro alloc_id_handles_ok) simp_all
  obtain n'' ctx2 where "net_tcp_close S s n' = (ESP_OK, n'')" and c2: "smoltcp_handle (iface ifc n'') = Some ctx2"
    and "smoltcp_tcp_close S (Some ?ctx') ?k = Some ctx2" and "\<forall>j. ctx_lookup j ctx2 = (if j = ?k then None else ctx_lookup j ?ctx')"
    using tcp_close_ctx [of s n' ?ctx' S] I L h' ctx' by auto
  moreover from this(3) have "sm_kind S j (ctx_stack ctx2) = sm_kind S j (ctx_stack ?ctx)" for j
    using smoltcp_sockets.tcp_close_kinds [OF S, of ?ctx' ?k ctx2 sh j] lk [of ?k] K st by auto
  moreover have "sock_ctx ifc n'' = ctx2" using c2 by (simp add: sock_ctx_def)
  ultimately show ?thesis using v I L free lk ok' c' st K by auto
qed

definition ref_net0 :: "(ring, u32, ref_stack, ref_ext) net" where
  "ref_net0 = upd_iface NET_IFACE_ETH (\<lambda>f. f\<lparr>enabled := True, smoltcp_handle := Some (ctx_new ref_smoltcp 0 [2, 0, 0, 0, 0, 1] 0)\<rparr>)
     ((net_boot 2 ref_ext0)\<lparr>lock_created := True\<rparr>)"

lemma ref_net0:
  "iface NET_IFACE_ETH ref_net0 = iface_boot\<lparr>enabled := True, smoltcp_handle := Some (ctx_new ref_smoltcp 0 [2, 0, 0, 0, 0, 1] 0)\<rparr>"
  "length (s_ifaces ref_net0) = NET_IFACE_MAX" "lock_ready ref_net0"
  by (simp_all add: ref_net0_def net_boot_def iface_def upd_iface_def lock_ready_def lock_ok_def)

lemma ref_net0_handle: "handle_for NET_IFACE_ETH ref_net0 = Some NET_IFACE_ETH"
  by (simp add: handle_for_iff ref_net0)

theorem tcp_open_close_witness:
  "\<exists>s n'. net_tcp_open ref_smoltcp NET_IFACE_ETH ref_net0 = (s, n') \<and> net_sock_valid s \<and> IFACE s = NET_IFACE_ETH
     \<and> ctx_lookup (LOCAL s) (sock_ctx NET_IFACE_ETH n') \<noteq> None"
proof -
  have ctx: "sock_ctx NET_IFACE_ETH ref_net0 = ctx_new ref_smoltcp 0 [2, 0, 0, 0, 0, 1] 0"
    by (simp add: sock_ctx_def ref_net0)
  obtain s n' where opn: "net_tcp_open ref_smoltcp NET_IFACE_ETH ref_net0 = (s, n')" by force
  have "handles_ok (sock_ctx NET_IFACE_ETH ref_net0)" "unat (ctx_next_id (sock_ctx NET_IFACE_ETH ref_net0)) < 2 ^ 24"
    unfolding ctx by (simp_all add: ctx_new_def Let_def handles_ok_def)
  from tcp_open_close [OF ref_socks.smoltcp_sockets_axioms ref_net0_handle ref_net0(2) this opn] opn show ?thesis by blast
qed

text \<open>C40: The 24 bits are not checked. When the core's id counter reaches \<open>2^24\<close> on the Ethernet
  interface, \<open>net_tcp_open\<close> reports failure although the core has added the socket: the caller
  has no handle with which to close it.\<close>

theorem tcp_open_leaks:
  assumes h: "handle_for NET_IFACE_ETH n = Some NET_IFACE_ETH" and len: "length (s_ifaces n) = NET_IFACE_MAX"
    and ok: "handles_ok (sock_ctx NET_IFACE_ETH n)" and max: "ctx_next_id (sock_ctx NET_IFACE_ETH n) = 0x1000000"
    and opn: "net_tcp_open S NET_IFACE_ETH n = (s, n')"
  shows "\<not> net_sock_valid s \<and> length (ctx_handles (sock_ctx NET_IFACE_ETH n')) = Suc (length (ctx_handles (sock_ctx NET_IFACE_ETH n)))"
proof -
  obtain sh c where "sm_add_tcp S (ctx_stack (sock_ctx NET_IFACE_ETH n)) = (sh, c)" and s: "s = sock_of NET_IFACE_ETH (ctx_next_id (sock_ctx NET_IFACE_ETH n))"
    and c': "smoltcp_handle (iface NET_IFACE_ETH n') = Some (snd (alloc_id sh ((sock_ctx NET_IFACE_ETH n)\<lparr>ctx_stack := c\<rparr>)))"
    using tcp_open_ctx [OF h len ok opn] .
  have "s = 0" unfolding s max by (simp add: sock_of_def NET_IFACE_ETH_def)
  moreover have "handles_ok ((sock_ctx NET_IFACE_ETH n)\<lparr>ctx_stack := c\<rparr>)" using ok by (simp add: handles_ok_def)
  ultimately show ?thesis
    using alloc_id_count c' by (fastforce simp: net_sock_valid_def sock_ctx_def)
qed

theorem tcp_open_leaks_witness:
  "\<exists>s n'. net_tcp_open ref_smoltcp NET_IFACE_ETH
       (set_handle NET_IFACE_ETH (Some ((ctx_new ref_smoltcp 0 [2, 0, 0, 0, 0, 1] 0)\<lparr>ctx_next_id := 0x1000000\<rparr>)) ref_net0) = (s, n')
     \<and> \<not> net_sock_valid s"
proof -
  let ?c = "(ctx_new ref_smoltcp 0 [2, 0, 0, 0, 0, 1] 0)\<lparr>ctx_next_id := 0x1000000\<rparr>"
  let ?n = "set_handle NET_IFACE_ETH (Some ?c) ref_net0"
  have i: "iface NET_IFACE_ETH ?n = (iface NET_IFACE_ETH ref_net0)\<lparr>smoltcp_handle := Some ?c\<rparr>"
    by (simp add: ref_net0(2))
  obtain s n' where opn: "net_tcp_open ref_smoltcp NET_IFACE_ETH ?n = (s, n')" by force
  have ctx: "sock_ctx NET_IFACE_ETH ?n = ?c" unfolding sock_ctx_def i by simp
  have "handle_for NET_IFACE_ETH ?n = Some NET_IFACE_ETH" unfolding handle_for_iff i by (simp add: ref_net0)
  moreover have "handles_ok (sock_ctx NET_IFACE_ETH ?n)" unfolding ctx by (simp add: ctx_new_def Let_def handles_ok_def)
  moreover have "ctx_next_id (sock_ctx NET_IFACE_ETH ?n) = 0x1000000" unfolding ctx by simp
  ultimately have "\<not> net_sock_valid s" using tcp_open_leaks [OF _ _ _ _ opn] ref_net0(2) by simp
  with opn show ?thesis by blast
qed

section \<open>Deadlines\<close>

text \<open>
  What the loops rely on to come to an end: the tick counter is the time since boot in units of
  \<open>k\<close> steps of some finer clock, as a 32-bit integer; a delay or a wait of \<open>d\<close> ticks takes some time,
  at most \<open>d\<close> ticks and the latency \<open>L\<close> with which a task that is ready gets to run again. The time a
  call computes is not counted. The longest pause between two looks at the clock is that of a wait of 50
  ms, or one tick before the event group exists.
\<close>

definition longest_wait :: "('q, 'g, 'e) platform \<Rightarrow> nat \<Rightarrow> nat \<Rightarrow> nat" where
  "longest_wait P k L = max 1 (max (unat (pdMS_TO_TICKS P 20)) (unat (pdMS_TO_TICKS P 50))) * k + L"

locale rtos_clock =
  fixes P :: "('q, 'g, 'e) platform" and R :: "('q, 'g, 'c, 'e) rtos"
    and clock :: "'e \<Rightarrow> nat" and k :: nat and L :: nat
  assumes unit: "0 < k"
    and tick: "xTaskGetTickCount P e = (of_nat (clock e div k), e)"
    and random_time: "clock (snd (esp_random P e)) = clock e"
    and delay_time: "clock (ext n) < clock (ext (vTaskDelay R d n))" "clock (ext (vTaskDelay R d n)) \<le> clock (ext n) + unat d * k + L"
    and wait_time: "clock (ext n) < clock (ext (snd (wait_bits_progress R b d n)))"
      "clock (ext (snd (wait_bits_progress R b d n))) \<le> clock (ext n) + unat d * k + L"
begin

abbreviation B :: nat where "B \<equiv> longest_wait P k L"

lemma longest_wait_le: "d \<le> 1 \<or> d \<le> unat (pdMS_TO_TICKS P 20) \<or> d \<le> unat (pdMS_TO_TICKS P 50) \<Longrightarrow> t + d * k + L \<le> t + B"
  unfolding longest_wait_def by (metis (no_types, lifting) add.assoc add_le_mono le_max_iff_disj mult_le_mono1 nat_le_linear order_refl)

text \<open>A deadline that neither wraps around nor can be jumped over to the wrap-around.\<close>

definition in_time :: "u32 \<Rightarrow> ('q, 'g, 'c, 'e) net \<Rightarrow> bool" where
  "in_time D n \<longleftrightarrow> clock (ext n) \<le> (unat D + 1) * k + B \<and> (unat D + 1) * k + B < 2 ^ 32 * k"

definition time_left :: "u32 \<Rightarrow> ('q, 'g, 'c, 'e) net \<Rightarrow> nat" where
  "time_left D n = (unat D + 1) * k + B - clock (ext n)"

lemma tick_count_same [simp]: "tick_count P n = (of_nat (clock (ext n) div k), n)"
  by (simp add: tick_count_def tick)

lemma tick_exact:
  assumes "in_time D n"
  shows "unat (of_nat (clock (ext n) div k) :: u32) = clock (ext n) div k"
proof -
  have "clock (ext n) < 2 ^ 32 * k" using assms by (simp add: in_time_def)
  then have "clock (ext n) div k < 2 ^ 32" using unit by (simp add: less_mult_imp_div_less)
  then show ?thesis by (simp add: unat_of_nat)
qed

lemma not_late:
  assumes "in_time D n" and "(of_nat (clock (ext n) div k) :: u32) \<le> D"
  shows "clock (ext n) < (unat D + 1) * k"
proof -
  have "clock (ext n) div k < unat D + 1" using assms(2) tick_exact [OF assms(1)] by (simp add: word_le_nat_alt)
  then show ?thesis using unit by (simp add: div_less_iff_less_mult)
qed

lemma wait_progress_time:
  "clock (ext n) < clock (ext (net_stack_wait_progress P R 50 n))"
  "clock (ext (net_stack_wait_progress P R 50 n)) \<le> clock (ext n) + B"
  using delay_time [where n = n and d = 1] wait_time [where n = n and b = PROGRESS_BIT and d = "pdMS_TO_TICKS P 50"] longest_wait_le [of 1 "clock (ext n)"]
    longest_wait_le [of "unat (pdMS_TO_TICKS P 50)" "clock (ext n)"]
  by (simp_all add: net_stack_wait_progress_def)

lemma connect_delay_time:
  "clock (ext n) < clock (ext (vTaskDelay R (pdMS_TO_TICKS P 20) n))"
  "clock (ext (vTaskDelay R (pdMS_TO_TICKS P 20) n)) \<le> clock (ext n) + B"
  using delay_time [where n = n and d = "pdMS_TO_TICKS P 20"] longest_wait_le [of "unat (pdMS_TO_TICKS P 20)" "clock (ext n)"] by simp_all

lemma advance:
  assumes "in_time D n" and "clock (ext n) < (unat D + 1) * k"
    and "clock (ext n) < clock (ext n')" and "clock (ext n') \<le> clock (ext n) + B"
  shows "in_time D n'" and "time_left D n' < time_left D n"
  using assms by (auto simp: in_time_def time_left_def)

lemma locked_call_ext [simp]: "ext (snd (locked_call i f n)) = ext n"
  by (simp add: locked_call_def Let_def case_prod_unfold set_handle_def)

lemma kick_ext [simp]: "ext (net_stack_kick_poll n) = ext n"
  by (simp add: net_stack_kick_poll_def)

lemma in_time_ext: "ext n' = ext n \<Longrightarrow> in_time D n' = in_time D n"
  and time_left_ext: "ext n' = ext n \<Longrightarrow> time_left D n' = time_left D n"
  by (simp_all add: in_time_def time_left_def)

text \<open>What a blocking loop with deadline \<open>D\<close> achieves: it returns, and not later than one pause after
  the deadline.\<close>

definition ends_in_time :: "u32 \<Rightarrow> ('q, 'g, 'c, 'e) net \<Rightarrow> ('r \<times> ('q, 'g, 'c, 'e) net) option \<Rightarrow> bool" where
  "ends_in_time D n res \<longleftrightarrow> (\<exists>r n'. res = Some (r, n') \<and> in_time D n' \<and> clock (ext n) \<le> clock (ext n'))"

lemma ends_now: "in_time D n \<Longrightarrow> ext n' = ext n \<Longrightarrow> ends_in_time D n (Some (r, n'))"
  using in_time_ext [of n' n D] by (auto simp: ends_in_time_def)

lemma ends_later: "ends_in_time D n' res \<Longrightarrow> clock (ext n) \<le> clock (ext n') \<Longrightarrow> ends_in_time D n res"
  unfolding ends_in_time_def by (metis order_trans)

lemma connect_wait_time: "in_time D n \<Longrightarrow> ends_in_time D n (connect_wait P R S i j D n)"
proof (induction "time_left D n" arbitrary: n rule: less_induct)
  case less
  let ?c = "locked_call i (\<lambda>h. smoltcp_tcp_is_active S h j) n"
  let ?n3 = "vTaskDelay R (pdMS_TO_TICKS P 20) (snd ?c)"
  show ?case
  proof (cases "(of_nat (clock (ext n) div k) :: u32) < D \<and> \<not> fst ?c")
    case True
    then have "clock (ext n) < (unat D + 1) * k" using not_late [OF less.prems] less_imp_le by blast
    note A = advance [OF less.prems this, of ?n3] and W = connect_delay_time [where n = "snd ?c"]
    have "ends_in_time D ?n3 (connect_wait P R S i j D ?n3)" using A W by (intro less.hyps) simp_all
    then have "ends_in_time D n (connect_wait P R S i j D ?n3)" by (rule ends_later) (use W(1) in simp)
    with True show ?thesis by (subst connect_wait.simps) (simp add: Let_def case_prod_unfold)
  next
    case False
    then show ?thesis by (subst connect_wait.simps) (auto simp: Let_def case_prod_unfold intro: ends_now [OF less.prems])
  qed
qed

lemma recv_loop_time: "in_time D n \<Longrightarrow> ends_in_time D n (recv_loop P R S i j cap D n)"
proof (induction "time_left D n" arbitrary: n rule: less_induct)
  case less
  let ?c = "locked_call i (\<lambda>h. smoltcp_tcp_recv S h j (Some cap)) n"
  let ?n3 = "net_stack_wait_progress P R 50 (snd ?c)"
  show ?case
  proof (cases "(of_nat (clock (ext n) div k) :: u32) \<le> D \<and> \<not> fst (fst ?c) > 0")
    case True
    note A = advance [OF less.prems not_late [OF less.prems], of ?n3] and W = wait_progress_time [where n = "snd ?c"]
    have "ends_in_time D ?n3 (recv_loop P R S i j cap D ?n3)" using True A W by (intro less.hyps) simp_all
    then have "ends_in_time D n (recv_loop P R S i j cap D ?n3)" by (rule ends_later) (use W(1) in simp)
    with True show ?thesis by (subst recv_loop.simps) (simp add: Let_def case_prod_unfold)
  next
    case False
    then show ?thesis by (subst recv_loop.simps) (auto simp: Let_def case_prod_unfold intro: ends_now [OF less.prems])
  qed
qed

lemma recvfrom_loop_time: "in_time D n \<Longrightarrow> ends_in_time D n (recvfrom_loop P R S i j cap D n)"
proof (induction "time_left D n" arbitrary: n rule: less_induct)
  case less
  let ?c = "locked_call i (\<lambda>h. smoltcp_udp_recvfrom S h j (Some cap)) n"
  let ?n3 = "net_stack_wait_progress P R 50 (snd ?c)"
  show ?case
  proof (cases "(of_nat (clock (ext n) div k) :: u32) \<le> D \<and> \<not> fst (fst ?c) > 0")
    case True
    note A = advance [OF less.prems not_late [OF less.prems], of ?n3] and W = wait_progress_time [where n = "snd ?c"]
    have "ends_in_time D ?n3 (recvfrom_loop P R S i j cap D ?n3)" using True A W by (intro less.hyps) simp_all
    then have "ends_in_time D n (recvfrom_loop P R S i j cap D ?n3)" by (rule ends_later) (use W(1) in simp)
    with True show ?thesis by (subst recvfrom_loop.simps) (simp add: Let_def case_prod_unfold)
  next
    case False
    then show ?thesis
      by (subst recvfrom_loop.simps) (auto simp: Let_def case_prod_unfold intro: ends_now [OF less.prems] ends_now [OF less.prems, where r = "fst ?c" and n' = "snd ?c", simplified])
  qed
qed

text \<open>The send loop makes progress either in the buffer or in time.\<close>

lemma send_loop_time: "in_time D n \<Longrightarrow> ends_in_time D n (send_loop P R S i j buf D tot n)"
proof (induction "(length buf - tot) + time_left D n" arbitrary: n tot rule: less_induct)
  case less
  let ?f = "\<lambda>h. smoltcp_tcp_send S h j (Some (drop tot buf))"
  let ?r = "fst (locked_call i ?f n)" and ?n1 = "snd (locked_call i ?f n)"
  let ?n3 = "net_stack_wait_progress P R 50 (net_stack_kick_poll ?n1)"
  consider (finished) "\<not> tot < length buf" | (more) "tot < length buf" "?r > 0"
    | (late) "tot < length buf" "\<not> ?r > 0" "(of_nat (clock (ext n) div k) :: u32) \<ge> D"
    | (wait) "tot < length buf" "\<not> ?r > 0" "(of_nat (clock (ext n) div k) :: u32) < D"
    by (meson not_le_imp_less)
  then show ?case
  proof cases
    case finished
    then show ?thesis by (subst send_loop.simps) (simp add: ends_now [OF less.prems])
  next
    case more
    have e: "ext (net_stack_kick_poll ?n1) = ext n" by simp
    have "ends_in_time D (net_stack_kick_poll ?n1) (send_loop P R S i j buf D (tot + nat ?r) (net_stack_kick_poll ?n1))"
      using more less.prems in_time_ext [OF e, of D] time_left_ext [OF e, of D] by (intro less.hyps) auto
    then have "ends_in_time D n (send_loop P R S i j buf D (tot + nat ?r) (net_stack_kick_poll ?n1))" by (rule ends_later) (simp add: e)
    with more show ?thesis by (subst send_loop.simps) (simp add: Let_def case_prod_unfold)
  next
    case late
    then show ?thesis by (subst send_loop.simps) (simp add: Let_def case_prod_unfold ends_now [OF less.prems])
  next
    case wait
    then have "clock (ext n) < (unat D + 1) * k" using not_late [OF less.prems] by simp
    note A = advance [OF less.prems this, of ?n3] and W = wait_progress_time [where n = "net_stack_kick_poll ?n1"]
    have "ends_in_time D ?n3 (send_loop P R S i j buf D tot ?n3)" using A W by (intro less.hyps) simp_all
    then have "ends_in_time D n (send_loop P R S i j buf D tot ?n3)" by (rule ends_later) (use W(1) in simp)
    with wait show ?thesis by (subst send_loop.simps) (simp add: Let_def case_prod_unfold not_le [symmetric])
  qed
qed

lemma deadline_in_time:
  assumes "(clock (ext n) div k + unat d + 1) * k + B < 2 ^ 32 * k"
  shows "in_time (of_nat (clock (ext n) div k) + d) n"
proof -
  have "(clock (ext n) div k + unat d + 1) * k < 2 ^ 32 * k" using assms by linarith
  then have lt: "clock (ext n) div k + unat d + 1 < 2 ^ 32" using unit by simp
  then have u: "unat (of_nat (clock (ext n) div k) + d :: u32) = clock (ext n) div k + unat d"
    by (subst unat_add_lem [THEN iffD1]) (simp_all add: unat_of_nat)
  have "clock (ext n) < (clock (ext n) div k + 1) * k"
    using unit by (metis add.commute div_less_iff_less_mult less_add_one)
  moreover have "(clock (ext n) div k + 1) * k \<le> (clock (ext n) div k + unat d + 1) * k" by simp
  ultimately show ?thesis using assms unfolding in_time_def u by (intro conjI) linarith+
qed

lemma locked_connect_time: "clock (ext (snd (locked_connect P S i j ip port n))) = clock (ext n)"
  by (simp add: locked_connect_def smoltcp_glue_rand32_def Let_def case_prod_unfold random_time)

text \<open>A call that starts at \<open>n\<close> with a time-out of \<open>d\<close> ticks returns, and not later than one tick and one
  pause after the time-out.\<close>

definition returns_by :: "nat \<Rightarrow> ('q, 'g, 'c, 'e) net \<Rightarrow> ('r \<times> ('q, 'g, 'c, 'e) net) option \<Rightarrow> bool" where
  "returns_by t n res \<longleftrightarrow> (\<exists>r n'. res = Some (r, n') \<and> clock (ext n) \<le> clock (ext n') \<and> clock (ext n') \<le> clock (ext n) + t)"

lemma ends_returns_by:
  assumes ends: "ends_in_time (of_nat (clock (ext n) div k) + d) n res"
    and room: "(clock (ext n) div k + unat d + 1) * k + B < 2 ^ 32 * k"
  shows "returns_by ((unat d + 1) * k + B) n res"
proof -
  have "(clock (ext n) div k + unat d + 1) * k < 2 ^ 32 * k" using room by linarith
  then have u: "unat (of_nat (clock (ext n) div k) + d :: u32) = clock (ext n) div k + unat d"
    using unit by (subst unat_add_lem [THEN iffD1]) (simp_all add: unat_of_nat)
  have "(clock (ext n) div k + unat d + 1) * k \<le> clock (ext n) + (unat d + 1) * k"
    by (simp add: algebra_simps)
  with ends show ?thesis unfolding ends_in_time_def returns_by_def in_time_def u by fastforce
qed

lemma calls_return:
  assumes "(clock (ext n) div k + unat (pdMS_TO_TICKS P (uint timeout_ms)) + 1) * k + B < 2 ^ 32 * k"
  defines "t \<equiv> (unat (pdMS_TO_TICKS P (uint timeout_ms)) + 1) * k + B"
  shows "returns_by t n (net_tcp_connect P R S s ip port timeout_ms n)"
    and "returns_by t n (net_tcp_send P R S s buf timeout_ms n)"
    and "returns_by t n (net_tcp_recv P R S s cap timeout_ms n)"
    and "returns_by t n (net_udp_recvfrom P R S s cap timeout_ms n)"
proof -
  let ?d = "pdMS_TO_TICKS P (uint timeout_ms)"
  note D = deadline_in_time [OF assms(1)]
  have now: "returns_by t n (Some (r, n'))" if "clock (ext n') = clock (ext n)" for r :: 'r and n' using that by (simp add: returns_by_def)
  have later: "returns_by t n res" if "ends_in_time (of_nat (clock (ext n) div k) + ?d) n res" for res :: "('r \<times> ('q, 'g, 'c, 'e) net) option"
    using ends_returns_by [OF that assms(1)] by (simp add: t_def)
  show "returns_by t n (net_tcp_send P R S s buf timeout_ms n)"
  proof (cases "handle_for (IFACE s) n")
    case (Some i)
    have "returns_by t n (map_option (\<lambda>(tot, n2). (if tot \<noteq> 0 then sint (of_nat tot :: u32) else -1, n2)) res)" if "returns_by t n res" for res
    proof -
      from that obtain r n' where "res = Some (r, n')" "clock (ext n) \<le> clock (ext n')" "clock (ext n') \<le> clock (ext n) + t"
        unfolding returns_by_def by blast
      then show ?thesis unfolding returns_by_def
        by (intro exI [of _ "if r \<noteq> 0 then sint (of_nat r :: u32) else -1"] exI [of _ n']) simp
    qed
    from this [OF ends_returns_by [OF send_loop_time [OF D] assms(1), folded t_def]] Some show ?thesis by (simp add: net_tcp_send_def Let_def)
  qed (simp add: net_tcp_send_def returns_by_def)
  show "returns_by t n (net_tcp_recv P R S s cap timeout_ms n)"
    using ends_returns_by [OF recv_loop_time [OF D] assms(1), folded t_def] by (simp add: net_tcp_recv_def Let_def returns_by_def split: option.split)
  show "returns_by t n (net_udp_recvfrom P R S s cap timeout_ms n)"
    using ends_returns_by [OF recvfrom_loop_time [OF D] assms(1), folded t_def] by (simp add: net_udp_recvfrom_def Let_def returns_by_def split: option.split)
  show "returns_by t n (net_tcp_connect P R S s ip port timeout_ms n)"
  proof (cases "handle_for (IFACE s) n")
    case None
    then show ?thesis by (simp add: net_tcp_connect_def returns_by_def)
  next
    case (Some i)
    let ?n1 = "snd (locked_connect P S i (LOCAL s) ip port n)"
    note e = locked_connect_time [of S i "LOCAL s" ip port n]
    have room: "(clock (ext ?n1) div k + unat ?d + 1) * k + B < 2 ^ 32 * k" by (simp only: e assms(1))
    have "returns_by t ?n1 (connect_wait P R S i (LOCAL s) (of_nat (clock (ext ?n1) div k) + ?d) ?n1)"
      using ends_returns_by [OF connect_wait_time [OF deadline_in_time [OF room]] room] by (simp add: t_def)
    with Some e show ?thesis by (auto simp: net_tcp_connect_def Let_def case_prod_unfold returns_by_def)
  qed
qed

end

section \<open>Properties of the blocking calls\<close>

definition ref_rtos :: "(ring, u32, ref_stack, ref_ext) rtos" where
  "ref_rtos = \<lparr>vTaskDelay = (\<lambda>d n. n\<lparr>ext := (ext n)\<lparr>re_ticks := re_ticks (ext n) + 1\<rparr>\<rparr>),
     wait_bits_progress = (\<lambda>b d n. (b, n\<lparr>ext := (ext n)\<lparr>re_ticks := re_ticks (ext n) + 1\<rparr>\<rparr>)),
     wait_bits_evt = (\<lambda>b d n. (b, n))\<rparr>"

interpretation ref_clock: rtos_clock ref_platform ref_rtos re_ticks 1 1
  by unfold_locales (simp_all add: ref_platform_def ref_rtos_def)

text \<open>C17: Every blocking call of the native API returns by its deadline. With a tick counter that follows
  the time, delays and waits that take the time asked for and at most a latency more, and a deadline
  before the tick counter wraps around, \<open>net_tcp_connect\<close>, \<open>net_tcp_send\<close>, \<open>net_tcp_recv\<close> and
  \<open>net_udp_recvfrom\<close> return no later than their time-out, one tick and one pause (50 ms, or one tick
  if that is longer, and the latency) after they were called, whatever smoltcp answers and whatever
  the other tasks do while they wait.\<close>

theorem blocking_calls_return:
  assumes "rtos_clock P R clock k L"
    and "(clock (ext n) div k + unat (pdMS_TO_TICKS P (uint timeout_ms)) + 1) * k + longest_wait P k L < 2 ^ 32 * k"
    and "t = clock (ext n) + (unat (pdMS_TO_TICKS P (uint timeout_ms)) + 1) * k + longest_wait P k L"
  shows "(\<exists>r n'. net_tcp_connect P R S s ip port timeout_ms n = Some (r, n') \<and> clock (ext n') \<le> t) \<and>
    (\<exists>r n'. net_tcp_send P R S s buf timeout_ms n = Some (r, n') \<and> clock (ext n') \<le> t) \<and>
    (\<exists>r n'. net_tcp_recv P R S s cap timeout_ms n = Some (r, n') \<and> clock (ext n') \<le> t) \<and>
    (\<exists>r n'. net_udp_recvfrom P R S s cap timeout_ms n = Some (r, n') \<and> clock (ext n') \<le> t)"
  using rtos_clock.calls_return [OF assms(1,2), of S s] unfolding rtos_clock.returns_by_def [OF assms(1)] assms(3) add.assoc by blast

theorem blocking_calls_return_witness:
  "\<exists>r n'. net_tcp_send ref_platform ref_rtos ref_smoltcp 1 [1, 2, 3] 5000 ref_net0 = Some (r, n') \<and> re_ticks (ext n') \<le> 5052"
proof -
  have e: "ext ref_net0 = ref_ext0" by (simp add: ref_net0_def net_boot_def)
  have w: "longest_wait ref_platform 1 1 = 51" "longest_wait ref_platform (Suc 0) (Suc 0) = 51"
    by (simp_all add: longest_wait_def ref_platform_def)
  have d: "unat (pdMS_TO_TICKS ref_platform (uint (5000 :: u32))) = 5000" by (simp add: ref_platform_def)
  have "(re_ticks (ext ref_net0) div 1 + unat (pdMS_TO_TICKS ref_platform (uint (5000 :: u32))) + 1) * 1 + longest_wait ref_platform 1 1 < 2 ^ 32 * 1"
    unfolding w d e by (simp add: ref_ext0_def)
  from blocking_calls_return [OF ref_clock.rtos_clock_axioms this refl] show ?thesis
    unfolding w d e by (simp add: ref_ext0_def)
qed

text \<open>C39: The deadline arithmetic ignores that the tick counter wraps around. Close to the end of
  its range, when the deadline computed from the first reading of the counter has wrapped, and the
  second reading has not, \<open>net_tcp_recv\<close> reports a time-out without having looked at the socket once.\<close>

theorem recv_deadline_wraps:
  assumes "handle_for (IFACE s) n = Some i" and "tick_count P n = (t, n1)" and "tick_count P n1 = (t2, n2)" and "t \<le> t2"
    and "2 ^ 32 \<le> unat t + unat (pdMS_TO_TICKS P (uint timeout_ms))"
  shows "net_tcp_recv P R S s cap timeout_ms n = Some ((0, []), n2)"
proof -
  let ?d = "pdMS_TO_TICKS P (uint timeout_ms)"
  have "unat (t + ?d) = unat t + unat ?d - 2 ^ 32"
    using assms(5) u32_lt [of t] u32_lt [of ?d] by (simp add: unat_word_ariths mod_if)
  then have "\<not> t \<le> t + ?d"
    using u32_lt [of ?d] assms(5) by (simp add: word_le_nat_alt)
  then have "\<not> t2 \<le> t + ?d" using assms(4) by (meson order_trans)
  then show ?thesis
    using assms(1-3) by (simp add: net_tcp_recv_def) (subst recv_loop.simps, simp)
qed

text \<open>The platform of the witnesses one tick before its counter wraps around.\<close>

definition ref_late :: "(ring, u32, ref_stack, ref_ext) net" where
  "ref_late = ref_net0\<lparr>ext := ref_ext0\<lparr>re_ticks := 0xFFFFFFFF\<rparr>\<rparr>"

theorem recv_deadline_wraps_witness:
  "net_tcp_recv ref_platform ref_rtos ref_smoltcp 1 10 30000 ref_late = Some ((0, []), ref_late)"
proof (rule recv_deadline_wraps [where t = "0xFFFFFFFF" and ?t2.0 = "0xFFFFFFFF" and ?n1.0 = ref_late])
  have "IFACE 1 = NET_IFACE_ETH" by (simp add: IFACE_def NET_IFACE_ETH_def drop_bit_eq_div)
  moreover have "iface NET_IFACE_ETH ref_late = iface NET_IFACE_ETH ref_net0" by (simp add: ref_late_def iface_def)
  ultimately show "handle_for (IFACE 1) ref_late = Some NET_IFACE_ETH" by (simp add: handle_for_iff ref_net0)
  show "tick_count ref_platform ref_late = (0xFFFFFFFF, ref_late)" "tick_count ref_platform ref_late = (0xFFFFFFFF, ref_late)"
    by (simp_all add: tick_count_def ref_platform_def ref_late_def)
  have "unat (0xFFFFFFFF :: u32) = 0xFFFFFFFF" "unat (word_of_int (uint (30000 :: u32)) :: u32) = 30000" by simp_all
  then show "2 ^ 32 \<le> unat (0xFFFFFFFF :: u32) + unat (pdMS_TO_TICKS ref_platform (uint (30000 :: u32)))"
    by (simp add: ref_platform_def)
qed simp

section \<open>Invariants across a call\<close>

text \<open>The atomic steps a call of the API is made of: a bracketed call of the core, reading the
  tick counter or the random source, waking the poll task, and waiting, when the other tasks
  run. A predicate that all of them keep is kept by every call, however long it blocks.\<close>

definition keeps_env :: "('q, 'g, 'e) platform \<Rightarrow> ('q, 'g, 'c, 'e) rtos \<Rightarrow> (('q, 'g, 'c, 'e) net \<Rightarrow> bool) \<Rightarrow> bool" where
  "keeps_env P R I \<longleftrightarrow> (\<forall>n. I n \<longrightarrow> I (snd (tick_count P n)) \<and> I (snd (smoltcp_glue_rand32 P n)) \<and> I (net_stack_kick_poll n)
     \<and> (\<forall>d. I (vTaskDelay R d n)) \<and> (\<forall>b d. I (snd (wait_bits_progress R b d n))))"

definition keeps :: "('q, 'g, 'e) platform \<Rightarrow> ('q, 'g, 'c, 'e) rtos \<Rightarrow> (('q, 'g, 'c, 'e) net \<Rightarrow> bool) \<Rightarrow> bool" where
  "keeps P R I \<longleftrightarrow> keeps_env P R I \<and> (\<forall>n i h. I n \<longrightarrow> I (SMOLTCP_UNLOCK (set_handle i h (core_call (SMOLTCP_LOCK n)))))"

text \<open>The calls of the core that the blocking calls make on one socket.\<close>

definition tcp_keeps :: "'c smoltcp \<Rightarrow> nat \<Rightarrow> u32 \<Rightarrow> (('q, 'g, 'c, 'e) net \<Rightarrow> bool) \<Rightarrow> bool" where
  "tcp_keeps S i k I \<longleftrightarrow> (\<forall>n. I n \<longrightarrow>
     (\<forall>r ip port. I (snd (locked_call i (\<lambda>h. smoltcp_tcp_connect S r h k ip port 0) n)))
     \<and> I (snd (locked_call i (\<lambda>h. smoltcp_tcp_is_active S h k) n))
     \<and> (\<forall>buf. I (snd (locked_call i (\<lambda>h. smoltcp_tcp_send S h k buf) n)))
     \<and> (\<forall>cap. I (snd (locked_call i (\<lambda>h. smoltcp_tcp_recv S h k cap) n))))"

definition udp_keeps :: "'c smoltcp \<Rightarrow> nat \<Rightarrow> u32 \<Rightarrow> (('q, 'g, 'c, 'e) net \<Rightarrow> bool) \<Rightarrow> bool" where
  "udp_keeps S i k I \<longleftrightarrow> (\<forall>n cap. I n \<longrightarrow> I (snd (locked_call i (\<lambda>h. smoltcp_udp_recvfrom S h k cap) n)))"

lemma keeps_call: "keeps P R I \<Longrightarrow> I n \<Longrightarrow> I (snd (locked_call i f n))"
  by (simp add: keeps_def locked_call_def Let_def case_prod_unfold)

lemma keeps_D: "keeps P R I \<Longrightarrow> keeps_env P R I" "keeps P R I \<Longrightarrow> tcp_keeps S i k I" "keeps P R I \<Longrightarrow> udp_keeps S i k I"
  by (simp_all add: tcp_keeps_def udp_keeps_def keeps_call) (simp add: keeps_def)

lemma keeps_tick: "keeps_env P R I \<Longrightarrow> I n \<Longrightarrow> I (snd (tick_count P n))"
  and keeps_rand: "keeps_env P R I \<Longrightarrow> I n \<Longrightarrow> I (snd (smoltcp_glue_rand32 P n))"
  and keeps_kick: "keeps_env P R I \<Longrightarrow> I n \<Longrightarrow> I (net_stack_kick_poll n)"
  and keeps_delay: "keeps_env P R I \<Longrightarrow> I n \<Longrightarrow> I (vTaskDelay R d n)"
  and keeps_wait: "keeps_env P R I \<Longrightarrow> I n \<Longrightarrow> I (net_stack_wait_progress P R d n)"
  by (simp_all add: keeps_env_def net_stack_wait_progress_def)

lemma keeps_tcp:
  assumes "tcp_keeps S i k I" and "I n"
  shows "I (snd (locked_call i (\<lambda>h. smoltcp_tcp_connect S r h k ip port 0) n))"
    and "I (snd (locked_call i (\<lambda>h. smoltcp_tcp_is_active S h k) n))"
    and "I (snd (locked_call i (\<lambda>h. smoltcp_tcp_send S h k buf) n))"
    and "I (snd (locked_call i (\<lambda>h. smoltcp_tcp_recv S h k cap) n))"
  using assms by (simp_all add: tcp_keeps_def)

lemma keeps_udp: "udp_keeps S i k I \<Longrightarrow> I n \<Longrightarrow> I (snd (locked_call i (\<lambda>h. smoltcp_udp_recvfrom S h k cap) n))"
  by (simp add: udp_keeps_def)

lemma keeps_udpD: "locked_call i (\<lambda>h. smoltcp_udp_recvfrom S h k cap) n = (r, n') \<Longrightarrow> udp_keeps S i k I \<Longrightarrow> I n \<Longrightarrow> I n'"
  by (metis snd_conv keeps_udp)

lemma locked_connect_keeps: "keeps_env P R I \<Longrightarrow> tcp_keeps S i j I \<Longrightarrow> I n \<Longrightarrow> I (snd (locked_connect P S i j ip port n))"
  by (simp add: locked_connect_def Let_def case_prod_unfold keeps_tcp keeps_rand)

lemma connect_wait_keeps:
  assumes "connect_wait P R S i k D n = Some r" and "keeps_env P R I" and "tcp_keeps S i k I" and "I n"
  shows "I (snd r)"
proof -
  have "Q ((((((P, R), S), i), k), D), n) r"
    if "Q = (\<lambda>((((((P, R), S), i), k), D), n) r. keeps_env P R I \<longrightarrow> tcp_keeps S i k I \<longrightarrow> I n \<longrightarrow> I (snd r))" for Q
    by (rule connect_wait.raw_induct [OF _ assms(1)])
      (fastforce simp: that Let_def case_prod_unfold keeps_tcp keeps_tick keeps_kick keeps_delay split: if_split_asm)
  with assms show ?thesis by simp
qed

lemma recv_loop_keeps:
  assumes "recv_loop P R S i k cap D n = Some r" and "keeps_env P R I" and "tcp_keeps S i k I" and "I n"
  shows "I (snd r)"
proof -
  have "Q (((((((P, R), S), i), k), cap), D), n) r"
    if "Q = (\<lambda>(((((((P, R), S), i), k), cap), D), n) r. keeps_env P R I \<longrightarrow> tcp_keeps S i k I \<longrightarrow> I n \<longrightarrow> I (snd r))" for Q
    by (rule recv_loop.raw_induct [OF _ assms(1)])
      (fastforce simp: that Let_def case_prod_unfold keeps_tcp keeps_tick keeps_kick keeps_wait split: if_split_asm)
  with assms show ?thesis by simp
qed

lemma recvfrom_loop_keeps:
  assumes "recvfrom_loop P R S i k cap D n = Some r" and "keeps_env P R I" and "udp_keeps S i k I" and "I n"
  shows "I (snd r)"
proof -
  have "Q (((((((P, R), S), i), k), cap), D), n) r"
    if "Q = (\<lambda>(((((((P, R), S), i), k), cap), D), n) r. keeps_env P R I \<longrightarrow> udp_keeps S i k I \<longrightarrow> I n \<longrightarrow> I (snd r))" for Q
    by (rule recvfrom_loop.raw_induct [OF _ assms(1)])
      (auto simp: that Let_def case_prod_unfold keeps_udp keeps_tick keeps_kick keeps_wait dest: keeps_udpD split: if_split_asm)
  with assms show ?thesis by simp
qed

lemma send_loop_keeps:
  assumes "send_loop P R S i k buf D tot n = Some r" and "keeps_env P R I" and "tcp_keeps S i k I" and "I n"
  shows "I (snd r)"
proof -
  have "Q ((((((((P, R), S), i), k), buf), D), tot), n) r"
    if "Q = (\<lambda>((((((((P, R), S), i), k), buf), D), tot), n) r. keeps_env P R I \<longrightarrow> tcp_keeps S i k I \<longrightarrow> I n \<longrightarrow> I (snd r))" for Q
    by (rule send_loop.raw_induct [OF _ assms(1)])
      (fastforce simp: that Let_def case_prod_unfold keeps_tcp keeps_tick keeps_kick keeps_wait split: if_split_asm)
  with assms show ?thesis by simp
qed

lemma net_calls_keep:
  assumes E: "keeps_env P R I" and n: "I n"
  shows "tcp_keeps S (IFACE s) (LOCAL s) I \<Longrightarrow> net_tcp_connect P R S s ip port tmo n = Some (e, n') \<Longrightarrow> I n'"
    and "tcp_keeps S (IFACE s) (LOCAL s) I \<Longrightarrow> net_tcp_send P R S s buf tmo n = Some (r, n') \<Longrightarrow> I n'"
    and "tcp_keeps S (IFACE s) (LOCAL s) I \<Longrightarrow> net_tcp_recv P R S s cap tmo n = Some (rb, n') \<Longrightarrow> I n'"
    and "udp_keeps S (IFACE s) (LOCAL s) I \<Longrightarrow> net_udp_recvfrom P R S s cap tmo n = Some (rd, n') \<Longrightarrow> I n'"
proof -
  note t = keeps_tick [OF E n]
  {
    assume T: "tcp_keeps S (IFACE s) (LOCAL s) I"
    note c = locked_connect_keeps [OF E T n]
    show "net_tcp_connect P R S s ip port tmo n = Some (e, n') \<Longrightarrow> I n'"
      using n c keeps_tick [OF E c]
      by (auto simp: net_tcp_connect_def Let_def case_prod_unfold
          dest!: handle_for_SomeD connect_wait_keeps [OF _ E T] split: option.splits if_splits)
    show "net_tcp_send P R S s buf tmo n = Some (r, n') \<Longrightarrow> I n'"
      using n t by (auto simp: net_tcp_send_def Let_def case_prod_unfold
          dest!: handle_for_SomeD send_loop_keeps [OF _ E T] split: option.splits)
    show "net_tcp_recv P R S s cap tmo n = Some (rb, n') \<Longrightarrow> I n'"
      using n t by (auto simp: net_tcp_recv_def Let_def case_prod_unfold
          dest!: handle_for_SomeD recv_loop_keeps [OF _ E T] split: option.splits)
  }
  assume U: "udp_keeps S (IFACE s) (LOCAL s) I"
  show "net_udp_recvfrom P R S s cap tmo n = Some (rd, n') \<Longrightarrow> I n'"
    using n t by (auto simp: net_udp_recvfrom_def Let_def case_prod_unfold
        dest!: handle_for_SomeD recvfrom_loop_keeps [OF _ E U] split: option.splits)
qed

lemma blocking_keeps:
  assumes K: "keeps P R I" and n: "I n"
  shows "net_tcp_connect P R S s ip port tmo n = Some (e, n') \<Longrightarrow> I n'"
    and "net_tcp_send P R S s buf tmo n = Some (r, n') \<Longrightarrow> I n'"
    and "net_tcp_recv P R S s cap tmo n = Some (rb, n') \<Longrightarrow> I n'"
    and "net_udp_recvfrom P R S s cap tmo n = Some (rd, n') \<Longrightarrow> I n'"
  by (erule net_calls_keep [OF keeps_D(1) [OF K] n, rotated]; rule keeps_D [OF K])+

section \<open>The lock around every call\<close>

text \<open>What the other tasks keep while this one is blocked.\<close>

definition keeps_lock :: "('q, 'g, 'c, 'e) rtos \<Rightarrow> bool" where
  "keeps_lock R \<longleftrightarrow> (\<forall>d n. lock_ready n \<longrightarrow> lock_ready (vTaskDelay R d n))
     \<and> (\<forall>b d n. lock_ready n \<longrightarrow> lock_ready (snd (wait_bits_progress R b d n)))"

lemma snd_lock_ready:
  "lock_ready n \<Longrightarrow> lock_ready (snd (locked_call i f n))"
  "lock_ready n \<Longrightarrow> lock_ready (snd (tick_count P n))"
  "lock_ready n \<Longrightarrow> lock_ready (net_stack_kick_poll n)"
  by (simp_all add: lock_ready_view lock_view_ops net_stack_kick_poll_def)

lemma bracket_lock_ready: "lock_ready n \<Longrightarrow> lock_ready (SMOLTCP_UNLOCK (set_handle i h (core_call (SMOLTCP_LOCK n))))"
  by (simp add: lock_ready_def lock_ok_def lock_defs set_handle_def upd_iface_def)

lemma rand_lock_ready: "lock_ready n \<Longrightarrow> lock_ready (snd (smoltcp_glue_rand32 P n))"
  by (simp add: smoltcp_glue_rand32_def Let_def case_prod_unfold lock_ready_def lock_ok_def)

lemma keeps_lock_keeps: "keeps_lock R \<Longrightarrow> keeps P R lock_ready"
  by (simp add: keeps_lock_def keeps_def keeps_env_def snd_lock_ready bracket_lock_ready rand_lock_ready)

lemma short_calls_lock_ready:
  assumes "lock_ready n"
  shows "lock_ready (snd (net_tcp_open S ifc n))" "lock_ready (snd (net_tcp_listen S s port n))"
    "lock_ready (snd (net_tcp_close S s n))" "lock_ready (snd (net_tcp_is_active S s n))"
    "lock_ready (snd (net_tcp_is_connected S s n))" "lock_ready (snd (net_tcp_recv_queue S s n))"
    "lock_ready (snd (net_tcp_send_capacity S s n))" "lock_ready (snd (net_udp_open S ifc port n))"
    "lock_ready (snd (net_udp_sendto S s buf dst port n))" "lock_ready (snd (net_udp_close S s n))"
    "lock_ready (snd (net_mcast_join S ifc g n))" "lock_ready (snd (net_mcast_leave S ifc g n))"
  using assms
  by (auto simp: net_tcp_open_def net_open_def net_tcp_listen_def net_tcp_close_def net_tcp_is_active_def
      net_tcp_is_connected_def net_tcp_recv_queue_def net_tcp_send_capacity_def net_udp_open_def net_udp_sendto_def
      net_udp_close_def net_mcast_join_def net_mcast_leave_def net_mcast_def on_sock_def Let_def case_prod_unfold
      snd_lock_ready split: option.split)

text \<open>Every call of the native socket API takes and releases the lock correctly: it enters
  the Rust core only under the lock, never takes it twice and leaves it free, also across the
  waits inside the blocking calls.\<close>

theorem sock_calls_keep_lock:
  assumes "keeps_lock R" and "lock_ready n"
  shows "lock_ready (snd (net_tcp_open S ifc n)) \<and> lock_ready (snd (net_tcp_listen S s port n))
    \<and> lock_ready (snd (net_tcp_close S s n)) \<and> lock_ready (snd (net_udp_open S ifc port n))
    \<and> lock_ready (snd (net_udp_sendto S s buf ip port n)) \<and> lock_ready (snd (net_udp_close S s n))
    \<and> lock_ready (snd (net_tcp_is_connected S s n)) \<and> lock_ready (snd (net_mcast_join S ifc ip n))
    \<and> (\<forall>r n'. net_tcp_connect P R S s ip port tmo n = Some (r, n') \<longrightarrow> lock_ready n')
    \<and> (\<forall>r n'. net_tcp_send P R S s buf tmo n = Some (r, n') \<longrightarrow> lock_ready n')
    \<and> (\<forall>r n'. net_tcp_recv P R S s cap tmo n = Some (r, n') \<longrightarrow> lock_ready n')
    \<and> (\<forall>r n'. net_udp_recvfrom P R S s cap tmo n = Some (r, n') \<longrightarrow> lock_ready n')"
proof (intro conjI allI impI)
  note K = keeps_lock_keeps [OF assms(1), of P] assms(2)
  show "lock_ready n'" if "net_tcp_connect P R S s ip port tmo n = Some (r, n')" for r n' by (rule blocking_keeps(1) [OF K that])
  show "lock_ready n'" if "net_tcp_send P R S s buf tmo n = Some (r, n')" for r n' by (rule blocking_keeps(2) [OF K that])
  show "lock_ready n'" if "net_tcp_recv P R S s cap tmo n = Some (r, n')" for r n' by (rule blocking_keeps(3) [OF K that])
  show "lock_ready n'" if "net_udp_recvfrom P R S s cap tmo n = Some (r, n')" for r n' by (rule blocking_keeps(4) [OF K that])
qed (rule short_calls_lock_ready [OF assms(2)])+

lemma ref_rtos_keeps_lock: "keeps_lock ref_rtos"
  by (simp add: keeps_lock_def ref_rtos_def lock_ready_view)

section \<open>What a send hands over\<close>

text \<open>What smoltcp documents of \<open>tcp::Socket::send_slice\<close>: it takes a prefix of the slice, appends
  it to the stream of the socket and says how long the prefix was.\<close>

locale tcp_stream =
  fixes S :: "'c smoltcp" and stream :: "nat \<Rightarrow> 'c \<Rightarrow> u8 list"
  assumes send_Some: "sm_tcp_send S sh bs c = (Some j, c') \<Longrightarrow> j \<le> length bs \<and> stream sh c' = stream sh c @ take j bs"
    and send_None: "sm_tcp_send S sh bs c = (None, c') \<Longrightarrow> stream sh c' = stream sh c"

definition sock_stream :: "(nat \<Rightarrow> 'c \<Rightarrow> 'a) \<Rightarrow> nat \<Rightarrow> u32 \<Rightarrow> ('q, 'g, 'c, 'e) net \<Rightarrow> 'a option" where
  "sock_stream stream i k n =
     (if i < length (s_ifaces n)
      then case smoltcp_handle (iface i n) of None \<Rightarrow> None
        | Some ctx \<Rightarrow> map_option (\<lambda>sh. stream sh (ctx_stack ctx)) (ctx_lookup k ctx)
      else None)"

lemma sock_stream_frame [simp]:
  "sock_stream stream i k (snd (tick_count P n)) = sock_stream stream i k n"
  "sock_stream stream i k (net_stack_kick_poll n) = sock_stream stream i k n"
  by (simp_all add: sock_stream_def net_stack_kick_poll_def)

context tcp_stream
begin

lemma locked_send:
  assumes "sock_stream stream i k n = Some xs"
    and "locked_call i (\<lambda>h. smoltcp_tcp_send S h k (Some bs)) n = (r, n')"
  shows "\<exists>j \<le> length bs. sock_stream stream i k n' = Some (xs @ take j bs) \<and> (r > 0 \<longleftrightarrow> 0 < j) \<and> (r > 0 \<longrightarrow> r = int j)"
proof -
  from assms(1) obtain ctx sh where i: "i < length (s_ifaces n)" and ctx: "smoltcp_handle (iface i n) = Some ctx"
    and sh: "ctx_lookup k ctx = Some sh" and xs: "xs = stream sh (ctx_stack ctx)"
    by (auto simp: sock_stream_def split: if_splits option.splits)
  let ?f = "\<lambda>h. smoltcp_tcp_send S h k (Some bs)"
  note L = locked_call_iface [OF i, of ?f]
  have n': "n' = snd (locked_call i ?f n)" and r: "r = fst (locked_call i ?f n)" using assms(2) by simp_all
  obtain o' c' where send: "sm_tcp_send S sh bs (ctx_stack ctx) = (o', c')" by force
  have core: "?f (Some ctx) = ((case o' of Some j \<Rightarrow> int j | None \<Rightarrow> -1), Some ((get_mut S Tcp sh ctx)\<lparr>ctx_stack := c'\<rparr>))"
    by (simp add: smoltcp_tcp_send_def with_socket_def sh send split: option.split)
  have lk: "ctx_lookup k ((get_mut S Tcp sh ctx)\<lparr>ctx_stack := c'\<rparr>) = Some sh" using sh by (simp add: ctx_lookup_def)
  have st: "sock_stream stream i k n' = Some (stream sh c')"
    using L(1,3) n' ctx core i lk by (simp add: sock_stream_def)
  have rr: "r = (case o' of Some j \<Rightarrow> int j | None \<Rightarrow> -1)" using L(2) r ctx core by simp
  show ?thesis
  proof (cases o')
    case None
    with send_None send st rr xs show ?thesis by (intro exI [of _ 0]) simp
  next
    case (Some j)
    with send_Some send st rr xs show ?thesis by (intro exI [of _ j]) auto
  qed
qed

end

definition wait_keeps_stream ::
  "('q, 'g, 'e) platform \<Rightarrow> ('q, 'g, 'c, 'e) rtos \<Rightarrow> (nat \<Rightarrow> 'c \<Rightarrow> 'a) \<Rightarrow> nat \<Rightarrow> u32 \<Rightarrow> bool" where
  "wait_keeps_stream P R stream i k \<longleftrightarrow>
     (\<forall>n xs. sock_stream stream i k n = Some xs \<longrightarrow> sock_stream stream i k (net_stack_wait_progress P R 50 n) = Some xs)"

definition sends_prefix :: "(nat \<Rightarrow> 'c \<Rightarrow> u8 list) \<Rightarrow> u8 list \<Rightarrow> nat \<Rightarrow> u32 \<Rightarrow> u8 list \<Rightarrow> nat \<times> ('q, 'g, 'c, 'e) net \<Rightarrow> bool" where
  "sends_prefix stream xs i k buf r \<longleftrightarrow>
     fst r \<le> length buf \<and> sock_stream stream i k (snd r) = Some (xs @ take (fst r) buf)"

lemma send_step_stream:
  assumes S: "tcp_stream S stream" and W: "wait_keeps_stream P R stream i k"
    and tot: "sends_prefix stream xs i k buf (tot, n)"
    and step: "(if \<not> tot < length buf then Some (tot, n)
      else
        let (r, n1) = locked_call i (\<lambda>h. smoltcp_tcp_send S h k (Some (drop tot buf))) n
        in if r > 0 then loop (tot + nat r) (net_stack_kick_poll n1)
           else let (now, n2) = tick_count P n1
                in if now \<ge> D then Some (tot, n2)
                   else loop tot (net_stack_wait_progress P R 50 (net_stack_kick_poll n2))) = Some r"
    and loop: "\<And>t m. loop t m = Some r \<Longrightarrow> sends_prefix stream xs i k buf (t, m) \<Longrightarrow> sends_prefix stream xs i k buf r"
  shows "sends_prefix stream xs i k buf r"
proof (cases "tot < length buf")
  case False
  with step tot show ?thesis by simp
next
  case True
  obtain x n1 where call: "locked_call i (\<lambda>h. smoltcp_tcp_send S h k (Some (drop tot buf))) n = (x, n1)" by force
  obtain j where j: "j \<le> length (drop tot buf)" "sock_stream stream i k n1 = Some ((xs @ take tot buf) @ take j (drop tot buf))"
    "x > 0 \<longleftrightarrow> 0 < j" "x > 0 \<longrightarrow> x = int j"
    using tcp_stream.locked_send [OF S _ call] tot by (auto simp: sends_prefix_def)
  then have n1: "sends_prefix stream xs i k buf (tot + j, n1)" using True by (simp add: sends_prefix_def take_add)
  obtain t n2 where t: "tick_count P n1 = (t, n2)" by force
  have n2: "sends_prefix stream xs i k buf (tot + j, n2)"
    using n1 sock_stream_frame(1) [of stream i k P n1] t by (simp add: sends_prefix_def)
  consider "x > 0" | "\<not> x > 0" "t \<ge> D" | "\<not> x > 0" "\<not> t \<ge> D" by blast
  then show ?thesis
  proof cases
    case 1
    then show ?thesis using step True call j n1 by (intro loop [of "tot + j" "net_stack_kick_poll n1"]) (auto simp: sends_prefix_def)
  next
    case 2
    then show ?thesis using step True call j n2 t by auto
  next
    case 3
    then show ?thesis using step True call j n2 t W
      by (intro loop [of tot "net_stack_wait_progress P R 50 (net_stack_kick_poll n2)"]) (auto simp: sends_prefix_def wait_keeps_stream_def)
  qed
qed

lemma send_loop_stream:
  assumes "send_loop P R S i k buf D tot n = Some r" and "tcp_stream S stream" and "wait_keeps_stream P R stream i k"
    and "sends_prefix stream xs i k buf (tot, n)"
  shows "sends_prefix stream xs i k buf r"
proof -
  have "Q ((((((((P, R), S), i), k), buf), D), tot), n) r"
    if Q: "Q = (\<lambda>((((((((P, R), S), i), k), buf), D), tot), n) r. tcp_stream S stream \<longrightarrow> wait_keeps_stream P R stream i k
      \<longrightarrow> sends_prefix stream xs i k buf (tot, n) \<longrightarrow> sends_prefix stream xs i k buf r)" for Q
  proof (rule send_loop.raw_induct [OF _ assms(1)], goal_cases)
    case (1 loop P R S i k buf D tot n r)
    show ?case unfolding Q prod.case
    proof (intro impI)
      assume "tcp_stream S stream" "wait_keeps_stream P R stream i k" "sends_prefix stream xs i k buf (tot, n)"
      then show "sends_prefix stream xs i k buf r"
        by (rule send_step_stream [OF _ _ _ 1(2)]) (use 1(1) [unfolded Q prod.case] \<open>tcp_stream S stream\<close> \<open>wait_keeps_stream P R stream i k\<close> in blast)
    qed
  qed
  with assms show ?thesis by simp
qed

lemma sint_of_nat_small: "m < 2 ^ 31 \<Longrightarrow> sint (of_nat m :: u32) = int m"
  by (simp add: signed_of_nat signed_take_bit_int_eq_self)

text \<open>C11: What \<open>net_tcp_send\<close> hands over. When it returns on an open socket, the stream of the
  socket has grown by exactly a prefix of the buffer, in order and with nothing repeated, and
  the result is the length of the prefix, or -1 when nothing was accepted before the deadline. (The
  length is returned as a signed 32-bit integer, which is the length for buffers below \<open>2^31\<close> bytes.)
  The hypothesis on the waits says that the other tasks do not write to this socket.\<close>

theorem tcp_send_stream:
  assumes S: "tcp_stream S stream" and h: "handle_for (IFACE s) n = Some i"
    and W: "wait_keeps_stream P R stream i (LOCAL s)"
    and xs: "sock_stream stream i (LOCAL s) n = Some xs"
    and ret: "net_tcp_send P R S s buf timeout_ms n = Some (r, n')"
  shows "\<exists>m \<le> length buf. sock_stream stream i (LOCAL s) n' = Some (xs @ take m buf)
    \<and> r = (if m = 0 then -1 else sint (of_nat m :: u32)) \<and> (length buf < 2 ^ 31 \<longrightarrow> r = (if m = 0 then -1 else int m))"
proof -
  have "sint (of_nat m :: u32) = int m" if "m \<le> length buf" "length buf < 2 ^ 31" for m
    using that by (simp add: sint_of_nat_small)
  note small = this
  obtain t n1 where t: "tick_count P n = (t, n1)" by force
  with ret h obtain m where loop: "send_loop P R S i (LOCAL s) buf (t + pdMS_TO_TICKS P (uint timeout_ms)) 0 n1 = Some (m, n')"
    and r: "r = (if m = 0 then -1 else sint (of_nat m :: u32))"
    by (auto simp: net_tcp_send_def)
  have "sends_prefix stream xs i (LOCAL s) buf (0, n1)"
    using xs sock_stream_frame(1) [of stream i "LOCAL s" P n] t by (simp add: sends_prefix_def)
  from send_loop_stream [OF loop S W this] have "m \<le> length buf" "sock_stream stream i (LOCAL s) n' = Some (xs @ take m buf)"
    by (simp_all add: sends_prefix_def)
  then show ?thesis using r small [of m] by (intro exI [of _ m]) simp
qed


definition ref_tx_stream :: "nat \<Rightarrow> ref_stack \<Rightarrow> u8 list" where
  "ref_tx_stream sh c = rk_tx (rs_sock sh c)"

lemma rs_sock_put [simp]: "rs_sock sh (rs_put sh k c) = k"
  by (simp add: rs_sock_def rs_put_def update_conv)

interpretation ref_tcp: tcp_stream ref_smoltcp ref_tx_stream
  by unfold_locales (auto simp: ref_smoltcp_def ref_tx_stream_def rs_send_def Let_def split: if_splits)

lemma ref_wait_keeps_stream: "wait_keeps_stream P ref_rtos stream i k"
  by (simp add: wait_keeps_stream_def sock_stream_def net_stack_wait_progress_def ref_rtos_def iface_def)

definition ref_conn :: "(ring, u32, ref_stack, ref_ext) net" where
  "ref_conn = set_handle NET_IFACE_ETH (Some ((ctx_new ref_smoltcp 0 [2, 0, 0, 0, 0, 1] 0)\<lparr>
     ctx_handles := [(1, 0)], ctx_next_id := 2,
     ctx_stack := \<lparr>rs_addrs = [], rs_route = None, rs_socks = [(0, fresh_sock\<lparr>rk_conn := True\<rparr>)], rs_next = 1\<rparr>\<rparr>)) ref_net0"

theorem tcp_send_stream_witness:
  "\<exists>r n' m. net_tcp_send ref_platform ref_rtos ref_smoltcp 1 [7, 8, 9] 100 ref_conn = Some (r, n')
     \<and> sock_stream ref_tx_stream NET_IFACE_ETH 1 n' = Some (take m [7, 8, 9])"
proof -
  have h: "handle_for (IFACE 1) ref_conn = Some NET_IFACE_ETH" and i: "LOCAL 1 = 1"
    and xs: "sock_stream ref_tx_stream NET_IFACE_ETH 1 ref_conn = Some []"
    by (simp_all add: IFACE_def LOCAL_def handle_for_def net_iface_get_def ref_conn_def ref_net0 [unfolded NET_IFACE_ETH_def]
        sock_stream_def NET_IFACE_ETH_def NET_IFACE_MAX_def ctx_lookup_def ref_tx_stream_def rs_sock_def fresh_sock_def)
  have "(re_ticks (ext ref_conn) div 1 + unat (pdMS_TO_TICKS ref_platform (uint (100 :: u32))) + 1) * 1 + longest_wait ref_platform 1 1 < 2 ^ 32 * 1"
    by (simp add: longest_wait_def ref_conn_def ref_net0_def net_boot_def ref_ext0_def ref_platform_def set_handle_def upd_iface_def)
  then obtain r n' where ret: "net_tcp_send ref_platform ref_rtos ref_smoltcp 1 [7, 8, 9] 100 ref_conn = Some (r, n')"
    using ref_clock.calls_return(2) unfolding ref_clock.returns_by_def by blast
  from tcp_send_stream [OF ref_tcp.tcp_stream_axioms h ref_wait_keeps_stream _ ret] xs i ret show ?thesis by auto
qed

section \<open>UDP sockets without a port\<close>

text \<open>A UDP socket opened with local port 0 stays unbound in the core, and the core refuses to
  send from it.\<close>

lemma udp_open_ctx:
  assumes h: "handle_for ifc n = Some ifc" and len: "length (s_ifaces n) = NET_IFACE_MAX"
    and ok: "handles_ok (sock_ctx ifc n)" and few: "unat (ctx_next_id (sock_ctx ifc n)) < 2 ^ 24"
    and opn: "net_udp_open S ifc 0 n = (s, n')"
  obtains ctx' where "smoltcp_udp_open S (Some (sock_ctx ifc n)) 0 = (LOCAL s, Some ctx')"
    and "smoltcp_handle (iface ifc n') = Some ctx'" and "handle_for (IFACE s) n' = Some ifc"
    and "ifc < length (s_ifaces n')" and "net_sock_valid s"
proof -
  note H = handle_for_SomeD [OF h]
  have ctx: "smoltcp_handle (iface ifc n) = Some (sock_ctx ifc n)" using H by (auto simp: sock_ctx_def)
  have i: "ifc < length (s_ifaces n)" "ifc < 256" using H len by (simp_all add: NET_IFACE_MAX_def)
  obtain k ctx' where core: "smoltcp_udp_open S (Some (sock_ctx ifc n)) 0 = (k, Some ctx')"
    and k: "k = ctx_next_id (sock_ctx ifc n)"
    by (auto simp: smoltcp_udp_open_def alloc_id_def case_prod_unfold Let_def)
  note L = locked_call_iface [OF i(1), of "\<lambda>h. smoltcp_udp_open S h 0"]
  have k0: "k \<noteq> 0" using ok k by (auto simp: handles_ok_def)
  then have s: "s = sock_of ifc k" and n': "n' = snd (locked_call ifc (\<lambda>h. smoltcp_udp_open S h 0) n)"
    using opn h L(2) ctx core by (auto simp: net_udp_open_def net_open_def case_prod_unfold Let_def)
  have I: "IFACE s = ifc" and K: "LOCAL s = k"
    using sock_of_IFACE [OF i(2)] sock_of_LOCAL local_mask few s k by simp_all
  have c': "smoltcp_handle (iface ifc n') = Some ctx'" using L(1) n' ctx core by simp
  have "handle_for (IFACE s) n' = Some ifc" using H L(3,4) n' c' I by (simp add: handle_for_iff)
  moreover have "net_sock_valid s" using K k0 by (auto simp: net_sock_valid_def LOCAL_def)
  ultimately show ?thesis using that core c' K L(3) n' i by simp
qed

lemma udp_port0_send:
  assumes "smoltcp_udp S lport" and "handle_for ifc n = Some ifc" and "length (s_ifaces n) = NET_IFACE_MAX"
    and "handles_ok (sock_ctx ifc n)" and "unat (ctx_next_id (sock_ctx ifc n)) < 2 ^ 24"
    and "net_udp_open S ifc 0 n = (s, n')"
  shows "fst (net_udp_sendto S s buf dst port n') = -1"
proof -
  obtain ctx' where o: "smoltcp_udp_open S (Some (sock_ctx ifc n)) 0 = (LOCAL s, Some ctx')"
    and c: "smoltcp_handle (iface ifc n') = Some ctx'" and h: "handle_for (IFACE s) n' = Some ifc"
    and i: "ifc < length (s_ifaces n')"
    using udp_open_ctx [OF assms(2-6)] .
  show ?thesis
    using smoltcp_udp.open_unbound [OF assms(1) o, of "Some buf" dst port] h
      locked_call_iface(2) [OF i, of "\<lambda>h. smoltcp_udp_sendto S h (LOCAL s) (Some buf) dst port"] c
    by (simp add: net_udp_sendto_def on_sock_def case_prod_unfold Let_def)
qed

end
