(* ===== verification/Ntp.thy ===== *)
theory Ntp
  imports Net_Sock
begin

text \<open>
  The SNTP client (\<open>components/esp_smoltcp/src/ntp.c\<close>): a task that sends a request on a UDP
  socket of its own, reads the transmit time stamp of the reply and sets the system clock.
  \<open>settimeofday\<close> and the configured server and interval are parameters; the time stamp fields of
  the packed struct are read as the little-endian target reads them. The task never ends, so
  its loop body is \<open>ntp_round\<close> and \<open>ntp_rounds\<close> runs it a given number of times.
\<close>

section \<open>Packets\<close>

definition sizeof_sntp_pkt :: nat where "sizeof_sntp_pkt = 48"

text \<open>\<open>LI = 0, VN = 4, mode = 3\<close>, everything else zero.\<close>

definition sntp_request :: "u8 list" where
  "sntp_request = (push_bit 6 0 OR push_bit 3 4 OR 3) # replicate 47 0"

text \<open>The field \<open>tx_ts\<close>, the last eight bytes, as a little-endian load.\<close>

definition sntp_tx_ts :: "u8 list \<Rightarrow> u64" where
  "sntp_tx_ts rsp =
     push_bit 56 (ucast (rsp ! 47)) OR push_bit 48 (ucast (rsp ! 46)) OR push_bit 40 (ucast (rsp ! 45))
     OR push_bit 32 (ucast (rsp ! 44)) OR push_bit 24 (ucast (rsp ! 43)) OR push_bit 16 (ucast (rsp ! 42))
     OR push_bit 8 (ucast (rsp ! 41)) OR ucast (rsp ! 40)"

definition NTP_UNIX_OFFSET :: u64 where "NTP_UNIX_OFFSET = 2208988800"

definition bswap32 :: "u32 \<Rightarrow> u32" where
  "bswap32 w = from_be_bytes (le_byte w 0) (le_byte w 1) (le_byte w 2) (le_byte w 3)"

definition sntp_secs :: "u8 list \<Rightarrow> u32" where
  "sntp_secs rsp = bswap32 (ucast (sntp_tx_ts rsp AND 0xFFFFFFFF))"

definition unix_secs :: "u8 list \<Rightarrow> u64" where
  "unix_secs rsp = ucast (sntp_secs rsp) - NTP_UNIX_OFFSET"

section \<open>The task\<close>

record ('e) ntp_env =
  ntp_server :: string
  ntp_poll_seconds :: int
  settimeofday :: "u64 \<Rightarrow> 'e \<Rightarrow> 'e"

text \<open>Up to the loop: \<open>None\<close> when the task deletes itself.\<close>

definition ntp_setup ::
  "'c smoltcp \<Rightarrow> 'e ntp_env \<Rightarrow> nat \<Rightarrow> ('q, 'g, 'c, 'e) net \<Rightarrow> (u32 \<times> net_sock) option \<times> ('q, 'g, 'c, 'e) net" where
  "ntp_setup S C ifc n =
     (case smoltcp_parse_ipv4 (Some (ntp_server C)) of None \<Rightarrow> (None, n)
      | Some server_be \<Rightarrow>
          let (s, n1) = net_udp_open S ifc 0 n
          in if \<not> net_sock_valid s then (None, n1) else (Some (server_be, s), n1))"

definition ntp_sync :: "'e ntp_env \<Rightarrow> int \<times> udp_datagram option \<Rightarrow> ('q, 'g, 'c, 'e) net \<Rightarrow> ('q, 'g, 'c, 'e) net" where
  "ntp_sync C r n =
     (case r of (len, Some d) \<Rightarrow> if len \<ge> int sizeof_sntp_pkt then n\<lparr>ext := settimeofday C (unix_secs (dg_data d)) (ext n)\<rparr> else n
      | (len, None) \<Rightarrow> n)"

definition ntp_round ::
  "('q, 'g, 'e) platform \<Rightarrow> ('q, 'g, 'c, 'e) rtos \<Rightarrow> 'c smoltcp \<Rightarrow> 'e ntp_env \<Rightarrow> u32 \<Rightarrow> net_sock \<Rightarrow> ('q, 'g, 'c, 'e) net
     \<Rightarrow> ('q, 'g, 'c, 'e) net option" where
  "ntp_round P R S C server_be s n =
     (let (sent, n1) = net_udp_sendto S s sntp_request server_be 123 n
      in case net_udp_recvfrom P R S s sizeof_sntp_pkt 5000 n1 of
           None \<Rightarrow> None
         | Some (r, n2) \<Rightarrow> Some (vTaskDelay R (pdMS_TO_TICKS P (ntp_poll_seconds C * 1000)) (ntp_sync C r n2)))"

fun ntp_rounds ::
  "nat \<Rightarrow> ('q, 'g, 'e) platform \<Rightarrow> ('q, 'g, 'c, 'e) rtos \<Rightarrow> 'c smoltcp \<Rightarrow> 'e ntp_env \<Rightarrow> u32 \<Rightarrow> net_sock \<Rightarrow> ('q, 'g, 'c, 'e) net
     \<Rightarrow> ('q, 'g, 'c, 'e) net option" where
  "ntp_rounds 0 P R S C server_be s n = Some n"
| "ntp_rounds (Suc k) P R S C server_be s n =
     (case ntp_round P R S C server_be s n of None \<Rightarrow> None | Some n' \<Rightarrow> ntp_rounds k P R S C server_be s n')"

text \<open>\<open>xTaskCreate\<close> succeeds or not.\<close>

definition ntp_start :: "bool \<Rightarrow> esp_err" where
  "ntp_start created = (if created then ESP_OK else ESP_ERR_NO_MEM)"

section \<open>The clock\<close>

lemma bit_u8_ge: "8 \<le> j \<Longrightarrow> \<not> bit (b :: u8) j"
  using bit_imp_le_length [of b j] by auto

lemma bit_le_byte: "bit (le_byte w i) j \<longleftrightarrow> j < 8 \<and> bit w (8 * i + j)"
proof -
  have "unat w div 256 ^ i = drop_bit (8 * i) (unat w)" by (simp add: drop_bit_eq_div power_mult)
  then show ?thesis by (simp add: le_byte_def bit_simps)
qed

lemma sntp_low_word: "ucast (sntp_tx_ts rsp AND 0xFFFFFFFF) = from_le_bytes (rsp ! 40) (rsp ! 41) (rsp ! 42) (rsp ! 43)"
proof -
  let ?w = "ucast (sntp_tx_ts rsp AND 0xFFFFFFFF) :: u32"
  have m: "(0xFFFFFFFF :: u64) = mask 32" by (simp add: mask_eq_exp_minus_1)
  have b0: "le_byte ?w 0 = rsp ! 40"
    by (rule bit_word_eqI) (simp add: bit_le_byte bit_simps sntp_tx_ts_def m bit_u8_ge)
  have b1: "le_byte ?w 1 = rsp ! 41"
    by (rule bit_word_eqI) (simp add: bit_le_byte bit_simps sntp_tx_ts_def m bit_u8_ge)
  have b2: "le_byte ?w 2 = rsp ! 42"
    by (rule bit_word_eqI) (simp add: bit_le_byte bit_simps sntp_tx_ts_def m bit_u8_ge)
  have b3: "le_byte ?w 3 = rsp ! 43"
    by (rule bit_word_eqI) (simp add: bit_le_byte bit_simps sntp_tx_ts_def m bit_u8_ge)
  have "?w = ipv4_to_be (ipv4_from_be ?w)" by simp
  also have "\<dots> = from_le_bytes (rsp ! 40) (rsp ! 41) (rsp ! 42) (rsp ! 43)"
    by (simp add: b0 b1 [unfolded One_nat_def] b2 b3 ipv4_to_be_def ipv4_from_be_def from_octets_def)
  finally show ?thesis .
qed

lemma sntp_secs_bytes: "sntp_secs rsp = from_be_bytes (rsp ! 40) (rsp ! 41) (rsp ! 42) (rsp ! 43)"
  unfolding sntp_secs_def bswap32_def sntp_low_word by (simp add: from_le_bytes_def)

lemma unix_secs_value:
  "sint (unix_secs rsp) = int (unat (sntp_secs rsp)) - 2208988800"
proof -
  have b: "int (unat (sntp_secs rsp)) < 4294967296" using u32_lt [of "sntp_secs rsp"] by linarith
  have eq: "unix_secs rsp = word_of_int (int (unat (sntp_secs rsp)) - 2208988800)"
    by (simp add: unix_secs_def NTP_UNIX_OFFSET_def unsigned_ucast_eq)
  have "sint (unix_secs rsp) = signed_take_bit (LENGTH(64) - 1) (int (unat (sntp_secs rsp)) - 2208988800)"
    unfolding eq by (rule sint_sbintrunc')
  also have "\<dots> = int (unat (sntp_secs rsp)) - 2208988800"
    by (rule signed_take_bit_int_eq_self) (use b in simp_all)
  finally show ?thesis .
qed


section \<open>Properties\<close>

definition ref_ntp :: "ref_ext ntp_env" where
  "ref_ntp = \<lparr>ntp_server = ''162.159.200.1'', ntp_poll_seconds = 3600, settimeofday = (\<lambda>t e. e\<lparr>re_now := sint t\<rparr>)\<rparr>"

lemma ref_sock_ctx: "sock_ctx NET_IFACE_ETH ref_net0 = ctx_new ref_smoltcp 0 [2, 0, 0, 0, 0, 1] 0"
  by (simp add: sock_ctx_def ref_net0)

text \<open>C29: When a round of the SNTP client gets a full reply, it sets the clock to the big-endian
  seconds of the reply's transmit time stamp (bytes 40 to 43) less the 2208988800 seconds from
  1900 to 1970, as a signed 64-bit number; on a time-out or a short reply it leaves the clock
  alone. The seconds are taken as seconds since 1900 whatever their top bit, so a server in the
  era that starts in 2036 sets the clock back before 1970.\<close>

theorem ntp_round_sets_clock:
  assumes sent: "snd (net_udp_sendto S s sntp_request server_be 123 n) = n1"
    and recv: "net_udp_recvfrom P R S s sizeof_sntp_pkt 5000 n1 = Some ((len, dg), n2)"
  shows "\<exists>n3. ntp_round P R S C server_be s n = Some (vTaskDelay R (pdMS_TO_TICKS P (ntp_poll_seconds C * 1000)) n3)
    \<and> (case dg of
         Some d \<Rightarrow> len \<ge> 48 \<longrightarrow> (\<exists>t. n3 = n2\<lparr>ext := settimeofday C t (ext n2)\<rparr>
           \<and> sint t = int (unat (from_be_bytes (dg_data d ! 40) (dg_data d ! 41) (dg_data d ! 42) (dg_data d ! 43))) - 2208988800)
       | None \<Rightarrow> n3 = n2)
    \<and> (len < 48 \<longrightarrow> n3 = n2)"
proof (intro exI conjI)
  show "ntp_round P R S C server_be s n =
      Some (vTaskDelay R (pdMS_TO_TICKS P (ntp_poll_seconds C * 1000)) (ntp_sync C (len, dg) n2))"
    using assms by (simp add: ntp_round_def case_prod_unfold)
  show "case dg of
      Some d \<Rightarrow> len \<ge> 48 \<longrightarrow> (\<exists>t. ntp_sync C (len, dg) n2 = n2\<lparr>ext := settimeofday C t (ext n2)\<rparr>
        \<and> sint t = int (unat (from_be_bytes (dg_data d ! 40) (dg_data d ! 41) (dg_data d ! 42) (dg_data d ! 43))) - 2208988800)
    | None \<Rightarrow> ntp_sync C (len, dg) n2 = n2"
    using unix_secs_value by (auto simp: ntp_sync_def sizeof_sntp_pkt_def sntp_secs_bytes split: option.split)
  show "len < 48 \<longrightarrow> ntp_sync C (len, dg) n2 = n2"
    by (simp add: ntp_sync_def sizeof_sntp_pkt_def split: option.split)
qed

text \<open>A concrete attached interface with one UDP socket, bound to port 123, and one reply waiting.\<close>

definition ref_reply :: "u8 list" where
  "ref_reply = 36 # replicate 39 0 @ [0x83, 0xAA, 0x7E, 0x80, 0, 0, 0, 0]"

definition ref_waiting :: "(ring, u32, ref_stack, ref_ext) net" where
  "ref_waiting = set_handle NET_IFACE_ETH (Some ((ctx_new ref_smoltcp 0 [2, 0, 0, 0, 0, 1] 0)\<lparr>
     ctx_handles := [(1, 0)], ctx_next_id := 2,
     ctx_stack := \<lparr>rs_addrs = [], rs_route = None, rs_socks = [(0, fresh_sock\<lparr>rk_type := Udp, rk_port := 123,
       rk_dgrams := [(ref_reply, from_octets 1 2 3 4, 123)]\<rparr>)], rs_next = 1\<rparr>\<rparr>)) ref_net0"

lemma recvfrom_ready:
  assumes h: "handle_for (IFACE s) n = Some i" and i: "i < length (s_ifaces n)"
    and tick: "xTaskGetTickCount P (ext n) = (t, ext n)" "t \<le> t + pdMS_TO_TICKS P (uint timeout_ms)"
    and core: "fst (smoltcp_udp_recvfrom S (smoltcp_handle (iface i n)) (LOCAL s) (Some cap)) = (len, dg)" "len > 0"
  shows "\<exists>n'. net_udp_recvfrom P R S s cap timeout_ms n = Some ((len, dg), n')"
proof -
  have t: "tick_count P n = (t, n)" using tick(1) by (simp add: tick_count_def)
  note L = locked_call_iface(2) [OF i, of "\<lambda>h. smoltcp_udp_recvfrom S h (LOCAL s) (Some cap)", unfolded core]
  show ?thesis
    using h tick(2) core(2) L
    by (simp add: net_udp_recvfrom_def t recvfrom_loop.simps [of P R S i "LOCAL s"] case_prod_unfold Let_def)
qed

lemma ref_waiting_recv:
  "\<exists>n1 n2. snd (net_udp_sendto ref_smoltcp 1 sntp_request 0 123 ref_waiting) = n1
     \<and> net_udp_recvfrom ref_platform ref_rtos ref_smoltcp 1 sizeof_sntp_pkt 5000 n1 =
         Some ((48, Some \<lparr>dg_data = ref_reply, dg_src_be = Some (ipv4_to_be (from_octets 1 2 3 4)), dg_src_port = 123\<rparr>), n2)"
proof -
  let ?n1 = "snd (net_udp_sendto ref_smoltcp 1 sntp_request 0 123 ref_waiting)"
  let ?f = "\<lambda>h. smoltcp_udp_sendto ref_smoltcp h 1 (Some sntp_request) 0 123"
  have IL: "IFACE 1 = NET_IFACE_ETH" "LOCAL 1 = 1" by (simp_all add: IFACE_def LOCAL_def NET_IFACE_ETH_def)
  have len: "NET_IFACE_ETH < length (s_ifaces ref_waiting)" "NET_IFACE_ETH < length (s_ifaces ref_net0)"
    by (simp_all add: ref_waiting_def ref_net0 NET_IFACE_ETH_def NET_IFACE_MAX_def)
  have en: "enabled (iface NET_IFACE_ETH ref_waiting)" using len(2) by (simp add: ref_waiting_def ref_net0)
  obtain ctx where ctx: "smoltcp_handle (iface NET_IFACE_ETH ref_waiting) = Some ctx" and lk: "ctx_lookup 1 ctx = Some 0"
    and sk: "rs_sock 0 (ctx_stack ctx) = fresh_sock\<lparr>rk_type := Udp, rk_port := 123, rk_dgrams := [(ref_reply, from_octets 1 2 3 4, 123)]\<rparr>"
    and kd: "sm_kind ref_smoltcp 0 (ctx_stack ctx) = Some Udp"
    using len(2) by (simp add: ref_waiting_def ctx_lookup_def rs_sock_def ref_smoltcp_def)
  have h: "handle_for NET_IFACE_ETH ref_waiting = Some NET_IFACE_ETH"
    using en ctx by (simp add: handle_for_iff)
  have f: "?f (Some ctx) = (48, Some ctx)"
    using get_mut_typed [OF kd]
    by (simp add: smoltcp_udp_sendto_def with_socket_def lk ref_smoltcp_def sk sntp_request_def)
  have n1: "?n1 = net_stack_kick_poll (snd (locked_call NET_IFACE_ETH ?f ref_waiting))"
    using locked_call_iface(2) [OF len(1), of ?f] h ctx f
    by (simp add: net_udp_sendto_def on_sock_def IL case_prod_unfold Let_def)
  have c1: "smoltcp_handle (iface NET_IFACE_ETH ?n1) = Some ctx" and l1: "NET_IFACE_ETH < length (s_ifaces ?n1)"
    and e1: "enabled (iface NET_IFACE_ETH ?n1)" and x1: "ext ?n1 = ext ref_waiting"
    using locked_call_iface [OF len(1), of ?f] ctx f len en unfolding n1
    by (simp_all add: net_stack_kick_poll_def)
  have h1: "handle_for (IFACE 1) ?n1 = Some NET_IFACE_ETH" unfolding IL using c1 e1 by (simp add: handle_for_iff)
  have t0: "re_ticks (ext ref_waiting) = 0"
    by (simp add: ref_waiting_def ref_net0_def set_handle_def net_boot_def ref_ext0_def)
  have "xTaskGetTickCount ref_platform (ext ?n1) = (0, ext ?n1)" by (simp add: ref_platform_def x1 t0)
  moreover have "fst (smoltcp_udp_recvfrom ref_smoltcp (smoltcp_handle (iface NET_IFACE_ETH ?n1)) (LOCAL 1) (Some sizeof_sntp_pkt)) =
      (48, Some \<lparr>dg_data = ref_reply, dg_src_be = Some (ipv4_to_be (from_octets 1 2 3 4)), dg_src_port = 123\<rparr>)"
    unfolding c1 IL by (simp add: smoltcp_udp_recvfrom_def with_socket_def lk ref_smoltcp_def rs_udp_recv_def sk
        sizeof_sntp_pkt_def ref_reply_def)
  ultimately show ?thesis
    using recvfrom_ready [OF h1 l1, of ref_platform 0 5000] by simp
qed

theorem ntp_round_sets_clock_witness:
  "\<exists>n2 n3 t. ntp_round ref_platform ref_rtos ref_smoltcp ref_ntp 0 1 ref_waiting = Some (vTaskDelay ref_rtos 3600000 n3)
     \<and> n3 = n2\<lparr>ext := settimeofday ref_ntp t (ext n2)\<rparr> \<and> sint t = 0"
proof -
  obtain n1 n2 where s: "snd (net_udp_sendto ref_smoltcp 1 sntp_request 0 123 ref_waiting) = n1"
    and r: "net_udp_recvfrom ref_platform ref_rtos ref_smoltcp 1 sizeof_sntp_pkt 5000 n1 =
         Some ((48, Some \<lparr>dg_data = ref_reply, dg_src_be = Some (ipv4_to_be (from_octets 1 2 3 4)), dg_src_port = 123\<rparr>), n2)"
    using ref_waiting_recv by blast
  have "ref_reply ! 40 = 0x83" "ref_reply ! 41 = 0xAA" "ref_reply ! 42 = 0x7E" "ref_reply ! 43 = 0x80"
    by (simp_all add: ref_reply_def nth_Cons' nth_append)
  then have "int (unat (from_be_bytes (ref_reply ! 40) (ref_reply ! 41) (ref_reply ! 42) (ref_reply ! 43))) = 2208988800"
    by (simp add: from_be_bytes_def)
  moreover have "pdMS_TO_TICKS ref_platform (ntp_poll_seconds ref_ntp * 1000) = 3600000"
    by (simp add: ref_platform_def ref_ntp_def)
  ultimately show ?thesis using ntp_round_sets_clock [OF s r, of ref_ntp] by auto
qed

text \<open>C35: With a dotted-quad server name on an attached interface the task gets past its set-up,
  but no request leaves the device: the address it sends to has the four octets in reverse
  order, and the socket was opened without a local port, from which smoltcp does not send, so
  \<open>net_udp_sendto\<close> fails.\<close>

theorem ntp_request_not_sent:
  assumes S: "smoltcp_udp S lport" and h: "handle_for ifc n = Some ifc" and len: "length (s_ifaces n) = NET_IFACE_MAX"
    and ok: "handles_ok (sock_ctx ifc n)" and few: "unat (ctx_next_id (sock_ctx ifc n)) < 2 ^ 24"
    and server: "ntp_server C = dotted a b c d"
  shows "\<exists>be s n1. ntp_setup S C ifc n = (Some (be, s), n1) \<and> ipv4_from_be be = from_octets d c b a
    \<and> fst (net_udp_sendto S s sntp_request be 123 n1) = -1"
proof -
  obtain s n1 where opn: "net_udp_open S ifc 0 n = (s, n1)" by force
  have "net_sock_valid s" using udp_open_ctx [OF h len ok few opn] .
  then show ?thesis
    using opn udp_port0_send [OF S h len ok few opn]
    by (simp add: ntp_setup_def server parse_ipv4_dotted ipv4_from_be_def)
qed

theorem ntp_request_not_sent_witness:
  "\<exists>be s n1. ntp_setup ref_smoltcp ref_ntp NET_IFACE_ETH ref_net0 = (Some (be, s), n1) \<and> ipv4_from_be be = from_octets 1 200 159 162
    \<and> fst (net_udp_sendto ref_smoltcp s sntp_request be 123 n1) = -1"
proof (rule ntp_request_not_sent [OF ref_udp.smoltcp_udp_axioms ref_net0_handle ref_net0(2)])
  show "handles_ok (sock_ctx NET_IFACE_ETH ref_net0)" "unat (ctx_next_id (sock_ctx NET_IFACE_ETH ref_net0)) < 2 ^ 24"
    unfolding ref_sock_ctx by (simp_all add: ctx_new_def Let_def handles_ok_def)
  show "ntp_server ref_ntp = dotted 162 159 200 1"
    unfolding ref_ntp_def by code_simp
qed

end
