(* ===== verification/Compat_State.thy ===== *)
theory Compat_State
  imports Net_Sock
begin

text \<open>
  The statics of the lwIP shim (\<open>components/esp_smoltcp_lwip_compat\<close>): the table of descriptors
  (\<open>fd_table.h\<close>, \<open>fd_table.c\<close>), the loopback port table and its heap of datagrams (\<open>loopback.h\<close>,
  \<open>loopback.c\<close>), the two mutexes that protect them and \<open>errno\<close>. They are the record \<open>compat\<close>,
  which takes the place of the environment \<open>'e\<close> in the state of the stack: a blocking call of
  the stack may change it like everything else. \<open>cenv\<close> is the rest of the environment.

  A pointer to a descriptor entry is its index in the table. A queue or a listener pool has one
  owner, the entry that points to it, and is stored there. The datagrams are pointers into the
  heap: \<open>lo_heap\<close> maps an address to the datagram or to \<open>None\<close> once it is freed, and \<open>heap_fault\<close>
  records a double free, a read after free, a use of a deleted queue or an access outside an
  \<open>fd_set\<close>.
\<close>

section \<open>Mutexes\<close>

text \<open>\<open>mx_fault\<close> records a mutex that was taken before it was created, or twice by the same task.\<close>

record mutex =
  mx_created :: bool
  mx_held :: bool
  mx_fault :: bool

definition mx_take :: "mutex \<Rightarrow> mutex" where
  "mx_take m = m\<lparr>mx_held := True, mx_fault := (mx_fault m \<or> \<not> mx_created m \<or> mx_held m)\<rparr>"

definition mx_give :: "mutex \<Rightarrow> mutex" where
  "mx_give m = m\<lparr>mx_held := False\<rparr>"

definition mx_boot :: mutex where
  "mx_boot = \<lparr>mx_created = False, mx_held = False, mx_fault = False\<rparr>"

section \<open>Descriptors\<close>

text \<open>\<open>pool_freed\<close> is a ghost: the pointer \<open>pool\<close> dangles, since \<open>fd_free\<close> frees the array and leaves the
  pointer in the entry.\<close>

datatype fd_kind = FD_FREE | FD_TCP | FD_UDP | FD_TCP_LISTEN

record ('q, 'g) fd_entry =
  kind :: fd_kind
  nonblocking :: bool
  connected :: bool
  loopback :: bool
  lo_rx :: "'q option"
  rcv_timeout_ms :: u32
  snd_timeout_ms :: u32
  sock :: net_sock
  pool :: "net_sock list option"
  pool_freed :: bool
  pool_len :: nat
  pool_next :: nat
  fd_port :: u16
  local_ipv4_be :: u32
  local_port :: u16
  fd_iface :: nat
  evt :: "'g option"

text \<open>\<open>memset(&s_table[i], 0, offsetof(fd_entry_t, evt))\<close>: everything but the event group.\<close>

definition fd_zero :: "'g option \<Rightarrow> ('q, 'g) fd_entry" where
  "fd_zero g = \<lparr>kind = FD_FREE, nonblocking = False, connected = False, loopback = False, lo_rx = None,
     rcv_timeout_ms = 0, snd_timeout_ms = 0, sock = NET_SOCK_INVALID, pool = None, pool_freed = False, pool_len = 0, pool_next = 0,
     fd_port = 0, local_ipv4_be = 0, local_port = 0, fd_iface = 0, evt = g\<rparr>"

section \<open>Loopback\<close>

record lo_msg =
  lo_src_be :: u32
  lo_src_port :: u16
  lo_data :: "u8 list"

record lo_slot =
  lo_port :: u16
  lo_fd :: "nat option"

definition lo_slot_free :: lo_slot where
  "lo_slot_free = \<lparr>lo_port = 0, lo_fd = None\<rparr>"

section \<open>The state\<close>

record ('q, 'g, 'x) compat =
  s_table :: "('q, 'g) fd_entry list"
  fd_lock :: mutex
  s_slots :: "lo_slot list"
  lo_inited :: bool
  lo_lock :: mutex
  lo_heap :: "lo_msg option list"
  heap_fault :: bool
  c_errno :: "errno option"
  cenv :: 'x

type_synonym ('q, 'g, 'c, 'x) cnet = "('q, 'g, 'c, ('q, 'g, 'x) compat) net"

text \<open>
  What the shim uses of FreeRTOS, of the C library and of the constants of the lwIP headers:
  creation of objects and memory, which may fail, and the calls that are passed on.
\<close>

datatype fcntl_cmd = F_GETFL | F_SETFL | F_OTHER nat

datatype ioctl_cmd = FIONBIO | IOCTL_OTHER nat

record ('q, 'g, 'x) libc =
  malloc :: "nat \<Rightarrow> 'x \<Rightarrow> bool \<times> 'x"
  free_block :: "'x \<Rightarrow> 'x"
  xQueueCreate :: "nat \<Rightarrow> 'x \<Rightarrow> 'q option \<times> 'x"
  xEventGroupCreate :: "'x \<Rightarrow> 'g option \<times> 'x"
  xSemaphoreCreateMutex :: "'x \<Rightarrow> bool \<times> 'x"
  real_close :: "int \<Rightarrow> 'x \<Rightarrow> int \<times> 'x"
  real_fcntl :: "int \<Rightarrow> fcntl_cmd \<Rightarrow> int \<Rightarrow> 'x \<Rightarrow> int \<times> 'x"
  real_ioctl :: "int \<Rightarrow> ioctl_cmd \<Rightarrow> int option \<Rightarrow> 'x \<Rightarrow> int \<times> 'x"
  real_read :: "int \<Rightarrow> nat \<Rightarrow> 'x \<Rightarrow> (int \<times> u8 list) \<times> 'x"
  real_write :: "int \<Rightarrow> u8 list \<Rightarrow> 'x \<Rightarrow> int \<times> 'x"

record compat_config =
  MAX_FDS :: nat
  LWIP_SOCKET_OFFSET :: int
  LISTENER_POOL :: nat
  FD_SETSIZE :: nat
  DEFAULT_IFACE_ETH :: bool
  AF_INET :: int
  SOCK_STREAM :: u32
  SOCK_DGRAM :: u32
  O_NONBLOCK :: u32

definition compat_boot :: "compat_config \<Rightarrow> 'x \<Rightarrow> ('q, 'g, 'x) compat" where
  "compat_boot cfg x = \<lparr>s_table = replicate (MAX_FDS cfg) (fd_zero None), fd_lock = mx_boot,
     s_slots = replicate 4 lo_slot_free, lo_inited = False, lo_lock = mx_boot, lo_heap = [],
     heap_fault = False, c_errno = None, cenv = x\<rparr>"

section \<open>Access\<close>

definition upd_compat ::
  "(('q, 'g, 'x) compat \<Rightarrow> ('q, 'g, 'x) compat) \<Rightarrow> ('q, 'g, 'c, 'x) cnet \<Rightarrow> ('q, 'g, 'c, 'x) cnet" where
  "upd_compat f n = n\<lparr>ext := f (ext n)\<rparr>"

definition entry :: "nat \<Rightarrow> ('q, 'g, 'c, 'x) cnet \<Rightarrow> ('q, 'g) fd_entry" where
  "entry i n = s_table (ext n) ! i"

definition upd_entry ::
  "nat \<Rightarrow> (('q, 'g) fd_entry \<Rightarrow> ('q, 'g) fd_entry) \<Rightarrow> ('q, 'g, 'c, 'x) cnet \<Rightarrow> ('q, 'g, 'c, 'x) cnet" where
  "upd_entry i f = upd_compat (\<lambda>c. c\<lparr>s_table := (s_table c)[i := f (s_table c ! i)]\<rparr>)"

text \<open>A call of the C library or of FreeRTOS on the environment.\<close>

definition env_call :: "('x \<Rightarrow> 'r \<times> 'x) \<Rightarrow> ('q, 'g, 'c, 'x) cnet \<Rightarrow> 'r \<times> ('q, 'g, 'c, 'x) cnet" where
  "env_call f n = (let (r, x) = f (cenv (ext n)) in (r, upd_compat (\<lambda>c. c\<lparr>cenv := x\<rparr>) n))"

text \<open>\<open>free\<close> of a block of the environment's heap.\<close>

definition free_mem :: "('q, 'g, 'x) libc \<Rightarrow> ('q, 'g, 'c, 'x) cnet \<Rightarrow> ('q, 'g, 'c, 'x) cnet" where
  "free_mem K = upd_compat (\<lambda>c. c\<lparr>cenv := free_block K (cenv c)\<rparr>)"

definition fd_LOCK :: "('q, 'g, 'c, 'x) cnet \<Rightarrow> ('q, 'g, 'c, 'x) cnet" where
  "fd_LOCK = upd_compat (\<lambda>c. c\<lparr>fd_lock := mx_take (fd_lock c)\<rparr>)"

definition fd_UNLOCK :: "('q, 'g, 'c, 'x) cnet \<Rightarrow> ('q, 'g, 'c, 'x) cnet" where
  "fd_UNLOCK = upd_compat (\<lambda>c. c\<lparr>fd_lock := mx_give (fd_lock c)\<rparr>)"

definition lo_LOCK :: "('q, 'g, 'c, 'x) cnet \<Rightarrow> ('q, 'g, 'c, 'x) cnet" where
  "lo_LOCK = upd_compat (\<lambda>c. c\<lparr>lo_lock := mx_take (lo_lock c)\<rparr>)"

definition lo_UNLOCK :: "('q, 'g, 'c, 'x) cnet \<Rightarrow> ('q, 'g, 'c, 'x) cnet" where
  "lo_UNLOCK = upd_compat (\<lambda>c. c\<lparr>lo_lock := mx_give (lo_lock c)\<rparr>)"

definition SET_ERRNO :: "errno \<Rightarrow> ('q, 'g, 'c, 'x) cnet \<Rightarrow> ('q, 'g, 'c, 'x) cnet" where
  "SET_ERRNO e = upd_compat (\<lambda>c. c\<lparr>c_errno := Some e\<rparr>)"

text \<open>An access to memory outside of any object. It is recorded, and nothing is claimed of what
  follows it.\<close>

definition bad_access :: "('q, 'g, 'c, 'x) cnet \<Rightarrow> ('q, 'g, 'c, 'x) cnet" where
  "bad_access = upd_compat (\<lambda>c. c\<lparr>heap_fault := True\<rparr>)"

text \<open>\<open>SET_ERRNO(e); return -1;\<close>\<close>

definition fail :: "errno \<Rightarrow> ('q, 'g, 'c, 'x) cnet \<Rightarrow> int \<times> ('q, 'g, 'c, 'x) cnet" where
  "fail e n = (-1, SET_ERRNO e n)"

end
