(* ===== verification/Loopback.thy ===== *)
theory Loopback
  imports Compat_State
begin

text \<open>
  The in-process loopback for 127.0.0.0/8 (\<open>loopback.c\<close>): four slots from a UDP port to the
  descriptor that receives on it, a queue of datagram pointers per descriptor, and datagrams
  allocated on send and freed on receive. The port table provides the \<open>slot_table\<close> interface.
\<close>

definition LO_PORT_SLOTS :: nat where "LO_PORT_SLOTS = 4"

definition LO_QUEUE_DEPTH :: nat where "LO_QUEUE_DEPTH = 8"

definition is_loopback_ip :: "u32 \<Rightarrow> bool" where
  "is_loopback_ip ip_be \<longleftrightarrow> ip_be AND 0xFF = 127"

definition lock_init_once :: "('q, 'g, 'x) libc \<Rightarrow> ('q, 'g, 'c, 'x) cnet \<Rightarrow> ('q, 'g, 'c, 'x) cnet" where
  "lock_init_once K n =
     (if lo_inited (ext n) then n
      else let (ok, n1) = env_call (xSemaphoreCreateMutex K) n
           in upd_compat (\<lambda>c. c\<lparr>lo_lock := mx_boot\<lparr>mx_created := ok\<rparr>, lo_inited := True\<rparr>) n1)"

section \<open>The port table\<close>

text \<open>The loop of \<open>lo_bind\<close>: the slot of the port, or else the first free slot.\<close>

fun lo_scan :: "u16 \<Rightarrow> nat option \<Rightarrow> nat \<Rightarrow> lo_slot list \<Rightarrow> nat option \<times> nat option" where
  "lo_scan port free_slot i [] = (None, free_slot)"
| "lo_scan port free_slot i (s # ss) =
     (if lo_port s = port then (Some i, free_slot)
      else lo_scan port (if free_slot = None \<and> lo_port s = 0 then Some i else free_slot) (Suc i) ss)"

definition lo_slot_bind :: "u16 \<Rightarrow> nat \<Rightarrow> lo_slot list \<Rightarrow> lo_slot list option" where
  "lo_slot_bind port e slots =
     (case lo_scan port None 0 slots of
        (Some i, _) \<Rightarrow> Some (slots[i := (slots ! i)\<lparr>lo_fd := Some e\<rparr>])
      | (None, None) \<Rightarrow> None
      | (None, Some i) \<Rightarrow> Some (slots[i := \<lparr>lo_port = port, lo_fd = Some e\<rparr>]))"

definition lo_slot_unbind :: "u16 \<Rightarrow> nat \<Rightarrow> lo_slot list \<Rightarrow> lo_slot list" where
  "lo_slot_unbind port e = map (\<lambda>s. if lo_port s = port \<and> lo_fd s = Some e then lo_slot_free else s)"

definition lo_target :: "u16 \<Rightarrow> lo_slot list \<Rightarrow> nat option" where
  "lo_target port slots = (case first_idx (\<lambda>s. lo_port s = port) slots of None \<Rightarrow> None | Some i \<Rightarrow> lo_fd (slots ! i))"

section \<open>Datagrams\<close>

text \<open>\<open>malloc\<close> and the initialisation of the datagram, \<open>free\<close>, and the read of a datagram.\<close>

definition msg_alloc :: "('q, 'g, 'x) libc \<Rightarrow> lo_msg \<Rightarrow> ('q, 'g, 'c, 'x) cnet \<Rightarrow> nat option \<times> ('q, 'g, 'c, 'x) cnet" where
  "msg_alloc K m n =
     (let (ok, n1) = env_call (malloc K (8 + length (lo_data m))) n
      in if ok then (Some (length (lo_heap (ext n1))), upd_compat (\<lambda>c. c\<lparr>lo_heap := lo_heap c @ [Some m]\<rparr>) n1)
         else (None, n1))"

definition msg_live :: "nat \<Rightarrow> lo_msg option list \<Rightarrow> bool" where
  "msg_live a h \<longleftrightarrow> a < length h \<and> h ! a \<noteq> None"

definition msg_free :: "nat \<Rightarrow> ('q, 'g, 'c, 'x) cnet \<Rightarrow> ('q, 'g, 'c, 'x) cnet" where
  "msg_free a = upd_compat (\<lambda>c. c\<lparr>lo_heap := (lo_heap c)[a := None], heap_fault := (heap_fault c \<or> \<not> msg_live a (lo_heap c))\<rparr>)"

text \<open>The loop that drains a queue; the number of waiting messages is enough rounds.\<close>

fun lo_drain :: "('q, 'g, ('q, 'g, 'x) compat) platform \<Rightarrow> nat \<Rightarrow> nat \<Rightarrow> ('q, 'g, 'c, 'x) cnet \<Rightarrow> ('q, 'g, 'c, 'x) cnet" where
  "lo_drain P 0 e n = n"
| "lo_drain P (Suc k) e n =
     (case lo_rx (entry e n) of None \<Rightarrow> n
      | Some q \<Rightarrow>
          (case xQueueReceive (queues P) q of None \<Rightarrow> n
           | Some (m, q') \<Rightarrow> lo_drain P k e (msg_free m (upd_entry e (\<lambda>f. f\<lparr>lo_rx := Some q'\<rparr>) n))))"

section \<open>The operations\<close>

definition lo_bind ::
  "('q, 'g, 'x) libc \<Rightarrow> u16 \<Rightarrow> nat option \<Rightarrow> ('q, 'g, 'c, 'x) cnet \<Rightarrow> esp_err \<times> ('q, 'g, 'c, 'x) cnet" where
  "lo_bind K port eo n =
     (case eo of None \<Rightarrow> (ESP_ERR_INVALID_ARG, n)
      | Some e \<Rightarrow>
          if port = 0 then (ESP_ERR_INVALID_ARG, n)
          else
            let n1 = lock_init_once K n;
                (q, n2) = (case lo_rx (entry e n1) of Some q \<Rightarrow> (Some q, n1) | None \<Rightarrow> env_call (xQueueCreate K LO_QUEUE_DEPTH) n1);
                n3 = upd_entry e (\<lambda>f. f\<lparr>lo_rx := q\<rparr>) n2
            in if q = None then (ESP_ERR_NO_MEM, n3)
               else
                 let n4 = lo_LOCK (upd_entry e (\<lambda>f. f\<lparr>loopback := True\<rparr>) n3)
                 in case lo_slot_bind port e (s_slots (ext n4)) of
                      None \<Rightarrow> (ESP_ERR_NO_MEM, lo_UNLOCK n4)
                    | Some slots \<Rightarrow> (ESP_OK, lo_UNLOCK (upd_compat (\<lambda>c. c\<lparr>s_slots := slots\<rparr>) n4)))"

definition lo_unbind ::
  "('q, 'g, ('q, 'g, 'x) compat) platform \<Rightarrow> ('q, 'g, 'x) libc \<Rightarrow> u16 \<Rightarrow> nat \<Rightarrow> ('q, 'g, 'c, 'x) cnet \<Rightarrow> ('q, 'g, 'c, 'x) cnet" where
  "lo_unbind P K port e n =
     (let n1 = lo_LOCK (lock_init_once K n);
          n2 = lo_UNLOCK (upd_compat (\<lambda>c. c\<lparr>s_slots := lo_slot_unbind port e (s_slots c)\<rparr>) n1)
      in case lo_rx (entry e n2) of None \<Rightarrow> n2
         | Some q \<Rightarrow> lo_drain P (uxQueueMessagesWaiting (queues P) q) e n2)"

definition lo_deliver ::
  "('q, 'g, ('q, 'g, 'x) compat) platform \<Rightarrow> ('q, 'g, 'x) libc \<Rightarrow> u16 \<Rightarrow> u32 \<Rightarrow> u16 \<Rightarrow> u8 list option \<Rightarrow> ('q, 'g, 'c, 'x) cnet
     \<Rightarrow> int \<times> ('q, 'g, 'c, 'x) cnet" where
  "lo_deliver P K dst_port src_be src_port buf n =
     (case buf of None \<Rightarrow> (-1, n)
      | Some bs \<Rightarrow>
          if length bs > 65535 then (-1, n)
          else
            let n1 = lo_LOCK (lock_init_once K n);
                target = lo_target dst_port (s_slots (ext n1));
                n2 = lo_UNLOCK n1
            in case target of None \<Rightarrow> (-1, n2)
               | Some e \<Rightarrow>
                   (case lo_rx (entry e n2) of None \<Rightarrow> (-1, n2)
                    | Some q \<Rightarrow>
                        (case msg_alloc K \<lparr>lo_src_be = src_be, lo_src_port = src_port, lo_data = bs\<rparr> n2 of
                           (None, n3) \<Rightarrow> (-1, n3)
                         | (Some a, n3) \<Rightarrow>
                             (case xQueueSend (queues P) q a of
                                None \<Rightarrow> (-1, msg_free a n3)
                              | Some q' \<Rightarrow> (int (length bs), upd_entry e (\<lambda>f. f\<lparr>lo_rx := Some q'\<rparr>) n3)))))"

section \<open>The port table as a finite map\<close>

lemma map_option_Suc_plus: "map_option ((+) (Suc i)) x = map_option ((+) i) (map_option Suc x)"
  by (cases x) simp_all

lemma lo_scan_fst: "fst (lo_scan port fr i slots) = map_option ((+) i) (first_idx (\<lambda>s. lo_port s = port) slots)"
  by (induction slots arbitrary: fr i) (simp_all add: map_option_Suc_plus)

lemma lo_scan_free:
  "\<forall>s \<in> set slots. lo_port s \<noteq> port \<Longrightarrow>
     snd (lo_scan port fr i slots) = (if fr = None then map_option ((+) i) (first_idx (\<lambda>s. lo_port s = 0) slots) else fr)"
  by (induction slots arbitrary: fr i) (auto simp: map_option_Suc_plus)

lemma lo_slot_bind_cases:
  "lo_slot_bind port e slots =
     (case first_idx (\<lambda>s. lo_port s = port) slots of
        Some i \<Rightarrow> Some (slots[i := (slots ! i)\<lparr>lo_fd := Some e\<rparr>])
      | None \<Rightarrow> map_option (\<lambda>i. slots[i := \<lparr>lo_port = port, lo_fd = Some e\<rparr>]) (first_idx (\<lambda>s. lo_port s = 0) slots))"
proof -
  obtain a b where ab: "lo_scan port None 0 slots = (a, b)" by force
  have z: "map_option ((+) 0) x = x" for x :: "nat option" by (cases x) simp_all
  have a: "a = first_idx (\<lambda>s. lo_port s = port) slots"
    using lo_scan_fst [of port None 0 slots] ab by (simp add: z)
  have b: "b = first_idx (\<lambda>s. lo_port s = 0) slots" if "a = None"
    using lo_scan_free [of slots port None 0] ab that a by (simp add: z)
  show ?thesis
    unfolding a [symmetric] using ab b by (cases a) (auto simp: lo_slot_bind_def split: option.split)
qed

text \<open>The table has the shape of the tap table of the stack, with the port as the key.\<close>

definition as_tap :: "lo_slot \<Rightarrow> l2_tap" where
  "as_tap s = \<lparr>ethertype = lo_port s, tap_cb = lo_fd s, tap_user = 0\<rparr>"

definition lo_lookup :: "lo_slot list \<Rightarrow> u16 \<Rightarrow> nat option" where
  "lo_lookup slots port = (if port = 0 then None else lo_target port slots)"

definition lo_release :: "u16 \<Rightarrow> lo_slot list \<Rightarrow> lo_slot list" where
  "lo_release port slots = (case lo_lookup slots port of None \<Rightarrow> slots | Some e \<Rightarrow> lo_slot_unbind port e slots)"

definition slots_ok :: "lo_slot list \<Rightarrow> bool" where
  "slots_ok slots \<longleftrightarrow> taps_ok (map as_tap slots)"

lemma first_idx_map: "first_idx P (map f xs) = first_idx (\<lambda>x. P (f x)) xs"
  by (induction xs) simp_all

lemma bind_as_tap: "map_option (map as_tap) (lo_slot_bind port e slots) = tap_bind port (e, 0) (map as_tap slots)"
  by (auto simp: lo_slot_bind_cases tap_bind_def tap_slots_def first_idx_map as_tap_def map_update
      simp del: first_idx_None_iff dest: first_idx_lt split: option.split)

lemma lookup_as_tap:
  assumes "slots_ok slots"
  shows "tap_lookup (map as_tap slots) = (\<lambda>p. map_option (\<lambda>e. (e, 0)) (lo_lookup slots p))"
proof
  fix p
  show "tap_lookup (map as_tap slots) p = map_option (\<lambda>e. (e, 0)) (lo_lookup slots p)"
  proof (cases "p = 0 \<or> first_idx (\<lambda>s. lo_port s = p) slots = None")
    case True
    then have "p \<noteq> 0 \<Longrightarrow> \<forall>t \<in> set (map as_tap slots). ethertype t \<noteq> p" by (auto simp: as_tap_def)
    then have "tap_lookup (map as_tap slots) p = None"
      using tap_lookup_None_iff [OF assms [unfolded slots_ok_def], of p] by (cases "p = 0") (auto simp: tap_lookup_def)
    with True show ?thesis by (auto simp: lo_lookup_def lo_target_def simp del: first_idx_None_iff)
  next
    case False
    then obtain i where p: "p \<noteq> 0" and i: "first_idx (\<lambda>s. lo_port s = p) slots = Some i"
      by (auto simp del: first_idx_None_iff)
    from tap_lookup_at(1) [OF assms [unfolded slots_ok_def], of i p] first_idx_lt [OF i] first_idx_holds [OF i] p i
    show ?thesis by (simp add: lo_lookup_def lo_target_def as_tap_def)
  qed
qed

lemma lookup_of_tap: "slots_ok slots \<Longrightarrow> lo_lookup slots p = map_option fst (tap_lookup (map as_tap slots) p)"
  by (simp add: lookup_as_tap option.map_comp comp_def map_option.identity)

lemma release_as_tap:
  assumes ok: "slots_ok slots" and p: "port \<noteq> 0"
  shows "map as_tap (lo_release port slots) = tap_unbind port (map as_tap slots)"
proof (cases "first_idx (\<lambda>s. lo_port s = port) slots")
  case None
  then show ?thesis
    by (simp add: lo_release_def lo_lookup_def lo_target_def p tap_unbind_def tap_slots_def first_idx_map as_tap_def
        del: first_idx_None_iff)
next
  case (Some i)
  note i = first_idx_lt [OF Some] first_idx_holds [OF Some]
  have u: "j = i" if "j < length slots" "lo_port (slots ! j) = port" for j
    using ok i that p unfolding slots_ok_def taps_ok_def by (simp add: as_tap_def)
  have cb: "lo_fd (slots ! i) \<noteq> None"
    using ok i p nth_mem [OF i(1)] unfolding slots_ok_def taps_ok_def by (auto simp: as_tap_def)
  then obtain e where e: "lo_fd (slots ! i) = Some e" by blast
  have "lo_slot_unbind port e slots = slots[i := lo_slot_free]"
  proof (rule nth_equalityI)
    fix j assume "j < length (lo_slot_unbind port e slots)"
    then have j: "j < length slots" by (simp add: lo_slot_unbind_def)
    show "lo_slot_unbind port e slots ! j = slots[i := lo_slot_free] ! j"
    proof (cases "j = i")
      case True
      with i e show ?thesis by (simp add: lo_slot_unbind_def)
    next
      case False
      with u [OF j] j show ?thesis by (auto simp: lo_slot_unbind_def)
    qed
  qed (simp add: lo_slot_unbind_def)
  moreover have "tap_unbind port (map as_tap slots) = (map as_tap slots)[i := as_tap lo_slot_free]"
    using Some i by (simp add: tap_unbind_def tap_slots_def first_idx_map as_tap_def lo_slot_free_def)
  ultimately show ?thesis
    using Some p e by (simp add: lo_release_def lo_lookup_def lo_target_def map_update)
qed

interpretation lo_ports: slot_table lo_lookup lo_slot_bind lo_release slots_ok "\<lambda>p. p \<noteq> 0" LO_PORT_SLOTS
proof
  fix t t' :: "lo_slot list" and k :: u16 and v :: nat
  assume ok: "slots_ok t"
  have dom: "dom (lo_lookup t) = dom (tap_lookup (map as_tap t))"
    unfolding lookup_as_tap [OF ok] by (auto simp: dom_def)
  note T = ok [unfolded slots_ok_def]
  have N: "L2_TAP_SLOTS = LO_PORT_SLOTS" by (simp add: L2_TAP_SLOTS_def LO_PORT_SLOTS_def)
  show "finite (dom (lo_lookup t)) \<and> card (dom (lo_lookup t)) \<le> LO_PORT_SLOTS"
    using taps.dom_bound [OF T] unfolding dom N .
  assume k: "k \<noteq> 0"
  show "slots_ok t' \<and> lo_lookup t' = (lo_lookup t)(k \<mapsto> v)" if "lo_slot_bind k v t = Some t'"
  proof -
    have "tap_bind k (v, 0) (map as_tap t) = Some (map as_tap t')"
      using bind_as_tap [of k v t] that by simp
    note b = taps.bind_SomeD [OF T k this]
    then have "slots_ok t'" by (simp add: slots_ok_def)
    with b lookup_of_tap [OF ok] lookup_of_tap [of t'] show ?thesis by (auto simp: fun_eq_iff)
  qed
  show "lo_slot_bind k v t = None \<longleftrightarrow> lo_lookup t k = None \<and> card (dom (lo_lookup t)) = LO_PORT_SLOTS"
    using taps.bind_None_iff [OF T k, of "(v, 0)"] bind_as_tap [of k v t, symmetric]
    unfolding dom N by (simp add: lookup_of_tap [OF ok])
  show "slots_ok (lo_release k t) \<and> lo_lookup (lo_release k t) = (lo_lookup t)(k := None)"
  proof -
    note u = taps.unbind [OF T k, folded release_as_tap [OF ok k]]
    then have "slots_ok (lo_release k t)" by (simp add: slots_ok_def)
    with u lookup_of_tap [OF ok] lookup_of_tap [of "lo_release k t"] show ?thesis by (auto simp: fun_eq_iff)
  qed
qed

end
