(* ===== verification/Fd_Table.thy ===== *)
theory Fd_Table
  imports Loopback
begin

text \<open>
  The descriptor table of the shim (\<open>fd_table.c\<close>): descriptors are indices of a static table
  plus an offset. The table provides the \<open>slab\<close> interface, an allocator over a fixed set.
\<close>

definition fd_offset :: "compat_config \<Rightarrow> int" where
  "fd_offset cfg = LWIP_SOCKET_OFFSET cfg"

text \<open>The loop that creates the event groups of the entries.\<close>

fun fd_init_loop :: "('q, 'g, 'x) libc \<Rightarrow> nat list \<Rightarrow> ('q, 'g, 'c, 'x) cnet \<Rightarrow> ('q, 'g, 'c, 'x) cnet" where
  "fd_init_loop K [] n = n"
| "fd_init_loop K (i # is) n =
     (let (g, n1) = env_call (xEventGroupCreate K) n
      in fd_init_loop K is (upd_entry i (\<lambda>f. f\<lparr>evt := g\<rparr>) n1))"

definition fd_table_init ::
  "compat_config \<Rightarrow> ('q, 'g, 'x) libc \<Rightarrow> ('q, 'g, 'c, 'x) cnet \<Rightarrow> esp_err \<times> ('q, 'g, 'c, 'x) cnet" where
  "fd_table_init cfg K n =
     (if mx_created (fd_lock (ext n)) then (ESP_OK, n)
      else let (ok, n1) = env_call (xSemaphoreCreateMutex K) n
           in if \<not> ok then (ESP_ERR_NO_MEM, n1)
              else (ESP_OK, fd_init_loop K [0..<MAX_FDS cfg]
                     (upd_compat (\<lambda>c. c\<lparr>fd_lock := mx_boot\<lparr>mx_created := True\<rparr>\<rparr>) n1)))"

definition fd_is_socket :: "compat_config \<Rightarrow> int \<Rightarrow> ('q, 'g, 'c, 'x) cnet \<Rightarrow> bool" where
  "fd_is_socket cfg fd n \<longleftrightarrow>
     (let i = fd - fd_offset cfg in i \<ge> 0 \<and> i < int (MAX_FDS cfg) \<and> kind (entry (nat i) n) \<noteq> FD_FREE)"

definition fd_default_iface ::
  "compat_config \<Rightarrow> 'c smoltcp \<Rightarrow> ('q, 'g, 'c, 'x) cnet \<Rightarrow> nat \<times> ('q, 'g, 'c, 'x) cnet" where
  "fd_default_iface cfg S n =
     (let (a, b) = (if DEFAULT_IFACE_ETH cfg then (NET_IFACE_ETH, NET_IFACE_WIFI) else (NET_IFACE_WIFI, NET_IFACE_ETH));
          (ip, n1) = net_stack_get_ipv4 S a n
      in if ip \<noteq> 0 then (a, n1)
         else let (ip2, n2) = net_stack_get_ipv4 S b n1
              in if ip2 \<noteq> 0 then (b, n2) else (a, n2))"

definition fd_alloc ::
  "compat_config \<Rightarrow> ('q, 'g, ('q, 'g, 'x) compat) platform \<Rightarrow> ('q, 'g, 'x) libc \<Rightarrow> 'c smoltcp \<Rightarrow> fd_kind \<Rightarrow> ('q, 'g, 'c, 'x) cnet
     \<Rightarrow> int \<times> ('q, 'g, 'c, 'x) cnet" where
  "fd_alloc cfg P K S k n =
     (let n1 = (if mx_created (fd_lock (ext n)) then n else snd (fd_table_init cfg K n));
          n2 = fd_LOCK n1
      in case first_idx (\<lambda>f. kind f = FD_FREE) (s_table (ext n2)) of
           None \<Rightarrow> (-1, fd_UNLOCK n2)
         | Some i \<Rightarrow>
             let n3 = upd_entry i (\<lambda>f. (fd_zero (evt f))\<lparr>kind := k, sock := NET_SOCK_INVALID\<rparr>) n2;
                 (ifc, n4) = fd_default_iface cfg S n3;
                 n5 = upd_entry i (\<lambda>f. f\<lparr>fd_iface := ifc, evt := map_option (xEventGroupClearBits P 0xFF) (evt f)\<rparr>) n4
             in (fd_offset cfg + int i, fd_UNLOCK n5))"

definition fd_get :: "compat_config \<Rightarrow> int \<Rightarrow> ('q, 'g, 'c, 'x) cnet \<Rightarrow> nat option" where
  "fd_get cfg fd n =
     (let i = fd - fd_offset cfg
      in if i < 0 \<or> i \<ge> int (MAX_FDS cfg) then None
         else if kind (entry (nat i) n) = FD_FREE then None
         else Some (nat i))"

text \<open>Closing the sockets of a listener pool.\<close>

fun pool_close :: "'c smoltcp \<Rightarrow> net_sock list \<Rightarrow> ('q, 'g, 'c, 'e) net \<Rightarrow> ('q, 'g, 'c, 'e) net" where
  "pool_close S [] n = n"
| "pool_close S (s # ss) n = pool_close S ss (if net_sock_valid s then snd (net_tcp_close S s n) else n)"

definition fd_free_loopback ::
  "('q, 'g, ('q, 'g, 'x) compat) platform \<Rightarrow> ('q, 'g, 'x) libc \<Rightarrow> nat \<Rightarrow> ('q, 'g, 'c, 'x) cnet \<Rightarrow> ('q, 'g, 'c, 'x) cnet" where
  "fd_free_loopback P K e n =
     (if loopback (entry e n)
      then upd_entry e (\<lambda>f. f\<lparr>lo_rx := None, loopback := False\<rparr>) (lo_unbind P K (local_port (entry e n)) e n)
      else n)"

definition fd_free_sock :: "'c smoltcp \<Rightarrow> nat \<Rightarrow> ('q, 'g, 'c, 'x) cnet \<Rightarrow> ('q, 'g, 'c, 'x) cnet" where
  "fd_free_sock S e n =
     (if net_sock_valid (sock (entry e n))
      then snd (if kind (entry e n) = FD_UDP then net_udp_close S (sock (entry e n)) n else net_tcp_close S (sock (entry e n)) n)
      else n)"

definition fd_free_pool :: "'c smoltcp \<Rightarrow> nat \<Rightarrow> ('q, 'g, 'c, 'x) cnet \<Rightarrow> ('q, 'g, 'c, 'x) cnet" where
  "fd_free_pool S e n =
     (case pool (entry e n) of None \<Rightarrow> n | Some ss \<Rightarrow> pool_close S (take (pool_len (entry e n)) ss) n)"

definition fd_free ::
  "compat_config \<Rightarrow> ('q, 'g, ('q, 'g, 'x) compat) platform \<Rightarrow> ('q, 'g, 'x) libc \<Rightarrow> 'c smoltcp \<Rightarrow> int \<Rightarrow> ('q, 'g, 'c, 'x) cnet
     \<Rightarrow> ('q, 'g, 'c, 'x) cnet" where
  "fd_free cfg P K S fd n =
     (case fd_get cfg fd n of None \<Rightarrow> n
      | Some e \<Rightarrow>
          fd_UNLOCK (upd_entry e (\<lambda>f. f\<lparr>pool_freed := (pool f \<noteq> None), kind := FD_FREE\<rparr>)
            (fd_free_pool S e (fd_free_sock S e (fd_free_loopback P K e (fd_LOCK n))))))"

end
