(* ===== verification/Sock_Wrap.thy ===== *)
theory Sock_Wrap
  imports Fd_Table
begin

text \<open>
  The BSD socket calls of the shim (\<open>sock_wrap.c\<close>), one definition per \<open>__wrap_lwip_*\<close>
  function, named after it without the prefix. A result is the returned integer, with the
  output parameters beside it, and the new state; calls that may block return an option, \<open>None\<close>
  when they do not return. Output buffers are returned as byte lists. The domain, the level and
  name of a socket option and the commands of \<open>fcntl\<close> and \<open>ioctl\<close> are constants of headers
  outside the repository: fields of the configuration where the code computes with them,
  constructors of a datatype where it only compares them.
\<close>

section \<open>Addresses\<close>

record sockaddr_in =
  sin_family :: int
  sin_port :: u16
  s_addr :: u32

definition sizeof_sockaddr_in :: nat where "sizeof_sockaddr_in = 16"

text \<open>\<open>ntohs\<close> and \<open>htons\<close> on the little-endian target.\<close>

definition ntohs :: "u16 \<Rightarrow> u16" where
  "ntohs x = push_bit 8 x OR drop_bit 8 x"

text \<open>The entry of a descriptor that \<open>fd_alloc\<close> has just returned.\<close>

definition new_entry :: "compat_config \<Rightarrow> int \<Rightarrow> nat" where
  "new_entry cfg fd = nat (fd - fd_offset cfg)"

section \<open>socket, bind\<close>

definition lwip_socket ::
  "compat_config \<Rightarrow> ('q, 'g, ('q, 'g, 'x) compat) platform \<Rightarrow> ('q, 'g, 'x) libc \<Rightarrow> 'c smoltcp \<Rightarrow> int \<Rightarrow> u32 \<Rightarrow> ('q, 'g, 'c, 'x) cnet
     \<Rightarrow> int \<times> ('q, 'g, 'c, 'x) cnet" where
  "lwip_socket cfg P K S domain typ n =
     (if domain \<noteq> AF_INET cfg then fail EAFNOSUPPORT n
      else if typ AND 0xFF \<noteq> SOCK_STREAM cfg \<and> typ AND 0xFF \<noteq> SOCK_DGRAM cfg then fail EPROTONOSUPPORT n
      else
        let k = (if typ AND 0xFF = SOCK_STREAM cfg then FD_TCP else FD_UDP);
            (fd, n1) = fd_alloc cfg P K S k n
        in if fd < 0 then fail ENFILE n1
           else
             let e = new_entry cfg fd;
                 n2 = upd_entry e (\<lambda>f. f\<lparr>nonblocking := False\<rparr>) n1
             in if k = FD_UDP
                then let (s, n3) = net_udp_open S (fd_iface (entry e n2)) 0 n2;
                         n4 = upd_entry e (\<lambda>f. f\<lparr>sock := s\<rparr>) n3
                     in if \<not> net_sock_valid s then fail ENOBUFS (fd_free cfg P K S fd n4) else (fd, n4)
                else (fd, n2))"

definition lwip_bind ::
  "compat_config \<Rightarrow> ('q, 'g, 'x) libc \<Rightarrow> 'c smoltcp \<Rightarrow> int \<Rightarrow> sockaddr_in \<Rightarrow> nat \<Rightarrow> ('q, 'g, 'c, 'x) cnet \<Rightarrow> int \<times> ('q, 'g, 'c, 'x) cnet" where
  "lwip_bind cfg K S fd addr alen n =
     (case fd_get cfg fd n of None \<Rightarrow> fail EINVAL n
      | Some e \<Rightarrow>
          if alen < sizeof_sockaddr_in \<or> sin_family addr \<noteq> AF_INET cfg then fail EINVAL n
          else
            let n1 = upd_entry e (\<lambda>f. f\<lparr>local_ipv4_be := s_addr addr, local_port := ntohs (sin_port addr)\<rparr>) n
            in if kind (entry e n1) = FD_UDP
               then if is_loopback_ip (s_addr addr)
                    then let (er, n2) = lo_bind K (ntohs (sin_port addr)) (Some e) n1 in (if er = ESP_OK then 0 else -1, n2)
                    else
                      let n2 = (if net_sock_valid (sock (entry e n1)) then snd (net_udp_close S (sock (entry e n1)) n1) else n1);
                          (s, n3) = net_udp_open S (fd_iface (entry e n2)) (ntohs (sin_port addr)) n2;
                          n4 = upd_entry e (\<lambda>f. f\<lparr>sock := s\<rparr>) n3
                      in if \<not> net_sock_valid s then fail EADDRINUSE n4 else (0, n4)
               else (0, n1))"

section \<open>listen, accept\<close>

definition set_pool :: "nat \<Rightarrow> nat \<Rightarrow> net_sock \<Rightarrow> ('q, 'g, 'c, 'x) cnet \<Rightarrow> ('q, 'g, 'c, 'x) cnet" where
  "set_pool e i s = upd_entry e (\<lambda>f. f\<lparr>pool := map_option (\<lambda>ss. ss[i := s]) (pool f)\<rparr>)"

text \<open>The loop that arms the slots of the pool.\<close>

fun arm_pool :: "'c smoltcp \<Rightarrow> nat \<Rightarrow> nat list \<Rightarrow> ('q, 'g, 'c, 'x) cnet \<Rightarrow> int \<times> ('q, 'g, 'c, 'x) cnet" where
  "arm_pool S e [] n = (0, n)"
| "arm_pool S e (i # is) n =
     (let (s, n1) = net_tcp_open S (fd_iface (entry e n)) n;
          n2 = set_pool e i s n1
      in if \<not> net_sock_valid s then fail ENOBUFS n2
         else let (er, n3) = net_tcp_listen S s (fd_port (entry e n2)) n2
              in if er \<noteq> ESP_OK then fail EADDRINUSE n3 else arm_pool S e is n3)"

definition pool_size :: "compat_config \<Rightarrow> int \<Rightarrow> nat" where
  "pool_size cfg backlog = (if backlog > 0 then min (nat backlog) (LISTENER_POOL cfg) else LISTENER_POOL cfg)"

definition lwip_listen ::
  "compat_config \<Rightarrow> ('q, 'g, 'x) libc \<Rightarrow> 'c smoltcp \<Rightarrow> int \<Rightarrow> int \<Rightarrow> ('q, 'g, 'c, 'x) cnet \<Rightarrow> int \<times> ('q, 'g, 'c, 'x) cnet" where
  "lwip_listen cfg K S fd backlog n =
     (case fd_get cfg fd n of None \<Rightarrow> fail EBADF n
      | Some e \<Rightarrow>
          if kind (entry e n) \<noteq> FD_TCP then fail EBADF n
          else if local_port (entry e n) = 0 then fail EINVAL n
          else
            let sz = pool_size cfg backlog;
                (ok, n1) = env_call (malloc K (sz * 4)) n;
                n2 = upd_entry e (\<lambda>f. f\<lparr>pool := (if ok then Some (replicate sz NET_SOCK_INVALID) else None)\<rparr>) n1
            in if \<not> ok then fail ENOMEM n2
               else arm_pool S e [0..<sz]
                      (upd_entry e (\<lambda>f. f\<lparr>pool_freed := False, pool_len := sz, pool_next := 0, fd_port := local_port f, kind := FD_TCP_LISTEN\<rparr>) n2))"

text \<open>The inner loop of \<open>accept\<close>: the first connected socket of the pool, from \<open>pool_next\<close> on.\<close>

fun accept_scan :: "'c smoltcp \<Rightarrow> nat \<Rightarrow> nat list \<Rightarrow> ('q, 'g, 'c, 'x) cnet \<Rightarrow> nat option \<times> ('q, 'g, 'c, 'x) cnet" where
  "accept_scan S e [] n = (None, n)"
| "accept_scan S e (i # is) n =
     (let idx = (pool_next (entry e n) + i) mod pool_len (entry e n);
          (c, n1) = net_tcp_is_connected S (the (pool (entry e n)) ! idx) n
      in if c then (Some idx, n1) else accept_scan S e is n1)"

text \<open>Handing the socket in slot \<open>idx\<close> over to a new descriptor. \<open>want\<close> tells whether the caller
  passed a buffer for the peer address.\<close>

definition accept_take ::
  "compat_config \<Rightarrow> ('q, 'g, ('q, 'g, 'x) compat) platform \<Rightarrow> ('q, 'g, 'x) libc \<Rightarrow> 'c smoltcp \<Rightarrow> nat \<Rightarrow> nat \<Rightarrow> bool \<Rightarrow> ('q, 'g, 'c, 'x) cnet
     \<Rightarrow> (int \<times> sockaddr_in option) \<times> ('q, 'g, 'c, 'x) cnet" where
  "accept_take cfg P K S e idx want n =
     (let cand = the (pool (entry e n)) ! idx;
          (newfd, n1) = fd_alloc cfg P K S FD_TCP n
      in if newfd < 0 then ((-1, None), SET_ERRNO ENFILE n1)
         else
           let n2 = upd_entry (new_entry cfg newfd) (\<lambda>f. f\<lparr>sock := cand, connected := True, fd_iface := fd_iface (entry e n1), nonblocking := False\<rparr>) n1;
               (s, n3) = net_tcp_open S (fd_iface (entry e n2)) n2;
               n4 = set_pool e idx s n3;
               n5 = (if net_sock_valid s then snd (net_tcp_listen S s (fd_port (entry e n4)) n4) else n4);
               n6 = upd_entry e (\<lambda>f. f\<lparr>pool_next := (idx + 1) mod pool_len f\<rparr>) n5
           in ((newfd, if want then Some \<lparr>sin_family = AF_INET cfg, sin_port = 0, s_addr = 0\<rparr> else None), n6))"

text \<open>The loop of \<open>accept\<close> reads the pool again after each wait: of a listener that was closed
  meanwhile it reads the freed array.\<close>

definition pool_access :: "nat \<Rightarrow> ('q, 'g, 'c, 'x) cnet \<Rightarrow> ('q, 'g, 'c, 'x) cnet" where
  "pool_access e n = (if pool_freed (entry e n) \<and> 0 < pool_len (entry e n) then bad_access n else n)"

partial_function (option) accept_loop ::
  "compat_config \<Rightarrow> ('q, 'g, ('q, 'g, 'x) compat) platform \<Rightarrow> ('q, 'g, 'c, ('q, 'g, 'x) compat) rtos \<Rightarrow> ('q, 'g, 'x) libc \<Rightarrow> 'c smoltcp
     \<Rightarrow> nat \<Rightarrow> bool \<Rightarrow> u32 \<Rightarrow> ('q, 'g, 'c, 'x) cnet \<Rightarrow> ((int \<times> sockaddr_in option) \<times> ('q, 'g, 'c, 'x) cnet) option" where
  "accept_loop cfg P R K S e want start n =
     (let (found, n1) = accept_scan S e [0..<pool_len (entry e n)] (pool_access e n)
      in case found of
           Some idx \<Rightarrow> Some (accept_take cfg P K S e idx want n1)
         | None \<Rightarrow>
             if nonblocking (entry e n1) then Some ((-1, None), SET_ERRNO EWOULDBLOCK n1)
             else let (now, n2) = tick_count P n1
                  in if now - start > pdMS_TO_TICKS P 60000 then Some ((-1, None), SET_ERRNO ETIMEDOUT n2)
                     else accept_loop cfg P R K S e want start (vTaskDelay R (pdMS_TO_TICKS P 2) n2))"

definition lwip_accept ::
  "compat_config \<Rightarrow> ('q, 'g, ('q, 'g, 'x) compat) platform \<Rightarrow> ('q, 'g, 'c, ('q, 'g, 'x) compat) rtos \<Rightarrow> ('q, 'g, 'x) libc \<Rightarrow> 'c smoltcp
     \<Rightarrow> int \<Rightarrow> nat option \<Rightarrow> ('q, 'g, 'c, 'x) cnet \<Rightarrow> ((int \<times> sockaddr_in option) \<times> ('q, 'g, 'c, 'x) cnet) option" where
  "lwip_accept cfg P R K S fd alen n =
     (case fd_get cfg fd n of None \<Rightarrow> Some ((-1, None), SET_ERRNO EBADF n)
      | Some e \<Rightarrow>
          if kind (entry e n) \<noteq> FD_TCP_LISTEN then Some ((-1, None), SET_ERRNO EBADF n)
          else let (start, n1) = tick_count P n
               in accept_loop cfg P R K S e (case alen of None \<Rightarrow> False | Some l \<Rightarrow> l \<ge> sizeof_sockaddr_in) start n1)"

section \<open>connect\<close>

definition timeout_or :: "u32 \<Rightarrow> u32 \<Rightarrow> u32" where
  "timeout_or t d = (if t \<noteq> 0 then t else d)"

definition lwip_connect ::
  "compat_config \<Rightarrow> ('q, 'g, ('q, 'g, 'x) compat) platform \<Rightarrow> ('q, 'g, 'c, ('q, 'g, 'x) compat) rtos \<Rightarrow> 'c smoltcp
     \<Rightarrow> int \<Rightarrow> sockaddr_in \<Rightarrow> nat \<Rightarrow> ('q, 'g, 'c, 'x) cnet \<Rightarrow> (int \<times> ('q, 'g, 'c, 'x) cnet) option" where
  "lwip_connect cfg P R S fd addr alen n =
     (case fd_get cfg fd n of None \<Rightarrow> Some (fail EINVAL n)
      | Some e \<Rightarrow>
          if alen < sizeof_sockaddr_in then Some (fail EINVAL n)
          else case kind (entry e n) of
              FD_TCP \<Rightarrow>
                let (s, n1) = net_tcp_open S (fd_iface (entry e n)) n;
                    n2 = upd_entry e (\<lambda>f. f\<lparr>sock := s\<rparr>) n1
                in if \<not> net_sock_valid s then Some (fail ENOBUFS n2)
                   else map_option (\<lambda>(er, n3).
                          if er \<noteq> ESP_OK then fail ETIMEDOUT n3 else (0, upd_entry e (\<lambda>f. f\<lparr>connected := True\<rparr>) n3))
                        (net_tcp_connect P R S s (s_addr addr) (ntohs (sin_port addr)) (timeout_or (snd_timeout_ms (entry e n2)) 30000) n2)
            | FD_UDP \<Rightarrow>
                Some (0, upd_entry e (\<lambda>f. f\<lparr>local_ipv4_be := s_addr addr, local_port := ntohs (sin_port addr), connected := True\<rparr>) n)
            | _ \<Rightarrow> Some (fail EBADF n))"

section \<open>send, recv, sendto, recvfrom\<close>

definition lwip_send ::
  "compat_config \<Rightarrow> ('q, 'g, ('q, 'g, 'x) compat) platform \<Rightarrow> ('q, 'g, 'c, ('q, 'g, 'x) compat) rtos \<Rightarrow> 'c smoltcp
     \<Rightarrow> int \<Rightarrow> u8 list \<Rightarrow> ('q, 'g, 'c, 'x) cnet \<Rightarrow> (int \<times> ('q, 'g, 'c, 'x) cnet) option" where
  "lwip_send cfg P R S fd buf n =
     (case fd_get cfg fd n of None \<Rightarrow> Some (fail ENOTCONN n)
      | Some e \<Rightarrow>
          if \<not> connected (entry e n) then Some (fail ENOTCONN n)
          else case kind (entry e n) of
              FD_TCP \<Rightarrow> net_tcp_send P R S (sock (entry e n)) buf (timeout_or (snd_timeout_ms (entry e n)) 5000) n
            | FD_UDP \<Rightarrow> Some (net_udp_sendto S (sock (entry e n)) buf (local_ipv4_be (entry e n)) (local_port (entry e n)) n)
            | _ \<Rightarrow> Some (fail EBADF n))"

text \<open>The receive time-out of a descriptor, and the result of a receive that found nothing.\<close>

definition recv_timeout :: "('q, 'g) fd_entry \<Rightarrow> u32" where
  "recv_timeout f = (if nonblocking f then 0 else timeout_or (rcv_timeout_ms f) 30000)"

definition recv_result :: "nat \<Rightarrow> int \<times> u8 list \<Rightarrow> ('q, 'g, 'c, 'x) cnet \<Rightarrow> (int \<times> u8 list) \<times> ('q, 'g, 'c, 'x) cnet" where
  "recv_result e r n =
     (if fst r = 0 \<and> nonblocking (entry e n) then ((-1, []), SET_ERRNO EWOULDBLOCK n) else (r, n))"

definition datagram_bytes :: "udp_datagram option \<Rightarrow> u8 list" where
  "datagram_bytes d = (case d of None \<Rightarrow> [] | Some x \<Rightarrow> dg_data x)"

definition lwip_recv ::
  "compat_config \<Rightarrow> ('q, 'g, ('q, 'g, 'x) compat) platform \<Rightarrow> ('q, 'g, 'c, ('q, 'g, 'x) compat) rtos \<Rightarrow> 'c smoltcp
     \<Rightarrow> int \<Rightarrow> nat \<Rightarrow> ('q, 'g, 'c, 'x) cnet \<Rightarrow> ((int \<times> u8 list) \<times> ('q, 'g, 'c, 'x) cnet) option" where
  "lwip_recv cfg P R S fd len n =
     (case fd_get cfg fd n of None \<Rightarrow> Some ((-1, []), SET_ERRNO EBADF n)
      | Some e \<Rightarrow>
          (case kind (entry e n) of
             FD_TCP \<Rightarrow> map_option (\<lambda>(r, n1). recv_result e r n1)
               (net_tcp_recv P R S (sock (entry e n)) len (recv_timeout (entry e n)) n)
           | FD_UDP \<Rightarrow> map_option (\<lambda>((r, d), n1). recv_result e (r, datagram_bytes d) n1)
               (net_udp_recvfrom P R S (sock (entry e n)) len (recv_timeout (entry e n)) n)
           | _ \<Rightarrow> Some ((-1, []), SET_ERRNO EBADF n)))"

definition lwip_sendto ::
  "compat_config \<Rightarrow> ('q, 'g, ('q, 'g, 'x) compat) platform \<Rightarrow> ('q, 'g, 'x) libc \<Rightarrow> 'c smoltcp
     \<Rightarrow> int \<Rightarrow> u8 list \<Rightarrow> sockaddr_in \<Rightarrow> nat \<Rightarrow> ('q, 'g, 'c, 'x) cnet \<Rightarrow> int \<times> ('q, 'g, 'c, 'x) cnet" where
  "lwip_sendto cfg P K S fd buf addr tolen n =
     (case fd_get cfg fd n of None \<Rightarrow> fail EBADF n
      | Some e \<Rightarrow>
          if kind (entry e n) \<noteq> FD_UDP then fail EBADF n
          else if tolen < sizeof_sockaddr_in then fail EINVAL n
          else if is_loopback_ip (s_addr addr)
               then lo_deliver P K (ntohs (sin_port addr)) (local_ipv4_be (entry e n)) (local_port (entry e n)) (Some buf) n
               else net_udp_sendto S (sock (entry e n)) buf (s_addr addr) (ntohs (sin_port addr)) n)"

text \<open>
  The blocking receive from the loopback queue of an entry. \<open>rx_wait\<close> is what the other tasks do
  while this one waits for the queue; the receive fails if it is still empty then. The queue
  of an entry that was closed meanwhile is gone: a use of a deleted queue.
\<close>

definition lo_receive ::
  "('q, 'g, ('q, 'g, 'x) compat) platform \<Rightarrow> (nat \<Rightarrow> u32 \<Rightarrow> ('q, 'g, 'c, 'x) cnet \<Rightarrow> ('q, 'g, 'c, 'x) cnet) \<Rightarrow> nat \<Rightarrow> u32
     \<Rightarrow> ('q, 'g, 'c, 'x) cnet \<Rightarrow> nat option \<times> ('q, 'g, 'c, 'x) cnet" where
  "lo_receive P rx_wait e ticks n =
     (let empty = (case lo_rx (entry e n) of None \<Rightarrow> True | Some q \<Rightarrow> xQueueReceive (queues P) q = None);
          n1 = (if empty \<and> ticks \<noteq> 0 then rx_wait e ticks n else n)
      in case lo_rx (entry e n1) of None \<Rightarrow> (None, upd_compat (\<lambda>c. c\<lparr>heap_fault := True\<rparr>) n1)
         | Some q \<Rightarrow> (case xQueueReceive (queues P) q of None \<Rightarrow> (None, n1)
                      | Some (a, q') \<Rightarrow> (Some a, upd_entry e (\<lambda>f. f\<lparr>lo_rx := Some q'\<rparr>) n1)))"

definition msg_read :: "nat \<Rightarrow> ('q, 'g, 'c, 'x) cnet \<Rightarrow> lo_msg \<times> ('q, 'g, 'c, 'x) cnet" where
  "msg_read a n =
     (if msg_live a (lo_heap (ext n)) then (the (lo_heap (ext n) ! a), n)
      else (\<lparr>lo_src_be = 0, lo_src_port = 0, lo_data = []\<rparr>, upd_compat (\<lambda>c. c\<lparr>heap_fault := True\<rparr>) n))"

definition lo_recvfrom ::
  "('q, 'g, ('q, 'g, 'x) compat) platform \<Rightarrow> (nat \<Rightarrow> u32 \<Rightarrow> ('q, 'g, 'c, 'x) cnet \<Rightarrow> ('q, 'g, 'c, 'x) cnet) \<Rightarrow> nat \<Rightarrow> nat
     \<Rightarrow> ('q, 'g, 'c, 'x) cnet \<Rightarrow> (int \<times> u8 list \<times> (u32 \<times> u16) option) \<times> ('q, 'g, 'c, 'x) cnet" where
  "lo_recvfrom P rx_wait e len n =
     (case lo_receive P rx_wait e (pdMS_TO_TICKS P (uint (recv_timeout (entry e n)))) n of
        (None, n1) \<Rightarrow>
          if nonblocking (entry e n1) then ((-1, [], None), SET_ERRNO EWOULDBLOCK n1) else ((0, [], None), n1)
      | (Some a, n1) \<Rightarrow>
          let (m, n2) = msg_read a n1; bs = take len (lo_data m)
          in ((int (length bs), bs, Some (lo_src_be m, lo_src_port m)), msg_free a n2))"

definition from_addr :: "compat_config \<Rightarrow> bool \<Rightarrow> int \<Rightarrow> (u32 \<times> u16) option \<Rightarrow> sockaddr_in option" where
  "from_addr cfg want r src =
     (if r > 0 \<and> want
      then (case src of None \<Rightarrow> Some \<lparr>sin_family = AF_INET cfg, sin_port = ntohs 0, s_addr = 0\<rparr>
            | Some (a, p) \<Rightarrow> Some \<lparr>sin_family = AF_INET cfg, sin_port = ntohs p, s_addr = a\<rparr>)
      else None)"

definition lwip_recvfrom ::
  "compat_config \<Rightarrow> ('q, 'g, ('q, 'g, 'x) compat) platform \<Rightarrow> ('q, 'g, 'c, ('q, 'g, 'x) compat) rtos
     \<Rightarrow> (nat \<Rightarrow> u32 \<Rightarrow> ('q, 'g, 'c, 'x) cnet \<Rightarrow> ('q, 'g, 'c, 'x) cnet) \<Rightarrow> 'c smoltcp
     \<Rightarrow> int \<Rightarrow> nat \<Rightarrow> nat option \<Rightarrow> ('q, 'g, 'c, 'x) cnet \<Rightarrow> ((int \<times> u8 list \<times> sockaddr_in option) \<times> ('q, 'g, 'c, 'x) cnet) option" where
  "lwip_recvfrom cfg P R rx_wait S fd len fromlen n =
     (case fd_get cfg fd n of None \<Rightarrow> Some ((-1, [], None), SET_ERRNO EBADF n)
      | Some e \<Rightarrow>
          if kind (entry e n) \<noteq> FD_UDP then Some ((-1, [], None), SET_ERRNO EBADF n)
          else
            let want = (case fromlen of None \<Rightarrow> False | Some l \<Rightarrow> l \<ge> sizeof_sockaddr_in)
            in if loopback (entry e n) \<and> lo_rx (entry e n) \<noteq> None
               then (case lo_recvfrom P rx_wait e len n of ((r, bs, src), n1) \<Rightarrow> Some ((r, bs, from_addr cfg want r src), n1))
               else map_option (\<lambda>((r, d), n1).
                      ((r, datagram_bytes d, from_addr cfg want r (map_option (\<lambda>x. (case dg_src_be x of None \<Rightarrow> 0 | Some a \<Rightarrow> a, dg_src_port x)) d)), n1))
                    (net_udp_recvfrom P R S (sock (entry e n)) len (recv_timeout (entry e n)) n))"

section \<open>close, shutdown\<close>

definition lwip_close ::
  "compat_config \<Rightarrow> ('q, 'g, ('q, 'g, 'x) compat) platform \<Rightarrow> ('q, 'g, 'x) libc \<Rightarrow> 'c smoltcp \<Rightarrow> int \<Rightarrow> ('q, 'g, 'c, 'x) cnet
     \<Rightarrow> int \<times> ('q, 'g, 'c, 'x) cnet" where
  "lwip_close cfg P K S fd n =
     (if \<not> fd_is_socket cfg fd n then env_call (real_close K fd) n else (0, fd_free cfg P K S fd n))"

definition lwip_shutdown :: "compat_config \<Rightarrow> 'c smoltcp \<Rightarrow> int \<Rightarrow> ('q, 'g, 'c, 'x) cnet \<Rightarrow> int \<times> ('q, 'g, 'c, 'x) cnet" where
  "lwip_shutdown cfg S fd n =
     (case fd_get cfg fd n of None \<Rightarrow> fail EBADF n
      | Some e \<Rightarrow>
          if kind (entry e n) = FD_TCP \<and> net_sock_valid (sock (entry e n))
          then (0, upd_entry e (\<lambda>f. f\<lparr>sock := NET_SOCK_INVALID, connected := False\<rparr>) (snd (net_tcp_close S (sock (entry e n)) n)))
          else (0, n))"

section \<open>Options\<close>

text \<open>A socket option with the value it carries, \<open>None\<close> when \<open>optlen\<close> is too short for it; the
  options that are accepted without effect, and those that are logged and ignored.\<close>

datatype sockopt =
    SO_RCVTIMEO "(int \<times> int) option"
  | SO_SNDTIMEO "(int \<times> int) option"
  | SO_ACCEPTED
  | TCP_ACCEPTED
  | IP_ADD_MEMBERSHIP "u32 option"
  | IP_DROP_MEMBERSHIP "u32 option"
  | IP_ACCEPTED
  | OPT_IGNORED

text \<open>\<open>tv_sec * 1000 + tv_usec / 1000\<close>, assigned to a \<open>uint32_t\<close>; C rounds towards zero.\<close>

definition timeval_ms :: "int \<times> int \<Rightarrow> u32" where
  "timeval_ms tv = word_of_int (fst tv * 1000 + sgn (snd tv) * (\<bar>snd tv\<bar> div 1000))"

definition lwip_setsockopt :: "compat_config \<Rightarrow> 'c smoltcp \<Rightarrow> int \<Rightarrow> sockopt \<Rightarrow> ('q, 'g, 'c, 'x) cnet \<Rightarrow> int \<times> ('q, 'g, 'c, 'x) cnet" where
  "lwip_setsockopt cfg S fd opt n =
     (case fd_get cfg fd n of None \<Rightarrow> fail EBADF n
      | Some e \<Rightarrow>
          (case opt of
             SO_RCVTIMEO v \<Rightarrow> (0, case v of None \<Rightarrow> n | Some tv \<Rightarrow> upd_entry e (\<lambda>f. f\<lparr>rcv_timeout_ms := timeval_ms tv\<rparr>) n)
           | SO_SNDTIMEO v \<Rightarrow> (0, case v of None \<Rightarrow> n | Some tv \<Rightarrow> upd_entry e (\<lambda>f. f\<lparr>snd_timeout_ms := timeval_ms tv\<rparr>) n)
           | IP_ADD_MEMBERSHIP (Some g) \<Rightarrow>
               (let (er, n1) = net_mcast_join S (fd_iface (entry e n)) g n in (if er = ESP_OK then 0 else -1, n1))
           | IP_DROP_MEMBERSHIP (Some g) \<Rightarrow>
               (let (er, n1) = net_mcast_leave S (fd_iface (entry e n)) g n in (if er = ESP_OK then 0 else -1, n1))
           | _ \<Rightarrow> (0, n)))"

text \<open>\<open>so_error\<close>: the call asks for \<open>SO_ERROR\<close> with a large enough buffer, which receives 0.\<close>

definition lwip_getsockopt :: "compat_config \<Rightarrow> int \<Rightarrow> bool \<Rightarrow> ('q, 'g, 'c, 'x) cnet \<Rightarrow> (int \<times> int option) \<times> ('q, 'g, 'c, 'x) cnet" where
  "lwip_getsockopt cfg fd so_error n =
     (case fd_get cfg fd n of None \<Rightarrow> ((-1, None), SET_ERRNO EBADF n)
      | Some e \<Rightarrow> ((0, if so_error then Some 0 else None), n))"

definition lwip_getsockname ::
  "compat_config \<Rightarrow> 'c smoltcp \<Rightarrow> int \<Rightarrow> nat option \<Rightarrow> ('q, 'g, 'c, 'x) cnet \<Rightarrow> (int \<times> sockaddr_in option) \<times> ('q, 'g, 'c, 'x) cnet" where
  "lwip_getsockname cfg S fd alen n =
     (case fd_get cfg fd n of None \<Rightarrow> ((-1, None), SET_ERRNO EINVAL n)
      | Some e \<Rightarrow>
          if (case alen of None \<Rightarrow> True | Some l \<Rightarrow> l < sizeof_sockaddr_in) then ((-1, None), SET_ERRNO EINVAL n)
          else let (ip, n1) = net_stack_get_ipv4 S (fd_iface (entry e n)) n
               in ((0, Some \<lparr>sin_family = AF_INET cfg, sin_port = ntohs (local_port (entry e n)), s_addr = ip\<rparr>), n1))"

definition lwip_getpeername :: "('q, 'g, 'c, 'x) cnet \<Rightarrow> int \<times> ('q, 'g, 'c, 'x) cnet" where
  "lwip_getpeername n = fail EOPNOTSUPP n"

definition lwip_fcntl ::
  "compat_config \<Rightarrow> ('q, 'g, 'x) libc \<Rightarrow> int \<Rightarrow> fcntl_cmd \<Rightarrow> int \<Rightarrow> ('q, 'g, 'c, 'x) cnet \<Rightarrow> int \<times> ('q, 'g, 'c, 'x) cnet" where
  "lwip_fcntl cfg K fd cmd arg n =
     (case fd_get cfg fd n of None \<Rightarrow> env_call (real_fcntl K fd cmd arg) n
      | Some e \<Rightarrow>
          (case cmd of
             F_GETFL \<Rightarrow> (if nonblocking (entry e n) then uint (O_NONBLOCK cfg) else 0, n)
           | F_SETFL \<Rightarrow> (0, upd_entry e (\<lambda>f. f\<lparr>nonblocking := (word_of_int arg AND O_NONBLOCK cfg \<noteq> 0)\<rparr>) n)
           | F_OTHER k \<Rightarrow> (0, n)))"

text \<open>\<open>arg\<close> is the integer the argument points to, \<open>None\<close> for a null pointer.\<close>

definition lwip_ioctl ::
  "compat_config \<Rightarrow> ('q, 'g, 'x) libc \<Rightarrow> int \<Rightarrow> ioctl_cmd \<Rightarrow> int option \<Rightarrow> ('q, 'g, 'c, 'x) cnet \<Rightarrow> int \<times> ('q, 'g, 'c, 'x) cnet" where
  "lwip_ioctl cfg K fd cmd arg n =
     (case cmd of
        FIONBIO \<Rightarrow>
          (case fd_get cfg fd n of None \<Rightarrow> fail EBADF n
           | Some e \<Rightarrow> (0, upd_entry e (\<lambda>f. f\<lparr>nonblocking := (arg \<noteq> None \<and> arg \<noteq> Some 0)\<rparr>) n))
      | IOCTL_OTHER k \<Rightarrow> env_call (real_ioctl K fd cmd arg) n)"

definition lwip_read ::
  "compat_config \<Rightarrow> ('q, 'g, ('q, 'g, 'x) compat) platform \<Rightarrow> ('q, 'g, 'c, ('q, 'g, 'x) compat) rtos \<Rightarrow> ('q, 'g, 'x) libc \<Rightarrow> 'c smoltcp
     \<Rightarrow> int \<Rightarrow> nat \<Rightarrow> ('q, 'g, 'c, 'x) cnet \<Rightarrow> ((int \<times> u8 list) \<times> ('q, 'g, 'c, 'x) cnet) option" where
  "lwip_read cfg P R K S fd len n =
     (if fd_is_socket cfg fd n then lwip_recv cfg P R S fd len n else Some (env_call (real_read K fd len) n))"

definition lwip_write ::
  "compat_config \<Rightarrow> ('q, 'g, ('q, 'g, 'x) compat) platform \<Rightarrow> ('q, 'g, 'c, ('q, 'g, 'x) compat) rtos \<Rightarrow> ('q, 'g, 'x) libc \<Rightarrow> 'c smoltcp
     \<Rightarrow> int \<Rightarrow> u8 list \<Rightarrow> ('q, 'g, 'c, 'x) cnet \<Rightarrow> (int \<times> ('q, 'g, 'c, 'x) cnet) option" where
  "lwip_write cfg P R K S fd buf n =
     (if fd_is_socket cfg fd n then lwip_send cfg P R S fd buf n else Some (env_call (real_write K fd buf) n))"

end
