(* ===== verification/Compat_Inv.thy ===== *)
theory Compat_Inv
  imports Sock_Wrap "HOL-Library.Multiset"
begin

text \<open>
  The invariant of the shim and its preservation by every call. \<open>mem_ok\<close> says what holds of the
  descriptor table, the datagram heap and the port table: an entry has a loopback queue exactly
  when its loopback flag is set, a free entry has none, every live datagram is in exactly one
  queue and every queued pointer is live, no datagram was freed twice or read after it was
  freed, and the port table is well formed. \<open>compat_ok\<close> adds that the three mutexes are free and
  were used correctly.
\<close>

section \<open>The invariant\<close>

definition rx_mset :: "('q \<Rightarrow> nat list) \<Rightarrow> ('q, 'g) fd_entry list \<Rightarrow> nat multiset" where
  "rx_mset contents t = (\<Sum>f\<leftarrow>t. case lo_rx f of None \<Rightarrow> {#} | Some q \<Rightarrow> mset (contents q))"

definition live :: "lo_msg option list \<Rightarrow> nat set" where
  "live h = {a. msg_live a h}"

definition entry_ok :: "('q, 'g) fd_entry \<Rightarrow> bool" where
  "entry_ok f \<longleftrightarrow> (loopback f \<longleftrightarrow> lo_rx f \<noteq> None) \<and> (kind f = FD_FREE \<longrightarrow> lo_rx f = None)
     \<and> (kind f \<noteq> FD_FREE \<longrightarrow> \<not> pool_freed f)"

definition mem_ok :: "('q \<Rightarrow> nat list) \<Rightarrow> compat_config \<Rightarrow> ('q, 'g, 'x) compat \<Rightarrow> bool" where
  "mem_ok contents cfg c \<longleftrightarrow> length (s_table c) = MAX_FDS cfg \<and> (\<forall>f \<in> set (s_table c). entry_ok f)
     \<and> rx_mset contents (s_table c) = mset_set (live (lo_heap c)) \<and> \<not> heap_fault c
     \<and> slots_ok (s_slots c) \<and> (\<forall>s \<in> set (s_slots c). \<forall>i. lo_fd s = Some i \<longrightarrow> i < MAX_FDS cfg)"

definition mx_free :: "mutex \<Rightarrow> bool" where
  "mx_free m \<longleftrightarrow> \<not> mx_held m \<and> \<not> mx_fault m"

definition lo_free :: "('q, 'g, 'x) compat \<Rightarrow> bool" where
  "lo_free c \<longleftrightarrow> mx_free (lo_lock c) \<and> (lo_inited c \<longrightarrow> mx_created (lo_lock c))"

definition compat_ok :: "('q \<Rightarrow> nat list) \<Rightarrow> compat_config \<Rightarrow> ('q, 'g, 'c, 'x) cnet \<Rightarrow> bool" where
  "compat_ok contents cfg n \<longleftrightarrow> lock_ready n \<and> mem_ok contents cfg (ext n) \<and> lo_free (ext n)
     \<and> mx_free (fd_lock (ext n)) \<and> mx_created (fd_lock (ext n))"

section \<open>Field equations\<close>

lemma upd_compat_ext [simp]: "ext (upd_compat f n) = f (ext n)"
  by (simp add: upd_compat_def)

lemma upd_entry_ext [simp]:
  "s_table (ext (upd_entry i f n)) = (s_table (ext n))[i := f (entry i n)]"
  "fd_lock (ext (upd_entry i f n)) = fd_lock (ext n)" "s_slots (ext (upd_entry i f n)) = s_slots (ext n)"
  "lo_inited (ext (upd_entry i f n)) = lo_inited (ext n)" "lo_lock (ext (upd_entry i f n)) = lo_lock (ext n)"
  "lo_heap (ext (upd_entry i f n)) = lo_heap (ext n)" "heap_fault (ext (upd_entry i f n)) = heap_fault (ext n)"
  by (simp_all add: upd_entry_def entry_def)

lemma upd_compat_lock [simp]: "lock_ready (upd_compat f n) = lock_ready n"
  by (simp add: upd_compat_def lock_ready_def lock_ok_def)

lemma upd_entry_lock [simp]: "lock_ready (upd_entry i f n) = lock_ready n"
  by (simp add: upd_entry_def)

lemma entry_upd_entry [simp]:
  "i < length (s_table (ext n)) \<Longrightarrow> entry j (upd_entry i f n) = (if j = i then f (entry i n) else entry j n)"
  by (simp add: entry_def upd_entry_def)

lemma env_call_simps [simp]:
  "s_table (ext (snd (env_call f n))) = s_table (ext n)" "fd_lock (ext (snd (env_call f n))) = fd_lock (ext n)"
  "s_slots (ext (snd (env_call f n))) = s_slots (ext n)" "lo_inited (ext (snd (env_call f n))) = lo_inited (ext n)"
  "lo_lock (ext (snd (env_call f n))) = lo_lock (ext n)" "lo_heap (ext (snd (env_call f n))) = lo_heap (ext n)"
  "heap_fault (ext (snd (env_call f n))) = heap_fault (ext n)" "lock_ready (snd (env_call f n)) = lock_ready n"
  "entry i (snd (env_call f n)) = entry i n"
  by (simp_all add: env_call_def entry_def Let_def case_prod_unfold)

lemma mem_ok_cong:
  "s_table c' = s_table c \<Longrightarrow> lo_heap c' = lo_heap c \<Longrightarrow> heap_fault c' = heap_fault c \<Longrightarrow> s_slots c' = s_slots c \<Longrightarrow>
     mem_ok contents cfg c' = mem_ok contents cfg c"
  by (simp add: mem_ok_def)

lemma compat_ok_cong:
  "s_table (ext n') = s_table (ext n) \<Longrightarrow> lo_heap (ext n') = lo_heap (ext n) \<Longrightarrow> heap_fault (ext n') = heap_fault (ext n) \<Longrightarrow>
   s_slots (ext n') = s_slots (ext n) \<Longrightarrow> lo_inited (ext n') = lo_inited (ext n) \<Longrightarrow> lo_lock (ext n') = lo_lock (ext n) \<Longrightarrow>
   fd_lock (ext n') = fd_lock (ext n) \<Longrightarrow> lock_ready n \<Longrightarrow> lock_ready n' \<Longrightarrow> compat_ok contents cfg n \<Longrightarrow> compat_ok contents cfg n'"
  by (simp add: compat_ok_def mem_ok_def lo_free_def)

lemma compat_okD: "compat_ok contents cfg n \<Longrightarrow> lock_ready n" "compat_ok contents cfg n \<Longrightarrow> mem_ok contents cfg (ext n)"
  "compat_ok contents cfg n \<Longrightarrow> length (s_table (ext n)) = MAX_FDS cfg"
  by (simp_all add: compat_ok_def mem_ok_def)

section \<open>Queues and heap\<close>

lemma sum_list_update_mset:
  fixes g :: "'a \<Rightarrow> 'b multiset"
  shows "i < length xs \<Longrightarrow> (\<Sum>x\<leftarrow>xs[i := y]. g x) + g (xs ! i) = (\<Sum>x\<leftarrow>xs. g x) + g y"
proof (induction xs arbitrary: i)
  case Nil
  then show ?case by simp
next
  case (Cons x xs)
  show ?case
  proof (cases i)
    case 0
    then show ?thesis by (simp add: ac_simps)
  next
    case (Suc j)
    with Cons.IH [of j] Cons.prems show ?thesis by (simp add: ac_simps)
  qed
qed

definition q_mset :: "('q \<Rightarrow> nat list) \<Rightarrow> ('q, 'g) fd_entry \<Rightarrow> nat multiset" where
  "q_mset contents f = (case lo_rx f of None \<Rightarrow> {#} | Some q \<Rightarrow> mset (contents q))"

lemma rx_mset_update:
  "i < length t \<Longrightarrow> rx_mset contents (t[i := f]) + q_mset contents (t ! i) = rx_mset contents t + q_mset contents f"
  unfolding rx_mset_def q_mset_def by (rule sum_list_update_mset)

lemma rx_mset_same:
  assumes "q_mset contents (f (t ! i)) = q_mset contents (t ! i)"
  shows "rx_mset contents (t[i := f (t ! i)]) = rx_mset contents t"
  using rx_mset_update [of i t contents "f (t ! i)"] assms by (cases "i < length t") (simp_all add: list_update_beyond not_less)

lemma live_finite [simp]: "finite (live h)"
  by (rule finite_subset [of _ "{..<length h}"]) (auto simp: live_def msg_live_def)

lemma live_alloc: "live (h @ [Some m]) = insert (length h) (live h)" "length h \<notin> live h"
  by (auto simp: live_def msg_live_def nth_append)

lemma live_free: "live (h[a := None]) = live h - {a}"
proof (cases "a < length h")
  case True
  then show ?thesis by (auto simp: live_def msg_live_def nth_list_update)
next
  case False
  then show ?thesis by (auto simp: live_def msg_live_def list_update_beyond not_less)
qed

text \<open>Rewriting an entry without touching its queue.\<close>

lemma mem_ok_upd_entry:
  assumes "mem_ok contents cfg (ext n)" and "entry_ok (entry i n) \<Longrightarrow> entry_ok (f (entry i n))"
    and "q_mset contents (f (entry i n)) = q_mset contents (entry i n)"
  shows "mem_ok contents cfg (ext (upd_entry i f n))"
proof (cases "i < length (s_table (ext n))")
  case True
  have "\<forall>x \<in> set ((s_table (ext n))[i := f (entry i n)]). entry_ok x"
    using assms(1,2) nth_mem [OF True] unfolding mem_ok_def entry_def by (metis set_list_updateD)
  moreover have "rx_mset contents ((s_table (ext n))[i := f (entry i n)]) = rx_mset contents (s_table (ext n))"
    using rx_mset_same [of contents f "s_table (ext n)" i] assms(3) by (simp add: entry_def)
  ultimately show ?thesis using assms(1) by (simp add: mem_ok_def)
next
  case False
  then have "(s_table (ext n))[i := f (entry i n)] = s_table (ext n)" by (simp add: list_update_beyond not_less)
  with assms(1) show ?thesis by (simp add: mem_ok_def)
qed

lemma compat_ok_upd_entry:
  assumes "compat_ok contents cfg n" and "entry_ok (entry i n) \<Longrightarrow> entry_ok (f (entry i n))"
    and "lo_rx (f (entry i n)) = lo_rx (entry i n)"
  shows "compat_ok contents cfg (upd_entry i f n)"
  using assms mem_ok_upd_entry [of contents cfg n i f] by (simp add: compat_ok_def lo_free_def q_mset_def)

lemma upd_entry_twice: "upd_entry i g (upd_entry i f n) = upd_entry i (\<lambda>x. g (f x)) n"
  by (cases "i < length (s_table (ext n))") (simp_all add: upd_entry_def upd_compat_def list_update_beyond not_less)

section \<open>Calls of the stack\<close>

text \<open>A call of the native API that does not block leaves the statics of the shim alone.\<close>

lemma locked_call_ext_same [simp]: "ext (snd (locked_call i f n)) = ext n"
  by (simp add: locked_call_def Let_def case_prod_unfold set_handle_def)

lemma kick_poll_ext [simp]: "ext (net_stack_kick_poll n) = ext n"
  by (simp add: net_stack_kick_poll_def)

lemma net_calls_ext [simp]:
  "ext (snd (net_tcp_open S ifc n)) = ext n" "ext (snd (net_tcp_listen S s port n)) = ext n"
  "ext (snd (net_tcp_close S s n)) = ext n" "ext (snd (net_tcp_is_active S s n)) = ext n"
  "ext (snd (net_tcp_is_connected S s n)) = ext n" "ext (snd (net_tcp_recv_queue S s n)) = ext n"
  "ext (snd (net_tcp_send_capacity S s n)) = ext n" "ext (snd (net_udp_open S ifc port n)) = ext n"
  "ext (snd (net_udp_sendto S s buf dst port n)) = ext n" "ext (snd (net_udp_close S s n)) = ext n"
  "ext (snd (net_mcast_join S ifc g n)) = ext n" "ext (snd (net_mcast_leave S ifc g n)) = ext n"
  "ext (snd (net_stack_get_ipv4 S ifc n)) = ext n"
  by (auto simp: net_tcp_open_def net_open_def net_tcp_listen_def net_tcp_close_def net_tcp_is_active_def
      net_tcp_is_connected_def net_tcp_recv_queue_def net_tcp_send_capacity_def net_udp_open_def net_udp_sendto_def
      net_udp_close_def net_mcast_join_def net_mcast_leave_def net_mcast_def on_sock_def net_stack_get_ipv4_def
      iface_query_def Let_def case_prod_unfold split: option.split)

lemma get_ipv4_lock_ready: "lock_ready n \<Longrightarrow> lock_ready (snd (net_stack_get_ipv4 S ifc n))"
  by (simp add: net_stack_get_ipv4_def iface_query_def snd_lock_ready)

lemmas net_lock_ready = short_calls_lock_ready get_ipv4_lock_ready

lemma entry_ext: "ext n' = ext n \<Longrightarrow> entry i n' = entry i n"
  by (simp add: entry_def)

lemma net_calls_entry [simp]:
  "entry e (snd (net_tcp_open S ifc n)) = entry e n" "entry e (snd (net_tcp_listen S s port n)) = entry e n"
  "entry e (snd (net_tcp_close S s n)) = entry e n" "entry e (snd (net_tcp_is_connected S s n)) = entry e n"
  "entry e (snd (net_udp_open S ifc port n)) = entry e n" "entry e (snd (net_udp_close S s n)) = entry e n"
  "entry e (snd (net_stack_get_ipv4 S ifc n)) = entry e n"
  by (rule entry_ext, simp)+

lemma compat_ok_ext: "ext n' = ext n \<Longrightarrow> lock_ready n' \<Longrightarrow> compat_ok contents cfg n \<Longrightarrow> compat_ok contents cfg n'"
  by (simp add: compat_ok_def)

lemma net_calls_compat_ok:
  assumes "compat_ok contents cfg n"
  shows "compat_ok contents cfg (snd (net_tcp_open S ifc n))" "compat_ok contents cfg (snd (net_tcp_listen S s port n))"
    "compat_ok contents cfg (snd (net_tcp_close S s n))" "compat_ok contents cfg (snd (net_tcp_is_connected S s n))"
    "compat_ok contents cfg (snd (net_udp_open S ifc port n))" "compat_ok contents cfg (snd (net_udp_sendto S s buf dst port n))"
    "compat_ok contents cfg (snd (net_udp_close S s n))" "compat_ok contents cfg (snd (net_mcast_join S ifc g n))"
    "compat_ok contents cfg (snd (net_mcast_leave S ifc g n))" "compat_ok contents cfg (snd (net_stack_get_ipv4 S ifc n))"
    "compat_ok contents cfg (snd (net_tcp_recv_queue S s n))" "compat_ok contents cfg (snd (net_tcp_send_capacity S s n))"
  by (rule compat_ok_ext [OF _ _ assms], simp, rule net_lock_ready [OF compat_okD(1) [OF assms]])+

lemma env_call_compat_ok: "compat_ok contents cfg n \<Longrightarrow> compat_ok contents cfg (snd (env_call f n))"
  by (rule compat_ok_cong) (simp_all add: compat_okD)

lemma errno_compat_ok: "compat_ok contents cfg n \<Longrightarrow> compat_ok contents cfg (SET_ERRNO e n)"
  by (rule compat_ok_cong) (simp_all add: compat_okD SET_ERRNO_def)

lemma fail_compat_ok: "compat_ok contents cfg n \<Longrightarrow> compat_ok contents cfg (snd (fail e n))"
  by (simp add: fail_def errno_compat_ok)

lemma pool_close_ext [simp]: "ext (pool_close S ss n) = ext n"
  by (induction ss arbitrary: n) simp_all

lemma pool_close_lock_ready: "lock_ready n \<Longrightarrow> lock_ready (pool_close S ss n)"
  by (induction ss arbitrary: n) (simp_all add: net_lock_ready)

section \<open>The loopback operations\<close>

text \<open>What the shim relies on: queues as FreeRTOS documents them, new queues empty, and mutexes
  that can be created. Everything else of the C library may fail.\<close>

locale shim_env = rtos_queue "queues P" contents capacity
  for P :: "('q, 'g, ('q, 'g, 'x) compat) platform" and contents capacity +
  fixes K :: "('q, 'g, 'x) libc" and cfg :: compat_config
  assumes mutex_made: "fst (xSemaphoreCreateMutex K x)"
    and queue_made: "fst (xQueueCreate K d x) = Some q \<Longrightarrow> contents q = [] \<and> capacity q = d"

lemma lock_init_once_frame [simp]:
  "s_table (ext (lock_init_once K n)) = s_table (ext n)" "s_slots (ext (lock_init_once K n)) = s_slots (ext n)"
  "lo_heap (ext (lock_init_once K n)) = lo_heap (ext n)" "heap_fault (ext (lock_init_once K n)) = heap_fault (ext n)"
  "fd_lock (ext (lock_init_once K n)) = fd_lock (ext n)" "lock_ready (lock_init_once K n) = lock_ready n"
  "entry i (lock_init_once K n) = entry i n"
  by (simp_all add: lock_init_once_def entry_def Let_def case_prod_unfold)

lemma lo_lock_frame [simp]:
  "s_table (ext (lo_LOCK n)) = s_table (ext n)" "s_table (ext (lo_UNLOCK n)) = s_table (ext n)"
  "s_slots (ext (lo_LOCK n)) = s_slots (ext n)" "s_slots (ext (lo_UNLOCK n)) = s_slots (ext n)"
  "lo_heap (ext (lo_LOCK n)) = lo_heap (ext n)" "lo_heap (ext (lo_UNLOCK n)) = lo_heap (ext n)"
  "heap_fault (ext (lo_LOCK n)) = heap_fault (ext n)" "heap_fault (ext (lo_UNLOCK n)) = heap_fault (ext n)"
  "fd_lock (ext (lo_LOCK n)) = fd_lock (ext n)" "fd_lock (ext (lo_UNLOCK n)) = fd_lock (ext n)"
  "lock_ready (lo_LOCK n) = lock_ready n" "lock_ready (lo_UNLOCK n) = lock_ready n"
  "entry i (lo_LOCK n) = entry i n" "entry i (lo_UNLOCK n) = entry i n"
  by (simp_all add: lo_LOCK_def lo_UNLOCK_def entry_def)

lemma msg_free_frame [simp]:
  "s_table (ext (msg_free a n)) = s_table (ext n)" "s_slots (ext (msg_free a n)) = s_slots (ext n)"
  "fd_lock (ext (msg_free a n)) = fd_lock (ext n)" "lo_lock (ext (msg_free a n)) = lo_lock (ext n)"
  "lo_inited (ext (msg_free a n)) = lo_inited (ext n)" "lock_ready (msg_free a n) = lock_ready n"
  "entry i (msg_free a n) = entry i n"
  by (simp_all add: msg_free_def entry_def)

lemma slots_ok_unbind: "slots_ok slots \<Longrightarrow> slots_ok (lo_slot_unbind port e slots)"
  unfolding slots_ok_def taps_ok_def
  by (auto simp: lo_slot_unbind_def as_tap_def lo_slot_free_def split: if_splits)

lemma unbind_fds: "s \<in> set (lo_slot_unbind port e slots) \<Longrightarrow> lo_fd s = Some i \<Longrightarrow> \<exists>s' \<in> set slots. lo_fd s' = Some i"
  by (auto simp: lo_slot_unbind_def lo_slot_free_def split: if_splits)

lemma bind_fds:
  "lo_slot_bind port e slots = Some slots' \<Longrightarrow> s \<in> set slots' \<Longrightarrow> lo_fd s = Some i \<Longrightarrow> i = e \<or> (\<exists>s' \<in> set slots. lo_fd s' = Some i)"
  by (auto simp: lo_slot_bind_cases simp del: first_idx_None_iff split: option.splits dest!: set_list_updateD)

lemma mem_ok_slots:
  assumes "mem_ok contents cfg c" and "slots_ok slots" and "\<forall>s \<in> set slots. \<forall>i. lo_fd s = Some i \<longrightarrow> i < MAX_FDS cfg"
  shows "mem_ok contents cfg (c\<lparr>s_slots := slots\<rparr>)"
  using assms by (simp add: mem_ok_def)

lemma lo_target_mem: "lo_target port slots = Some e \<Longrightarrow> \<exists>s \<in> set slots. lo_fd s = Some e"
  by (auto simp: lo_target_def split: option.splits dest!: first_idx_lt)

lemma msg_alloc_cases:
  obtains (fails) "msg_alloc K m n = (None, snd (env_call (malloc K (8 + length (lo_data m))) n))"
  | (works) "msg_alloc K m n = (Some (length (lo_heap (ext n))),
      upd_compat (\<lambda>c. c\<lparr>lo_heap := lo_heap c @ [Some m]\<rparr>) (snd (env_call (malloc K (8 + length (lo_data m))) n)))"
  by (cases "fst (env_call (malloc K (8 + length (lo_data m))) n)") (auto simp: msg_alloc_def case_prod_unfold Let_def)

context shim_env
begin

lemma init_once_free: "lo_free (ext n) \<Longrightarrow> lo_free (ext (lo_UNLOCK (lo_LOCK (lock_init_once K n))))"
  using mutex_made [of "cenv (ext n)"]
  by (auto simp: lock_init_once_def lo_free_def mx_free_def lo_LOCK_def lo_UNLOCK_def mx_take_def mx_give_def mx_boot_def
      env_call_def Let_def case_prod_unfold)

lemma init_once: "lo_free (ext n) \<Longrightarrow> lo_free (ext (lock_init_once K n))"
  using mutex_made [of "cenv (ext n)"]
  by (auto simp: lock_init_once_def lo_free_def mx_free_def mx_boot_def env_call_def Let_def case_prod_unfold)

text \<open>Taking a pointer out of a queue and freeing it.\<close>

lemma take_msg:
  assumes ok: "mem_ok contents cfg (ext n)" and e: "e < MAX_FDS cfg" and q: "lo_rx (entry e n) = Some q"
    and r: "xQueueReceive (queues P) q = Some (a, q')"
  shows "a \<in> live (lo_heap (ext n))"
    and "mem_ok contents cfg (ext (msg_free a (upd_entry e (\<lambda>f. f\<lparr>lo_rx := Some q'\<rparr>) n)))"
proof -
  let ?t = "s_table (ext n)" and ?f = "(entry e n)\<lparr>lo_rx := Some q'\<rparr>" and ?h = "lo_heap (ext n)"
  have len: "e < length ?t" using ok e by (simp add: mem_ok_def)
  have c: "contents q = a # contents q'" using receive_SomeD [OF r] by simp
  have "rx_mset contents (?t[e := ?f]) + mset (contents q) = mset_set (live ?h) + mset (contents q')"
    using rx_mset_update [OF len, of contents ?f] ok q by (simp add: q_mset_def mem_ok_def entry_def)
  then have m: "add_mset a (rx_mset contents (?t[e := ?f])) = mset_set (live ?h)" by (simp add: c)
  then have "a \<in># mset_set (live ?h)" by (metis union_single_eq_member)
  then show a: "a \<in> live ?h" by simp
  have "rx_mset contents (?t[e := ?f]) = mset_set (live ?h) - {#a#}" using m by (metis add_mset_remove_trivial)
  also have "\<dots> = mset_set (live (?h[a := None]))" using a by (simp add: live_free mset_set_Diff)
  finally have "rx_mset contents (?t[e := ?f]) = mset_set (live (?h[a := None]))" .
  moreover have "entry_ok (entry e n)" using ok nth_mem [OF len] by (simp add: mem_ok_def entry_def)
  then have "\<forall>x \<in> set (?t[e := ?f]). entry_ok x"
    using ok q unfolding mem_ok_def by (auto simp: entry_ok_def dest!: set_list_updateD)
  ultimately show "mem_ok contents cfg (ext (msg_free a (upd_entry e (\<lambda>f. f\<lparr>lo_rx := Some q'\<rparr>) n)))"
    using ok a by (simp add: mem_ok_def msg_free_def live_def)
qed

lemma lo_drain_ok:
  assumes "mem_ok contents cfg (ext n)" and "e < MAX_FDS cfg" and "lo_rx (entry e n) = Some q" and "k = length (contents q)"
  shows "\<exists>q'. mem_ok contents cfg (ext (lo_drain P k e n)) \<and> contents q' = []
    \<and> entry e (lo_drain P k e n) = (entry e n)\<lparr>lo_rx := Some q'\<rparr>
    \<and> s_slots (ext (lo_drain P k e n)) = s_slots (ext n) \<and> fd_lock (ext (lo_drain P k e n)) = fd_lock (ext n)
    \<and> lo_free (ext (lo_drain P k e n)) = lo_free (ext n) \<and> lock_ready (lo_drain P k e n) = lock_ready n"
  using assms
proof (induction k arbitrary: n q)
  case 0
  then show ?case by (intro exI [of _ q]) simp
next
  case (Suc k)
  from Suc.prems(4) obtain a xs where "contents q = a # xs" by (cases "contents q") auto
  then obtain q1 where r: "xQueueReceive (queues P) q = Some (a, q1)" and c: "contents q1 = xs"
    using receive_next by blast
  let ?n = "msg_free a (upd_entry e (\<lambda>f. f\<lparr>lo_rx := Some q1\<rparr>) n)"
  have len: "e < length (s_table (ext n))" using Suc.prems by (simp add: mem_ok_def)
  have "mem_ok contents cfg (ext ?n)" by (rule take_msg(2) [OF Suc.prems(1-3) r])
  moreover have "lo_rx (entry e ?n) = Some q1" using len by simp
  moreover have "k = length (contents q1)" using Suc.prems(4) c \<open>contents q = a # xs\<close> by simp
  ultimately have "\<exists>q'. mem_ok contents cfg (ext (lo_drain P k e ?n)) \<and> contents q' = []
    \<and> entry e (lo_drain P k e ?n) = (entry e ?n)\<lparr>lo_rx := Some q'\<rparr>
    \<and> s_slots (ext (lo_drain P k e ?n)) = s_slots (ext ?n) \<and> fd_lock (ext (lo_drain P k e ?n)) = fd_lock (ext ?n)
    \<and> lo_free (ext (lo_drain P k e ?n)) = lo_free (ext ?n) \<and> lock_ready (lo_drain P k e ?n) = lock_ready ?n"
    using Suc.IH Suc.prems(2) by blast
  moreover have "lo_drain P (Suc k) e n = lo_drain P k e ?n" using Suc.prems(3) r by simp
  moreover have "lo_free (ext ?n) = lo_free (ext n)" by (simp add: lo_free_def)
  ultimately show ?case using len by simp
qed

lemma lo_bind_ok:
  assumes ok: "compat_ok contents cfg n" and e: "e < MAX_FDS cfg" and k: "kind (entry e n) \<noteq> FD_FREE"
  shows "compat_ok contents cfg (snd (lo_bind K port (Some e) n))"
proof (cases "port = 0")
  case True
  with ok show ?thesis by (simp add: lo_bind_def)
next
  case port: False
  let ?n1 = "lock_init_once K n"
  obtain q n2 where q: "(case lo_rx (entry e ?n1) of Some q \<Rightarrow> (Some q, ?n1)
      | None \<Rightarrow> env_call (xQueueCreate K LO_QUEUE_DEPTH) ?n1) = (q, n2)" by force
  have n2: "s_table (ext n2) = s_table (ext n)" "s_slots (ext n2) = s_slots (ext n)" "lo_heap (ext n2) = lo_heap (ext n)"
    "heap_fault (ext n2) = heap_fault (ext n)" "fd_lock (ext n2) = fd_lock (ext n)" "lock_ready n2 = lock_ready n"
    "lo_lock (ext n2) = lo_lock (ext ?n1)" "lo_inited (ext n2) = lo_inited (ext ?n1)" "entry e n2 = entry e n"
    using q [THEN arg_cong, of snd] by (auto split: option.splits)
  have new: "lo_rx (entry e n) = None \<Longrightarrow> q = Some q1 \<Longrightarrow> contents q1 = []" for q1
    using q [THEN arg_cong, of fst] queue_made by (auto simp: env_call_def case_prod_unfold Let_def)
  have old: "lo_rx (entry e n) = Some q1 \<Longrightarrow> q = Some q1" for q1 using q by simp
  have free: "lo_free (ext n2)" "lo_free (ext (lo_UNLOCK (lo_LOCK n2)))"
    using init_once_free [of n] init_once [of n] ok n2 by (simp_all add: compat_ok_def lo_free_def lo_LOCK_def lo_UNLOCK_def)
  show ?thesis
  proof (cases q)
    case None
    with old have "lo_rx (entry e n) = None" by (cases "lo_rx (entry e n)") auto
    then have "mem_ok contents cfg (ext (upd_entry e (\<lambda>f. f\<lparr>lo_rx := None\<rparr>) n2))"
      using ok n2 by (intro mem_ok_upd_entry) (simp_all add: compat_ok_def mem_ok_def entry_ok_def q_mset_def)
    then have "compat_ok contents cfg (upd_entry e (\<lambda>f. f\<lparr>lo_rx := None\<rparr>) n2)"
      using ok n2 free(1) by (simp add: compat_ok_def lo_free_def)
    with None port q show ?thesis by (simp add: lo_bind_def)
  next
    case (Some q1)
    let ?n3 = "upd_entry e (\<lambda>f. f\<lparr>lo_rx := Some q1, loopback := True\<rparr>) n2"
    have "q_mset contents ((entry e n)\<lparr>lo_rx := Some q1, loopback := True\<rparr>) = q_mset contents (entry e n)"
      using new old Some by (cases "lo_rx (entry e n)") (simp_all add: q_mset_def)
    then have m3: "mem_ok contents cfg (ext ?n3)"
      using ok n2 k by (intro mem_ok_upd_entry) (simp_all add: compat_ok_def mem_ok_def entry_ok_def)
    have l3: "lo_free (ext (lo_UNLOCK (lo_LOCK ?n3)))" "mx_free (fd_lock (ext ?n3))" "mx_created (fd_lock (ext ?n3))" "lock_ready ?n3"
      using free(2) ok n2 by (simp_all add: compat_ok_def lo_free_def lo_LOCK_def lo_UNLOCK_def)
    have same: "compat_ok contents cfg (lo_UNLOCK (lo_LOCK ?n3))"
      using m3 l3 by (simp add: compat_ok_def mem_ok_def)
    show ?thesis
    proof (cases "lo_slot_bind port e (s_slots (ext n))")
      case None
      with Some port q n2 same show ?thesis by (simp add: lo_bind_def upd_entry_twice)
    next
      case bnd: (Some slots)
      have "slots_ok slots" using lo_ports.bind_SomeD [OF _ port bnd] ok by (simp add: compat_ok_def mem_ok_def)
      moreover have "\<forall>s \<in> set slots. \<forall>i. lo_fd s = Some i \<longrightarrow> i < MAX_FDS cfg"
        using bind_fds [OF bnd] e ok unfolding compat_ok_def mem_ok_def by blast
      ultimately have "mem_ok contents cfg ((ext ?n3)\<lparr>s_slots := slots\<rparr>)" by (rule mem_ok_slots [OF m3])
      then have "compat_ok contents cfg (lo_UNLOCK (upd_compat (\<lambda>c. c\<lparr>s_slots := slots\<rparr>) (lo_LOCK ?n3)))"
        using l3 by (simp add: compat_ok_def mem_ok_def lo_free_def lo_LOCK_def lo_UNLOCK_def)
      with Some port q n2 bnd show ?thesis by (simp add: lo_bind_def upd_entry_twice)
    qed
  qed
qed

lemma lo_unbind_ok:
  assumes ok: "mem_ok contents cfg (ext n)" "lo_free (ext n)" and e: "e < MAX_FDS cfg"
  shows "mem_ok contents cfg (ext (lo_unbind P K port e n))" "lo_free (ext (lo_unbind P K port e n))"
    and "fd_lock (ext (lo_unbind P K port e n)) = fd_lock (ext n)" "lock_ready (lo_unbind P K port e n) = lock_ready n"
    and "\<exists>q. entry e (lo_unbind P K port e n) = (entry e n)\<lparr>lo_rx := q\<rparr> \<and> (\<forall>q'. q = Some q' \<longrightarrow> contents q' = [])"
proof -
  let ?n2 = "lo_UNLOCK (upd_compat (\<lambda>c. c\<lparr>s_slots := lo_slot_unbind port e (s_slots c)\<rparr>) (lo_LOCK (lock_init_once K n)))"
  have "mem_ok contents cfg ((ext n)\<lparr>s_slots := lo_slot_unbind port e (s_slots (ext n))\<rparr>)"
    using ok unbind_fds by (intro mem_ok_slots [OF ok(1)]) (force simp: mem_ok_def intro: slots_ok_unbind)+
  then have m: "mem_ok contents cfg (ext ?n2)" by (simp add: mem_ok_def)
  have l: "lo_free (ext ?n2)" using init_once_free [OF ok(2)] by (simp add: lo_free_def lo_LOCK_def lo_UNLOCK_def)
  have f: "fd_lock (ext ?n2) = fd_lock (ext n)" "lock_ready ?n2 = lock_ready n" "entry e ?n2 = entry e n"
    by (simp_all add: entry_def)
  have "mem_ok contents cfg (ext (lo_unbind P K port e n)) \<and> lo_free (ext (lo_unbind P K port e n))
    \<and> fd_lock (ext (lo_unbind P K port e n)) = fd_lock (ext n) \<and> lock_ready (lo_unbind P K port e n) = lock_ready n
    \<and> (\<exists>q. entry e (lo_unbind P K port e n) = (entry e n)\<lparr>lo_rx := q\<rparr> \<and> (\<forall>q'. q = Some q' \<longrightarrow> contents q' = []))"
  proof (cases "lo_rx (entry e n)")
    case None
    then have u: "lo_unbind P K port e n = ?n2" using f(3) by (simp add: lo_unbind_def)
    have "entry e n = (entry e n)\<lparr>lo_rx := None\<rparr>" using None by (metis fd_entry.surjective fd_entry.update_convs(5))
    then show ?thesis unfolding u using m l f by auto
  next
    case (Some q)
    then have u: "lo_unbind P K port e n = lo_drain P (length (contents q)) e ?n2"
      using f(3) waiting by (simp add: lo_unbind_def)
    from lo_drain_ok [OF m e, of q] Some f show ?thesis unfolding u using l by auto
  qed
  then show "mem_ok contents cfg (ext (lo_unbind P K port e n))" "lo_free (ext (lo_unbind P K port e n))"
    "fd_lock (ext (lo_unbind P K port e n)) = fd_lock (ext n)" "lock_ready (lo_unbind P K port e n) = lock_ready n"
    "\<exists>q. entry e (lo_unbind P K port e n) = (entry e n)\<lparr>lo_rx := q\<rparr> \<and> (\<forall>q'. q = Some q' \<longrightarrow> contents q' = [])"
    by blast+
qed

lemma put_msg:
  assumes ok: "mem_ok contents cfg (ext n)" and e: "e < MAX_FDS cfg" and q: "lo_rx (entry e n) = Some q"
    and s: "xQueueSend (queues P) q (length (lo_heap (ext n))) = Some q'"
  shows "mem_ok contents cfg (ext (upd_entry e (\<lambda>f. f\<lparr>lo_rx := Some q'\<rparr>) (upd_compat (\<lambda>c. c\<lparr>lo_heap := lo_heap c @ [Some m]\<rparr>) n)))"
proof -
  let ?t = "s_table (ext n)" and ?f = "(entry e n)\<lparr>lo_rx := Some q'\<rparr>" and ?h = "lo_heap (ext n)"
  have len: "e < length ?t" using ok e by (simp add: mem_ok_def)
  have c: "contents q' = contents q @ [length ?h]" using send_SomeD [OF s] by simp
  have "rx_mset contents (?t[e := ?f]) + mset (contents q) = mset_set (live ?h) + mset (contents q')"
    using rx_mset_update [OF len, of contents ?f] ok q by (simp add: q_mset_def mem_ok_def entry_def)
  then have "rx_mset contents (?t[e := ?f]) = add_mset (length ?h) (mset_set (live ?h))" by (simp add: c)
  also have "\<dots> = mset_set (live (?h @ [Some m]))" by (simp add: live_alloc)
  finally have r: "rx_mset contents (?t[e := ?f]) = mset_set (live (?h @ [Some m]))" .
  have "entry_ok (entry e n)" using ok nth_mem [OF len] by (simp add: mem_ok_def entry_def)
  then have "\<forall>x \<in> set (?t[e := ?f]). entry_ok x"
    using ok q unfolding mem_ok_def by (auto simp: entry_ok_def dest!: set_list_updateD)
  with r ok show ?thesis by (simp add: mem_ok_def upd_entry_def entry_def)
qed

lemma lo_deliver_ok:
  assumes ok: "compat_ok contents cfg n"
  shows "compat_ok contents cfg (snd (lo_deliver P K port src sport buf n))"
proof -
  let ?n2 = "lo_UNLOCK (lo_LOCK (lock_init_once K n))"
  have ok2: "compat_ok contents cfg ?n2"
    using ok init_once_free [of n] by (simp add: compat_ok_def mem_ok_def)
  show ?thesis
  proof (cases "\<exists>bs e q. buf = Some bs \<and> length bs \<le> 65535 \<and> lo_target port (s_slots (ext n)) = Some e \<and> lo_rx (entry e n) = Some q")
    case False
    then show ?thesis using ok ok2 by (auto simp: lo_deliver_def Let_def not_less split: option.split)
  next
    case True
    then obtain bs e q where b: "buf = Some bs" "length bs \<le> 65535" and t: "lo_target port (s_slots (ext n)) = Some e"
      and q: "lo_rx (entry e n) = Some q" by blast
    have e: "e < MAX_FDS cfg" using lo_target_mem [OF t] ok by (auto simp: compat_ok_def mem_ok_def)
    let ?m = "\<lparr>lo_src_be = src, lo_src_port = sport, lo_data = bs\<rparr>"
    let ?n3 = "snd (env_call (malloc K (8 + length (lo_data ?m))) ?n2)"
    let ?h = "lo_heap (ext n)" and ?n4 = "upd_compat (\<lambda>c. c\<lparr>lo_heap := lo_heap c @ [Some ?m]\<rparr>) ?n3"
    have ok3: "compat_ok contents cfg ?n3" by (rule env_call_compat_ok [OF ok2])
    have free: "compat_ok contents cfg (msg_free (length ?h) ?n4)"
    proof -
      have "live ((?h @ [Some ?m])[length ?h := None]) = live ?h"
        using live_alloc(2) [of ?h] unfolding live_free live_alloc(1) by auto
      moreover have "msg_live (length ?h) (?h @ [Some ?m])" by (simp add: msg_live_def)
      ultimately show ?thesis using ok3 by (simp add: compat_ok_def mem_ok_def msg_free_def lo_free_def)
    qed
    have sent: "compat_ok contents cfg (upd_entry e (\<lambda>f. f\<lparr>lo_rx := Some q'\<rparr>) ?n4)"
      if "xQueueSend (queues P) q (length ?h) = Some q'" for q'
      using put_msg [OF compat_okD(2) [OF ok3] e, of q q' ?m] that q ok3
      by (simp add: compat_ok_def lo_free_def)
    consider "msg_alloc K ?m ?n2 = (None, ?n3)" | "msg_alloc K ?m ?n2 = (Some (length ?h), ?n4)"
      by (cases rule: msg_alloc_cases [of K ?m ?n2]) simp_all
    then show ?thesis
    proof cases
      case 1
      with b t q ok3 show ?thesis by (simp add: lo_deliver_def)
    next
      case 2
      with b t q free sent show ?thesis
        by (cases "xQueueSend (queues P) q (length ?h)") (simp_all add: lo_deliver_def)
    qed
  qed
qed

lemma msg_read_live: "a \<in> live (lo_heap (ext n)) \<Longrightarrow> msg_read a n = (the (lo_heap (ext n) ! a), n)"
  by (simp add: msg_read_def live_def)

lemma lo_recvfrom_ok:
  assumes ok: "compat_ok contents cfg n" and e: "e < MAX_FDS cfg"
    and rx: "lo_rx (entry e n) \<noteq> None"
    and W: "\<And>d. compat_ok contents cfg (rx_wait e d n) \<and> lo_rx (entry e (rx_wait e d n)) \<noteq> None"
  shows "compat_ok contents cfg (snd (lo_recvfrom P rx_wait e len n))"
proof -
  let ?d = "pdMS_TO_TICKS P (uint (recv_timeout (entry e n)))"
  define n1 where "n1 = (if (case lo_rx (entry e n) of None \<Rightarrow> True | Some q \<Rightarrow> xQueueReceive (queues P) q = None) \<and> ?d \<noteq> 0
    then rx_wait e ?d n else n)"
  have ok1: "compat_ok contents cfg n1" and "lo_rx (entry e n1) \<noteq> None" using ok rx W by (simp_all add: n1_def)
  then obtain q where q: "lo_rx (entry e n1) = Some q" by blast
  have r: "lo_receive P rx_wait e ?d n = (case xQueueReceive (queues P) q of None \<Rightarrow> (None, n1)
      | Some (a, q') \<Rightarrow> (Some a, upd_entry e (\<lambda>f. f\<lparr>lo_rx := Some q'\<rparr>) n1))"
    by (simp only: lo_receive_def Let_def n1_def [symmetric] q option.case)
  show ?thesis
  proof (cases "xQueueReceive (queues P) q")
    case None
    with r ok1 show ?thesis by (simp add: lo_recvfrom_def errno_compat_ok)
  next
    case (Some aq)
    obtain a q' where aq: "aq = (a, q')" by force
    note T = take_msg [OF compat_okD(2) [OF ok1] e q Some [unfolded aq]]
    have "msg_read a (upd_entry e (\<lambda>f. f\<lparr>lo_rx := Some q'\<rparr>) n1) =
        (the (lo_heap (ext n1) ! a), upd_entry e (\<lambda>f. f\<lparr>lo_rx := Some q'\<rparr>) n1)"
      using msg_read_live [of a "upd_entry e (\<lambda>f. f\<lparr>lo_rx := Some q'\<rparr>) n1"] T(1) by simp
    with r Some aq T(2) ok1 show ?thesis
      by (simp add: lo_recvfrom_def Let_def compat_ok_def lo_free_def)
  qed
qed

end

section \<open>The descriptor table\<close>

definition part_ok :: "('q \<Rightarrow> nat list) \<Rightarrow> compat_config \<Rightarrow> ('q, 'g, 'c, 'x) cnet \<Rightarrow> bool" where
  "part_ok contents cfg n \<longleftrightarrow> lock_ready n \<and> mem_ok contents cfg (ext n) \<and> lo_free (ext n)"

lemma compat_ok_part:
  "compat_ok contents cfg n \<longleftrightarrow> part_ok contents cfg n \<and> mx_free (fd_lock (ext n)) \<and> mx_created (fd_lock (ext n))"
  by (auto simp: compat_ok_def part_ok_def)

lemma part_ok_ext: "ext n' = ext n \<Longrightarrow> lock_ready n' \<Longrightarrow> part_ok contents cfg n \<Longrightarrow> part_ok contents cfg n'"
  by (simp add: part_ok_def)

lemma part_ok_upd_entry:
  assumes "part_ok contents cfg n" and "entry_ok (entry i n) \<Longrightarrow> entry_ok (f (entry i n))"
    and "q_mset contents (f (entry i n)) = q_mset contents (entry i n)"
  shows "part_ok contents cfg (upd_entry i f n)"
  using assms mem_ok_upd_entry [of contents cfg n i f] by (simp add: part_ok_def lo_free_def)

lemma fd_lock_frame [simp]:
  "s_table (ext (fd_LOCK n)) = s_table (ext n)" "s_table (ext (fd_UNLOCK n)) = s_table (ext n)"
  "entry i (fd_LOCK n) = entry i n" "entry i (fd_UNLOCK n) = entry i n"
  "fd_lock (ext (fd_LOCK n)) = mx_take (fd_lock (ext n))" "fd_lock (ext (fd_UNLOCK n)) = mx_give (fd_lock (ext n))"
  "part_ok contents cfg (fd_LOCK n) = part_ok contents cfg n" "part_ok contents cfg (fd_UNLOCK n) = part_ok contents cfg n"
  by (simp_all add: fd_LOCK_def fd_UNLOCK_def entry_def part_ok_def mem_ok_def lo_free_def)

lemma mx_take_give: "mx_free m \<Longrightarrow> mx_created m \<Longrightarrow> mx_free (mx_give (mx_take m)) \<and> mx_created (mx_give (mx_take m))"
  by (simp add: mx_free_def mx_take_def mx_give_def)

lemma fd_init_loop_ok:
  "part_ok contents cfg n \<Longrightarrow> part_ok contents cfg (fd_init_loop K is n) \<and> fd_lock (ext (fd_init_loop K is n)) = fd_lock (ext n)"
proof (induction "is" arbitrary: n)
  case (Cons i "is")
  obtain g n1 where g: "env_call (xEventGroupCreate K) n = (g, n1)" by force
  have "n1 = snd (env_call (xEventGroupCreate K) n)" using g by simp
  then have "part_ok contents cfg n1" "fd_lock (ext n1) = fd_lock (ext n)"
    using Cons.prems by (simp_all add: part_ok_def mem_ok_def lo_free_def)
  then have "part_ok contents cfg (upd_entry i (\<lambda>f. f\<lparr>evt := g\<rparr>) n1)" "fd_lock (ext (upd_entry i (\<lambda>f. f\<lparr>evt := g\<rparr>) n1)) = fd_lock (ext n)"
    by (auto intro!: part_ok_upd_entry simp: entry_ok_def q_mset_def)
  with Cons.IH g show ?case by simp
qed simp

lemma fd_free_sock_frame [simp]: "ext (fd_free_sock S e n) = ext n" "entry j (fd_free_sock S e n) = entry j n"
  by (simp_all add: fd_free_sock_def entry_def)

lemma fd_free_pool_frame [simp]: "ext (fd_free_pool S e n) = ext n" "entry j (fd_free_pool S e n) = entry j n"
  by (simp_all add: fd_free_pool_def entry_def split: option.split)

lemma fd_free_lock_ready:
  "lock_ready n \<Longrightarrow> lock_ready (fd_free_sock S e n)" "lock_ready n \<Longrightarrow> lock_ready (fd_free_pool S e n)"
  by (simp_all add: fd_free_sock_def fd_free_pool_def net_lock_ready pool_close_lock_ready split: option.split)

lemma fd_get_SomeD:
  "fd_get cfg fd n = Some e \<Longrightarrow> e < MAX_FDS cfg \<and> kind (entry e n) \<noteq> FD_FREE \<and> fd = fd_offset cfg + int e"
  by (auto simp: fd_get_def Let_def split: if_splits)

lemma fd_get_entry: "e < MAX_FDS cfg \<Longrightarrow> kind (entry e n) \<noteq> FD_FREE \<Longrightarrow> fd_get cfg (fd_offset cfg + int e) n = Some e"
  by (simp add: fd_get_def)

lemma default_iface_ext [simp]: "ext (snd (fd_default_iface cfg S n)) = ext n" "entry i (snd (fd_default_iface cfg S n)) = entry i n"
  by (auto simp: fd_default_iface_def entry_def Let_def case_prod_unfold)

lemma default_iface_lock_ready: "lock_ready n \<Longrightarrow> lock_ready (snd (fd_default_iface cfg S n))"
  by (auto simp: fd_default_iface_def Let_def case_prod_unfold net_lock_ready)

lemma default_iface_fst: "fst (fd_default_iface cfg S n) < NET_IFACE_MAX"
  by (auto simp: fd_default_iface_def NET_IFACE_ETH_def NET_IFACE_WIFI_def NET_IFACE_MAX_def Let_def case_prod_unfold)

context shim_env
begin

lemma fd_table_init_ok:
  assumes "part_ok contents cfg n" and "mx_free (fd_lock (ext n))"
  shows "compat_ok contents cfg (snd (fd_table_init cfg K n))"
proof -
  let ?n1 = "upd_compat (\<lambda>c. c\<lparr>fd_lock := mx_boot\<lparr>mx_created := True\<rparr>\<rparr>) (snd (env_call (xSemaphoreCreateMutex K) n))"
  have "part_ok contents cfg ?n1" using assms by (simp add: part_ok_def mem_ok_def lo_free_def)
  note L = fd_init_loop_ok [OF this, of K "[0..<MAX_FDS cfg]"]
  have "fst (env_call (xSemaphoreCreateMutex K) n)" using mutex_made by (simp add: env_call_def Let_def case_prod_unfold)
  then have i: "snd (fd_table_init cfg K n) = (if mx_created (fd_lock (ext n)) then n else fd_init_loop K [0..<MAX_FDS cfg] ?n1)"
    by (simp add: fd_table_init_def Let_def case_prod_unfold)
  show ?thesis using L assms unfolding i by (simp add: compat_ok_part mx_free_def mx_boot_def)
qed

text \<open>The two outcomes of \<open>fd_alloc\<close>.\<close>

lemma fd_alloc_cases:
  assumes ok: "compat_ok contents cfg n"
  obtains (none) n' where "fd_alloc cfg P K S k n = (-1, n')" "compat_ok contents cfg n'"
      "\<forall>j < MAX_FDS cfg. kind (entry j n) \<noteq> FD_FREE" "\<forall>j < MAX_FDS cfg. entry j n' = entry j n"
  | (some) i n' ifc g where "fd_alloc cfg P K S k n = (fd_offset cfg + int i, n')" "compat_ok contents cfg n'"
      "i < MAX_FDS cfg" "kind (entry i n) = FD_FREE" "\<forall>j < i. kind (entry j n) \<noteq> FD_FREE"
      "entry i n' = (fd_zero g)\<lparr>kind := k, fd_iface := ifc\<rparr>" "ifc < NET_IFACE_MAX"
      "\<forall>j < MAX_FDS cfg. j \<noteq> i \<longrightarrow> entry j n' = entry j n"
proof -
  have created: "mx_created (fd_lock (ext n))" using ok by (simp add: compat_ok_def)
  have len: "length (s_table (ext n)) = MAX_FDS cfg" by (rule compat_okD(3) [OF ok])
  have part: "part_ok contents cfg (fd_LOCK n)" using ok by (simp add: compat_ok_part)
  have free: "mx_free (mx_give (mx_take (fd_lock (ext n)))) \<and> mx_created (mx_give (mx_take (fd_lock (ext n))))"
    using mx_take_give created ok by (simp add: compat_ok_part)
  show ?thesis
  proof (cases "first_idx (\<lambda>f. kind f = FD_FREE) (s_table (ext n))")
    case None
    then have "\<forall>j < MAX_FDS cfg. kind (entry j n) \<noteq> FD_FREE" using len nth_mem by (auto simp: entry_def)
    with None part free created show ?thesis
      by (intro none [of "fd_UNLOCK (fd_LOCK n)"]) (simp_all add: fd_alloc_def Let_def compat_ok_part del: first_idx_None_iff)
  next
    case (Some i)
    have i: "i < MAX_FDS cfg" and fr: "kind (entry i n) = FD_FREE" and least: "\<forall>j < i. kind (entry j n) \<noteq> FD_FREE"
      using first_idx_SomeD [OF Some] len by (auto simp: entry_def)
    let ?n3 = "upd_entry i (\<lambda>f. (fd_zero (evt f))\<lparr>kind := k, sock := NET_SOCK_INVALID\<rparr>) (fd_LOCK n)"
    obtain ifc n4 where d: "fd_default_iface cfg S ?n3 = (ifc, n4)" by force
    let ?n5 = "upd_entry i (\<lambda>f. f\<lparr>fd_iface := ifc, evt := map_option (xEventGroupClearBits P 0xFF) (evt f)\<rparr>) n4"
    have res: "fd_alloc cfg P K S k n = (fd_offset cfg + int i, fd_UNLOCK ?n5)"
      using Some d created by (simp add: fd_alloc_def Let_def)
    have "entry_ok (entry i n)" using ok i len nth_mem [of i "s_table (ext n)"] by (simp add: compat_ok_def mem_ok_def entry_def)
    then have "lo_rx (entry i n) = None" using fr by (simp add: entry_ok_def)
    then have p3: "part_ok contents cfg ?n3"
      using part by (intro part_ok_upd_entry) (simp_all add: entry_ok_def fd_zero_def q_mset_def)
    have x4: "ext n4 = ext ?n3" "lock_ready n4" "\<And>j. entry j n4 = entry j ?n3"
      using d default_iface_ext(1) [of cfg S ?n3] default_iface_ext(2) [of _ cfg S ?n3] default_iface_lock_ready [of ?n3 cfg S] p3 by (simp_all add: part_ok_def)
    have p5: "part_ok contents cfg ?n5"
      using part_ok_ext [OF x4(1,2) p3] by (intro part_ok_upd_entry) (simp_all add: entry_ok_def q_mset_def)
    have l5: "fd_lock (ext ?n5) = mx_take (fd_lock (ext n))" using x4(1) by simp
    have lt: "i < length (s_table (ext n))" using i len by simp
    have e5: "entry i ?n5 = (fd_zero (map_option (xEventGroupClearBits P 0xFF) (evt (entry i n))))\<lparr>kind := k, fd_iface := ifc\<rparr>"
      and o5: "\<And>j. j \<noteq> i \<Longrightarrow> entry j ?n5 = entry j n"
      using lt x4 by (simp_all add: fd_zero_def)
    show ?thesis
    proof (rule some [OF res])
      show "compat_ok contents cfg (fd_UNLOCK ?n5)" using p5 l5 free by (simp add: compat_ok_part)
      show "entry i (fd_UNLOCK ?n5) = (fd_zero (map_option (xEventGroupClearBits P 0xFF) (evt (entry i n))))\<lparr>kind := k, fd_iface := ifc\<rparr>"
        using e5 by simp
      show "\<forall>j < MAX_FDS cfg. j \<noteq> i \<longrightarrow> entry j (fd_UNLOCK ?n5) = entry j n"
        using o5 by simp
      show "ifc < NET_IFACE_MAX" using default_iface_fst [of cfg S ?n3] d by simp
    qed (use i fr least in \<open>simp_all\<close>)
  qed
qed

lemma fd_free_loopback_ok:
  assumes ok: "part_ok contents cfg n" and e: "e < MAX_FDS cfg"
  shows "part_ok contents cfg (fd_free_loopback P K e n)" "lo_rx (entry e (fd_free_loopback P K e n)) = None"
    and "fd_lock (ext (fd_free_loopback P K e n)) = fd_lock (ext n)"
    and "entry e (fd_free_loopback P K e n) = (entry e n)\<lparr>lo_rx := None, loopback := False\<rparr>"
proof -
  have len: "e < length (s_table (ext n))" and eok: "entry_ok (entry e n)"
    using ok e by (auto simp: part_ok_def mem_ok_def entry_def)
  let ?u = "lo_unbind P K (local_port (entry e n)) e n"
  note U = lo_unbind_ok [OF _ _ e, of n "local_port (entry e n)"]
  have u: "part_ok contents cfg ?u" "fd_lock (ext ?u) = fd_lock (ext n)"
    using U ok by (auto simp: part_ok_def)
  obtain q where q: "entry e ?u = (entry e n)\<lparr>lo_rx := q\<rparr>" "\<forall>q'. q = Some q' \<longrightarrow> contents q' = []"
    using U(5) ok by (auto simp: part_ok_def)
  have len': "e < length (s_table (ext ?u))" using u e by (auto simp: part_ok_def mem_ok_def)
  let ?n' = "upd_entry e (\<lambda>f. f\<lparr>lo_rx := None, loopback := False\<rparr>) ?u"
  have "part_ok contents cfg ?n'"
    using u(1) q by (intro part_ok_upd_entry) (auto simp: entry_ok_def q_mset_def split: option.split)
  moreover have "entry e ?n' = (entry e n)\<lparr>lo_rx := None, loopback := False\<rparr>" using len' q(1) by simp
  moreover have "\<not> loopback (entry e n) \<Longrightarrow> lo_rx (entry e n) = None" using eok by (simp add: entry_ok_def)
  then have "\<not> loopback (entry e n) \<Longrightarrow> entry e n = (entry e n)\<lparr>lo_rx := None, loopback := False\<rparr>"
    by (cases "entry e n") simp
  ultimately show "part_ok contents cfg (fd_free_loopback P K e n)" "lo_rx (entry e (fd_free_loopback P K e n)) = None"
    "fd_lock (ext (fd_free_loopback P K e n)) = fd_lock (ext n)"
    "entry e (fd_free_loopback P K e n) = (entry e n)\<lparr>lo_rx := None, loopback := False\<rparr>"
    using ok u(2) \<open>\<not> loopback (entry e n) \<Longrightarrow> lo_rx (entry e n) = None\<close> by (simp_all add: fd_free_loopback_def)
qed

lemma fd_free_ok:
  assumes ok: "compat_ok contents cfg n"
  shows "compat_ok contents cfg (fd_free cfg P K S fd n)"
    and "fd_get cfg fd n = Some e \<Longrightarrow> kind (entry e (fd_free cfg P K S fd n)) = FD_FREE"
proof -
  have "compat_ok contents cfg (fd_free cfg P K S fd n)
    \<and> (fd_get cfg fd n = Some e \<longrightarrow> kind (entry e (fd_free cfg P K S fd n)) = FD_FREE)" for e
  proof (cases "fd_get cfg fd n")
    case None
    with ok show ?thesis by (simp add: fd_free_def)
  next
    case (Some e')
    note e = fd_get_SomeD [OF Some]
    let ?n1 = "fd_free_loopback P K e' (fd_LOCK n)"
    let ?n2 = "fd_free_pool S e' (fd_free_sock S e' ?n1)"
    let ?n3 = "upd_entry e' (\<lambda>f. f\<lparr>pool_freed := (pool f \<noteq> None), kind := FD_FREE\<rparr>) ?n2"
    have p: "part_ok contents cfg (fd_LOCK n)" using ok by (simp add: compat_ok_part)
    note F = fd_free_loopback_ok [OF p conjunct1 [OF e]]
    have "part_ok contents cfg ?n2"
      by (rule part_ok_ext [OF _ _ F(1)]) (use F(1) in \<open>simp_all add: part_ok_def fd_free_lock_ready\<close>)
    then have p3: "part_ok contents cfg ?n3"
      using F(2) by (intro part_ok_upd_entry) (auto simp: entry_ok_def q_mset_def)
    have len: "e' < length (s_table (ext ?n2))" using \<open>part_ok contents cfg ?n2\<close> e by (auto simp: part_ok_def mem_ok_def)
    have "mx_free (mx_give (mx_take (fd_lock (ext n)))) \<and> mx_created (mx_give (mx_take (fd_lock (ext n))))"
      using ok by (intro mx_take_give) (simp_all add: compat_ok_part)
    then have "compat_ok contents cfg (fd_UNLOCK ?n3)" using p3 F(3) by (simp add: compat_ok_part)
    moreover have "fd_free cfg P K S fd n = fd_UNLOCK ?n3" using Some by (simp add: fd_free_def)
    ultimately show ?thesis using len Some by auto
  qed
  then show "compat_ok contents cfg (fd_free cfg P K S fd n)"
    "fd_get cfg fd n = Some e \<Longrightarrow> kind (entry e (fd_free cfg P K S fd n)) = FD_FREE" by blast+
qed

end

end
