(* ===== verification/Select_Wrap.thy ===== *)
theory Select_Wrap
  imports Sock_Wrap
begin

text \<open>
  \<open>select\<close> and \<open>poll\<close> over the descriptors of the shim (\<open>select_wrap.c\<close>): scans of the requested
  descriptors, with one tick of sleep between two scans, until one is ready or the deadline has
  passed. An \<open>fd_set\<close> is the set of the descriptors in it, all below \<open>FD_SETSIZE\<close>; an access to
  a bit outside the array is recorded as a fault. The events of a \<open>pollfd\<close> are the bits
  \<open>POLLIN\<close> and \<open>POLLOUT\<close>, the only ones the code uses.
\<close>

section \<open>fd sets\<close>

definition in_fd_set :: "compat_config \<Rightarrow> int \<Rightarrow> bool" where
  "in_fd_set cfg fd \<longleftrightarrow> 0 \<le> fd \<and> fd < int (FD_SETSIZE cfg)"

definition FD_ISSET :: "compat_config \<Rightarrow> int \<Rightarrow> int set \<Rightarrow> ('q, 'g, 'c, 'x) cnet \<Rightarrow> bool \<times> ('q, 'g, 'c, 'x) cnet" where
  "FD_ISSET cfg fd s n = (if in_fd_set cfg fd then (fd \<in> s, n) else (False, bad_access n))"

definition FD_SET :: "compat_config \<Rightarrow> int \<Rightarrow> int set \<Rightarrow> ('q, 'g, 'c, 'x) cnet \<Rightarrow> int set \<times> ('q, 'g, 'c, 'x) cnet" where
  "FD_SET cfg fd s n = (if in_fd_set cfg fd then (insert fd s, n) else (s, bad_access n))"

section \<open>Readiness of a descriptor\<close>

text \<open>The loop over the pool of a listener.\<close>

fun pool_ready :: "'c smoltcp \<Rightarrow> nat \<Rightarrow> nat list \<Rightarrow> ('q, 'g, 'c, 'x) cnet \<Rightarrow> bool \<times> ('q, 'g, 'c, 'x) cnet" where
  "pool_ready S e [] n = (False, n)"
| "pool_ready S e (i # is) n =
     (let (c, n1) = net_tcp_is_connected S (the (pool (entry e n)) ! i) n
      in if c then (True, n1) else pool_ready S e is n1)"

definition fd_readable ::
  "('q, 'g, ('q, 'g, 'x) compat) platform \<Rightarrow> ('q, 'g, 'c, ('q, 'g, 'x) compat) rtos \<Rightarrow> 'c smoltcp \<Rightarrow> nat \<Rightarrow> ('q, 'g, 'c, 'x) cnet
     \<Rightarrow> (bool \<times> ('q, 'g, 'c, 'x) cnet) option" where
  "fd_readable P R S e n =
     (if kind (entry e n) = FD_TCP_LISTEN then Some (pool_ready S e [0..<pool_len (entry e n)] n)
      else if loopback (entry e n) \<and> lo_rx (entry e n) \<noteq> None
      then Some (uxQueueMessagesWaiting (queues P) (the (lo_rx (entry e n))) > 0, n)
      else (case kind (entry e n) of
          FD_TCP \<Rightarrow>
            (let (q, n1) = net_tcp_recv_queue S (sock (entry e n)) n
             in if q > 0 then Some (True, n1)
                else let (c, n2) = net_tcp_is_connected S (sock (entry e n1)) n1
                     in Some (\<not> c \<and> connected (entry e n2), n2))
        | FD_UDP \<Rightarrow> map_option (\<lambda>((r, d), n1). (r > 0, n1)) (net_udp_recvfrom P R S (sock (entry e n)) 0 0 n)
        | _ \<Rightarrow> Some (False, n)))"

definition fd_writable :: "'c smoltcp \<Rightarrow> nat \<Rightarrow> ('q, 'g, 'c, 'x) cnet \<Rightarrow> bool \<times> ('q, 'g, 'c, 'x) cnet" where
  "fd_writable S e n =
     (case kind (entry e n) of
        FD_TCP \<Rightarrow>
          if connected (entry e n)
          then (let (c, n1) = net_tcp_send_capacity S (sock (entry e n)) n in (c > 0, n1))
          else (False, n)
      | FD_UDP \<Rightarrow> (net_sock_valid (sock (entry e n)) \<or> loopback (entry e n), n)
      | _ \<Rightarrow> (False, n))"

section \<open>select\<close>

text \<open>The body of the scan for one descriptor, the scan, and the loop around it.\<close>

type_synonym scan = "int \<times> int set \<times> int set"

definition select_fd ::
  "compat_config \<Rightarrow> ('q, 'g, ('q, 'g, 'x) compat) platform \<Rightarrow> ('q, 'g, 'c, ('q, 'g, 'x) compat) rtos \<Rightarrow> 'c smoltcp \<Rightarrow> int set \<Rightarrow> int set
     \<Rightarrow> int \<Rightarrow> scan \<Rightarrow> ('q, 'g, 'c, 'x) cnet \<Rightarrow> (scan \<times> ('q, 'g, 'c, 'x) cnet) option" where
  "select_fd cfg P R S rd_in wr_in fd acc n =
     (if \<not> fd_is_socket cfg fd n then Some (acc, n)
      else case fd_get cfg fd n of None \<Rightarrow> Some (acc, n)
      | Some e \<Rightarrow>
          let (ready, rd, wr) = acc; (rq, n1) = FD_ISSET cfg fd rd_in n
          in Option.bind (if rq then fd_readable P R S e n1 else Some (False, n1)) (\<lambda>(r, n2).
               let (rd', n3) = (if r then FD_SET cfg fd rd n2 else (rd, n2));
                   (wq, n4) = FD_ISSET cfg fd wr_in n3;
                   (w, n5) = (if wq then fd_writable S e n4 else (False, n4));
                   (wr', n6) = (if w then FD_SET cfg fd wr n5 else (wr, n5))
               in Some ((ready + of_bool r + of_bool w, rd', wr'), n6)))"

fun select_scan ::
  "compat_config \<Rightarrow> ('q, 'g, ('q, 'g, 'x) compat) platform \<Rightarrow> ('q, 'g, 'c, ('q, 'g, 'x) compat) rtos \<Rightarrow> 'c smoltcp \<Rightarrow> int set \<Rightarrow> int set
     \<Rightarrow> int list \<Rightarrow> scan \<Rightarrow> ('q, 'g, 'c, 'x) cnet \<Rightarrow> (scan \<times> ('q, 'g, 'c, 'x) cnet) option" where
  "select_scan cfg P R S rd_in wr_in [] acc n = Some (acc, n)"
| "select_scan cfg P R S rd_in wr_in (fd # fds) acc n =
     Option.bind (select_fd cfg P R S rd_in wr_in fd acc n)
       (\<lambda>(acc', n'). select_scan cfg P R S rd_in wr_in fds acc' n')"

partial_function (option) select_loop ::
  "compat_config \<Rightarrow> ('q, 'g, ('q, 'g, 'x) compat) platform \<Rightarrow> ('q, 'g, 'c, ('q, 'g, 'x) compat) rtos \<Rightarrow> 'c smoltcp \<Rightarrow> int set \<Rightarrow> int set
     \<Rightarrow> int list \<Rightarrow> u32 \<Rightarrow> ('q, 'g, 'c, 'x) cnet \<Rightarrow> (scan \<times> ('q, 'g, 'c, 'x) cnet) option" where
  "select_loop cfg P R S rd_in wr_in fds deadline n =
     Option.bind (select_scan cfg P R S rd_in wr_in fds (0, {}, {}) n) (\<lambda>(acc, n1).
       if fst acc \<noteq> 0 then Some (acc, n1)
       else if deadline = portMAX_DELAY
       then select_loop cfg P R S rd_in wr_in fds deadline (vTaskDelay R 1 n1)
       else let (now, n2) = tick_count P n1
            in if now \<ge> deadline then Some (acc, n2)
               else select_loop cfg P R S rd_in wr_in fds deadline (vTaskDelay R 1 n2))"

text \<open>\<open>tv_sec * 1000u + tv_usec / 1000u\<close>, a \<open>uint32_t\<close>; the division is unsigned.\<close>

definition select_ms :: "int \<times> int \<Rightarrow> u32" where
  "select_ms to = word_of_int (fst to) * 1000 + word_of_int (snd to) div 1000"

text \<open>A set is \<open>None\<close> for a null pointer; the sets are returned with the number of ready events.\<close>

definition lwip_select ::
  "compat_config \<Rightarrow> ('q, 'g, ('q, 'g, 'x) compat) platform \<Rightarrow> ('q, 'g, 'c, ('q, 'g, 'x) compat) rtos \<Rightarrow> 'c smoltcp
     \<Rightarrow> int \<Rightarrow> int set option \<Rightarrow> int set option \<Rightarrow> int set option \<Rightarrow> (int \<times> int) option \<Rightarrow> ('q, 'g, 'c, 'x) cnet
     \<Rightarrow> ((int \<times> int set option \<times> int set option \<times> int set option) \<times> ('q, 'g, 'c, 'x) cnet) option" where
  "lwip_select cfg P R S nfds rd wr ex to n =
     (let (deadline, n1) = (case to of None \<Rightarrow> (portMAX_DELAY, n)
            | Some tv \<Rightarrow> (let (now, n') = tick_count P n in (now + pdMS_TO_TICKS P (uint (select_ms tv)), n')));
          rd_in = (case rd of None \<Rightarrow> {} | Some s \<Rightarrow> s);
          wr_in = (case wr of None \<Rightarrow> {} | Some s \<Rightarrow> s)
      in map_option (\<lambda>((ready, rd', wr'), n2).
             ((ready, map_option (\<lambda>_. rd') rd, map_option (\<lambda>_. wr') wr, map_option (\<lambda>_. {}) ex), n2))
           (select_loop cfg P R S rd_in wr_in (map int [0..<nat nfds]) deadline n1))"

section \<open>poll\<close>

record pollfd =
  pfd :: int
  POLLIN :: bool
  POLLOUT :: bool
  rev_POLLIN :: bool
  rev_POLLOUT :: bool

text \<open>The loop that fills the sets and finds the largest descriptor.\<close>

fun poll_sets ::
  "compat_config \<Rightarrow> pollfd list \<Rightarrow> int set \<times> int set \<times> int \<Rightarrow> ('q, 'g, 'c, 'x) cnet \<Rightarrow> (int set \<times> int set \<times> int) \<times> ('q, 'g, 'c, 'x) cnet" where
  "poll_sets cfg [] acc n = (acc, n)"
| "poll_sets cfg (p # ps) (rd, wr, mx) n =
     (let (rd', n1) = (if POLLIN p then FD_SET cfg (pfd p) rd n else (rd, n));
          (wr', n2) = (if POLLOUT p then FD_SET cfg (pfd p) wr n1 else (wr, n1))
      in poll_sets cfg ps (rd', wr', max (pfd p) mx) n2)"

text \<open>The loop that reads the sets back.\<close>

fun poll_events ::
  "compat_config \<Rightarrow> int set \<Rightarrow> int set \<Rightarrow> pollfd list \<Rightarrow> ('q, 'g, 'c, 'x) cnet \<Rightarrow> (int \<times> pollfd list) \<times> ('q, 'g, 'c, 'x) cnet" where
  "poll_events cfg rd wr [] n = ((0, []), n)"
| "poll_events cfg rd wr (p # ps) n =
     (let (r, n1) = FD_ISSET cfg (pfd p) rd n;
          (w, n2) = FD_ISSET cfg (pfd p) wr n1;
          ((k, ps'), n3) = poll_events cfg rd wr ps n2
      in ((of_bool r + of_bool w + k, p\<lparr>rev_POLLIN := r, rev_POLLOUT := w\<rparr> # ps'), n3))"

definition poll_timeval :: "int \<Rightarrow> (int \<times> int) option" where
  "poll_timeval timeout_ms = (if timeout_ms < 0 then None else Some (timeout_ms div 1000, timeout_ms mod 1000 * 1000))"

definition lwip_poll ::
  "compat_config \<Rightarrow> ('q, 'g, ('q, 'g, 'x) compat) platform \<Rightarrow> ('q, 'g, 'c, ('q, 'g, 'x) compat) rtos \<Rightarrow> 'c smoltcp
     \<Rightarrow> pollfd list \<Rightarrow> int \<Rightarrow> ('q, 'g, 'c, 'x) cnet \<Rightarrow> ((int \<times> pollfd list) \<times> ('q, 'g, 'c, 'x) cnet) option" where
  "lwip_poll cfg P R S fds timeout_ms n =
     (let ((rd, wr, mx), n1) = poll_sets cfg fds ({}, {}, -1) n;
          clr = map (\<lambda>p. p\<lparr>rev_POLLIN := False, rev_POLLOUT := False\<rparr>) fds
      in Option.bind (lwip_select cfg P R S (mx + 1) (Some rd) (Some wr) None (poll_timeval timeout_ms) n1)
           (\<lambda>((rc, rd', wr', ex'), n2).
              Some (if rc \<le> 0 then ((rc, clr), n2) else poll_events cfg (the rd') (the wr') clr n2)))"

end
