(* ===== verification/Compat_Run.thy ===== *)
theory Compat_Run
  imports Compat_Inv Select_Wrap
begin

text \<open>
  The socket calls of several tasks in any order. \<open>shim_use\<close>, \<open>shim_op\<close> and
  \<open>shim_call\<close> have one rule per call, \<open>shim_step\<close> adds
  whatever the rest of the system does to the stack; a blocking call is one step whose waits
  contain the steps of the other tasks, so the waits have to keep the invariant in their turn
  (locale \<open>shim_tasks\<close>). Every call keeps it, hence it holds in every reachable state. The callers
  of \<open>select\<close> and \<open>poll\<close> are taken to name descriptors below \<open>FD_SETSIZE\<close> only, as POSIX asks, and
  no task closes a listener while another sleeps in \<open>accept\<close>, or a bound descriptor while another
  waits for its loopback queue: the code does not survive either.
\<close>

definition same_statics :: "('q, 'g, 'x) compat \<Rightarrow> ('q, 'g, 'x) compat \<Rightarrow> bool" where
  "same_statics c c' \<longleftrightarrow> (\<exists>e x. c' = c\<lparr>c_errno := e, cenv := x\<rparr>)"

lemma same_statics_simps:
  assumes "same_statics c c'"
  shows "s_table c' = s_table c" "fd_lock c' = fd_lock c" "s_slots c' = s_slots c" "lo_inited c' = lo_inited c"
    "lo_lock c' = lo_lock c" "lo_heap c' = lo_heap c" "heap_fault c' = heap_fault c"
  using assms by (auto simp: same_statics_def)

lemma compat_ok_statics:
  "same_statics (ext n) (ext n') \<Longrightarrow> lock_ready n' \<Longrightarrow> compat_ok contents cfg n \<Longrightarrow> compat_ok contents cfg n'"
  by (rule compat_ok_cong [of n']) (simp_all add: same_statics_simps compat_okD)

text \<open>The calls that use a descriptor, those that open, hand over or close sockets, and \<open>connect\<close>, which
  on a stream descriptor opens a socket without a look at the one it may have.\<close>

inductive shim_use ::
  "compat_config \<Rightarrow> ('q, 'g, ('q, 'g, 'x) compat) platform \<Rightarrow> ('q, 'g, 'c, ('q, 'g, 'x) compat) rtos
     \<Rightarrow> (nat \<Rightarrow> u32 \<Rightarrow> ('q, 'g, 'c, 'x) cnet \<Rightarrow> ('q, 'g, 'c, 'x) cnet) \<Rightarrow> ('q, 'g, 'x) libc \<Rightarrow> 'c smoltcp
     \<Rightarrow> ('q, 'g, 'c, 'x) cnet \<Rightarrow> ('q, 'g, 'c, 'x) cnet \<Rightarrow> bool"
  for cfg P R W K S where
  send: "lwip_send cfg P R S fd buf n = Some (i, n') \<Longrightarrow> shim_use cfg P R W K S n n'"
| recv: "lwip_recv cfg P R S fd len n = Some (rb, n') \<Longrightarrow> shim_use cfg P R W K S n n'"
| sendto: "shim_use cfg P R W K S n (snd (lwip_sendto cfg P K S fd buf addr alen n))"
| recvfrom: "lwip_recvfrom cfg P R W S fd len al n = Some (rf, n') \<Longrightarrow> shim_use cfg P R W K S n n'"
| setsockopt: "shim_use cfg P R W K S n (snd (lwip_setsockopt cfg S fd opt n))"
| getsockopt: "shim_use cfg P R W K S n (snd (lwip_getsockopt cfg fd so_error n))"
| getsockname: "shim_use cfg P R W K S n (snd (lwip_getsockname cfg S fd al n))"
| getpeername: "shim_use cfg P R W K S n (snd (lwip_getpeername n))"
| fcntl: "shim_use cfg P R W K S n (snd (lwip_fcntl cfg K fd cmd arg n))"
| ioctl: "shim_use cfg P R W K S n (snd (lwip_ioctl cfg K fd icmd iarg n))"
| read_fd: "lwip_read cfg P R K S fd len n = Some (rb, n') \<Longrightarrow> shim_use cfg P R W K S n n'"
| write_fd: "lwip_write cfg P R K S fd buf n = Some (i, n') \<Longrightarrow> shim_use cfg P R W K S n n'"
| select: "nfds \<le> int (FD_SETSIZE cfg) \<Longrightarrow> lwip_select cfg P R S nfds rd wr ex to n = Some (rs, n') \<Longrightarrow> shim_use cfg P R W K S n n'"
| poll: "list_all (\<lambda>p. in_fd_set cfg (pfd p)) fds \<Longrightarrow> lwip_poll cfg P R S fds tmo n = Some (rp, n') \<Longrightarrow> shim_use cfg P R W K S n n'"

inductive shim_op ::
  "compat_config \<Rightarrow> ('q, 'g, ('q, 'g, 'x) compat) platform \<Rightarrow> ('q, 'g, 'c, ('q, 'g, 'x) compat) rtos
     \<Rightarrow> (nat \<Rightarrow> u32 \<Rightarrow> ('q, 'g, 'c, 'x) cnet \<Rightarrow> ('q, 'g, 'c, 'x) cnet) \<Rightarrow> ('q, 'g, 'x) libc \<Rightarrow> 'c smoltcp
     \<Rightarrow> ('q, 'g, 'c, 'x) cnet \<Rightarrow> ('q, 'g, 'c, 'x) cnet \<Rightarrow> bool"
  for cfg P R W K S where
  socket: "shim_op cfg P R W K S n (snd (lwip_socket cfg P K S domain typ n))"
| bind: "shim_op cfg P R W K S n (snd (lwip_bind cfg K S fd addr alen n))"
| listen: "shim_op cfg P R W K S n (snd (lwip_listen cfg K S fd backlog n))"
| accept: "lwip_accept cfg P R K S fd al n = Some (r, n') \<Longrightarrow> shim_op cfg P R W K S n n'"
| close: "shim_op cfg P R W K S n (snd (lwip_close cfg P K S fd n))"
| shutdown: "shim_op cfg P R W K S n (snd (lwip_shutdown cfg S fd n))"
| use: "shim_use cfg P R W K S n n' \<Longrightarrow> shim_op cfg P R W K S n n'"

inductive shim_call ::
  "compat_config \<Rightarrow> ('q, 'g, ('q, 'g, 'x) compat) platform \<Rightarrow> ('q, 'g, 'c, ('q, 'g, 'x) compat) rtos
     \<Rightarrow> (nat \<Rightarrow> u32 \<Rightarrow> ('q, 'g, 'c, 'x) cnet \<Rightarrow> ('q, 'g, 'c, 'x) cnet) \<Rightarrow> ('q, 'g, 'x) libc \<Rightarrow> 'c smoltcp
     \<Rightarrow> ('q, 'g, 'c, 'x) cnet \<Rightarrow> ('q, 'g, 'c, 'x) cnet \<Rightarrow> bool"
  for cfg P R W K S where
  op: "shim_op cfg P R W K S n n' \<Longrightarrow> shim_call cfg P R W K S n n'"
| connect: "lwip_connect cfg P R S fd addr alen n = Some (i, n') \<Longrightarrow> shim_call cfg P R W K S n n'"

inductive shim_step for cfg P R W K S where
  call: "shim_call cfg P R W K S n n' \<Longrightarrow> shim_step cfg P R W K S n n'"
| stack: "same_statics (ext n) (ext n') \<Longrightarrow> lock_ready n' \<Longrightarrow> shim_step cfg P R W K S n n'"

inductive shim_run for cfg P R W K S where
  start: "shim_run cfg P R W K S n n"
| step: "shim_run cfg P R W K S n n1 \<Longrightarrow> shim_step cfg P R W K S n1 n2 \<Longrightarrow> shim_run cfg P R W K S n n2"

lemma accept_scan_entry: "entry j (snd (accept_scan S e is n)) = entry j n"
proof (induction "is" arbitrary: n)
  case (Cons i "is")
  then show ?case by (simp add: Let_def case_prod_unfold)
qed simp

lemma pool_access_frame: "entry j (pool_access e n) = entry j n" "cenv (ext (pool_access e n)) = cenv (ext n)"
    "s_ifaces (pool_access e n) = s_ifaces n"
  by (simp_all add: pool_access_def bad_access_def entry_def upd_compat_def)

locale shim_tasks = shim_env P contents capacity K cfg
  for P :: "('q, 'g, ('q, 'g, 'x) compat) platform" and contents capacity K cfg +
  fixes R :: "('q, 'g, 'c, ('q, 'g, 'x) compat) rtos"
    and W :: "nat \<Rightarrow> u32 \<Rightarrow> ('q, 'g, 'c, 'x) cnet \<Rightarrow> ('q, 'g, 'c, 'x) cnet"
  assumes tick_env: "same_statics c (snd (xTaskGetTickCount P c))"
    and rand_env: "same_statics c (snd (esp_random P c))"
    and delay_ok: "compat_ok contents cfg n \<Longrightarrow> compat_ok contents cfg (vTaskDelay R d n)"
    and bits_ok: "compat_ok contents cfg n \<Longrightarrow> compat_ok contents cfg (snd (wait_bits_progress R b d n))"
    and delay_listens: "compat_ok contents cfg n \<Longrightarrow> kind (entry e n) = FD_TCP_LISTEN \<Longrightarrow> kind (entry e (vTaskDelay R d n)) = FD_TCP_LISTEN"
    and rx_wait_ok: "compat_ok contents cfg n \<Longrightarrow> lo_rx (entry e n) \<noteq> None \<Longrightarrow>
      compat_ok contents cfg (W e d n) \<and> lo_rx (entry e (W e d n)) \<noteq> None"
begin

abbreviation "ok \<equiv> compat_ok contents cfg"

lemma tick_ok: "ok n \<Longrightarrow> ok (snd (tick_count P n))"
  by (rule compat_ok_statics [of n, OF _ snd_lock_ready(2)])
    (use tick_env [of "ext n"] in \<open>simp_all add: compat_okD tick_count_def Let_def case_prod_unfold\<close>)

lemma rand_ok: "ok n \<Longrightarrow> ok (snd (smoltcp_glue_rand32 P n))"
  by (rule compat_ok_statics [of n, OF _ rand_lock_ready])
    (use rand_env [of "ext n"] in \<open>simp_all add: compat_okD smoltcp_glue_rand32_def Let_def case_prod_unfold\<close>)

lemma keeps_ok: "keeps P R ok"
proof -
  have "ok (SMOLTCP_UNLOCK (set_handle i h (core_call (SMOLTCP_LOCK n))))" if "ok n" for i h and n :: "('q, 'g, 'c, 'x) cnet"
    by (rule compat_ok_ext [OF _ bracket_lock_ready that]) (use that in \<open>simp_all add: set_handle_def compat_okD\<close>)
  moreover have "ok (net_stack_kick_poll n)" if "ok n" for n :: "('q, 'g, 'c, 'x) cnet"
    by (rule compat_ok_ext [OF _ snd_lock_ready(3) that]) (use that in \<open>simp_all add: compat_okD\<close>)
  ultimately show ?thesis by (simp add: keeps_def keeps_env_def tick_ok rand_ok delay_ok bits_ok)
qed

lemma upd_ok: "ok n \<Longrightarrow> (\<And>f. entry_ok f \<Longrightarrow> entry_ok (g f)) \<Longrightarrow> (\<And>f. lo_rx (g f) = lo_rx f) \<Longrightarrow> ok (upd_entry e g n)"
  by (rule compat_ok_upd_entry) simp_all

lemmas ok_intros = net_calls_compat_ok env_call_compat_ok errno_compat_ok fail_compat_ok tick_ok

lemma fd_alloc_ok: "ok n \<Longrightarrow> ok (snd (fd_alloc cfg P K S k n))"
  by (cases rule: fd_alloc_cases [of n S k]) simp_all

lemma socket_ok:
  assumes "ok n" shows "ok (snd (lwip_socket cfg P K S domain typ n))"
proof -
  obtain fd n1 where a: "fd_alloc cfg P K S (if typ AND 0xFF = SOCK_STREAM cfg then FD_TCP else FD_UDP) n = (fd, n1)" by force
  then have n1: "ok n1" using fd_alloc_ok [OF assms] by (metis snd_conv)
  let ?n2 = "upd_entry (new_entry cfg fd) (\<lambda>f. f\<lparr>nonblocking := False\<rparr>) n1"
  have n2: "ok ?n2" by (rule upd_ok [OF n1]) (simp_all add: entry_ok_def)
  obtain s n3 where o: "net_udp_open S (fd_iface (entry (new_entry cfg fd) ?n2)) 0 ?n2 = (s, n3)" by force
  then have "ok n3" using net_calls_compat_ok(5) [OF n2] by (metis snd_conv)
  then have n4: "ok (upd_entry (new_entry cfg fd) (\<lambda>f. f\<lparr>sock := s\<rparr>) n3)" by (rule upd_ok) (simp_all add: entry_ok_def)
  show ?thesis
    using assms n1 n2 n4 fd_free_ok(1) [OF n4] a o by (auto simp: lwip_socket_def Let_def intro!: ok_intros split: if_splits)
qed

lemma bind_ok:
  assumes "ok n" shows "ok (snd (lwip_bind cfg K S fd addr alen n))"
proof (cases "fd_get cfg fd n")
  case None
  with assms show ?thesis by (simp add: lwip_bind_def fail_compat_ok)
next
  case (Some e)
  note e = fd_get_SomeD [OF Some]
  let ?n1 = "upd_entry e (\<lambda>f. f\<lparr>local_ipv4_be := s_addr addr, local_port := ntohs (sin_port addr)\<rparr>) n"
  have n1: "ok ?n1" by (rule upd_ok [OF assms]) (simp_all add: entry_ok_def)
  have k: "kind (entry e ?n1) \<noteq> FD_FREE" using e compat_okD(3) [OF assms] by simp
  let ?n2 = "if net_sock_valid (sock (entry e ?n1)) then snd (net_udp_close S (sock (entry e ?n1)) ?n1) else ?n1"
  have n2: "ok ?n2" using n1 by (simp add: ok_intros)
  obtain s n3 where o: "net_udp_open S (fd_iface (entry e ?n2)) (ntohs (sin_port addr)) ?n2 = (s, n3)" by force
  then have "ok n3" using net_calls_compat_ok(5) [OF n2] by (metis snd_conv)
  then have n4: "ok (upd_entry e (\<lambda>f. f\<lparr>sock := s\<rparr>) n3)" by (rule upd_ok) (simp_all add: entry_ok_def)
  show ?thesis
    using assms Some n1 n4 o lo_bind_ok [OF n1 conjunct1 [OF e] k] fail_compat_ok [OF n4]
    by (simp add: lwip_bind_def Let_def case_prod_unfold fail_compat_ok del: upd_entry_ext entry_upd_entry)
qed

lemma set_pool_ok: "ok n \<Longrightarrow> ok (set_pool e i s n)"
  unfolding set_pool_def by (rule upd_ok) (simp_all add: entry_ok_def)

lemma arm_pool_ok: "ok n \<Longrightarrow> ok (snd (arm_pool S e is n))"
proof (induction "is" arbitrary: n)
  case (Cons i "is")
  obtain s n1 where o: "net_tcp_open S (fd_iface (entry e n)) n = (s, n1)" by force
  have n1: "ok n1" using net_calls_compat_ok(1) [OF Cons.prems, of S "fd_iface (entry e n)"] o by simp
  note n2 = set_pool_ok [OF n1, of e i s]
  obtain er n3 where l: "net_tcp_listen S s (fd_port (entry e (set_pool e i s n1))) (set_pool e i s n1) = (er, n3)" by force
  have "ok n3" using net_calls_compat_ok(2) [OF n2, of S s "fd_port (entry e (set_pool e i s n1))"] l by simp
  then show ?case using o l n2 Cons.IH by (simp add: Let_def fail_compat_ok)
qed simp

lemma listen_ok:
  assumes "ok n" shows "ok (snd (lwip_listen cfg K S fd backlog n))"
proof (cases "fd_get cfg fd n")
  case None
  with assms show ?thesis by (simp add: lwip_listen_def fail_compat_ok)
next
  case (Some e)
  note e = fd_get_SomeD [OF Some]
  let ?sz = "pool_size cfg backlog"
  obtain ok' n1 where m: "env_call (malloc K (?sz * 4)) n = (ok', n1)" by force
  have n1: "ok n1" using env_call_compat_ok [OF assms, of "malloc K (?sz * 4)"] m by simp
  have p: "ok (upd_entry e (\<lambda>f. f\<lparr>pool := x\<rparr>) n1)" for x by (rule upd_ok [OF n1]) (simp_all add: entry_ok_def)
  have a: "ok (upd_entry e (\<lambda>f. f\<lparr>pool_freed := False, pool_len := ?sz, pool_next := 0, fd_port := local_port f, kind := FD_TCP_LISTEN\<rparr>)
      (upd_entry e (\<lambda>f. f\<lparr>pool := x\<rparr>) n1))" for x
    by (rule upd_ok [OF p]) (simp_all add: entry_ok_def)
  show ?thesis using assms Some m p arm_pool_ok [OF a] by (simp add: lwip_listen_def Let_def fail_compat_ok)
qed

lemma tick_entry: "entry e (snd (tick_count P n)) = entry e n"
  using tick_env [of "ext n"] by (simp add: tick_count_def Let_def case_prod_unfold entry_def same_statics_simps)

lemma accept_scan_ok: "ok n \<Longrightarrow> ok (snd (accept_scan S e is n))"
proof (induction "is" arbitrary: n)
  case (Cons i "is")
  let ?idx = "(pool_next (entry e n) + i) mod pool_len (entry e n)"
  obtain c n1 where c: "net_tcp_is_connected S (the (pool (entry e n)) ! ?idx) n = (c, n1)" by force
  have "ok n1" using net_calls_compat_ok(4) [OF Cons.prems, of S "the (pool (entry e n)) ! ?idx"] c by simp
  then show ?case using c Cons.IH by (simp add: Let_def)
qed simp

lemma accept_take_ok:
  assumes "ok n" shows "ok (snd (accept_take cfg P K S e idx want n))"
proof -
  obtain fd n1 where a: "fd_alloc cfg P K S FD_TCP n = (fd, n1)" by force
  have n1: "ok n1" using fd_alloc_ok [OF assms, of S FD_TCP] a by simp
  let ?n2 = "upd_entry (new_entry cfg fd) (\<lambda>f. f\<lparr>sock := the (pool (entry e n)) ! idx, connected := True,
    fd_iface := fd_iface (entry e n1), nonblocking := False\<rparr>) n1"
  have n2: "ok ?n2" by (rule upd_ok [OF n1]) (simp_all add: entry_ok_def)
  obtain s n3 where o: "net_tcp_open S (fd_iface (entry e ?n2)) ?n2 = (s, n3)" by force
  have n3: "ok n3" using net_calls_compat_ok(1) [OF n2, of S "fd_iface (entry e ?n2)"] o by simp
  let ?n4 = "set_pool e idx s n3"
  let ?n5 = "if net_sock_valid s then snd (net_tcp_listen S s (fd_port (entry e ?n4)) ?n4) else ?n4"
  have n5: "ok ?n5" using set_pool_ok [OF n3] by (simp add: net_calls_compat_ok)
  have "ok (upd_entry e (\<lambda>f. f\<lparr>pool_next := (idx + 1) mod pool_len f\<rparr>) ?n5)"
    by (rule upd_ok [OF n5]) (simp_all add: entry_ok_def)
  then show ?thesis using a o n1 by (simp add: accept_take_def Let_def errno_compat_ok)
qed

lemma pool_access_live:
  assumes "ok n" and "e < MAX_FDS cfg" and "kind (entry e n) \<noteq> FD_FREE"
  shows "pool_access e n = n"
proof -
  have "entry_ok (entry e n)" using assms(1,2) by (simp add: compat_ok_def mem_ok_def entry_def)
  with assms(3) show ?thesis by (simp add: pool_access_def entry_ok_def)
qed

lemma accept_loop_ok:
  assumes "accept_loop cfg P R K S e want st n = Some r" and "ok n" and "e < MAX_FDS cfg" and "kind (entry e n) = FD_TCP_LISTEN"
  shows "ok (snd r)"
proof -
  have "Q ((((((((cfg, P), R), K), S), e), want), st), n) r"
    if Q: "Q = (\<lambda>((((((((c', P'), R'), K'), S), e), want), st), n) r. c' = cfg \<longrightarrow> P' = P \<longrightarrow> R' = R \<longrightarrow> K' = K \<longrightarrow> ok n
      \<longrightarrow> e < MAX_FDS cfg \<longrightarrow> kind (entry e n) = FD_TCP_LISTEN \<longrightarrow> ok (snd r))" for Q
  proof (rule accept_loop.raw_induct [OF _ assms(1)], goal_cases)
    case (1 loop c' P' R' K' S e want st n r)
    show ?case unfolding Q prod.case
    proof (intro impI)
      assume eq: "c' = cfg" "P' = P" "R' = R" "K' = K" and n: "ok n" and e: "e < MAX_FDS cfg" and k: "kind (entry e n) = FD_TCP_LISTEN"
      obtain f n1 where f: "accept_scan S e [0..<pool_len (entry e n)] n = (f, n1)" by force
      have live: "pool_access e n = n" by (rule pool_access_live [OF n e]) (simp add: k)
      have n1: "ok n1" using accept_scan_ok [OF n, of S e "[0..<pool_len (entry e n)]"] f by simp
      obtain t n2 where t: "tick_count P n1 = (t, n2)" by force
      have n2: "ok n2" using tick_ok [OF n1] t by simp
      have "kind (entry e n1) = FD_TCP_LISTEN" using accept_scan_entry [of e S e "[0..<pool_len (entry e n)]" n] f k by simp
      then have "kind (entry e n2) = FD_TCP_LISTEN" using tick_entry [of e n1] t by simp
      note k3 = delay_listens [OF n2 this]
      have IH: "loop cfg P R K S e want st m = Some r \<Longrightarrow> ok m \<Longrightarrow> kind (entry e m) = FD_TCP_LISTEN \<Longrightarrow> ok (snd r)" for m
        using 1(1) [of cfg P R K S e want st m r] e unfolding Q by simp
      show "ok (snd r)"
        using 1(2) unfolding eq live f prod.case Let_def t
        by (auto split: option.splits if_splits intro: accept_take_ok [OF n1] errno_compat_ok [OF n1] errno_compat_ok [OF n2]
            IH delay_ok [OF n2] k3)
    qed
  qed
  with assms show ?thesis by simp
qed

lemma accept_ok:
  assumes "ok n" and "lwip_accept cfg P R K S fd al n = Some (r, n')"
  shows "ok n'"
proof (cases "fd_get cfg fd n")
  case None
  with assms show ?thesis by (auto simp: lwip_accept_def errno_compat_ok)
next
  case (Some e)
  have e: "e < MAX_FDS cfg" using fd_get_SomeD [OF Some] by simp
  have L: "accept_loop cfg P R K S e want st (snd (tick_count P n)) = Some r \<Longrightarrow> kind (entry e n) = FD_TCP_LISTEN \<Longrightarrow> ok (snd r)" for want st r
    using accept_loop_ok [OF _ tick_ok [OF assms(1)] e] by (simp add: tick_entry)
  show ?thesis
    using assms Some by (auto simp: lwip_accept_def Let_def case_prod_unfold errno_compat_ok split: if_splits dest!: L)
qed

lemma connect_ok:
  assumes n: "ok n" and c: "lwip_connect cfg P R S fd addr alen n = Some (i, n')"
  shows "ok n'"
proof (cases "fd_get cfg fd n")
  case None
  with n c show ?thesis by (auto simp: lwip_connect_def fail_def errno_compat_ok)
next
  case (Some e)
  obtain s n1 where o: "net_tcp_open S (fd_iface (entry e n)) n = (s, n1)" by force
  have n1: "ok n1" using net_calls_compat_ok(1) [OF n, of S "fd_iface (entry e n)"] o by simp
  have n2: "ok (upd_entry e (\<lambda>f. f\<lparr>sock := s\<rparr>) n1)" by (rule upd_ok [OF n1]) (simp_all add: entry_ok_def)
  note B = blocking_keeps(1) [OF keeps_ok n2]
  have conn: "ok m \<Longrightarrow> ok (upd_entry e (\<lambda>f. f\<lparr>connected := True\<rparr>) m)" for m
    by (rule upd_ok) (simp_all add: entry_ok_def)
  have udp: "ok (upd_entry e (\<lambda>f. f\<lparr>local_ipv4_be := s_addr addr, local_port := ntohs (sin_port addr), connected := True\<rparr>) n)"
    by (rule upd_ok [OF n]) (simp_all add: entry_ok_def)
  show ?thesis
    using c Some o n n2 udp
    by (auto simp: lwip_connect_def Let_def fail_def errno_compat_ok conn dest: B split: if_splits fd_kind.splits)
qed

lemma send_ok:
  assumes "ok n" and "lwip_send cfg P R S fd buf n = Some (i, n')"
  shows "ok n'"
  using assms(2) fail_compat_ok [OF assms(1)] net_calls_compat_ok(6) [OF assms(1)]
  by (auto simp: lwip_send_def fail_def dest!: blocking_keeps(2) [OF keeps_ok assms(1)] split: option.splits if_splits fd_kind.splits)
    (metis snd_conv)

lemma recv_result_ok: "ok n \<Longrightarrow> ok (snd (recv_result e r n))"
  by (simp add: recv_result_def errno_compat_ok)

lemma recv_ok:
  assumes "ok n" and "lwip_recv cfg P R S fd len n = Some (rb, n')"
  shows "ok n'"
proof -
  note B = blocking_keeps(3,4) [OF keeps_ok assms(1)]
  have R: "recv_result e r m = (rb, n') \<Longrightarrow> ok m \<Longrightarrow> ok n'" for e r m using recv_result_ok [of m e r] by simp
  show ?thesis
    using assms by (auto simp: lwip_recv_def errno_compat_ok dest!: B intro: R split: option.splits fd_kind.splits)
qed

lemma sendto_ok: "ok n \<Longrightarrow> ok (snd (lwip_sendto cfg P K S fd buf addr alen n))"
  by (simp add: lwip_sendto_def fail_compat_ok lo_deliver_ok net_calls_compat_ok split: option.split)

lemma recvfrom_ok:
  assumes n: "ok n" and c: "lwip_recvfrom cfg P R W S fd len al n = Some (rf, n')"
  shows "ok n'"
proof (cases "fd_get cfg fd n")
  case None
  with n c show ?thesis by (auto simp: lwip_recvfrom_def errno_compat_ok)
next
  case (Some e)
  note e = fd_get_SomeD [OF Some]
  have L: "ok (snd (lo_recvfrom P W e len n))" if "lo_rx (entry e n) \<noteq> None"
    by (rule lo_recvfrom_ok [OF n _ that]) (use e rx_wait_ok [OF n that] in simp_all)
  note B = blocking_keeps(4) [OF keeps_ok n]
  show ?thesis
    using c Some n L
    by (auto simp: lwip_recvfrom_def Let_def errno_compat_ok dest!: B split: if_splits prod.splits)
qed

lemma close_ok: "ok n \<Longrightarrow> ok (snd (lwip_close cfg P K S fd n))"
  by (simp add: lwip_close_def env_call_compat_ok fd_free_ok(1))

lemma shutdown_upd_ok: "ok n \<Longrightarrow> ok (upd_entry e (\<lambda>f. f\<lparr>sock := NET_SOCK_INVALID, connected := False\<rparr>) n)"
  by (rule upd_ok) (simp_all add: entry_ok_def)

lemma shutdown_ok: "ok n \<Longrightarrow> ok (snd (lwip_shutdown cfg S fd n))"
  by (simp add: lwip_shutdown_def fail_compat_ok net_calls_compat_ok shutdown_upd_ok split: option.split)

lemma option_calls_ok:
  assumes n: "ok n"
  shows "ok (snd (lwip_setsockopt cfg S fd opt n))" "ok (snd (lwip_getsockopt cfg fd so_error n))"
    "ok (snd (lwip_getsockname cfg S fd al n))" "ok (snd (lwip_getpeername n))"
    "ok (snd (lwip_fcntl cfg K fd cmd arg n))" "ok (snd (lwip_ioctl cfg K fd icmd iarg n))"
proof -
  have u: "ok (upd_entry e (\<lambda>f. f\<lparr>rcv_timeout_ms := t\<rparr>) n)" "ok (upd_entry e (\<lambda>f. f\<lparr>snd_timeout_ms := t\<rparr>) n)"
    "ok (upd_entry e (\<lambda>f. f\<lparr>nonblocking := b\<rparr>) n)" for e t b
    by (rule upd_ok [OF n], simp_all add: entry_ok_def)+
  note I = n u fail_compat_ok [OF n] errno_compat_ok [OF n] net_calls_compat_ok [OF n] env_call_compat_ok [OF n]
  show "ok (snd (lwip_setsockopt cfg S fd opt n))"
    using I by (simp add: lwip_setsockopt_def Let_def case_prod_unfold split: option.split sockopt.split)
  show "ok (snd (lwip_getsockopt cfg fd so_error n))" using I by (simp add: lwip_getsockopt_def split: option.split)
  show "ok (snd (lwip_getsockname cfg S fd al n))"
    using I by (simp add: lwip_getsockname_def Let_def case_prod_unfold split: option.split)
  show "ok (snd (lwip_getpeername n))" using I by (simp add: lwip_getpeername_def)
  show "ok (snd (lwip_fcntl cfg K fd cmd arg n))" using I by (simp add: lwip_fcntl_def env_call_compat_ok [OF n] split: option.split fcntl_cmd.split)
  show "ok (snd (lwip_ioctl cfg K fd icmd iarg n))" using I by (simp add: lwip_ioctl_def env_call_compat_ok [OF n] split: option.split ioctl_cmd.split)
qed

lemma pool_ready_ok: "ok n \<Longrightarrow> ok (snd (pool_ready S e is n))"
  by (induction "is" arbitrary: n) (simp_all add: Let_def case_prod_unfold net_calls_compat_ok)

lemma fd_readable_ok: "fd_readable P R S e n = Some (b, n') \<Longrightarrow> ok n \<Longrightarrow> ok n'"
  using pool_ready_ok [of n S e "[0..<pool_len (entry e n)]"]
  by (auto simp: fd_readable_def Let_def case_prod_unfold net_calls_compat_ok
      dest: blocking_keeps(4) [OF keeps_ok] split: if_splits fd_kind.splits)

lemma fd_writable_ok: "ok n \<Longrightarrow> ok (snd (fd_writable S e n))"
  by (simp add: fd_writable_def Let_def case_prod_unfold net_calls_compat_ok split: fd_kind.split)

lemma select_fd_ok:
  assumes "select_fd cfg P R S rd_in wr_in fd acc n = Some (acc', n')" and "ok n" and "in_fd_set cfg fd"
  shows "ok n'"
  using assms fd_writable_ok
  by (auto simp: select_fd_def FD_ISSET_def FD_SET_def Let_def case_prod_unfold bind_eq_Some_conv
      dest: fd_readable_ok split: if_splits option.splits)

lemma select_scan_ok:
  "select_scan cfg P R S rd_in wr_in fds acc n = Some (acc', n') \<Longrightarrow> ok n \<Longrightarrow> list_all (in_fd_set cfg) fds \<Longrightarrow> ok n'"
proof (induction fds arbitrary: acc n)
  case (Cons fd fds)
  from Cons.prems(1) obtain acc1 n1 where s: "select_fd cfg P R S rd_in wr_in fd acc n = Some (acc1, n1)"
    "select_scan cfg P R S rd_in wr_in fds acc1 n1 = Some (acc', n')"
    by (auto simp: bind_eq_Some_conv)
  with Cons.prems(2,3) select_fd_ok [OF s(1)] Cons.IH [OF s(2)] show ?case by simp
qed simp

lemma select_loop_ok:
  assumes "select_loop cfg P R S rd_in wr_in fds D n = Some r" and "ok n" and "list_all (in_fd_set cfg) fds"
  shows "ok (snd r)"
proof -
  have "Q ((((((((cfg, P), R), S), rd_in), wr_in), fds), D), n) r"
    if Q: "Q = (\<lambda>((((((((c', P'), R'), S), ri), wi), fds), D), n) r. c' = cfg \<longrightarrow> P' = P \<longrightarrow> R' = R
      \<longrightarrow> ok n \<longrightarrow> list_all (in_fd_set cfg) fds \<longrightarrow> ok (snd r))" for Q
  proof (rule select_loop.raw_induct [OF _ assms(1)], goal_cases)
    case (1 loop c' P' R' S ri wi fds D n r)
    show ?case unfolding Q prod.case
    proof (intro impI)
      assume eq: "c' = cfg" "P' = P" "R' = R" and n: "ok n" and fds: "list_all (in_fd_set cfg) fds"
      from 1(2) obtain acc n1 where s: "select_scan cfg P R S ri wi fds (0, {}, {}) n = Some (acc, n1)"
        unfolding eq by (auto simp: bind_eq_Some_conv)
      have n1: "ok n1" by (rule select_scan_ok [OF s n fds])
      obtain t n2 where t: "tick_count P n1 = (t, n2)" by force
      have n2: "ok n2" using tick_ok [OF n1] t by simp
      have IH: "loop cfg P R S ri wi fds D m = Some r \<Longrightarrow> ok m \<Longrightarrow> ok (snd r)" for m
        using 1(1) [of cfg P R S ri wi fds D m r] fds unfolding Q by simp
      show "ok (snd r)"
        using 1(2) n1 n2 IH [OF _ delay_ok [OF n1]] IH [OF _ delay_ok [OF n2]]
        unfolding eq s t by (auto simp: t split: if_splits)
    qed
  qed
  with assms show ?thesis by simp
qed

lemma select_ok:
  assumes "lwip_select cfg P R S nfds rd wr ex to n = Some (r, n')" and "ok n" and "nfds \<le> int (FD_SETSIZE cfg)"
  shows "ok n'"
proof -
  have fds: "list_all (in_fd_set cfg) (map int [0..<nat nfds])"
    using assms(3) by (auto simp: list_all_iff in_fd_set_def)
  show ?thesis
    using assms(1,2) tick_ok [OF assms(2)] select_loop_ok [OF _ _ fds]
    by (fastforce simp: lwip_select_def Let_def case_prod_unfold split: option.splits)
qed

lemma poll_sets_ok:
  "list_all (\<lambda>p. in_fd_set cfg (pfd p)) fds \<Longrightarrow> mx < int (FD_SETSIZE cfg) \<Longrightarrow>
     snd (poll_sets cfg fds (rd, wr, mx) n) = n \<and> snd (snd (fst (poll_sets cfg fds (rd, wr, mx) n))) < int (FD_SETSIZE cfg)"
  by (induction fds arbitrary: rd wr mx) (simp_all add: FD_SET_def Let_def case_prod_unfold in_fd_set_def)

lemma poll_events_ok: "list_all (\<lambda>p. in_fd_set cfg (pfd p)) fds \<Longrightarrow> snd (poll_events cfg rd wr fds n) = n"
  by (induction fds) (simp_all add: FD_ISSET_def Let_def case_prod_unfold)

lemma poll_ok:
  assumes fds: "list_all (\<lambda>p. in_fd_set cfg (pfd p)) fds" and "lwip_poll cfg P R S fds tmo n = Some (r, n')" and "ok n"
  shows "ok n'"
proof -
  let ?cs = "map (\<lambda>p. p\<lparr>rev_POLLIN := False, rev_POLLOUT := False\<rparr>) fds"
  obtain rd wr mx n1 where p: "poll_sets cfg fds ({}, {}, -1) n = ((rd, wr, mx), n1)" by (metis surj_pair)
  have mx: "n1 = n" "mx + 1 \<le> int (FD_SETSIZE cfg)"
    using poll_sets_ok [OF fds, of "-1" "{}" "{}" n] p by simp_all
  from assms(2) p obtain rc rd' wr' ex' n2 where s: "lwip_select cfg P R S (mx + 1) (Some rd) (Some wr) None (poll_timeval tmo) n = Some ((rc, rd', wr', ex'), n2)"
    and r: "(r, n') = (if rc \<le> 0 then ((rc, ?cs), n2) else poll_events cfg (the rd') (the wr') ?cs n2)"
    unfolding mx by (auto simp: lwip_poll_def Let_def bind_eq_Some_conv)
  have "list_all (\<lambda>p. in_fd_set cfg (pfd p)) ?cs" using fds by (simp add: list_all_iff)
  then have "n' = n2" using r poll_events_ok [of ?cs "the rd'" "the wr'" n2] by (auto split: if_splits dest: arg_cong [where f = snd])
  with select_ok [OF s assms(3) mx(2)] show ?thesis by simp
qed

lemma use_ok: "shim_use cfg P R W K S n n' \<Longrightarrow> ok n \<Longrightarrow> ok n'"
proof (induction rule: shim_use.induct)
  case (read_fd fd len n rb n')
  then show ?case using recv_ok env_call_compat_ok [of contents cfg n "real_read K fd len"]
    by (auto simp: lwip_read_def split: if_splits)
next
  case (write_fd fd buf n i n')
  then show ?case using send_ok env_call_compat_ok [of contents cfg n "real_write K fd buf"]
    by (auto simp: lwip_write_def split: if_splits)
qed (simp_all add: sendto_ok option_calls_ok, (blast intro: send_ok recv_ok recvfrom_ok select_ok poll_ok)+)

lemma op_ok: "shim_op cfg P R W K S n n' \<Longrightarrow> ok n \<Longrightarrow> ok n'"
  by (induction rule: shim_op.induct) (simp_all add: socket_ok bind_ok listen_ok close_ok shutdown_ok, (blast intro: accept_ok use_ok)+)

lemma call_ok: "shim_call cfg P R W K S n n' \<Longrightarrow> ok n \<Longrightarrow> ok n'"
  by (induction rule: shim_call.induct) (blast intro: op_ok connect_ok)+

lemma step_ok: "shim_step cfg P R W K S n n' \<Longrightarrow> ok n \<Longrightarrow> ok n'"
  by (induction rule: shim_step.induct) (blast intro: call_ok compat_ok_statics)+

lemma run_ok: "shim_run cfg P R W K S n n' \<Longrightarrow> ok n \<Longrightarrow> ok n'"
  by (induction rule: shim_run.induct) (blast intro: step_ok)+

end

section \<open>From power-up\<close>

lemma boot_part_ok:
  assumes "lock_ready n" and "ext n = compat_boot cfg x"
  shows "part_ok contents cfg n" "mx_free (fd_lock (ext n))"
proof -
  have "rx_mset contents (replicate k (fd_zero None)) = {#}" for k
    by (induction k) (simp_all add: rx_mset_def fd_zero_def)
  moreover have "slots_ok (replicate 4 lo_slot_free)"
    by (simp add: slots_ok_def taps_ok_def L2_TAP_SLOTS_def as_tap_def lo_slot_free_def)
  ultimately show "part_ok contents cfg n" "mx_free (fd_lock (ext n))"
    using assms by (simp_all add: part_ok_def mem_ok_def compat_boot_def entry_ok_def fd_zero_def live_def msg_live_def
        lo_slot_free_def lo_free_def mx_free_def mx_boot_def)
qed

context shim_tasks
begin

lemma boot_run_ok:
  assumes "lock_ready n0" and "ext n0 = compat_boot cfg x" and "shim_run cfg P R W K S (snd (fd_table_init cfg K n0)) n"
  shows "ok n"
  using run_ok [OF assms(3)] fd_table_init_ok [OF boot_part_ok [OF assms(1,2)]] by blast

end

text \<open>A concrete environment: the event groups, queues and clock of \<open>ref_platform\<close>, a C library in
  which nothing fails, and waits in which only the clock moves.\<close>

definition ref_cplatform :: "(ring, u32, (ring, u32, nat) compat) platform" where
  "ref_cplatform = \<lparr>queues = ring_ops, xEventGroupSetBits = (\<lambda>b g. g OR b), xEventGroupClearBits = (\<lambda>b g. g AND NOT b),
     esp_eth_transmit = (\<lambda>h f e. (ESP_OK, e)), esp_eth_start = (\<lambda>h e. e), esp_timer_get_time = (\<lambda>e. (int (cenv e), e)),
     esp_random = (\<lambda>e. (4, e)), xTaskGetTickCount = (\<lambda>e. (of_nat (cenv e), e)), pdMS_TO_TICKS = word_of_int\<rparr>"

definition ref_libc :: "(ring, u32, nat) libc" where
  "ref_libc = \<lparr>malloc = (\<lambda>k x. (True, x)), free_block = (\<lambda>x. x), xQueueCreate = (\<lambda>d x. (Some (ring_new d), x)), xEventGroupCreate = (\<lambda>x. (Some 0, x)),
     xSemaphoreCreateMutex = (\<lambda>x. (True, x)), real_close = (\<lambda>fd x. (0, x)), real_fcntl = (\<lambda>fd cmd arg x. (0, x)),
     real_ioctl = (\<lambda>fd cmd arg x. (0, x)), real_read = (\<lambda>fd k x. ((0, []), x)), real_write = (\<lambda>fd bs x. (int (length bs), x))\<rparr>"

definition tick_on :: "('q, 'g, 'c, nat) cnet \<Rightarrow> ('q, 'g, 'c, nat) cnet" where
  "tick_on = upd_compat (\<lambda>c. c\<lparr>cenv := cenv c + 1\<rparr>)"

definition ref_crtos :: "(ring, u32, 'c, (ring, u32, nat) compat) rtos" where
  "ref_crtos = \<lparr>vTaskDelay = (\<lambda>d. tick_on), wait_bits_progress = (\<lambda>b d n. (b, tick_on n)), wait_bits_evt = (\<lambda>b d n. (b, tick_on n))\<rparr>"

definition ref_cfg :: compat_config where
  "ref_cfg = \<lparr>MAX_FDS = 4, LWIP_SOCKET_OFFSET = 54, LISTENER_POOL = 2, FD_SETSIZE = 64, DEFAULT_IFACE_ETH = True, AF_INET = 2,
     SOCK_STREAM = 1, SOCK_DGRAM = 2, O_NONBLOCK = 0x4000\<rparr>"

lemma tick_on_ok: "compat_ok contents cfg n \<Longrightarrow> compat_ok contents cfg (tick_on n)"
  by (rule compat_ok_cong) (simp_all add: tick_on_def compat_okD)

lemma tick_on_entry: "entry e (tick_on n) = entry e n"
  by (simp add: entry_def tick_on_def)

lemma same_statics_refl: "same_statics c c"
  unfolding same_statics_def by (rule exI [of _ "c_errno c"], rule exI [of _ "cenv c"]) simp

interpretation ref_shim: shim_tasks ref_cplatform ring_contents ring_capacity ref_libc ref_cfg ref_crtos "\<lambda>e d. tick_on"
proof -
  have q: "queues ref_cplatform = ring_ops" by (simp add: ref_cplatform_def)
  show "shim_tasks ref_cplatform ring_contents ring_capacity ref_libc ref_cfg ref_crtos (\<lambda>e d. tick_on)"
    by (unfold_locales, unfold q)
      (auto simp: rq.send_room rq.send_full rq.receive_empty rq.receive_next rq.waiting ref_libc_def ref_cplatform_def
        ref_crtos_def same_statics_refl tick_on_ok tick_on_entry)
qed

definition ref_cnet :: "(ring, u32, ref_stack, nat) cnet" where
  "ref_cnet = upd_iface NET_IFACE_ETH (\<lambda>f. f\<lparr>enabled := True, smoltcp_handle := Some (ctx_new ref_smoltcp 0 [2, 0, 0, 0, 0, 1] 0)\<rparr>)
     ((net_boot 2 (compat_boot ref_cfg 0))\<lparr>lock_created := True\<rparr>)"

lemma ref_cnet: "lock_ready ref_cnet" "ext ref_cnet = compat_boot ref_cfg 0"
  by (simp_all add: ref_cnet_def net_boot_def lock_ready_def lock_ok_def)

text \<open>C2: Memory of the loopback path. After any sequence of socket calls, with the calls that other
  tasks make while one of them waits (where no task closes the listener or the loopback queue another one
  is waiting on), no datagram is freed twice or read after it was freed, no freed pool of a listener is read, every datagram that is allocated is in
  exactly one receive queue exactly once and every queued pointer is a live datagram, so that
  none leaks, also not when descriptors are closed with datagrams waiting; and a free
  descriptor owns no queue.\<close>

theorem shim_memory_safe:
  assumes "shim_tasks P contents capacity K cfg R W" and "lock_ready n0" and "ext n0 = compat_boot cfg x"
    and "shim_run cfg P R W K S (snd (fd_table_init cfg K n0)) n"
  shows "\<not> heap_fault (ext n) \<and> rx_mset contents (s_table (ext n)) = mset_set (live (lo_heap (ext n)))
    \<and> (\<forall>i < MAX_FDS cfg. kind (entry i n) = FD_FREE \<longrightarrow> lo_rx (entry i n) = None)"
proof -
  have ok: "compat_ok contents cfg n" by (rule shim_tasks.boot_run_ok [OF assms])
  then have "entry_ok (entry i n)" if "i < MAX_FDS cfg" for i
    using that by (simp add: compat_ok_def mem_ok_def entry_def)
  with ok show ?thesis by (auto simp: compat_ok_def mem_ok_def entry_ok_def)
qed

definition ref_creach :: "(ring, u32, ref_stack, nat) cnet" where
  "ref_creach = snd (lwip_bind ref_cfg ref_libc ref_smoltcp 54 \<lparr>sin_family = 2, sin_port = 0x0700, s_addr = 0x0100007F\<rparr> 16
     (snd (lwip_socket ref_cfg ref_cplatform ref_libc ref_smoltcp 2 2 (snd (fd_table_init ref_cfg ref_libc ref_cnet)))))"

lemma ref_creach:
  "shim_run ref_cfg ref_cplatform ref_crtos (\<lambda>e d. tick_on) ref_libc ref_smoltcp (snd (fd_table_init ref_cfg ref_libc ref_cnet)) ref_creach"
  unfolding ref_creach_def by (rule shim_run.step [OF shim_run.step [OF shim_run.start shim_step.call [OF shim_call.op [OF shim_op.socket]]] shim_step.call [OF shim_call.op [OF shim_op.bind]]])

theorem shim_memory_safe_witness:
  "\<not> heap_fault (ext ref_creach) \<and> rx_mset ring_contents (s_table (ext ref_creach)) = mset_set (live (lo_heap (ext ref_creach)))"
  using shim_memory_safe [OF ref_shim.shim_tasks_axioms ref_cnet ref_creach] by blast

text \<open>A mutex whose creation failed is taken all the same.\<close>

lemma lo_deliver_no_mutex:
  fixes n :: "('q, 'g, 'c, 'x) cnet"
  assumes "\<not> fst (xSemaphoreCreateMutex K (cenv (ext n)))" and "\<not> lo_inited (ext n)" and "length bs \<le> 65535"
  shows "mx_fault (lo_lock (ext (snd (lo_deliver P K dp sa sp (Some bs) n))))"
proof -
  have f: "mx_fault (lo_lock (ext (lo_UNLOCK (lo_LOCK (lock_init_once K n)))))"
    using assms(1,2) by (simp add: lock_init_once_def env_call_def Let_def case_prod_unfold upd_compat_def lo_LOCK_def lo_UNLOCK_def mx_take_def mx_give_def)
  have a: "lo_lock (ext (snd (msg_alloc K m n'))) = lo_lock (ext n')" "lo_lock (ext (msg_free x n')) = lo_lock (ext n')"
    "lo_lock (ext (upd_entry e g n')) = lo_lock (ext n')" for m x e g and n' :: "('q, 'g, 'c, 'x) cnet"
    by (simp_all add: msg_alloc_def msg_free_def env_call_def upd_compat_def upd_entry_def Let_def case_prod_unfold)
  show ?thesis
    using assms(3) f by (auto simp: lo_deliver_def Let_def case_prod_unfold a split: option.split)
qed

lemma fd_alloc_no_mutex:
  assumes "\<not> fst (xSemaphoreCreateMutex K (cenv (ext n)))" and "\<not> mx_created (fd_lock (ext n))"
  shows "mx_fault (fd_lock (ext (snd (fd_alloc cfg P K S k n))))"
proof -
  let ?n2 = "fd_LOCK (snd (fd_table_init cfg K n))"
  have f: "mx_fault (fd_lock (ext ?n2))"
    using assms by (simp add: fd_table_init_def env_call_def Let_def case_prod_unfold upd_compat_def fd_LOCK_def mx_take_def)
  show ?thesis
    using assms(2) f by (auto simp: fd_alloc_def Let_def case_prod_unfold mx_give_def split: option.split)
qed

text \<open>C7: Locking of the shim. Provided the two mutexes can be created, in every state that the calls
  of the shim reach (\<open>getaddrinfo\<close> and \<open>gethostbyname\<close> apart, which enter the Rust core without the
  lock) the lock of the stack, the mutex of the descriptor table and the mutex of the loopback
  table are free, none was ever taken before it was created or twice by one task (closing
  a descriptor takes all three, nested), the Rust core was only entered under its lock, and the
  port table is well formed. The proviso is needed: the code does not check the creation, and
  when it fails the first descriptor that is allocated, and the first datagram that is
  delivered to the loopback, take a mutex that does not exist.\<close>

theorem shim_lock_discipline:
  assumes "shim_tasks P contents capacity K cfg R W" and "lock_ready n0" and "ext n0 = compat_boot cfg x"
    and "shim_run cfg P R W K S (snd (fd_table_init cfg K n0)) n"
  shows "lock_ready n \<and> mx_free (fd_lock (ext n)) \<and> mx_created (fd_lock (ext n)) \<and> mx_free (lo_lock (ext n))
    \<and> slots_ok (s_slots (ext n))
    \<and> (\<forall>K' k. \<not> fst (xSemaphoreCreateMutex K' (cenv (ext n0))) \<longrightarrow> mx_fault (fd_lock (ext (snd (fd_alloc cfg P K' S k n0)))))
    \<and> (\<forall>K' dp sa sp bs. \<not> fst (xSemaphoreCreateMutex K' (cenv (ext n0))) \<longrightarrow> length bs \<le> 65535
         \<longrightarrow> mx_fault (lo_lock (ext (snd (lo_deliver P K' dp sa sp (Some bs) n0)))))"
proof -
  have "\<not> mx_created (fd_lock (ext n0))" "\<not> lo_inited (ext n0)" using assms(3) by (simp_all add: compat_boot_def mx_boot_def)
  then show ?thesis
    using shim_tasks.boot_run_ok [OF assms] by (simp add: compat_ok_def mem_ok_def lo_free_def fd_alloc_no_mutex lo_deliver_no_mutex)
qed

theorem shim_lock_discipline_witness:
  "lock_ready ref_creach \<and> mx_free (fd_lock (ext ref_creach)) \<and> mx_free (lo_lock (ext ref_creach))"
  using shim_lock_discipline [OF ref_shim.shim_tasks_axioms ref_cnet ref_creach] by blast

end
