(* ===== verification/Compat_Fds.thy ===== *)
theory Compat_Fds
  imports Compat_Run
begin

text \<open>
  Opening and closing descriptors. \<open>socket\<close> and \<open>close\<close> make the descriptor table an allocator
  over a fixed set of integers: they provide the \<open>slab\<close> interface, as the receive-frame pool and
  the transmit pool of the stack do.
\<close>

section \<open>Closing a descriptor leaves the others alone\<close>

lemma entry_upd_other [simp]: "j \<noteq> e \<Longrightarrow> entry j (upd_entry e f n) = entry j n"
  by (simp add: entry_def upd_entry_def)

lemma lo_drain_other: "j \<noteq> e \<Longrightarrow> entry j (lo_drain P k e n) = entry j n"
  by (induction P k e n rule: lo_drain.induct) (simp_all split: option.split)

lemma lo_unbind_other: "j \<noteq> e \<Longrightarrow> entry j (lo_unbind P K port e n) = entry j n"
  by (simp add: lo_unbind_def Let_def lo_drain_other split: option.split) (simp add: entry_def)

lemma fd_free_other: "fd_get cfg fd n = Some e \<Longrightarrow> j \<noteq> e \<Longrightarrow> entry j (fd_free cfg P K S fd n) = entry j n"
  by (simp add: fd_free_def fd_free_loopback_def lo_unbind_other)

lemma fd_is_socket_get: "fd_is_socket cfg fd n \<longleftrightarrow> fd_get cfg fd n \<noteq> None"
  by (auto simp: fd_is_socket_def fd_get_def Let_def)

section \<open>socket and close as an allocator\<close>

definition sock_take ::
  "compat_config \<Rightarrow> ('q, 'g, ('q, 'g, 'x) compat) platform \<Rightarrow> ('q, 'g, 'x) libc \<Rightarrow> 'c smoltcp \<Rightarrow> ('q, 'g, 'c, 'x) cnet
     \<Rightarrow> (int \<times> ('q, 'g, 'c, 'x) cnet) option" where
  "sock_take cfg P K S n =
     (let (fd, n') = lwip_socket cfg P K S (AF_INET cfg) (SOCK_STREAM cfg) n in if fd < 0 then None else Some (fd, n'))"

definition sock_give ::
  "compat_config \<Rightarrow> ('q, 'g, ('q, 'g, 'x) compat) platform \<Rightarrow> ('q, 'g, 'x) libc \<Rightarrow> 'c smoltcp \<Rightarrow> int \<Rightarrow> ('q, 'g, 'c, 'x) cnet
     \<Rightarrow> ('q, 'g, 'c, 'x) cnet" where
  "sock_give cfg P K S fd n = snd (lwip_close cfg P K S fd n)"

definition fd_avail :: "compat_config \<Rightarrow> ('q, 'g, 'c, 'x) cnet \<Rightarrow> int set" where
  "fd_avail cfg n = {fd_offset cfg..<fd_offset cfg + int (MAX_FDS cfg)} - {fd. fd_is_socket cfg fd n}"

lemma fd_avail_iff: "i < MAX_FDS cfg \<Longrightarrow> fd_offset cfg + int i \<in> fd_avail cfg n \<longleftrightarrow> kind (entry i n) = FD_FREE"
  by (simp add: fd_avail_def fd_is_socket_def)

lemma fd_avail_eqI:
  assumes "\<And>i. i < MAX_FDS cfg \<Longrightarrow> kind (entry i n') = FD_FREE \<longleftrightarrow> fd_offset cfg + int i \<in> A"
    and "A \<subseteq> {fd_offset cfg..<fd_offset cfg + int (MAX_FDS cfg)}"
  shows "fd_avail cfg n' = A"
proof (rule set_eqI)
  fix fd
  show "fd \<in> fd_avail cfg n' \<longleftrightarrow> fd \<in> A"
  proof (cases "fd \<in> {fd_offset cfg..<fd_offset cfg + int (MAX_FDS cfg)}")
    case True
    then obtain i where "i < MAX_FDS cfg" "fd = fd_offset cfg + int i"
      by (metis atLeastLessThan_iff zle_iff_zadd zadd_int_left add_less_cancel_left of_nat_less_iff)
    then show ?thesis using assms(1) fd_avail_iff by blast
  qed (use assms(2) in \<open>auto simp: fd_avail_def\<close>)
qed

locale shim_fds = shim_env P contents capacity K cfg
  for P :: "('q, 'g, ('q, 'g, 'x) compat) platform" and contents capacity K cfg +
  assumes offset: "0 \<le> LWIP_SOCKET_OFFSET cfg"
    and stream_type: "SOCK_STREAM cfg AND 0xFF = SOCK_STREAM cfg"
begin

lemma sock_take_cases:
  assumes ok: "compat_ok contents cfg n"
  obtains (none) "sock_take cfg P K S n = None" "fd_avail cfg n = {}"
  | (some) i n' where "sock_take cfg P K S n = Some (fd_offset cfg + int i, n')" "compat_ok contents cfg n'"
      "i < MAX_FDS cfg" "kind (entry i n) = FD_FREE" "\<forall>j < i. kind (entry j n) \<noteq> FD_FREE" "kind (entry i n') = FD_TCP"
      "\<forall>j < MAX_FDS cfg. j \<noteq> i \<longrightarrow> entry j n' = entry j n"
proof -
  from ok show ?thesis
  proof (cases rule: fd_alloc_cases [where S = S and k = FD_TCP])
    case (none n')
    then have "sock_take cfg P K S n = None" by (simp add: sock_take_def lwip_socket_def Let_def stream_type fail_def)
    moreover have "fd_avail cfg n = {}" by (rule fd_avail_eqI) (use none(3) in auto)
    ultimately show ?thesis by (rule that(1))
  next
    case (some i n' ifc g)
    let ?n2 = "upd_entry i (\<lambda>f. f\<lparr>nonblocking := False\<rparr>) n'"
    have len: "i < length (s_table (ext n'))" using compat_okD(3) [OF some(2)] some(3) by simp
    have "new_entry cfg (fd_offset cfg + int i) = i" by (simp add: new_entry_def)
    then have t: "sock_take cfg P K S n = Some (fd_offset cfg + int i, ?n2)"
      using some(1) offset by (simp add: sock_take_def lwip_socket_def Let_def stream_type fd_offset_def)
    have ok2: "compat_ok contents cfg ?n2" by (rule compat_ok_upd_entry [OF some(2)]) (simp_all add: entry_ok_def)
    show ?thesis by (rule that(2) [OF t ok2 some(3-5)]) (use len some(6,8) in simp_all)
  qed
qed

end

sublocale shim_fds \<subseteq> fds: slab "sock_take cfg P K S" "sock_give cfg P K S" "fd_avail cfg" "compat_ok contents cfg"
    "{fd_offset cfg..<fd_offset cfg + int (MAX_FDS cfg)}" for S :: "'a smoltcp"
proof
  show "finite {fd_offset cfg..<fd_offset cfg + int (MAX_FDS cfg)}" by simp
  fix s s' :: "('q, 'g, 'a, 'x) cnet" and fd :: int
  assume ok: "compat_ok contents cfg s"
  show "fd_avail cfg s \<subseteq> {fd_offset cfg..<fd_offset cfg + int (MAX_FDS cfg)}" by (auto simp: fd_avail_def)
  show "fd \<in> fd_avail cfg s \<and> fd_avail cfg s' = fd_avail cfg s - {fd} \<and> compat_ok contents cfg s'"
    if "sock_take cfg P K S s = Some (fd, s')"
    using ok
  proof (cases rule: sock_take_cases [of s S])
    case (some i n')
    with that have fd: "fd = fd_offset cfg + int i" "s' = n'" by simp_all
    have "fd_avail cfg s' = fd_avail cfg s - {fd}"
      by (rule fd_avail_eqI) (use some fd fd_avail_iff [of _ cfg s] in \<open>auto simp: fd_avail_def\<close>)
    with some fd fd_avail_iff show ?thesis by blast
  qed (use that in simp)
  show "sock_take cfg P K S s = None \<longleftrightarrow> fd_avail cfg s = {}"
    using ok by (cases rule: sock_take_cases [of s S]) (simp, metis fd_avail_iff empty_iff option.distinct(1))
  show "fd_avail cfg (sock_give cfg P K S fd s) = insert fd (fd_avail cfg s) \<and> compat_ok contents cfg (sock_give cfg P K S fd s)"
    if in_range: "fd \<in> {fd_offset cfg..<fd_offset cfg + int (MAX_FDS cfg)}" and used: "fd \<notin> fd_avail cfg s"
  proof -
    have "fd_is_socket cfg fd s" using that by (simp add: fd_avail_def)
    then obtain e where e: "fd_get cfg fd s = Some e" by (auto simp: fd_is_socket_get)
    have g: "sock_give cfg P K S fd s = fd_free cfg P K S fd s"
      using e by (simp add: sock_give_def lwip_close_def fd_is_socket_get)
    have "fd_avail cfg (fd_free cfg P K S fd s) = insert fd (fd_avail cfg s)"
    proof (rule fd_avail_eqI)
      fix i assume i: "i < MAX_FDS cfg"
      show "kind (entry i (fd_free cfg P K S fd s)) = FD_FREE \<longleftrightarrow> fd_offset cfg + int i \<in> insert fd (fd_avail cfg s)"
        using fd_free_ok(2) [OF ok e] fd_free_other [OF e, of i P K S] fd_get_SomeD [OF e] fd_avail_iff [OF i, of s]
        by (cases "i = e") auto
    qed (use in_range in \<open>auto simp: fd_avail_def\<close>)
    then show ?thesis unfolding g using fd_free_ok(1) [OF ok] by simp
  qed
qed

interpretation ref_fds: shim_fds ref_cplatform ring_contents ring_capacity ref_libc ref_cfg
  by (unfold_locales) (simp_all add: ref_cfg_def)

context shim_fds
begin

lemma fd_space:
  assumes "compat_ok contents cfg n"
  shows "(\<exists>fds n'. alloc_many (sock_take cfg P K S) m n = Some (fds, n')) \<longleftrightarrow> m \<le> card (fd_avail cfg n)"
    and "alloc_many (sock_take cfg P K S) m n = Some (fds, n') \<Longrightarrow>
      distinct fds \<and> length fds = m \<and> set fds \<subseteq> fd_avail cfg n \<and> fd_avail cfg n' = fd_avail cfg n - set fds"
    and "sock_take cfg P K S n = Some (fd, n') \<Longrightarrow> fd_avail cfg (sock_give cfg P K S fd n') = fd_avail cfg n"
  using fds.alloc_many_iff [OF assms] fds.alloc_many_distinct [OF assms] fds.alloc_release_same [OF assms] by blast+

lemma lowest_fd:
  assumes "compat_ok contents cfg n" and "sock_take cfg P K S n = Some (fd, n')" and "fd' \<in> fd_avail cfg n"
  shows "fd \<le> fd'"
  using assms(1)
proof (cases rule: sock_take_cases [of n S])
  case (some i n1)
  have fd: "fd = fd_offset cfg + int i" using some(1) assms(2) by simp
  have "fd' = fd_offset cfg + int (nat (fd' - fd_offset cfg))" "nat (fd' - fd_offset cfg) < MAX_FDS cfg"
    using assms(3) by (auto simp: fd_avail_def)
  then have "kind (entry (nat (fd' - fd_offset cfg)) n) = FD_FREE" using assms(3) fd_avail_iff by metis
  then have "\<not> nat (fd' - fd_offset cfg) < i" using some(5) by blast
  then show ?thesis using fd assms(3) by (auto simp: fd_avail_def)
qed (use assms(2) in simp)

end

text \<open>C14: The descriptor table is an exact allocator of descriptors. From any state that satisfies
  the invariant, \<open>socket(AF_INET, SOCK_STREAM)\<close> can be called successfully exactly as often as
  descriptors of the range are unused; it returns the lowest unused one, never one that is in
  use; and \<open>close\<close> on the new descriptor makes exactly this one available again.\<close>

theorem fd_table_exact:
  assumes F: "shim_fds P contents capacity K cfg" and ok: "compat_ok contents cfg n"
  shows "((\<exists>fds n'. alloc_many (sock_take cfg P K S) m n = Some (fds, n')) \<longleftrightarrow> m \<le> card (fd_avail cfg n))
    \<and> (\<forall>fds n'. alloc_many (sock_take cfg P K S) m n = Some (fds, n') \<longrightarrow>
         distinct fds \<and> set fds \<subseteq> fd_avail cfg n \<and> fd_avail cfg n' = fd_avail cfg n - set fds)
    \<and> (\<forall>fd n'. sock_take cfg P K S n = Some (fd, n') \<longrightarrow>
         (\<forall>fd' \<in> fd_avail cfg n. fd \<le> fd') \<and> fd_avail cfg (sock_give cfg P K S fd n') = fd_avail cfg n)"
  using shim_fds.fd_space [OF F ok] shim_fds.lowest_fd [OF F ok] by blast

lemma ref_creach_ok: "compat_ok ring_contents ref_cfg (snd (fd_table_init ref_cfg ref_libc ref_cnet))"
  using ref_shim.fd_table_init_ok [OF boot_part_ok [OF ref_cnet]] .

lemma fd_avail_boot:
  "ext n = compat_boot cfg x \<Longrightarrow> fd_avail cfg n = {fd_offset cfg..<fd_offset cfg + int (MAX_FDS cfg)}"
  by (rule fd_avail_eqI) (simp_all add: entry_def compat_boot_def fd_zero_def)

text \<open>At power-up all four descriptors of the concrete configuration can be opened, and no fifth.\<close>

theorem fd_table_exact_witness:
  "\<exists>n. (\<exists>fds n'. alloc_many (sock_take ref_cfg ref_cplatform ref_libc ref_smoltcp) 4 n = Some (fds, n'))
     \<and> \<not> (\<exists>fds n'. alloc_many (sock_take ref_cfg ref_cplatform ref_libc ref_smoltcp) 5 n = Some (fds, n'))"
proof -
  let ?n = "upd_compat (\<lambda>c. c\<lparr>fd_lock := mx_boot\<lparr>mx_created := True\<rparr>\<rparr>) ref_cnet"
  have ok: "compat_ok ring_contents ref_cfg ?n"
    using boot_part_ok [OF ref_cnet] by (simp add: compat_ok_part part_ok_def mem_ok_def lo_free_def mx_free_def mx_boot_def)
  have "fd_avail ref_cfg ?n = fd_avail ref_cfg ref_cnet" by (simp add: fd_avail_def fd_is_socket_def entry_def)
  then have "card (fd_avail ref_cfg ?n) = 4" using fd_avail_boot [OF ref_cnet(2)] by (simp add: ref_cfg_def)
  then show ?thesis
    using fd_table_exact [OF ref_fds.shim_fds_axioms ok, of ref_smoltcp 4] fd_table_exact [OF ref_fds.shim_fds_axioms ok, of ref_smoltcp 5]
    by (intro exI [of _ ?n]) auto
qed

end
