(* ===== verification/Compat_Lo.thy ===== *)
theory Compat_Lo
  imports Compat_Fds
begin

text \<open>
  The loopback path as a message queue: what \<open>sendto\<close> to 127.x.x.x puts into the inbox of the
  receiving descriptor and what \<open>recvfrom\<close> takes out of it. The inbox of an entry is the list of
  the datagrams its queue points to.
\<close>

definition inbox_of :: "('q \<Rightarrow> nat list) \<Rightarrow> nat \<Rightarrow> ('q, 'g, 'c, 'x) cnet \<Rightarrow> lo_msg list" where
  "inbox_of contents e n =
     (case lo_rx (entry e n) of None \<Rightarrow> [] | Some q \<Rightarrow> map (\<lambda>a. the (lo_heap (ext n) ! a)) (contents q))"

lemma q_mset_zero: "q_mset contents (fd_zero g) = {#}"
  by (simp add: q_mset_def fd_zero_def)

lemma rx_mset_mem:
  assumes "e < length t" and "lo_rx (t ! e) = Some q" and "a \<in> set (contents q)"
  shows "a \<in># rx_mset contents t"
proof -
  have "q_mset contents (t ! e) \<subseteq># rx_mset contents t"
    using rx_mset_update [OF assms(1), of contents "fd_zero None"]
    by (metis (no_types, lifting) q_mset_zero add.right_neutral mset_subset_eq_add_right)
  then show ?thesis using assms(2,3) by (auto simp: q_mset_def dest: mset_subset_eqD)
qed

text \<open>The pointers in a queue are live.\<close>

lemma queued_live:
  assumes "mem_ok contents cfg (ext n)" and "e < MAX_FDS cfg" and "lo_rx (entry e n) = Some q" and "a \<in> set (contents q)"
  shows "a \<in> live (lo_heap (ext n))"
  using assms rx_mset_mem [of e "s_table (ext n)" q a contents] by (simp add: mem_ok_def entry_def)

lemma queues_distinct:
  assumes "mem_ok contents cfg (ext n)" and "e < MAX_FDS cfg" and "lo_rx (entry e n) = Some q"
    and "a \<in> set (contents q)" and "j < MAX_FDS cfg" and "j \<noteq> e" and "lo_rx (entry j n) = Some q'"
  shows "a \<notin> set (contents q')"
proof
  assume a': "a \<in> set (contents q')"
  let ?t = "s_table (ext n)"
  have len: "e < length ?t" "j < length ?t" using assms by (simp_all add: mem_ok_def)
  have "rx_mset contents (?t[e := fd_zero None]) + q_mset contents (?t ! e) = mset_set (live (lo_heap (ext n)))"
    using rx_mset_update [OF len(1), of contents "fd_zero None"] assms(1) by (simp add: q_mset_def fd_zero_def mem_ok_def)
  moreover have "a \<in># rx_mset contents (?t[e := fd_zero None])"
    using assms len a' by (intro rx_mset_mem [of j _ q']) (simp_all add: entry_def)
  moreover have "a \<in># q_mset contents (?t ! e)" using assms(3,4) by (simp add: q_mset_def entry_def)
  ultimately have "2 \<le> count (mset_set (live (lo_heap (ext n)))) a"
    by (metis add_mono count_greater_eq_one_iff count_union one_add_one)
  then show False by (simp add: count_mset_set' split: if_splits)
qed

lemma inbox_append:
  assumes "mem_ok contents cfg (ext n)" and "j < MAX_FDS cfg" and "lo_heap (ext n') = lo_heap (ext n) @ [m]"
    and "lo_rx (entry j n') = lo_rx (entry j n)"
  shows "inbox_of contents j n' = inbox_of contents j n"
  using assms queued_live [OF assms(1,2)]
  by (auto simp: inbox_of_def nth_append live_def msg_live_def split: option.split)

context shim_env
begin

text \<open>Sending: the datagram is appended to the inbox of the receiver, and only there.\<close>

lemma deliver_spec:
  assumes ok: "compat_ok contents cfg n" and t: "lo_target port (s_slots (ext n)) = Some e" and q: "lo_rx (entry e n) = Some q"
    and len: "length bs \<le> 65535" and room: "length (contents q) < capacity q" and mem: "\<And>k x. fst (malloc K k x)"
  shows "\<exists>n'. lo_deliver P K port src sport (Some bs) n = (int (length bs), n')
    \<and> inbox_of contents e n' = inbox_of contents e n @ [\<lparr>lo_src_be = src, lo_src_port = sport, lo_data = bs\<rparr>]
    \<and> (\<forall>j < MAX_FDS cfg. j \<noteq> e \<longrightarrow> inbox_of contents j n' = inbox_of contents j n)
    \<and> (\<forall>j. entry j n' = (entry j n)\<lparr>lo_rx := lo_rx (entry j n')\<rparr>) \<and> lo_rx (entry e n') \<noteq> None"
proof -
  let ?n2 = "lo_UNLOCK (lo_LOCK (lock_init_once K n))"
  let ?m = "\<lparr>lo_src_be = src, lo_src_port = sport, lo_data = bs\<rparr>" and ?h = "lo_heap (ext n)"
  let ?n3 = "upd_compat (\<lambda>c. c\<lparr>lo_heap := lo_heap c @ [Some ?m]\<rparr>) (snd (env_call (malloc K (8 + length bs)) ?n2))"
  have e: "e < MAX_FDS cfg" using lo_target_mem [OF t] ok by (auto simp: compat_ok_def mem_ok_def)
  have tl: "e < length (s_table (ext n))" using e compat_okD(3) [OF ok] by simp
  have "fst (env_call (malloc K (8 + length bs)) ?n2)" using mem by (simp add: env_call_def Let_def case_prod_unfold)
  then have a: "msg_alloc K ?m ?n2 = (Some (length ?h), ?n3)"
    by (simp add: msg_alloc_def Let_def case_prod_unfold)
  obtain q' where s: "xQueueSend (queues P) q (length ?h) = Some q'" and c: "contents q' = contents q @ [length ?h]"
    using send_room [OF room] by blast
  let ?n' = "upd_entry e (\<lambda>f. f\<lparr>lo_rx := Some q'\<rparr>) ?n3"
  have r: "lo_deliver P K port src sport (Some bs) n = (int (length bs), ?n')"
    using t q len a s by (simp add: lo_deliver_def)
  have ent: "entry j ?n3 = entry j n" for j by (simp add: entry_def)
  have ee: "entry e ?n' = (entry e n)\<lparr>lo_rx := Some q'\<rparr>" using tl ent by simp
  have heap: "lo_heap (ext ?n') = ?h @ [Some ?m]" by simp
  have live: "a < length ?h" if "a \<in> set (contents q)" for a
    using queued_live [OF compat_okD(2) [OF ok] e q that] by (simp add: live_def msg_live_def)
  have "inbox_of contents e ?n' = inbox_of contents e n @ [?m]"
    unfolding inbox_of_def ee heap using live by (simp add: q c nth_append)
  moreover have "inbox_of contents j ?n' = inbox_of contents j n" if "j < MAX_FDS cfg" "j \<noteq> e" for j
    by (rule inbox_append [OF compat_okD(2) [OF ok] that(1) heap]) (use that ent in simp)
  moreover have "entry j ?n' = (entry j n)\<lparr>lo_rx := lo_rx (entry j ?n')\<rparr>" for j
    using ee ent by (cases "j = e") (simp_all)
  ultimately show ?thesis using r ee by (intro exI [of _ ?n']) simp
qed

text \<open>A full queue refuses the datagram and no inbox changes.\<close>

lemma deliver_full:
  assumes ok: "compat_ok contents cfg n" and t: "lo_target port (s_slots (ext n)) = Some e" and q: "lo_rx (entry e n) = Some q"
    and full: "capacity q \<le> length (contents q)"
  shows "\<exists>n'. lo_deliver P K port src sport (Some bs) n = (-1, n') \<and> (\<forall>j < MAX_FDS cfg. inbox_of contents j n' = inbox_of contents j n)"
proof -
  let ?n2 = "lo_UNLOCK (lo_LOCK (lock_init_once K n))" and ?m = "\<lparr>lo_src_be = src, lo_src_port = sport, lo_data = bs\<rparr>"
  let ?n3 = "snd (env_call (malloc K (8 + length (lo_data ?m))) ?n2)" and ?h = "lo_heap (ext n)"
  let ?n4 = "upd_compat (\<lambda>c. c\<lparr>lo_heap := lo_heap c @ [Some ?m]\<rparr>) ?n3"
  have no: "xQueueSend (queues P) q x = None" for x using send_full [OF full] .
  have i3: "inbox_of contents j ?n3 = inbox_of contents j n" for j
    by (simp add: inbox_of_def split: option.split)
  have i4: "inbox_of contents j (msg_free (length ?h) ?n4) = inbox_of contents j n" if "j < MAX_FDS cfg" for j
    by (rule inbox_append [OF compat_okD(2) [OF ok] that, of _ None]) (simp_all add: msg_free_def entry_def)
  consider "length bs > 65535" | "length bs \<le> 65535" "msg_alloc K ?m ?n2 = (None, ?n3)"
    | "length bs \<le> 65535" "msg_alloc K ?m ?n2 = (Some (length ?h), ?n4)"
    by (cases rule: msg_alloc_cases [of K ?m ?n2]) (auto simp: not_less [symmetric])
  then show ?thesis
  proof cases
    case 1
    then show ?thesis by (simp add: lo_deliver_def)
  next
    case 2
    with t q i3 show ?thesis by (simp add: lo_deliver_def)
  next
    case 3
    with t q no i4 show ?thesis by (simp add: lo_deliver_def)
  qed
qed

text \<open>Receiving: the head of the inbox, cut to the size of the buffer, with its source.\<close>

lemma recv_spec:
  assumes ok: "compat_ok contents cfg n" and e: "e < MAX_FDS cfg" and box: "inbox_of contents e n = m # ms"
  shows "\<exists>n'. lo_recvfrom P rx_wait e len n = ((int (length (take len (lo_data m))), take len (lo_data m), Some (lo_src_be m, lo_src_port m)), n')
    \<and> inbox_of contents e n' = ms \<and> (\<forall>j < MAX_FDS cfg. j \<noteq> e \<longrightarrow> inbox_of contents j n' = inbox_of contents j n)"
proof -
  from box obtain q a as where q: "lo_rx (entry e n) = Some q" and c: "contents q = a # as"
    and m: "m = the (lo_heap (ext n) ! a)" and ms: "ms = map (\<lambda>a. the (lo_heap (ext n) ! a)) as"
    by (auto simp: inbox_of_def split: option.splits)
  obtain q' where r: "xQueueReceive (queues P) q = Some (a, q')" and c': "contents q' = as" using receive_next [OF c] by blast
  have tl: "e < length (s_table (ext n))" using e compat_okD(3) [OF ok] by simp
  note T = take_msg [OF compat_okD(2) [OF ok] e q r]
  let ?n1 = "upd_entry e (\<lambda>f. f\<lparr>lo_rx := Some q'\<rparr>) n" and ?n' = "msg_free a (upd_entry e (\<lambda>f. f\<lparr>lo_rx := Some q'\<rparr>) n)"
  have "msg_read a ?n1 = (m, ?n1)" using msg_read_live [of a ?n1] T(1) m by simp
  then have res: "lo_recvfrom P rx_wait e len n =
      ((int (length (take len (lo_data m))), take len (lo_data m), Some (lo_src_be m, lo_src_port m)), ?n')"
    using q r by (simp add: lo_recvfrom_def lo_receive_def)
  have e': "lo_rx (entry e ?n') = Some q'" using tl by simp
  have heap: "lo_heap (ext ?n') ! b = lo_heap (ext n) ! b" if "b \<noteq> a" for b using that by (simp add: msg_free_def)
  have notin: "a \<notin> set as"
  proof
    assume "a \<in> set as"
    then have "a \<in> live (lo_heap (ext ?n'))" using queued_live [OF T(2) e e'] c' by simp
    then show False by (auto simp: msg_free_def live_free)
  qed
  have "inbox_of contents e ?n' = ms"
    unfolding inbox_of_def e' option.case ms c'
    by (rule map_cong [OF refl], rule arg_cong [of _ _ the], rule heap) (use notin in blast)
  moreover have "inbox_of contents j ?n' = inbox_of contents j n" if "j < MAX_FDS cfg" "j \<noteq> e" for j
    using queues_distinct [OF compat_okD(2) [OF ok] e q, of a j] that c heap
    by (auto simp: inbox_of_def split: option.split) (metis heap)
  ultimately show ?thesis using res by blast
qed

end


section \<open>Properties\<close>

text \<open>C10: A descriptor bound to a loopback port is a FIFO queue of datagrams. \<open>sendto\<close> to
  127.x.x.x and a bound port returns the length and appends the bytes, with the sender's local
  address and port as the source, to the inbox of the descriptor bound to the port and to no
  other; with a full queue it returns -1 and changes no inbox. \<open>recvfrom\<close> on the receiving
  descriptor takes the oldest datagram, cut to the buffer, reports its source, and leaves the
  other datagrams and inboxes in place.\<close>

theorem loopback_fifo:
  assumes E: "shim_env P contents capacity K" and ok: "compat_ok contents cfg n"
    and a: "fd_get cfg a n = Some ea" "kind (entry ea n) = FD_UDP"
    and addr: "is_loopback_ip (s_addr addr)" "sizeof_sockaddr_in \<le> tolen"
    and port: "lo_target (ntohs (sin_port addr)) (s_slots (ext n)) = Some e" "lo_rx (entry e n) = Some q"
    and len: "length bs \<le> 65535" and mem: "\<And>k x. fst (malloc K k x)"
    and b: "fd_get cfg b n = Some e" "kind (entry e n) = FD_UDP" "loopback (entry e n)"
  shows "(length (contents q) < capacity q \<longrightarrow> (\<exists>n'. lwip_sendto cfg P K S a bs addr tolen n = (int (length bs), n')
        \<and> inbox_of contents e n' = inbox_of contents e n @
            [\<lparr>lo_src_be = local_ipv4_be (entry ea n), lo_src_port = local_port (entry ea n), lo_data = bs\<rparr>]
        \<and> (\<forall>j < MAX_FDS cfg. j \<noteq> e \<longrightarrow> inbox_of contents j n' = inbox_of contents j n)))
    \<and> (capacity q \<le> length (contents q) \<longrightarrow> (\<exists>n'. lwip_sendto cfg P K S a bs addr tolen n = (-1, n')
        \<and> (\<forall>j < MAX_FDS cfg. inbox_of contents j n' = inbox_of contents j n)))
    \<and> (\<forall>m ms. inbox_of contents e n = m # ms \<longrightarrow> (\<exists>from n'.
          lwip_recvfrom cfg P R W S b cap (Some fl) n = Some ((int (length (take cap (lo_data m))), take cap (lo_data m), from), n')
          \<and> (take cap (lo_data m) \<noteq> [] \<and> sizeof_sockaddr_in \<le> fl \<longrightarrow>
               from = Some \<lparr>sin_family = AF_INET cfg, sin_port = ntohs (lo_src_port m), s_addr = lo_src_be m\<rparr>)
          \<and> inbox_of contents e n' = ms \<and> (\<forall>j < MAX_FDS cfg. j \<noteq> e \<longrightarrow> inbox_of contents j n' = inbox_of contents j n)))"
proof (intro conjI impI allI)
  have s: "lwip_sendto cfg P K S a bs addr tolen n =
      lo_deliver P K (ntohs (sin_port addr)) (local_ipv4_be (entry ea n)) (local_port (entry ea n)) (Some bs) n"
    using a addr by (simp add: lwip_sendto_def)
  show "\<exists>n'. lwip_sendto cfg P K S a bs addr tolen n = (int (length bs), n')
      \<and> inbox_of contents e n' = inbox_of contents e n @
            [\<lparr>lo_src_be = local_ipv4_be (entry ea n), lo_src_port = local_port (entry ea n), lo_data = bs\<rparr>]
      \<and> (\<forall>j < MAX_FDS cfg. j \<noteq> e \<longrightarrow> inbox_of contents j n' = inbox_of contents j n)" if "length (contents q) < capacity q"
    using shim_env.deliver_spec [OF E ok port len that mem] unfolding s by blast
  show "\<exists>n'. lwip_sendto cfg P K S a bs addr tolen n = (-1, n') \<and> (\<forall>j < MAX_FDS cfg. inbox_of contents j n' = inbox_of contents j n)"
    if "capacity q \<le> length (contents q)"
    using shim_env.deliver_full [OF E ok port that] unfolding s by blast
  fix m ms assume box: "inbox_of contents e n = m # ms"
  obtain n' where r: "lo_recvfrom P W e cap n =
      ((int (length (take cap (lo_data m))), take cap (lo_data m), Some (lo_src_be m, lo_src_port m)), n')"
    and i: "inbox_of contents e n' = ms" "\<forall>j < MAX_FDS cfg. j \<noteq> e \<longrightarrow> inbox_of contents j n' = inbox_of contents j n"
    using shim_env.recv_spec [OF E ok _ box] fd_get_SomeD [OF b(1)] by blast
  then show "\<exists>from n'. lwip_recvfrom cfg P R W S b cap (Some fl) n = Some ((int (length (take cap (lo_data m))), take cap (lo_data m), from), n')
      \<and> (take cap (lo_data m) \<noteq> [] \<and> sizeof_sockaddr_in \<le> fl \<longrightarrow>
           from = Some \<lparr>sin_family = AF_INET cfg, sin_port = ntohs (lo_src_port m), s_addr = lo_src_be m\<rparr>)
      \<and> inbox_of contents e n' = ms \<and> (\<forall>j < MAX_FDS cfg. j \<noteq> e \<longrightarrow> inbox_of contents j n' = inbox_of contents j n)"
    using b port(2) by (simp add: lwip_recvfrom_def Let_def from_addr_def)
qed

definition ref_lo :: "(ring, u32, ref_stack, nat) cnet" where
  "ref_lo = upd_compat (\<lambda>c. c\<lparr>fd_lock := mx_boot\<lparr>mx_created := True\<rparr>,
     s_table := [(fd_zero None)\<lparr>kind := FD_UDP, local_ipv4_be := 0x0100007F, local_port := 9\<rparr>,
       (fd_zero None)\<lparr>kind := FD_UDP, loopback := True, lo_rx := Some (ring_new 8), local_ipv4_be := 0x0100007F, local_port := 7\<rparr>,
       fd_zero None, fd_zero None],
     s_slots := [\<lparr>lo_port = 7, lo_fd = Some 1\<rparr>, lo_slot_free, lo_slot_free, lo_slot_free]\<rparr>) ref_cnet"

lemma ref_env: "shim_env ref_cplatform ring_contents ring_capacity ref_libc"
  by (rule shim_tasks.axioms(1) [OF ref_shim.shim_tasks_axioms])

lemma ref_lo_slots: "slots_ok (s_slots (ext ref_lo))"
  unfolding slots_ok_def taps_ok_def ref_lo_def
  by (auto simp: L2_TAP_SLOTS_def as_tap_def lo_slot_free_def nth_Cons' split: if_splits)

lemma ref_lo_ok: "compat_ok ring_contents ref_cfg ref_lo"
proof -
  have l: "lock_ready ref_lo" using ref_cnet(1) by (simp add: ref_lo_def)
  have "mem_ok ring_contents ref_cfg (ext ref_lo)"
    using ref_lo_slots unfolding mem_ok_def ref_lo_def upd_compat_ext ref_cnet(2)
    by (simp add: compat_boot_def ref_cfg_def entry_ok_def fd_zero_def rx_mset_def live_def msg_live_def lo_slot_free_def)
  moreover have "lo_free (ext ref_lo)" "mx_free (fd_lock (ext ref_lo))" "mx_created (fd_lock (ext ref_lo))"
    by (simp_all add: ref_lo_def ref_cnet(2) compat_boot_def lo_free_def mx_free_def mx_boot_def)
  ultimately show ?thesis using l by (simp add: compat_ok_def)
qed

lemma ref_lo_fds:
  "fd_get ref_cfg 54 ref_lo = Some 0" "fd_get ref_cfg 55 ref_lo = Some 1" "kind (entry 0 ref_lo) = FD_UDP"
  "kind (entry 1 ref_lo) = FD_UDP" "loopback (entry 1 ref_lo)" "lo_rx (entry 1 ref_lo) = Some (ring_new 8)"
  "local_port (entry 1 ref_lo) = 7" "lo_target 7 (s_slots (ext ref_lo)) = Some 1"
  by (simp_all add: ref_lo_def fd_get_def fd_offset_def ref_cfg_def entry_def fd_zero_def lo_target_def)

theorem loopback_fifo_witness:
  "\<exists>n'. lwip_sendto ref_cfg ref_cplatform ref_libc ref_smoltcp 54 [1, 2, 3] \<lparr>sin_family = 2, sin_port = 0x0700, s_addr = 0x0100007F\<rparr> 16 ref_lo
      = (3, n') \<and> length (inbox_of ring_contents 1 n') = 1"
proof -
  let ?a = "\<lparr>sin_family = 2, sin_port = 0x0700, s_addr = 0x0100007F\<rparr>"
  have p: "ntohs (sin_port ?a) = 7" "is_loopback_ip (s_addr ?a)" by (simp_all add: ntohs_def is_loopback_ip_def)
  have m: "fst (malloc ref_libc k x)" for k x by (simp add: ref_libc_def)
  have "inbox_of ring_contents 1 ref_lo = []" unfolding inbox_of_def ref_lo_fds by simp
  with loopback_fifo [OF ref_env ref_lo_ok ref_lo_fds(1,3) p(2), of 16 1 "ring_new 8" "[1, 2, 3]" 55]
  show ?thesis using ref_lo_fds p(1) m by (force simp: sizeof_sockaddr_in_def)
qed

section \<open>Ports of closed descriptors\<close>

lemma lo_target_unbind:
  assumes ok: "slots_ok slots" and p: "p \<noteq> 0" and np: "p \<noteq> port"
  shows "lo_lookup (lo_slot_unbind port e slots) p = lo_lookup slots p"
proof -
  have "lo_port (if lo_port s = port \<and> lo_fd s = Some e then lo_slot_free else s) = p \<longleftrightarrow> lo_port s = p" for s
    using p np by (auto simp: lo_slot_free_def)
  then have i: "first_idx (\<lambda>s. lo_port s = p) (lo_slot_unbind port e slots) = first_idx (\<lambda>s. lo_port s = p) slots"
    unfolding lo_slot_unbind_def first_idx_map by simp
  show ?thesis
  proof (cases "first_idx (\<lambda>s. lo_port s = p) slots")
    case None
    then show ?thesis unfolding lo_lookup_def lo_target_def i None by simp
  next
    case (Some k)
    then show ?thesis
      unfolding lo_lookup_def lo_target_def i using first_idx_lt [OF Some] first_idx_holds [OF Some] np
      by (simp add: lo_slot_unbind_def)
  qed
qed

lemma lo_drain_slots: "s_slots (ext (lo_drain P k e n)) = s_slots (ext n)"
  by (induction P k e n rule: lo_drain.induct) (simp_all split: option.split)

lemma lo_unbind_slots: "s_slots (ext (lo_unbind P K port e n)) = lo_slot_unbind port e (s_slots (ext n))"
  by (simp add: lo_unbind_def Let_def lo_drain_slots split: option.split)

lemma fd_free_slots:
  assumes "fd_get cfg fd n = Some e" and "loopback (entry e n)"
  shows "s_slots (ext (fd_free cfg P K S fd n)) = lo_slot_unbind (local_port (entry e n)) e (s_slots (ext n))"
  using assms by (simp add: fd_free_def fd_free_loopback_def lo_unbind_slots fd_LOCK_def fd_UNLOCK_def)
    (simp add: entry_def)

text \<open>C36: \<open>connect\<close> on a UDP descriptor overwrites the local port that \<open>close\<close> needs to release a
  loopback registration. After \<open>bind\<close> to a loopback port, \<open>connect\<close> to a different port and
  \<open>close\<close>, the descriptor is free but the port table still maps the port to its entry, so that
  datagrams for the port go to whichever socket gets the entry next.\<close>

theorem connect_strands_loopback_port:
  assumes E: "shim_env P contents capacity K" and ok: "compat_ok contents cfg n"
    and fd: "fd_get cfg fd n = Some e" "kind (entry e n) = FD_UDP" "loopback (entry e n)"
    and port: "lo_lookup (s_slots (ext n)) p = Some e"
    and conn: "lwip_connect cfg P R S fd addr alen n = Some (0, n1)" "ntohs (sin_port addr) \<noteq> p"
    and clo: "lwip_close cfg P K S fd n1 = (0, n2)"
  shows "\<not> fd_is_socket cfg fd n2 \<and> lo_lookup (s_slots (ext n2)) p = Some e"
proof -
  note e = fd_get_SomeD [OF fd(1)]
  have p: "p \<noteq> 0" using port by (auto simp: lo_lookup_def)
  let ?g = "\<lambda>f. f\<lparr>local_ipv4_be := s_addr addr, local_port := ntohs (sin_port addr), connected := True\<rparr>"
  have n1: "n1 = upd_entry e ?g n" using conn(1) fd by (auto simp: lwip_connect_def fail_def split: if_splits)
  have ok1: "compat_ok contents cfg n1" unfolding n1 by (rule compat_ok_upd_entry [OF ok]) (simp_all add: entry_ok_def)
  have ent: "entry e n1 = ?g (entry e n)" unfolding n1 using e compat_okD(3) [OF ok] by simp
  have fd1: "fd_get cfg fd n1 = Some e" using fd_get_entry [of e cfg n1] e ent by simp
  have n2: "n2 = fd_free cfg P K S fd n1" using clo fd1 by (simp add: lwip_close_def fd_is_socket_get)
  have "s_slots (ext n2) = lo_slot_unbind (ntohs (sin_port addr)) e (s_slots (ext n))"
    unfolding n2 using fd_free_slots [OF fd1, of P K S] ent fd(3) by (simp add: n1)
  moreover have "slots_ok (s_slots (ext n))" using ok by (simp add: compat_ok_def mem_ok_def)
  ultimately have "lo_lookup (s_slots (ext n2)) p = Some e"
    using lo_target_unbind [OF _ p] conn(2) port by metis
  moreover have "\<not> fd_is_socket cfg fd n2"
    unfolding n2 using shim_env.fd_free_ok(2) [OF E ok1 fd1] e by (simp add: fd_is_socket_def)
  ultimately show ?thesis by blast
qed

theorem connect_strands_loopback_port_witness:
  "\<exists>n1 n2. lwip_connect ref_cfg ref_cplatform ref_crtos ref_smoltcp 55 \<lparr>sin_family = 2, sin_port = 0x0900, s_addr = 0x0100007F\<rparr> 16 ref_lo = Some (0, n1)
     \<and> lwip_close ref_cfg ref_cplatform ref_libc ref_smoltcp 55 n1 = (0, n2) \<and> lo_lookup (s_slots (ext n2)) 7 = Some 1"
proof -
  let ?a = "\<lparr>sin_family = 2, sin_port = 0x0900, s_addr = 0x0100007F\<rparr>"
  let ?g = "\<lambda>f. f\<lparr>local_ipv4_be := s_addr ?a, local_port := ntohs (sin_port ?a), connected := True\<rparr>"
  let ?n1 = "upd_entry 1 ?g ref_lo"
  have c: "lwip_connect ref_cfg ref_cplatform ref_crtos ref_smoltcp 55 ?a 16 ref_lo = Some (0, ?n1)"
    by (simp add: lwip_connect_def ref_lo_fds [unfolded One_nat_def] sizeof_sockaddr_in_def)
  have "entry 1 ?n1 = ?g (entry 1 ref_lo)" using compat_okD(3) [OF ref_lo_ok] by (simp add: ref_cfg_def)
  then have "fd_get ref_cfg 55 ?n1 = Some 1"
    using fd_get_entry [of 1 ref_cfg ?n1] ref_lo_fds(4) by (simp add: ref_cfg_def fd_offset_def)
  then obtain n2 where "lwip_close ref_cfg ref_cplatform ref_libc ref_smoltcp 55 ?n1 = (0, n2)"
    by (simp add: lwip_close_def fd_is_socket_get)
  moreover from connect_strands_loopback_port [OF ref_env ref_lo_ok ref_lo_fds(2,4,5) _ c _ this, of 7]
  have "lo_lookup (s_slots (ext n2)) 7 = Some 1" using ref_lo_fds(8) by (simp add: lo_lookup_def ntohs_def)
  ultimately show ?thesis using c by blast
qed

end
