(* ===== verification/Compat_Accept.thy ===== *)
theory Compat_Accept
  imports Compat_Fds
begin

text \<open>
  Listening descriptors. A listener keeps a pool of smoltcp sockets, all of them listening on its
  port; \<open>accept\<close> looks for one that has connected, hands it over to a new descriptor and puts a
  fresh listening socket in its place, and \<open>select\<close> asks whether there is one. The two loops are
  compared with the choice they are meant to make: the first connected slot in the rotation of
  the pool that starts at \<open>pool_next\<close>.
\<close>

section \<open>Asking the core changes nothing\<close>

definition pool_conn :: "'c smoltcp \<Rightarrow> nat \<Rightarrow> ('q, 'g, 'c, 'x) cnet \<Rightarrow> nat \<Rightarrow> bool" where
  "pool_conn S e n i = fst (net_tcp_is_connected S (the (pool (entry e n)) ! i) n)"

definition accept_choice :: "'c smoltcp \<Rightarrow> nat \<Rightarrow> ('q, 'g, 'c, 'x) cnet \<Rightarrow> nat option" where
  "accept_choice S e n = find (pool_conn S e n) (rotate (pool_next (entry e n)) [0..<pool_len (entry e n)])"

text \<open>Asking leaves the interfaces as they are, up to the record of panics.\<close>

definition calm :: "('q, 'c) net_iface \<Rightarrow> ('q, 'c) net_iface" where
  "calm f = f\<lparr>smoltcp_handle := map_option (\<lambda>ctx. ctx\<lparr>ctx_panic := False\<rparr>) (smoltcp_handle f)\<rparr>"

definition calm_ifaces :: "('q, 'g, 'c, 'e) net \<Rightarrow> ('q, 'c) net_iface list" where
  "calm_ifaces n = map calm (s_ifaces n)"

lemma is_connected_calm_ctx:
  "map_option (\<lambda>ctx. ctx\<lparr>ctx_panic := False\<rparr>) (snd (smoltcp_tcp_is_connected S h k)) = map_option (\<lambda>ctx. ctx\<lparr>ctx_panic := False\<rparr>) h"
  by (auto simp: smoltcp_tcp_is_connected_def with_socket_def get_mut_def split: option.split)

lemma is_connected_calm [simp]: "calm_ifaces (snd (net_tcp_is_connected S s n)) = calm_ifaces n"
proof -
  have "(map calm xs)[i := calm (xs ! i)] = map calm xs" for i and xs :: "('a, 'b) net_iface list"
    by (cases "i < length xs") (simp_all add: list_update_beyond not_less nth_map [symmetric] del: nth_map)
  then show ?thesis
    by (simp add: calm_ifaces_def net_tcp_is_connected_def on_sock_def locked_call_def Let_def case_prod_unfold set_handle_def
        upd_iface_def iface_def lock_defs map_update calm_def is_connected_calm_ctx split: option.split)
qed

lemma calm_nth:
  assumes "calm_ifaces n' = calm_ifaces n"
  shows "calm (iface i n') = calm (iface i n)"
proof -
  have l: "length (s_ifaces n') = length (s_ifaces n)" using assms by (metis calm_ifaces_def length_map)
  show ?thesis
  proof (cases "i < length (s_ifaces n)")
    case True
    with assms l show ?thesis by (metis calm_ifaces_def iface_def nth_map)
  next
    case False
    then show ?thesis
      using nth_append [of "s_ifaces n" "[]" i] nth_append [of "s_ifaces n'" "[]" i] l by (simp add: iface_def)
  qed
qed

lemma is_connected_cong:
  assumes "calm_ifaces n' = calm_ifaces n"
  shows "fst (net_tcp_is_connected S s n') = fst (net_tcp_is_connected S s n)"
proof -
  let ?c = "map_option (\<lambda>ctx. ctx\<lparr>ctx_panic := False\<rparr>)"
  have f: "fst (smoltcp_tcp_is_connected S (?c h) k) = fst (smoltcp_tcp_is_connected S h k)" for h k
    by (auto simp: smoltcp_tcp_is_connected_def with_socket_def ctx_lookup_def split: option.split)
  have h: "?c (smoltcp_handle (iface i n')) = ?c (smoltcp_handle (iface i n))" and e: "enabled (iface i n') = enabled (iface i n)" for i
    using calm_nth [OF assms, of i] by (auto simp: calm_def dest: arg_cong [of _ _ smoltcp_handle] arg_cong [of _ _ enabled])
  have "handle_for i n' = handle_for i n" for i
    using h [of i] e [of i] by (auto simp: handle_for_def net_iface_get_def split: option.split)
  moreover have "fst (smoltcp_tcp_is_connected S (smoltcp_handle (iface i n')) k) = fst (smoltcp_tcp_is_connected S (smoltcp_handle (iface i n)) k)" for i k
    by (metis f h)
  ultimately show ?thesis
    by (simp add: net_tcp_is_connected_def on_sock_def locked_call_def Let_def case_prod_unfold split: option.split)
qed

lemma pool_conn_cong:
  assumes "calm_ifaces n' = calm_ifaces n" and "entry e n' = entry e n"
  shows "pool_conn S e n' = pool_conn S e n" and "accept_choice S e n' = accept_choice S e n"
proof -
  show "pool_conn S e n' = pool_conn S e n" by (rule ext) (simp add: pool_conn_def assms is_connected_cong [OF assms(1)])
  then show "accept_choice S e n' = accept_choice S e n" by (simp add: accept_choice_def assms(2))
qed

lemma pool_ready_spec: "fst (pool_ready S e is n) \<longleftrightarrow> list_ex (pool_conn S e n) is"
proof (induction "is" arbitrary: n)
  case (Cons i "is")
  let ?n1 = "snd (net_tcp_is_connected S (the (pool (entry e n)) ! i) n)"
  have "pool_conn S e ?n1 = pool_conn S e n" by (rule pool_conn_cong) simp_all
  with Cons.IH [of ?n1] show ?case by (simp add: Let_def case_prod_unfold pool_conn_def [of S e n i])
qed simp

lemma accept_scan_spec:
  "fst (accept_scan S e is n) = find (pool_conn S e n) (map (\<lambda>i. (pool_next (entry e n) + i) mod pool_len (entry e n)) is)
   \<and> ext (snd (accept_scan S e is n)) = ext n \<and> calm_ifaces (snd (accept_scan S e is n)) = calm_ifaces n"
proof (induction "is" arbitrary: n)
  case (Cons i "is")
  let ?idx = "(pool_next (entry e n) + i) mod pool_len (entry e n)"
  let ?n1 = "snd (net_tcp_is_connected S (the (pool (entry e n)) ! ?idx) n)"
  have "pool_conn S e ?n1 = pool_conn S e n" by (rule pool_conn_cong) simp_all
  with Cons.IH [of ?n1] show ?case by (simp add: Let_def case_prod_unfold pool_conn_def [of S e n ?idx])
qed simp

lemma map_mod_rotate: "map (\<lambda>i. (a + i) mod m) [0..<m] = rotate a [0..<m]"
  by (rule nth_equalityI) (simp_all add: nth_rotate)

lemma accept_scan_choice:
  "fst (accept_scan S e [0..<pool_len (entry e n)] n) = accept_choice S e n"
  "ext (snd (accept_scan S e is n)) = ext n" "calm_ifaces (snd (accept_scan S e is n)) = calm_ifaces n"
  using accept_scan_spec [of S e _ n] by (simp_all add: accept_choice_def map_mod_rotate)

lemma accept_choice_iff: "accept_choice S e n \<noteq> None \<longleftrightarrow> list_ex (pool_conn S e n) [0..<pool_len (entry e n)]"
  by (auto simp: accept_choice_def find_None_iff list_ex_iff)

lemma accept_choice_SomeD:
  assumes "accept_choice S e n = Some idx" shows "idx < pool_len (entry e n)" and "pool_conn S e n idx"
proof -
  from assms obtain i where "i < pool_len (entry e n)"
      "idx = rotate (pool_next (entry e n)) [0..<pool_len (entry e n)] ! i" "pool_conn S e n idx"
    by (auto simp: accept_choice_def find_Some_iff)
  then show "idx < pool_len (entry e n)" "pool_conn S e n idx" by (auto simp: nth_rotate)
qed

section \<open>Handing a connection over\<close>

definition handed_over ::
  "compat_config \<Rightarrow> nat \<Rightarrow> nat \<Rightarrow> ('q, 'g, 'c, 'x) cnet \<Rightarrow> int \<Rightarrow> ('q, 'g, 'c, 'x) cnet \<Rightarrow> bool" where
  "handed_over cfg e idx n fd n' \<longleftrightarrow>
     (\<exists>i s. fd = fd_offset cfg + int i \<and> i < MAX_FDS cfg \<and> kind (entry i n) = FD_FREE
       \<and> kind (entry i n') = FD_TCP \<and> connected (entry i n') \<and> sock (entry i n') = the (pool (entry e n)) ! idx
       \<and> fd_iface (entry i n') = fd_iface (entry e n)
       \<and> entry e n' = (entry e n)\<lparr>pool := map_option (\<lambda>ss. ss[idx := s]) (pool (entry e n)),
            pool_next := (idx + 1) mod pool_len (entry e n)\<rparr>
       \<and> (\<forall>j < MAX_FDS cfg. j \<noteq> i \<longrightarrow> j \<noteq> e \<longrightarrow> entry j n' = entry j n))"

context shim_tasks
begin

lemma accept_take_spec:
  assumes n: "ok n" and e: "e < MAX_FDS cfg" "kind (entry e n) = FD_TCP_LISTEN" and off: "0 \<le> fd_offset cfg"
  shows "(\<exists>fd a n'. accept_take cfg P K S e idx want n = ((fd, a), n') \<and> handed_over cfg e idx n fd n')
    \<or> (\<forall>j < MAX_FDS cfg. kind (entry j n) \<noteq> FD_FREE) \<and>
      (\<exists>n'. accept_take cfg P K S e idx want n = ((-1, None), n') \<and> c_errno (ext n') = Some ENFILE
        \<and> (\<forall>j < MAX_FDS cfg. entry j n' = entry j n))"
  using n
proof (cases rule: fd_alloc_cases [where S = S and k = FD_TCP])
  case (none n')
  then show ?thesis by (auto simp: accept_take_def SET_ERRNO_def entry_def)
next
  case (some i n1 ifc g)
  have ie: "i \<noteq> e" using some(4) e(2) by auto
  let ?c = "the (pool (entry e n)) ! idx"
  let ?n2 = "upd_entry i (\<lambda>f. f\<lparr>sock := ?c, connected := True, fd_iface := fd_iface (entry e n1), nonblocking := False\<rparr>) n1"
  obtain s n3 where o: "net_tcp_open S (fd_iface (entry e ?n2)) ?n2 = (s, n3)" by force
  let ?n4 = "set_pool e idx s n3"
  let ?n5 = "if net_sock_valid s then snd (net_tcp_listen S s (fd_port (entry e ?n4)) ?n4) else ?n4"
  let ?n6 = "upd_entry e (\<lambda>f. f\<lparr>pool_next := (idx + 1) mod pool_len f\<rparr>) ?n5"
  have x3: "ext n3 = ext ?n2" using net_calls_ext(1) [of S "fd_iface (entry e ?n2)" ?n2] o by simp
  have x5: "ext ?n5 = ext ?n4" by simp
  have len: "length (s_table (ext n1)) = MAX_FDS cfg" "length (s_table (ext n3)) = MAX_FDS cfg"
    "length (s_table (ext ?n5)) = MAX_FDS cfg"
    using compat_okD(3) [OF some(2)] x3 by (simp_all add: x5 set_pool_def)
  have e3: "entry j n3 = (if j = i then (entry i n1)\<lparr>sock := ?c, connected := True, fd_iface := fd_iface (entry e n1), nonblocking := False\<rparr>
      else entry j n1)" for j
    using entry_ext [OF x3, of j] some(3) len(1) by simp
  have e5: "entry j ?n5 = (if j = e then (entry e n3)\<lparr>pool := map_option (\<lambda>ss. ss[idx := s]) (pool (entry e n3))\<rparr> else entry j n3)" for j
    using entry_ext [OF x5, of j] e(1) len(2) by (simp add: set_pool_def)
  have e6: "entry j ?n6 = (if j = e then (entry e ?n5)\<lparr>pool_next := (idx + 1) mod pool_len (entry e ?n5)\<rparr> else entry j ?n5)" for j
    using e(1) len(3) by simp
  have "new_entry cfg (fd_offset cfg + int i) = i" by (simp add: new_entry_def)
  then have "\<exists>a. accept_take cfg P K S e idx want n = ((fd_offset cfg + int i, a), ?n6)"
    using some(1) o off by (simp add: accept_take_def Let_def del: if_split)
  moreover have "handed_over cfg e idx n (fd_offset cfg + int i) ?n6"
    unfolding handed_over_def
  proof (intro exI conjI)
    show "entry e ?n6 = (entry e n)\<lparr>pool := map_option (\<lambda>ss. ss[idx := s]) (pool (entry e n)),
        pool_next := (idx + 1) mod pool_len (entry e n)\<rparr>"
      using ie some(8) e(1) by (simp only: e6 e5 e3) simp
    show "\<forall>j < MAX_FDS cfg. j \<noteq> i \<longrightarrow> j \<noteq> e \<longrightarrow> entry j ?n6 = entry j n"
      using some(8) by (simp only: e6 e5 e3) simp
    have "fd_iface (entry e n1) = fd_iface (entry e n)" using ie some(8) e(1) by simp
    then show "fd_iface (entry i ?n6) = fd_iface (entry e n)" using ie by (simp only: e6 e5 e3) simp
    show "kind (entry i ?n6) = FD_TCP" using ie some(6) by (simp only: e6 e5 e3) simp
    show "connected (entry i ?n6)" "sock (entry i ?n6) = ?c" using ie by (simp_all only: e6 e5 e3) simp_all
  qed (use some in simp_all)
  ultimately show ?thesis by blast
qed

lemma tick_calm: "calm_ifaces (snd (tick_count P n)) = calm_ifaces n"
  by (simp add: calm_ifaces_def tick_count_def Let_def case_prod_unfold)

lemma accept_loop_choice:
  assumes "accept_choice S e n = Some idx" and "pool_access e n = n"
  shows "accept_loop cfg P R K S e want st n = Some (accept_take cfg P K S e idx want (snd (accept_scan S e [0..<pool_len (entry e n)] n)))"
  using assms accept_scan_choice(1) [of S e n]
  by (subst accept_loop.simps) (simp add: Let_def case_prod_unfold del: One_nat_def)

lemma accept_loop_none:
  assumes "accept_choice S e n = None" and "nonblocking (entry e n)" and "pool_access e n = n"
  shows "accept_loop cfg P R K S e want st n = Some ((-1, None), SET_ERRNO EWOULDBLOCK (snd (accept_scan S e [0..<pool_len (entry e n)] n)))"
  using assms accept_scan_choice(1) [of S e n]
  by (subst accept_loop.simps) (simp add: Let_def case_prod_unfold accept_scan_entry)

lemma accept_spec:
  assumes n: "ok n" and fd: "fd_get cfg fd n = Some e" and k: "kind (entry e n) = FD_TCP_LISTEN" and off: "0 \<le> fd_offset cfg"
  shows "accept_choice S e n = Some idx \<Longrightarrow>
      (\<exists>newfd a n'. lwip_accept cfg P R K S fd al n = Some ((newfd, a), n') \<and> handed_over cfg e idx n newfd n')
      \<or> (\<forall>j < MAX_FDS cfg. kind (entry j n) \<noteq> FD_FREE) \<and>
        (\<exists>n'. lwip_accept cfg P R K S fd al n = Some ((-1, None), n') \<and> c_errno (ext n') = Some ENFILE
          \<and> (\<forall>j < MAX_FDS cfg. entry j n' = entry j n))"
    and "accept_choice S e n = None \<Longrightarrow> nonblocking (entry e n) \<Longrightarrow>
      \<exists>n'. lwip_accept cfg P R K S fd al n = Some ((-1, None), n') \<and> c_errno (ext n') = Some EWOULDBLOCK
        \<and> (\<forall>j. entry j n' = entry j n)"
proof -
  let ?w = "case al of None \<Rightarrow> False | Some l \<Rightarrow> l \<ge> sizeof_sockaddr_in"
  let ?n1 = "snd (tick_count P n)"
  have c1: "accept_choice S e ?n1 = accept_choice S e n" by (rule pool_conn_cong) (simp_all add: tick_entry tick_calm)
  have a: "lwip_accept cfg P R K S fd al n = accept_loop cfg P R K S e ?w (fst (tick_count P n)) ?n1"
    using fd k by (simp add: lwip_accept_def Let_def case_prod_unfold)
  let ?n2 = "snd (accept_scan S e [0..<pool_len (entry e ?n1)] ?n1)"
  have x: "entry j ?n2 = entry j n" for j by (simp add: tick_entry accept_scan_entry)
  have live: "pool_access e ?n1 = ?n1"
    by (rule pool_access_live [OF tick_ok [OF n]]) (use fd_get_SomeD [OF fd] in \<open>simp_all add: tick_entry\<close>)
  have ok2: "ok ?n2" by (rule accept_scan_ok [OF tick_ok [OF n]])
  {
    assume "accept_choice S e n = Some idx"
    with c1 a have "lwip_accept cfg P R K S fd al n = Some (accept_take cfg P K S e idx ?w ?n2)"
      by (simp add: accept_loop_choice live)
    with accept_take_spec [OF ok2 _ _ off, of e S idx ?w] fd_get_SomeD [OF fd] k x
    show "(\<exists>newfd a n'. lwip_accept cfg P R K S fd al n = Some ((newfd, a), n') \<and> handed_over cfg e idx n newfd n')
      \<or> (\<forall>j < MAX_FDS cfg. kind (entry j n) \<noteq> FD_FREE) \<and>
        (\<exists>n'. lwip_accept cfg P R K S fd al n = Some ((-1, None), n') \<and> c_errno (ext n') = Some ENFILE
          \<and> (\<forall>j < MAX_FDS cfg. entry j n' = entry j n))"
      by (auto simp: handed_over_def)
  }
  assume "accept_choice S e n = None" and "nonblocking (entry e n)"
  with c1 a have "lwip_accept cfg P R K S fd al n = Some ((-1, None), SET_ERRNO EWOULDBLOCK ?n2)"
    by (simp add: accept_loop_none tick_entry live)
  with x show "\<exists>n'. lwip_accept cfg P R K S fd al n = Some ((-1, None), n') \<and> c_errno (ext n') = Some EWOULDBLOCK
        \<and> (\<forall>j. entry j n' = entry j n)"
    by (auto simp: SET_ERRNO_def entry_def)
qed

end

section \<open>The properties\<close>

text \<open>C9: \<open>select\<close> and \<open>accept\<close> agree on a listener. \<open>select\<close> finds it readable exactly when the pool
  has a connected socket; then \<open>accept\<close> returns without waiting, with a descriptor that owns the
  first connected socket in the rotation that starts at \<open>pool_next\<close>, on the interface of the
  listener, while the slot is given a new socket, the rotation moves past it, and no other
  descriptor changes; only when no descriptor is free it fails with \<open>ENFILE\<close>, and the connection
  stays in the pool. When no socket is connected a nonblocking \<open>accept\<close> fails with
  \<open>EWOULDBLOCK\<close>.\<close>

theorem accept_select_agree:
  assumes T: "shim_tasks P contents capacity K cfg R W" and n: "compat_ok contents cfg n"
    and fd: "fd_get cfg fd n = Some e" and k: "kind (entry e n) = FD_TCP_LISTEN" and off: "0 \<le> fd_offset cfg"
  shows "\<exists>n1. fd_readable P R S e n = Some (accept_choice S e n \<noteq> None, n1) \<and>
    (case accept_choice S e n of
       Some idx \<Rightarrow> pool_conn S e n idx \<and>
         ((\<exists>newfd a n'. lwip_accept cfg P R K S fd al n = Some ((newfd, a), n') \<and> handed_over cfg e idx n newfd n')
          \<or> (\<forall>j < MAX_FDS cfg. kind (entry j n) \<noteq> FD_FREE) \<and>
            (\<exists>n'. lwip_accept cfg P R K S fd al n = Some ((-1, None), n') \<and> c_errno (ext n') = Some ENFILE
              \<and> (\<forall>j < MAX_FDS cfg. entry j n' = entry j n)))
     | None \<Rightarrow> nonblocking (entry e n) \<longrightarrow>
         (\<exists>n'. lwip_accept cfg P R K S fd al n = Some ((-1, None), n') \<and> c_errno (ext n') = Some EWOULDBLOCK
           \<and> (\<forall>j. entry j n' = entry j n)))"
proof -
  have "fst (pool_ready S e [0..<pool_len (entry e n)] n) \<longleftrightarrow> accept_choice S e n \<noteq> None"
    unfolding accept_choice_iff by (rule pool_ready_spec)
  then have "fd_readable P R S e n = Some (accept_choice S e n \<noteq> None, snd (pool_ready S e [0..<pool_len (entry e n)] n))"
    using k by (simp add: fd_readable_def prod_eq_iff)
  then show ?thesis
    using shim_tasks.accept_spec [OF T n fd k off] accept_choice_SomeD(2) [of S e n] by (auto split: option.split)
qed

text \<open>A listener on descriptor 54 whose pool has one socket, which is connected.\<close>

definition ref_listen_ctx :: "ref_stack iface_ctx" where
  "ref_listen_ctx = (ctx_new ref_smoltcp 0 [2, 0, 0, 0, 0, 1] 0)\<lparr>ctx_handles := [(1, 0)], ctx_next_id := 2,
     ctx_stack := \<lparr>rs_addrs = [], rs_route = None, rs_socks = [(0, fresh_sock\<lparr>rk_conn := True\<rparr>)], rs_next = 1\<rparr>\<rparr>"

definition ref_listener :: "(ring, u32, ref_stack, nat) cnet" where
  "ref_listener = upd_entry 0 (\<lambda>f. f\<lparr>kind := FD_TCP_LISTEN, pool := Some [1], pool_freed := False, pool_len := 1, fd_port := 80\<rparr>)
     (upd_compat (\<lambda>c. c\<lparr>fd_lock := mx_boot\<lparr>mx_created := True\<rparr>\<rparr>)
       (set_handle NET_IFACE_ETH (Some ref_listen_ctx) ref_cnet))"

lemma ref_listener_ok: "compat_ok ring_contents ref_cfg ref_listener"
proof -
  have "lock_ready (set_handle i h ref_cnet)" for i h
    using ref_cnet(1) by (simp add: set_handle_def upd_iface_def lock_ready_def lock_ok_def)
  moreover have "ext (set_handle i h ref_cnet) = compat_boot ref_cfg 0" for i h
    using ref_cnet(2) by (simp add: set_handle_def)
  ultimately have "compat_ok ring_contents ref_cfg (upd_compat (\<lambda>c. c\<lparr>fd_lock := mx_boot\<lparr>mx_created := True\<rparr>\<rparr>) (set_handle i h ref_cnet))" for i h
    using boot_part_ok [of "set_handle i h ref_cnet" ref_cfg 0]
    by (simp add: compat_ok_part part_ok_def mem_ok_def lo_free_def mx_free_def mx_boot_def)
  then show ?thesis unfolding ref_listener_def by (rule compat_ok_upd_entry) (simp_all add: entry_ok_def)
qed

lemma ref_listener_entry: "entry 0 ref_listener = (fd_zero None)\<lparr>kind := FD_TCP_LISTEN, pool := Some [1], pool_len := 1, fd_port := 80\<rparr>"
  "kind (entry 1 ref_listener) = FD_FREE"
  by (simp_all add: ref_listener_def entry_def upd_entry_def set_handle_def ref_cnet(2) compat_boot_def ref_cfg_def fd_zero_def)

theorem accept_select_agree_witness:
  "\<exists>newfd a n'. lwip_accept ref_cfg ref_cplatform ref_crtos ref_libc ref_smoltcp 54 None ref_listener = Some ((newfd, a), n')
     \<and> handed_over ref_cfg 0 0 ref_listener newfd n'"
proof -
  note e = ref_listener_entry
  have get: "fd_get ref_cfg 54 ref_listener = Some 0" by (simp add: fd_get_def fd_offset_def ref_cfg_def e fd_zero_def)
  have "smoltcp_handle (iface 0 ref_listener) = Some ref_listen_ctx" "enabled (iface 0 ref_listener)" "0 < length (s_ifaces ref_listener)"
    by (simp_all add: ref_listener_def upd_entry_def set_handle_def upd_iface_def iface_def ref_cnet_def net_boot_def
        NET_IFACE_ETH_def NET_IFACE_MAX_def iface_boot_def upd_compat_def)
  then have "fst (net_tcp_is_connected ref_smoltcp 1 ref_listener) = fst (smoltcp_tcp_is_connected ref_smoltcp (Some ref_listen_ctx) 1)"
    by (simp add: net_tcp_is_connected_def on_sock_def handle_for_def net_iface_get_def IFACE_def LOCAL_def
        locked_call_iface(2) NET_IFACE_MAX_def)
  also have "\<dots>" by (simp add: smoltcp_tcp_is_connected_def with_socket_def ref_listen_ctx_def ctx_lookup_def ref_smoltcp_def rs_sock_def)
  finally have "pool_conn ref_smoltcp 0 ref_listener 0" by (simp add: pool_conn_def e fd_zero_def)
  then have "accept_choice ref_smoltcp 0 ref_listener = Some 0" by (simp add: accept_choice_def e)
  moreover have "\<not> (\<forall>j < MAX_FDS ref_cfg. kind (entry j ref_listener) \<noteq> FD_FREE)"
  proof -
    have "1 < MAX_FDS ref_cfg" by (simp add: ref_cfg_def)
    with e(2) show ?thesis by blast
  qed
  moreover have "kind (entry 0 ref_listener) = FD_TCP_LISTEN" "0 \<le> fd_offset ref_cfg" by (simp_all add: e fd_offset_def ref_cfg_def)
  ultimately show ?thesis
    using accept_select_agree [OF ref_shim.shim_tasks_axioms ref_listener_ok get, of ref_smoltcp None] by (simp, blast)
qed

end
