(* ===== verification/Compat_Time.thy ===== *)
theory Compat_Time
  imports Compat_Accept
begin

text \<open>
  The blocking calls of the shim come to an end, and when. \<open>accept\<close> measures the time since its start,
  which is safe against the wrap-around of the tick counter; \<open>select\<close> compares with a deadline,
  like the calls of the native API, and each probe of a UDP descriptor inside a scan waits in
  its turn.
\<close>

text \<open>As for the native calls, only delays and waits take time: creating a mutex or an event group
  does not count.\<close>

locale shim_clock = rtos_clock P R "\<lambda>c. clk (cenv c)" k L
  for P :: "('q, 'g, ('q, 'g, 'x) compat) platform" and R :: "('q, 'g, 'c, ('q, 'g, 'x) compat) rtos"
    and clk :: "'x \<Rightarrow> nat" and k L +
  fixes K :: "('q, 'g, 'x) libc"
  assumes no_ticks: "pdMS_TO_TICKS P 0 = 0"
    and create_time: "clk (snd (xSemaphoreCreateMutex K x)) = clk x" "clk (snd (xEventGroupCreate K x)) = clk x"
begin

abbreviation time :: "('q, 'g, 'c, 'x) cnet \<Rightarrow> nat" where "time n \<equiv> clk (cenv (ext n))"

section \<open>accept\<close>

lemma elapsed_late:
  assumes "a \<le> c" and "c div k - a div k < 2 ^ 32"
  shows "unat (of_nat (c div k) - of_nat (a div k) :: u32) = c div k - a div k"
proof -
  have "(of_nat (c div k) - of_nat (a div k) :: u32) = of_nat (c div k - a div k)"
    using assms(1) by (simp add: div_le_mono)
  then show ?thesis using assms(2) by (simp add: unat_of_nat)
qed

text \<open>Taking a connection over takes no time.\<close>

lemma env_call_time: "time (snd (env_call g n)) = clk (snd (g (cenv (ext n))))"
  by (simp add: env_call_def Let_def case_prod_unfold)

lemma upd_entry_time [simp]: "time (upd_entry i g n) = time n"
  by (simp add: upd_entry_def)

lemma fd_init_loop_time: "time (fd_init_loop K is n) = time n"
  by (induction "is" arbitrary: n) (simp_all add: Let_def case_prod_unfold env_call_time create_time)

lemma fd_alloc_time: "time (snd (fd_alloc cfg P K S kd n)) = time n"
proof -
  have "time (snd (fd_table_init cfg K n)) = time n"
    by (simp add: fd_table_init_def Let_def case_prod_unfold fd_init_loop_time env_call_time create_time)
  moreover have "time (snd (fd_default_iface cfg S m)) = time m" for m
    by (simp add: fd_default_iface_def net_stack_get_ipv4_def iface_query_def Let_def case_prod_unfold)
  ultimately show ?thesis
    by (simp add: fd_alloc_def fd_LOCK_def fd_UNLOCK_def Let_def case_prod_unfold split: option.split)
qed

lemma net_calls_time: "time (snd (net_tcp_open S ifc n)) = time n" "time (snd (net_tcp_listen S s port n)) = time n"
  by (simp_all add: net_tcp_open_def net_open_def net_tcp_listen_def on_sock_def Let_def case_prod_unfold split: option.split)

lemma accept_take_time: "time (snd (accept_take cfg P K S e idx want n)) = time n"
  by (simp add: accept_take_def set_pool_def SET_ERRNO_def Let_def case_prod_unfold fd_alloc_time net_calls_time)

text \<open>One pause of \<open>accept\<close>.\<close>

abbreviation pause :: nat where "pause \<equiv> unat (pdMS_TO_TICKS P 2) * k + L"

lemma accept_loop_time:
  assumes "(unat (pdMS_TO_TICKS P 60000) + 1) * k + pause < 2 ^ 32 * k"
  shows "a \<le> time n \<Longrightarrow> time n \<le> (a div k + unat (pdMS_TO_TICKS P 60000) + 1) * k + pause \<Longrightarrow>
    \<exists>r n'. accept_loop cfg P R K S e want (of_nat (a div k)) n = Some (r, n')
      \<and> time n' \<le> (a div k + unat (pdMS_TO_TICKS P 60000) + 1) * k + pause"
proof (induction "(a div k + unat (pdMS_TO_TICKS P 60000) + 1) * k + pause - time n" arbitrary: n rule: less_induct)
  case less
  let ?T = "pdMS_TO_TICKS P 60000"
  let ?s = "accept_scan S e [0..<pool_len (entry e n)] (pool_access e n)"
  let ?n3 = "vTaskDelay R (pdMS_TO_TICKS P 2) (snd ?s)"
  have x: "time (snd ?s) = time n" "entry e (snd ?s) = entry e n"
    by (simp_all add: accept_scan_choice accept_scan_entry pool_access_frame)
  have "time n < a div k * k + 2 ^ 32 * k" using less.prems(2) assms by (simp add: algebra_simps)
  then have "time n < (a div k + 2 ^ 32) * k" by (simp add: algebra_simps)
  then have lt: "time n div k - a div k < 2 ^ 32" using unit by (simp add: less_diff_conv2 div_le_mono less_mult_imp_div_less less.prems(1) add.commute less_diff_conv)
  have u: "unat (of_nat (time n div k) - of_nat (a div k) :: u32) = time n div k - a div k"
    by (rule elapsed_late [OF less.prems(1) lt])
  show ?case
  proof (cases "fst ?s \<noteq> None \<or> nonblocking (entry e n) \<or> (of_nat (time n div k) - of_nat (a div k) :: u32) > ?T")
    case True
    let ?res = "case fst ?s of Some idx \<Rightarrow> accept_take cfg P K S e idx want (snd ?s)
      | None \<Rightarrow> if nonblocking (entry e n) then ((-1, None), SET_ERRNO EWOULDBLOCK (snd ?s)) else ((-1, None), SET_ERRNO ETIMEDOUT (snd ?s))"
    have "accept_loop cfg P R K S e want (of_nat (a div k)) n = Some ?res"
      using True by (subst accept_loop.simps) (auto simp: Let_def case_prod_unfold x split: option.split)
    moreover have "time (snd ?res) = time n"
      by (simp add: accept_take_time x SET_ERRNO_def split: option.split)
    ultimately show ?thesis using less.prems(2) by (metis prod.collapse)
  next
    case False
    then have "time n div k - a div k \<le> unat ?T" using u by (simp add: word_less_nat_alt not_less)
    then have "time n div k < a div k + unat ?T + 1" by linarith
    then have "time n < (a div k + unat ?T + 1) * k" using unit by (simp add: div_less_iff_less_mult)
    moreover have "time n < time ?n3" "time ?n3 \<le> time n + pause"
      using delay_time [where n = "snd ?s" and d = "pdMS_TO_TICKS P 2"] x by simp_all
    ultimately have "\<exists>r n'. accept_loop cfg P R K S e want (of_nat (a div k)) ?n3 = Some (r, n')
        \<and> time n' \<le> (a div k + unat ?T + 1) * k + pause"
      using less.prems(1) by (intro less.hyps) linarith+
    moreover have "accept_loop cfg P R K S e want (of_nat (a div k)) n = accept_loop cfg P R K S e want (of_nat (a div k)) ?n3"
      using False by (subst accept_loop.simps) (simp add: Let_def case_prod_unfold x)
    ultimately show ?thesis by simp
  qed
qed

lemma tick_le: "time n \<le> (time n div k + d + 1) * k + m" "(time n div k + d + 1) * k \<le> time n + (d + 1) * k"
proof -
  have "time n < (time n div k + 1) * k" using unit by (metis add.commute div_less_iff_less_mult less_add_one)
  then show "time n \<le> (time n div k + d + 1) * k + m" by (simp add: algebra_simps)
  show "(time n div k + d + 1) * k \<le> time n + (d + 1) * k" by (simp add: algebra_simps)
qed

lemma accept_time:
  assumes "(unat (pdMS_TO_TICKS P 60000) + 1) * k + pause < 2 ^ 32 * k"
  shows "\<exists>r n'. lwip_accept cfg P R K S fd al n = Some (r, n') \<and> time n' \<le> time n + (unat (pdMS_TO_TICKS P 60000) + 1) * k + pause"
proof (cases "\<exists>e. fd_get cfg fd n = Some e \<and> kind (entry e n) = FD_TCP_LISTEN")
  case True
  then obtain e where e: "fd_get cfg fd n = Some e" "kind (entry e n) = FD_TCP_LISTEN" by blast
  let ?T = "unat (pdMS_TO_TICKS P 60000)"
  obtain r n' where "accept_loop cfg P R K S e (case al of None \<Rightarrow> False | Some l \<Rightarrow> l \<ge> sizeof_sockaddr_in) (of_nat (time n div k)) n = Some (r, n')"
    "time n' \<le> (time n div k + ?T + 1) * k + pause"
    using accept_loop_time [OF assms order_refl tick_le(1)] by blast
  moreover have "(time n div k + ?T + 1) * k + pause \<le> time n + (?T + 1) * k + pause" using tick_le(2) [of n ?T] by linarith
  ultimately show ?thesis using e by (simp add: lwip_accept_def Let_def)
next
  case False
  then show ?thesis by (auto simp: lwip_accept_def SET_ERRNO_def split: option.split)
qed

section \<open>select\<close>

lemma probe_time:
  assumes "time n + k + B < 2 ^ 32 * k"
  shows "\<exists>r n'. net_udp_recvfrom P R S s cap 0 n = Some (r, n') \<and> time n \<le> time n' \<and> time n' \<le> time n + k + B"
proof -
  have "(time n div k + unat (pdMS_TO_TICKS P (uint (0 :: u32))) + 1) * k + B < 2 ^ 32 * k"
    using assms tick_le(2) [of n 0] by (simp add: no_ticks del: mult_Suc add_mult_distrib)
  from calls_return(4) [OF this, of S s cap] show ?thesis by (simp add: returns_by_def no_ticks add.assoc)
qed

lemma readable_time:
  assumes "time n + k + B < 2 ^ 32 * k"
  shows "\<exists>b n'. fd_readable P R S e n = Some (b, n') \<and> time n \<le> time n' \<and> time n' \<le> time n + k + B"
proof -
  have p: "time (snd (pool_ready S e is n)) = time n" for "is" n
    by (induction "is" arbitrary: n) (simp_all add: Let_def case_prod_unfold)
  from probe_time [OF assms, of S "sock (entry e n)" 0] p [of "[0..<pool_len (entry e n)]" n] show ?thesis
    by (auto simp: fd_readable_def Let_def case_prod_unfold prod_eq_iff split: fd_kind.split)
qed

lemma fd_set_time: "time (snd (FD_ISSET cfg fd s n)) = time n" "time (snd (FD_SET cfg fd s n)) = time n"
  "time (snd (fd_writable S e n)) = time n"
  by (simp_all add: FD_ISSET_def FD_SET_def bad_access_def fd_writable_def Let_def case_prod_unfold split: fd_kind.split)

lemma select_fd_time:
  assumes "time n + k + B < 2 ^ 32 * k"
  shows "\<exists>acc' n'. select_fd cfg P R S rd_in wr_in fd acc n = Some (acc', n') \<and> time n \<le> time n' \<and> time n' \<le> time n + k + B"
proof (cases "fd_get cfg fd n")
  case None
  then show ?thesis by (simp add: select_fd_def del: split_paired_Ex)
next
  case (Some e)
  obtain rq n1 where i: "FD_ISSET cfg fd rd_in n = (rq, n1)" by force
  have t1: "time n1 = time n" using fd_set_time(1) [of cfg fd rd_in n] i by simp
  obtain b n2 where b: "(if rq then fd_readable P R S e n1 else Some (False, n1)) = Some (b, n2)"
    "time n \<le> time n2" "time n2 \<le> time n + k + B"
    using readable_time [of n1 S e] assms t1 by (cases rq) (fastforce simp del: split_paired_Ex)+
  obtain ready rd wr where acc: "acc = (ready, rd, wr)" by (cases acc)
  obtain rd' n3 where r: "(if b then FD_SET cfg fd rd n2 else (rd, n2)) = (rd', n3)" by force
  obtain wq n4 where j: "FD_ISSET cfg fd wr_in n3 = (wq, n4)" by force
  obtain w n5 where w: "(if wq then fd_writable S e n4 else (False, n4)) = (w, n5)" by force
  obtain wr' n6 where o: "(if w then FD_SET cfg fd wr n5 else (wr, n5)) = (wr', n6)" by force
  have "time n3 = time n2" using fd_set_time(2) [of cfg fd rd n2] r by (simp split: if_splits)
  moreover have "time n4 = time n3" using fd_set_time(1) [of cfg fd wr_in n3] j by simp
  moreover have "time n5 = time n4" using fd_set_time(3) [of S e n4] w by (simp split: if_splits)
  moreover have "time n6 = time n5" using fd_set_time(2) [of cfg fd wr n5] o by (simp split: if_splits)
  moreover have "select_fd cfg P R S rd_in wr_in fd acc n = Some ((ready + of_bool b + of_bool w, rd', wr'), n6)"
    using Some i b(1) r j w o by (simp add: select_fd_def fd_is_socket_get acc Let_def)
  ultimately show ?thesis using b(2,3) by (metis (no_types, lifting))
qed

lemma select_scan_time:
  "time n + length fds * (k + B) < 2 ^ 32 * k \<Longrightarrow>
     \<exists>acc' n'. select_scan cfg P R S rd_in wr_in fds acc n = Some (acc', n') \<and> time n \<le> time n' \<and> time n' \<le> time n + length fds * (k + B)"
proof (induction fds arbitrary: acc n)
  case (Cons fd fds)
  obtain acc1 n1 where s: "select_fd cfg P R S rd_in wr_in fd acc n = Some (acc1, n1)" "time n \<le> time n1" "time n1 \<le> time n + k + B"
    using select_fd_time [of n cfg S rd_in wr_in fd acc] Cons.prems by auto
  then have "time n1 + length fds * (k + B) < 2 ^ 32 * k" using Cons.prems by simp
  from Cons.IH [OF this, of acc1] obtain acc2 n2 where "select_scan cfg P R S rd_in wr_in fds acc1 n1 = Some (acc2, n2)"
    "time n1 \<le> time n2" "time n2 \<le> time n1 + length fds * (k + B)" by blast
  with s show ?case by (intro exI [of _ acc2] exI [of _ n2]) auto
qed (simp del: split_paired_Ex)

lemma select_loop_time:
  assumes D: "(unat D + 1) * k + L + length fds * (k + B) < 2 ^ 32 * k" "D \<noteq> portMAX_DELAY"
  shows "time n \<le> (unat D + 1) * k + L \<Longrightarrow>
    \<exists>r n'. select_loop cfg P R S rd_in wr_in fds D n = Some (r, n') \<and> time n' \<le> (unat D + 1) * k + L + length fds * (k + B)"
proof (induction "(unat D + 1) * k + L - time n" arbitrary: n rule: less_induct)
  case less
  then have "time n + length fds * (k + B) < 2 ^ 32 * k" using D(1) by linarith
  then obtain acc n1 where s: "select_scan cfg P R S rd_in wr_in fds (0, {}, {}) n = Some (acc, n1)"
    "time n \<le> time n1" "time n1 \<le> time n + length fds * (k + B)"
    using select_scan_time by blast
  have late: "time n1 \<le> (unat D + 1) * k + L + length fds * (k + B)" using s(3) less.prems by linarith
  then have "time n1 < 2 ^ 32 * k" using D(1) by linarith
  then have "time n1 div k < 2 ^ 32" using unit by (simp add: less_mult_imp_div_less)
  then have u: "unat (of_nat (time n1 div k) :: u32) = time n1 div k" by (simp add: unat_of_nat)
  let ?n3 = "vTaskDelay R 1 n1"
  show ?case
  proof (cases "fst acc \<noteq> 0 \<or> (of_nat (time n1 div k) :: u32) \<ge> D")
    case True
    then have "select_loop cfg P R S rd_in wr_in fds D n = Some (acc, n1)"
      using s(1) D(2) by (subst select_loop.simps) (auto simp: Let_def)
    with late show ?thesis by blast
  next
    case False
    then have "time n1 div k < unat D" using u by (simp add: word_less_nat_alt not_le)
    then have "time n1 < unat D * k" using unit by (simp add: div_less_iff_less_mult)
    moreover have "time n1 < time ?n3" "time ?n3 \<le> time n1 + k + L" using delay_time [where n = n1 and d = 1] by simp_all
    ultimately have lt: "time ?n3 \<le> (unat D + 1) * k + L" "time n < time ?n3" "time n < (unat D + 1) * k + L"
      using s(2) unit by simp_all
    then have "\<exists>r n'. select_loop cfg P R S rd_in wr_in fds D ?n3 = Some (r, n') \<and> time n' \<le> (unat D + 1) * k + L + length fds * (k + B)"
      by (intro less.hyps) linarith+
    moreover have "select_loop cfg P R S rd_in wr_in fds D n = select_loop cfg P R S rd_in wr_in fds D ?n3"
      using False s(1) D(2) by (subst select_loop.simps) (simp add: Let_def)
    ultimately show ?thesis by simp
  qed
qed

lemma select_time:
  assumes "(time n div k + unat (pdMS_TO_TICKS P (uint (select_ms tv))) + 2) * k + L + nat nfds * (k + B) < 2 ^ 32 * k"
  shows "\<exists>r n'. lwip_select cfg P R S nfds rd wr ex (Some tv) n = Some (r, n')
    \<and> time n' \<le> time n + (unat (pdMS_TO_TICKS P (uint (select_ms tv))) + 1) * k + L + nat nfds * (k + B)"
proof -
  let ?d = "pdMS_TO_TICKS P (uint (select_ms tv))"
  let ?D = "of_nat (time n div k) + ?d :: u32" and ?fds = "map int [0..<nat nfds]"
  have "(time n div k + unat ?d + 2) * k < 2 ^ 32 * k" using assms by linarith
  then have lt: "time n div k + unat ?d + 2 < 2 ^ 32" using unit by simp
  then have u: "unat ?D = time n div k + unat ?d"
    by (subst unat_add_lem [THEN iffD1]) (simp_all add: unat_of_nat)
  have "unat ?D + 2 < 2 ^ 32" using u lt by simp
  moreover have "unat portMAX_DELAY = 2 ^ 32 - 1" unfolding portMAX_DELAY_def by transfer (simp add: mask_eq_exp_minus_1)
  ultimately have max: "?D \<noteq> portMAX_DELAY" by auto
  have room: "(unat ?D + 1) * k + L + length ?fds * (k + B) < 2 ^ 32 * k"
    using assms u by (simp add: algebra_simps)
  have "time n \<le> (unat ?D + 1) * k + L" unfolding u by (rule tick_le(1))
  from select_loop_time [OF room max this] obtain r n' where
    loop: "select_loop cfg P R S (case rd of None \<Rightarrow> {} | Some s \<Rightarrow> s) (case wr of None \<Rightarrow> {} | Some s \<Rightarrow> s) ?fds ?D n = Some (r, n')"
    and "time n' \<le> (unat ?D + 1) * k + L + length ?fds * (k + B)" by blast
  then have "time n' \<le> time n + (unat ?d + 1) * k + L + nat nfds * (k + B)"
    using tick_le(2) [of n "unat ?d"] unfolding u by simp
  moreover have "\<exists>x. lwip_select cfg P R S nfds rd wr ex (Some tv) n = Some (x, n')"
    using loop by (simp add: lwip_select_def Let_def case_prod_unfold)
  ultimately show ?thesis by blast
qed

end

interpretation ref_sclock: shim_clock ref_cplatform ref_crtos "\<lambda>x. x" 1 1 ref_libc
  by unfold_locales (simp_all add: ref_cplatform_def ref_crtos_def tick_on_def ref_libc_def)

lemma ref_longest_wait: "longest_wait ref_cplatform 1 1 = 51" "longest_wait ref_cplatform (Suc 0) (Suc 0) = 51"
  by (simp_all add: longest_wait_def ref_cplatform_def)

text \<open>C18: The blocking calls of the shim return in time. \<open>accept\<close> returns within its sixty seconds, one tick and
  one pause of 2 ms (and the latency of a wake-up) at any value of the tick counter, since it
  compares elapsed time and the subtraction absorbs the wrap-around. \<open>select\<close> with a time-out returns no
  later than the time-out, one tick and one scan after it was called, where the scan can cost one tick and one wait
  for each descriptor it looks at, if the tick counter does not wrap around before that.\<close>

theorem accept_select_return:
  assumes "shim_clock P R clk k L K"
  shows "((unat (pdMS_TO_TICKS P 60000) + 1) * k + unat (pdMS_TO_TICKS P 2) * k + L < 2 ^ 32 * k \<longrightarrow>
     (\<exists>r n'. lwip_accept cfg P R K S fd al n = Some (r, n')
        \<and> clk (cenv (ext n')) \<le> clk (cenv (ext n)) + (unat (pdMS_TO_TICKS P 60000) + 1) * k + unat (pdMS_TO_TICKS P 2) * k + L)) \<and>
    ((clk (cenv (ext n)) div k + unat (pdMS_TO_TICKS P (uint (select_ms tv))) + 2) * k + L + nat nfds * (k + longest_wait P k L) < 2 ^ 32 * k \<longrightarrow>
     (\<exists>r n'. lwip_select cfg P R S nfds rd wr ex (Some tv) n = Some (r, n')
        \<and> clk (cenv (ext n')) \<le> clk (cenv (ext n)) + (unat (pdMS_TO_TICKS P (uint (select_ms tv))) + 1) * k + L
            + nat nfds * (k + longest_wait P k L)))"
  using shim_clock.accept_time [OF assms, unfolded add.assoc] shim_clock.select_time [OF assms, unfolded add.assoc]
  unfolding add.assoc by blast

theorem accept_select_return_witness:
  "(\<exists>r n'. lwip_accept ref_cfg ref_cplatform ref_crtos ref_libc ref_smoltcp 54 None (upd_compat (\<lambda>c. c\<lparr>cenv := 0xFFFFFFF0\<rparr>) ref_listener) = Some (r, n')
      \<and> cenv (ext n') \<le> 0xFFFFFFF0 + 60004)
   \<and> (\<exists>r n'. lwip_select ref_cfg ref_cplatform ref_crtos ref_smoltcp 58 (Some {54}) None None (Some (5, 0)) ref_listener = Some (r, n')
      \<and> cenv (ext n') \<le> 5002 + 58 * 52)"
proof -
  note T = accept_select_return [OF ref_sclock.shim_clock_axioms, unfolded ref_longest_wait]
  have d: "unat (pdMS_TO_TICKS ref_cplatform 60000) = 60000" "unat (pdMS_TO_TICKS ref_cplatform 2) = 2"
    "unat (pdMS_TO_TICKS ref_cplatform (uint (select_ms (5, 0)))) = 5000"
    by (simp_all add: ref_cplatform_def select_ms_def)
  have c: "cenv (ext ref_listener) = 0"
    by (simp add: ref_listener_def upd_entry_def set_handle_def ref_cnet(2) compat_boot_def)
  have "\<exists>r n'. lwip_accept ref_cfg ref_cplatform ref_crtos ref_libc ref_smoltcp 54 None (upd_compat (\<lambda>c. c\<lparr>cenv := 0xFFFFFFF0\<rparr>) ref_listener) = Some (r, n')
      \<and> cenv (ext n') \<le> 0xFFFFFFF0 + 60004"
    using T [THEN conjunct1, of ref_cfg ref_smoltcp 54 None "upd_compat (\<lambda>c. c\<lparr>cenv := 0xFFFFFFF0\<rparr>) ref_listener"] unfolding d by simp
  moreover have "\<exists>r n'. lwip_select ref_cfg ref_cplatform ref_crtos ref_smoltcp 58 (Some {54}) None None (Some (5, 0)) ref_listener = Some (r, n')
      \<and> cenv (ext n') \<le> 5002 + 58 * 52"
    using T [THEN conjunct2, of ref_listener "(5, 0)" 58 ref_cfg ref_smoltcp "Some {54}" None None] unfolding d c by simp
  ultimately show ?thesis by blast
qed

end
