(* ===== verification/Select_Props.thy ===== *)
theory Select_Props
  imports Compat_Time
begin

text \<open>
  What \<open>select\<close> returns: the shape of its result, the probe of UDP descriptors, and the
  descriptors that do not fit into an \<open>fd_set\<close>.
\<close>

section \<open>The result of a scan\<close>

definition shim_fd :: "compat_config \<Rightarrow> int \<Rightarrow> bool" where
  "shim_fd cfg fd \<longleftrightarrow> in_fd_set cfg fd \<and> fd_offset cfg \<le> fd \<and> fd < fd_offset cfg + int (MAX_FDS cfg)"

definition scan_ok :: "compat_config \<Rightarrow> int set \<Rightarrow> int set \<Rightarrow> int set \<Rightarrow> scan \<Rightarrow> bool" where
  "scan_ok cfg rd_in wr_in A acc \<longleftrightarrow>
     (case acc of (ready, rd, wr) \<Rightarrow> finite rd \<and> finite wr \<and> ready = int (card rd) + int (card wr)
       \<and> rd \<subseteq> {fd \<in> rd_in. shim_fd cfg fd} \<inter> A \<and> wr \<subseteq> {fd \<in> wr_in. shim_fd cfg fd} \<inter> A)"

lemma select_fd_cases:
  assumes "select_fd cfg P R S rd_in wr_in fd (ready, rd, wr) n = Some (acc', n')"
  obtains r w where "acc' = (ready + of_bool r + of_bool w, if r then insert fd rd else rd, if w then insert fd wr else wr)"
    and "r \<Longrightarrow> fd \<in> rd_in \<and> shim_fd cfg fd" and "w \<Longrightarrow> fd \<in> wr_in \<and> shim_fd cfg fd"
proof (cases "fd_get cfg fd n")
  case None
  with assms have "acc' = (ready, rd, wr)" by (simp add: select_fd_def split: if_splits)
  then show ?thesis using that [of False False] by simp
next
  case (Some e)
  then have s: "fd_is_socket cfg fd n" by (simp add: fd_is_socket_get)
  then have R: "fd_offset cfg \<le> fd" "fd < fd_offset cfg + int (MAX_FDS cfg)" by (simp_all add: fd_is_socket_def Let_def)
  obtain rq n1 where i: "FD_ISSET cfg fd rd_in n = (rq, n1)" by force
  from assms Some s i obtain b n2 where b: "(if rq then fd_readable P R S e n1 else Some (False, n1)) = Some (b, n2)"
    by (auto simp: select_fd_def Let_def bind_eq_Some_conv)
  obtain rd' n3 where r: "(if b then FD_SET cfg fd rd n2 else (rd, n2)) = (rd', n3)" by force
  obtain wq n4 where j: "FD_ISSET cfg fd wr_in n3 = (wq, n4)" by force
  obtain w n5 where w: "(if wq then fd_writable S e n4 else (False, n4)) = (w, n5)" by force
  obtain wr' n6 where o: "(if w then FD_SET cfg fd wr n5 else (wr, n5)) = (wr', n6)" by force
  have acc': "acc' = (ready + of_bool b + of_bool w, rd', wr')" using assms Some s i b r j w o by (simp add: select_fd_def)
  have rq: "b \<Longrightarrow> rq" using b by (auto split: if_splits)
  have wq: "w \<Longrightarrow> wq" using w by (auto split: if_splits)
  have "rq \<Longrightarrow> fd \<in> rd_in \<and> in_fd_set cfg fd" "wq \<Longrightarrow> fd \<in> wr_in \<and> in_fd_set cfg fd"
    using i j by (auto simp: FD_ISSET_def split: if_splits)
  then show ?thesis
    using that [of b w] acc' rq wq r o R by (auto simp: FD_SET_def shim_fd_def split: if_splits)
qed

lemma select_scan_result:
  "select_scan cfg P R S rd_in wr_in fds acc n = Some (acc', n') \<Longrightarrow> distinct fds \<Longrightarrow> set fds \<inter> A = {} \<Longrightarrow>
     scan_ok cfg rd_in wr_in A acc \<Longrightarrow> scan_ok cfg rd_in wr_in (A \<union> set fds) acc'"
proof (induction fds arbitrary: A acc n)
  case (Cons fd fds)
  obtain ready rd wr where acc: "acc = (ready, rd, wr)" by (cases acc)
  from Cons.prems(1) obtain acc1 n1 where s: "select_fd cfg P R S rd_in wr_in fd acc n = Some (acc1, n1)"
    "select_scan cfg P R S rd_in wr_in fds acc1 n1 = Some (acc', n')"
    by (auto simp: bind_eq_Some_conv)
  obtain r w where
    acc1: "acc1 = (ready + of_bool r + of_bool w, if r then insert fd rd else rd, if w then insert fd wr else wr)"
    and rw: "r \<Longrightarrow> fd \<in> rd_in \<and> shim_fd cfg fd" "w \<Longrightarrow> fd \<in> wr_in \<and> shim_fd cfg fd"
    by (rule select_fd_cases [OF s(1) [unfolded acc]]) blast
  have "fd \<notin> A" using Cons.prems(3) by simp
  then have "fd \<notin> rd" "fd \<notin> wr" using Cons.prems(4) by (auto simp: scan_ok_def acc)
  then have "scan_ok cfg rd_in wr_in (insert fd A) acc1"
    using Cons.prems(4) rw by (auto simp: scan_ok_def acc acc1)
  then have "scan_ok cfg rd_in wr_in (insert fd A \<union> set fds) acc'"
    using Cons.prems(2,3) s(2) by (intro Cons.IH) auto
  then show ?case by simp
qed simp

lemma select_loop_result:
  assumes "select_loop cfg P R S rd_in wr_in fds D n = Some r" and "distinct fds"
  shows "scan_ok cfg rd_in wr_in (set fds) (fst r) \<and> (fst (fst r) = 0 \<longrightarrow> D \<noteq> portMAX_DELAY)"
proof -
  have "Q ((((((((cfg, P), R), S), rd_in), wr_in), fds), D), n) r"
    if Q: "Q = (\<lambda>((((((((cfg, P), R), S), rd_in), wr_in), fds), D), n) r. distinct fds \<longrightarrow>
      scan_ok cfg rd_in wr_in (set fds) (fst r) \<and> (fst (fst r) = 0 \<longrightarrow> D \<noteq> portMAX_DELAY))" for Q
  proof (rule select_loop.raw_induct [OF _ assms(1)], goal_cases)
    case (1 loop cfg P R S rd_in wr_in fds D n r)
    show ?case unfolding Q prod.case
    proof (rule impI)
      assume d: "distinct fds"
      from 1(2) obtain acc n1 where s: "select_scan cfg P R S rd_in wr_in fds (0, {}, {}) n = Some (acc, n1)"
        by (auto simp: bind_eq_Some_conv)
      have "scan_ok cfg rd_in wr_in (set fds) acc"
        using select_scan_result [OF s d, of "{}"] by (simp add: scan_ok_def)
      moreover have "loop cfg P R S rd_in wr_in fds D m = Some r \<Longrightarrow>
          scan_ok cfg rd_in wr_in (set fds) (fst r) \<and> (fst (fst r) = 0 \<longrightarrow> D \<noteq> portMAX_DELAY)" for m
        using 1(1) [of cfg P R S rd_in wr_in fds D m r] d unfolding Q by simp
      ultimately show "scan_ok cfg rd_in wr_in (set fds) (fst r) \<and> (fst (fst r) = 0 \<longrightarrow> D \<noteq> portMAX_DELAY)"
        using 1(2) unfolding s by (auto simp: case_prod_unfold Let_def split: if_splits)
    qed
  qed
  with assms show ?thesis by simp
qed

text \<open>C25: The result of \<open>select\<close>. When it returns, the sets contain only descriptors that the caller
  asked for, below \<open>nfds\<close> and of the shim's range; a set that was passed is overwritten and the
  exception set emptied; the returned number is the number of events in the two sets, a
  descriptor that is both readable and writable counting twice; and it is 0 only when a
  time-out was given.\<close>

theorem select_result:
  assumes "lwip_select cfg P R S nfds rd wr ex to n = Some ((r, rd', wr', ex'), n')"
  shows "\<exists>A B. rd' = map_option (\<lambda>_. A) rd \<and> wr' = map_option (\<lambda>_. B) wr \<and> ex' = map_option (\<lambda>_. {}) ex
    \<and> r = int (card A) + int (card B)
    \<and> (\<forall>fd. fd \<in> A \<longrightarrow> (\<exists>s. rd = Some s \<and> fd \<in> s) \<and> 0 \<le> fd \<and> fd < nfds \<and> shim_fd cfg fd)
    \<and> (\<forall>fd. fd \<in> B \<longrightarrow> (\<exists>s. wr = Some s \<and> fd \<in> s) \<and> 0 \<le> fd \<and> fd < nfds \<and> shim_fd cfg fd)
    \<and> (r = 0 \<longrightarrow> to \<noteq> None)"
proof -
  let ?ri = "case rd of None \<Rightarrow> {} | Some s \<Rightarrow> s" and ?wi = "case wr of None \<Rightarrow> {} | Some s \<Rightarrow> s"
  let ?fds = "map int [0..<nat nfds]"
  obtain D n1 where D: "(case to of None \<Rightarrow> (portMAX_DELAY, n)
      | Some tv \<Rightarrow> (let (now, n') = tick_count P n in (now + pdMS_TO_TICKS P (uint (select_ms tv)), n'))) = (D, n1)" by force
  have "map_option (\<lambda>((ready, rd', wr'), n2).
      ((ready, map_option (\<lambda>_. rd') rd, map_option (\<lambda>_. wr') wr, map_option (\<lambda>_. {}) ex), n2))
    (select_loop cfg P R S ?ri ?wi ?fds D n1) = Some ((r, rd', wr', ex'), n')"
    using assms unfolding lwip_select_def D unfolding Let_def prod.case .
  then obtain A B where l: "select_loop cfg P R S ?ri ?wi ?fds D n1 = Some ((r, A, B), n')"
    and res: "rd' = map_option (\<lambda>_. A) rd" "wr' = map_option (\<lambda>_. B) wr" "ex' = map_option (\<lambda>_. {}) ex"
    by (cases "select_loop cfg P R S ?ri ?wi ?fds D n1") auto
  have "distinct ?fds" by (simp add: distinct_map)
  from select_loop_result [OF l this] have ok: "scan_ok cfg ?ri ?wi (set ?fds) (r, A, B)" "r = 0 \<Longrightarrow> D \<noteq> portMAX_DELAY" by simp_all
  have "to = None \<Longrightarrow> D = portMAX_DELAY" using D by simp
  then have "r = 0 \<longrightarrow> to \<noteq> None" using ok(2) by blast
  moreover have "(\<exists>s. rd = Some s \<and> fd \<in> s) \<and> 0 \<le> fd \<and> fd < nfds \<and> shim_fd cfg fd" if "fd \<in> A" for fd
  proof -
    have "fd \<in> ?ri" "shim_fd cfg fd" "fd \<in> set ?fds" using ok(1) that by (auto simp: scan_ok_def)
    then show ?thesis by (cases rd) auto
  qed
  moreover have "(\<exists>s. wr = Some s \<and> fd \<in> s) \<and> 0 \<le> fd \<and> fd < nfds \<and> shim_fd cfg fd" if "fd \<in> B" for fd
  proof -
    have "fd \<in> ?wi" "shim_fd cfg fd" "fd \<in> set ?fds" using ok(1) that by (auto simp: scan_ok_def)
    then show ?thesis by (cases wr) auto
  qed
  moreover have "r = int (card A) + int (card B)" using ok(1) by (simp add: scan_ok_def)
  ultimately show ?thesis using res by blast
qed

theorem select_result_witness:
  "\<exists>r A n'. lwip_select ref_cfg ref_cplatform ref_crtos ref_smoltcp 58 (Some {54}) None None (Some (5, 0)) ref_listener = Some ((r, Some A, None, None), n')
     \<and> A \<subseteq> {54} \<and> r = int (card A)"
proof -
  have "cenv (ext ref_listener) = 0"
    by (simp add: ref_listener_def upd_entry_def set_handle_def ref_cnet(2) compat_boot_def)
  then have "(cenv (ext ref_listener) div 1 + unat (pdMS_TO_TICKS ref_cplatform (uint (select_ms (5, 0)))) + 2) * 1 + 1 + nat 58 * (1 + longest_wait ref_cplatform 1 1) < 2 ^ 32 * 1"
    unfolding ref_longest_wait by (simp add: ref_cplatform_def select_ms_def)
  from ref_sclock.select_time [OF this] obtain r rd' wr' ex' n' where
    s: "lwip_select ref_cfg ref_cplatform ref_crtos ref_smoltcp 58 (Some {54}) None None (Some (5, 0)) ref_listener = Some ((r, rd', wr', ex'), n')"
    by (metis surj_pair)
  from select_result [OF s] obtain A B where "rd' = Some A" "wr' = None" "ex' = None" "r = int (card A) + int (card B)" "A \<subseteq> {54}" "B \<subseteq> {}"
    by auto
  with s show ?thesis by (intro exI [of _ r] exI [of _ A] exI [of _ n']) simp
qed

section \<open>The probe of UDP descriptors\<close>












section \<open>Descriptors beyond an fd set\<close>

text \<open>A predicate that the atomic steps keep, and a bad access too, is kept by a scan.\<close>

lemma pool_ready_keeps: "keeps P R I \<Longrightarrow> I n \<Longrightarrow> I (snd (pool_ready S e is n))"
  by (induction "is" arbitrary: n)
    (simp_all add: Let_def case_prod_unfold net_tcp_is_connected_def on_sock_def keeps_call split: option.split)

lemma fd_readable_keeps: "fd_readable P R S e n = Some (b, n') \<Longrightarrow> keeps P R I \<Longrightarrow> I n \<Longrightarrow> I n'"
  using pool_ready_keeps [of P R I n S e "[0..<pool_len (entry e n)]"]
  by (auto simp: fd_readable_def Let_def case_prod_unfold net_tcp_is_connected_def net_tcp_recv_queue_def on_sock_def keeps_call
      dest: blocking_keeps(4) split: if_splits fd_kind.splits option.splits)

lemma fd_writable_keeps: "keeps P R I \<Longrightarrow> I n \<Longrightarrow> I (snd (fd_writable S e n))"
  by (simp add: fd_writable_def Let_def case_prod_unfold net_tcp_send_capacity_def on_sock_def keeps_call split: fd_kind.split option.split)

lemma select_fd_keeps:
  assumes "select_fd cfg P R S rd_in wr_in fd acc n = Some (acc', n')" and K: "keeps P R I" "\<And>n. I n \<Longrightarrow> I (bad_access n)" and "I n"
  shows "I n'"
  using assms fd_writable_keeps [OF K(1)]
  by (auto simp: select_fd_def FD_ISSET_def FD_SET_def Let_def case_prod_unfold bind_eq_Some_conv
      dest: fd_readable_keeps split: if_splits option.splits)

lemma select_scan_keeps:
  "select_scan cfg P R S rd_in wr_in fds acc n = Some (acc', n') \<Longrightarrow> keeps P R I \<Longrightarrow> (\<And>n. I n \<Longrightarrow> I (bad_access n)) \<Longrightarrow> I n \<Longrightarrow> I n'"
proof (induction fds arbitrary: acc n)
  case (Cons fd fds)
  from Cons.prems(1) obtain acc1 n1 where s: "select_fd cfg P R S rd_in wr_in fd acc n = Some (acc1, n1)"
    "select_scan cfg P R S rd_in wr_in fds acc1 n1 = Some (acc', n')"
    by (auto simp: bind_eq_Some_conv)
  show ?case by (rule Cons.IH [OF s(2) Cons.prems(2,3) select_fd_keeps [OF s(1) Cons.prems(2-4)]])
qed simp

lemma select_loop_keeps:
  assumes "select_loop cfg P R S rd_in wr_in fds D n = Some r" and K: "keeps P R I" "\<And>n. I n \<Longrightarrow> I (bad_access n)" and "I n"
  shows "I (snd r)"
proof -
  have "Q ((((((((cfg, P), R), S), rd_in), wr_in), fds), D), n) r"
    if Q: "Q = (\<lambda>((((((((cfg, P), R), S), rd_in), wr_in), fds), D), n) r. keeps P R I \<longrightarrow> I n \<longrightarrow> I (snd r))" for Q
  proof (rule select_loop.raw_induct [OF _ assms(1)], goal_cases)
    case (1 loop cfg P R S rd_in wr_in fds D n r)
    show ?case unfolding Q prod.case
    proof (intro impI)
      assume k: "keeps P R I" and n: "I n"
      from 1(2) obtain acc n1 where s: "select_scan cfg P R S rd_in wr_in fds (0, {}, {}) n = Some (acc, n1)"
        by (auto simp: bind_eq_Some_conv)
      have n1: "I n1" by (rule select_scan_keeps [OF s k K(2) n])
      have IH: "loop cfg P R S rd_in wr_in fds D m = Some r \<Longrightarrow> I m \<Longrightarrow> I (snd r)" for m
        using 1(1) [of cfg P R S rd_in wr_in fds D m r] k unfolding Q by simp
      show "I (snd r)"
        using 1(2) n1 keeps_tick [OF keeps_D(1) [OF k] n1] IH [OF _ keeps_delay [OF keeps_D(1) [OF k] n1]] IH [OF _ keeps_delay [OF keeps_D(1) [OF k] keeps_tick [OF keeps_D(1) [OF k] n1]]]
        unfolding s by (auto simp: case_prod_unfold Let_def split: if_splits)
    qed
  qed
  with assms show ?thesis by simp
qed

lemma bad_access_fault [simp]: "heap_fault (ext (bad_access n))"
  by (simp add: bad_access_def)

lemma select_loop_after_scan:
  assumes "select_loop cfg P R S rd_in wr_in fds D n = Some (acc, n')" and "select_scan cfg P R S rd_in wr_in fds (0, {}, {}) n = Some (acc1, n2)"
    and K: "keeps P R I" "\<And>n. I n \<Longrightarrow> I (bad_access n)" and "I n2"
  shows "I n'"
proof -
  note t = keeps_tick [OF keeps_D(1) [OF K(1)] \<open>I n2\<close>]
  have IH: "select_loop cfg P R S rd_in wr_in fds D m = Some (acc, n') \<Longrightarrow> I m \<Longrightarrow> I n'" for m
    using select_loop_keeps [OF _ K, where r = "(acc, n')"] by simp
  show ?thesis
    using assms(1) \<open>I n2\<close> t IH [OF _ keeps_delay [OF keeps_D(1) [OF K(1)] \<open>I n2\<close>]] IH [OF _ keeps_delay [OF keeps_D(1) [OF K(1)] t]]
    by (subst (asm) select_loop.simps) (auto simp: assms(2) case_prod_unfold Let_def split: if_splits)
qed

lemma select_scan_outside:
  "select_scan cfg P R S rd_in wr_in fds acc n = Some (acc', n') \<Longrightarrow> keeps P R (\<lambda>n. heap_fault (ext n)) \<Longrightarrow>
     keeps P R (fd_is_socket cfg fd) \<Longrightarrow> fd_is_socket cfg fd n \<Longrightarrow> \<not> in_fd_set cfg fd \<Longrightarrow> fd \<in> set fds \<Longrightarrow> heap_fault (ext n')"
proof (induction fds arbitrary: acc n)
  case (Cons fd' fds)
  from Cons.prems(1) obtain acc1 n1 where s: "select_fd cfg P R S rd_in wr_in fd' acc n = Some (acc1, n1)"
    "select_scan cfg P R S rd_in wr_in fds acc1 n1 = Some (acc', n')"
    by (auto simp: bind_eq_Some_conv)
  show ?case
  proof (cases "fd' = fd")
    case True
    obtain e where e: "fd_get cfg fd n = Some e" using Cons.prems(4) by (auto simp: fd_is_socket_get)
    have "heap_fault (ext n1)"
      using s(1) e Cons.prems(4,5) unfolding True
      by (auto simp: select_fd_def FD_ISSET_def FD_SET_def Let_def case_prod_unfold split: if_splits)
    then show ?thesis using select_scan_keeps [OF s(2) Cons.prems(2)] by simp
  next
    case False
    have "fd_is_socket cfg fd n1"
      by (rule select_fd_keeps [OF s(1) Cons.prems(3) _ Cons.prems(4)]) (simp add: fd_is_socket_def bad_access_def entry_def)
    then show ?thesis using Cons.IH [OF s(2) Cons.prems(2,3)] Cons.prems(5,6) False by simp
  qed
qed simp

text \<open>C33: Descriptors beyond \<open>FD_SETSIZE\<close>. The range of descriptors is not tied to the size of an
  \<open>fd_set\<close>: when a socket has a descriptor of at least \<open>FD_SETSIZE\<close> and \<open>select\<close> is called with an
  \<open>nfds\<close> above it, the scan accesses memory outside the sets. With the default table of 32
  entries, an offset of 54 and 64 bits in an \<open>fd_set\<close> this is so from the eleventh socket on. The
  hypotheses on \<open>keeps\<close>: the other tasks do not close the socket, and a fault is not forgotten.\<close>

theorem select_outside_fd_set:
  assumes fd: "fd_is_socket cfg fd n" "int (FD_SETSIZE cfg) \<le> fd" "fd < nfds"
    and K: "keeps P R (\<lambda>n. heap_fault (ext n))" "keeps P R (fd_is_socket cfg fd)"
    and ret: "lwip_select cfg P R S nfds rd wr ex to n = Some (r, n')"
  shows "heap_fault (ext n')"
proof -
  let ?ri = "case rd of None \<Rightarrow> {} | Some s \<Rightarrow> s" and ?wi = "case wr of None \<Rightarrow> {} | Some s \<Rightarrow> s"
  let ?fds = "map int [0..<nat nfds]"
  obtain D n1 where D: "(case to of None \<Rightarrow> (portMAX_DELAY, n)
      | Some tv \<Rightarrow> (let (now, n') = tick_count P n in (now + pdMS_TO_TICKS P (uint (select_ms tv)), n'))) = (D, n1)" by force
  have n1: "fd_is_socket cfg fd n1" using D fd(1) keeps_tick [OF keeps_D(1) [OF K(2)] fd(1)] by (auto simp: case_prod_unfold Let_def split: option.splits)
  have "map_option (\<lambda>((ready, rd', wr'), n2).
      ((ready, map_option (\<lambda>_. rd') rd, map_option (\<lambda>_. wr') wr, map_option (\<lambda>_. {}) ex), n2))
    (select_loop cfg P R S ?ri ?wi ?fds D n1) = Some (r, n')"
    using ret unfolding lwip_select_def D unfolding Let_def prod.case .
  then obtain acc where l: "select_loop cfg P R S ?ri ?wi ?fds D n1 = Some (acc, n')"
    by (cases "select_loop cfg P R S ?ri ?wi ?fds D n1") auto
  then obtain acc1 n2 where s: "select_scan cfg P R S ?ri ?wi ?fds (0, {}, {}) n1 = Some (acc1, n2)"
    by (subst (asm) select_loop.simps) (auto simp: bind_eq_Some_conv)
  have "fd = int (nat fd)" "nat fd \<in> set [0..<nat nfds]" using fd(2,3) by auto
  then have "fd \<in> set ?fds" unfolding set_map by (rule image_eqI)
  then have n2: "heap_fault (ext n2)"
    using select_scan_outside [OF s K n1] fd(2) by (simp add: in_fd_set_def)
  show ?thesis by (rule select_loop_after_scan [OF l s K(1) _ n2]) simp
qed

definition ref_wide_cfg :: compat_config where
  "ref_wide_cfg = ref_cfg\<lparr>MAX_FDS := 32\<rparr>"

definition ref_wide :: "(ring, u32, ref_stack, nat) cnet" where
  "ref_wide = upd_entry 10 (\<lambda>f. f\<lparr>kind := FD_TCP\<rparr>) ((net_boot 2 (compat_boot ref_wide_cfg 0))\<lparr>lock_created := True\<rparr>)"

lemma ref_keeps: "(\<And>n n' :: (ring, u32, 'c, nat) cnet. s_table (ext n') = s_table (ext n) \<Longrightarrow> heap_fault (ext n') = heap_fault (ext n) \<Longrightarrow> I n \<Longrightarrow> I n')
    \<Longrightarrow> keeps ref_cplatform ref_crtos I"
  by (simp add: keeps_def keeps_env_def tick_count_def smoltcp_glue_rand32_def ref_cplatform_def ref_crtos_def tick_on_def set_handle_def lock_defs)

theorem select_outside_fd_set_witness:
  "\<exists>r n'. lwip_select ref_wide_cfg ref_cplatform ref_crtos ref_smoltcp 65 (Some {64}) None None (Some (1, 0)) ref_wide = Some (r, n')
     \<and> heap_fault (ext n')"
proof -
  have sk: "fd_is_socket ref_wide_cfg 64 ref_wide"
    by (simp add: fd_is_socket_def fd_offset_def ref_wide_cfg_def ref_cfg_def ref_wide_def entry_def upd_entry_def net_boot_def compat_boot_def)
  have sz: "int (FD_SETSIZE ref_wide_cfg) \<le> 64" by (simp add: ref_wide_cfg_def ref_cfg_def)
  have "cenv (ext ref_wide) = 0" by (simp add: ref_wide_def upd_entry_def net_boot_def compat_boot_def)
  then have "(cenv (ext ref_wide) div 1 + unat (pdMS_TO_TICKS ref_cplatform (uint (select_ms (1, 0)))) + 2) * 1 + 1 + nat 65 * (1 + longest_wait ref_cplatform 1 1) < 2 ^ 32 * 1"
    unfolding ref_longest_wait by (simp add: ref_cplatform_def select_ms_def)
  from ref_sclock.select_time [OF this] obtain r n' where
    r: "lwip_select ref_wide_cfg ref_cplatform ref_crtos ref_smoltcp 65 (Some {64}) None None (Some (1, 0)) ref_wide = Some (r, n')"
    by (metis surj_pair)
  have k1: "keeps ref_cplatform ref_crtos (\<lambda>n :: (ring, u32, ref_stack, nat) cnet. heap_fault (ext n))"
    by (rule ref_keeps) simp
  have k2: "keeps ref_cplatform ref_crtos (fd_is_socket ref_wide_cfg 64 :: (ring, u32, ref_stack, nat) cnet \<Rightarrow> bool)"
    by (rule ref_keeps) (simp add: fd_is_socket_def entry_def)
  from select_outside_fd_set [OF sk sz _ k1 k2 r] r show ?thesis by (simp del: split_paired_Ex)
qed

end
