(* ===== verification/Dns_Resolve.thy ===== *)
theory Dns_Resolve
  imports Net_Sock
begin

text \<open>
  The resolver of the Rust glue (\<open>dns.rs\<close>, \<open>smoltcp_resolve\<close>): a dotted quad is converted on the
  spot; for any other name a query is sent from a temporary UDP socket and smoltcp is polled in
  a loop until an answer arrives or the time is over. The loop never sleeps; what the other
  tasks do when they preempt it between two rounds is the argument \<open>others\<close>.

  Building the temporary socket is a sequence of calls of the crate on a socket that is not
  yet in the set (\<open>udp::Socket::new\<close>, \<open>bind\<close>, \<open>send_slice\<close>, then \<open>SocketSet::add\<close>); it is the
  argument \<open>Q\<close>, which gives \<open>None\<close> when \<open>bind\<close> or \<open>send_slice\<close> fails.
\<close>

section \<open>Strings of the Rust library\<close>

text \<open>\<open>str::from_utf8\<close>: the well-formed byte sequences.\<close>

definition utf8_cont :: "nat \<Rightarrow> bool" where
  "utf8_cont b \<longleftrightarrow> 0x80 \<le> b \<and> b \<le> 0xBF"

fun utf8_ok :: "nat list \<Rightarrow> bool" where
  "utf8_ok [] = True"
| "utf8_ok (b # bs) =
     (if b < 0x80 then utf8_ok bs
      else if 0xC2 \<le> b \<and> b \<le> 0xDF then (case bs of b1 # r \<Rightarrow> utf8_cont b1 \<and> utf8_ok r | _ \<Rightarrow> False)
      else if 0xE0 \<le> b \<and> b \<le> 0xEF
      then (case bs of b1 # b2 # r \<Rightarrow>
              utf8_cont b1 \<and> (b = 0xE0 \<longrightarrow> 0xA0 \<le> b1) \<and> (b = 0xED \<longrightarrow> b1 \<le> 0x9F) \<and> utf8_cont b2 \<and> utf8_ok r
            | _ \<Rightarrow> False)
      else if 0xF0 \<le> b \<and> b \<le> 0xF4
      then (case bs of b1 # b2 # b3 # r \<Rightarrow>
              utf8_cont b1 \<and> (b = 0xF0 \<longrightarrow> 0x90 \<le> b1) \<and> (b = 0xF4 \<longrightarrow> b1 \<le> 0x8F) \<and> utf8_cont b2 \<and> utf8_cont b3 \<and> utf8_ok r
            | _ \<Rightarrow> False)
      else False)"

text \<open>\<open>str::parse::<core::net::Ipv4Addr>\<close>: four decimal parts of at most three digits, none with a
  leading zero.\<close>

definition quad_part :: "string \<Rightarrow> u8 option" where
  "quad_part s =
     (if s \<noteq> [] \<and> length s \<le> 3 \<and> list_all is_digit s \<and> (length s > 1 \<longrightarrow> hd s \<noteq> CHR ''0'')
      then map_option word_of_nat (parse_digits 0 s) else None)"

definition ipv4addr_parse :: "string \<Rightarrow> ipv4_address option" where
  "ipv4addr_parse s =
     (case map quad_part (split_dot s) of [Some a, Some b, Some c, Some d] \<Rightarrow> Some (from_octets a b c d) | _ \<Rightarrow> None)"

section \<open>The resolver\<close>

definition upd_stack :: "nat \<Rightarrow> ('c \<Rightarrow> 'c) \<Rightarrow> ('q, 'g, 'c, 'e) net \<Rightarrow> ('q, 'g, 'c, 'e) net" where
  "upd_stack i f n = set_handle i (map_option (\<lambda>ctx. ctx\<lparr>ctx_stack := f (ctx_stack ctx)\<rparr>) (smoltcp_handle (iface i n))) n"

text \<open>\<open>ctx.iface.poll(now(), &mut ctx.dev, &mut ctx.sockets)\<close>: unlike \<open>smoltcp_iface_poll\<close> it does
  not look at the DHCP socket.\<close>

definition resolve_poll ::
  "('q, 'g, 'e) platform \<Rightarrow> 'c smoltcp \<Rightarrow> nat \<Rightarrow> ('q, 'g, 'c, 'e) net \<Rightarrow> ('q, 'g, 'c, 'e) net option" where
  "resolve_poll P S i n =
     (case smoltcp_handle (iface i n) of None \<Rightarrow> None
      | Some ctx \<Rightarrow>
          (let (t, n1) = smoltcp_glue_now_us P (core_call n)
           in map_option (\<lambda>(c, d, m, n2). set_handle i (Some (ctx\<lparr>ctx_stack := c, ctx_dev := d\<rparr>)) (n2\<lparr>tx_free_mask := m\<rparr>))
                (run_device (smoltcp_glue_tx_cb P) (sm_poll S t (ctx_stack ctx)) (ctx_dev ctx) (tx_free_mask n1) n1)))"

definition resolve_recv ::
  "'c smoltcp \<Rightarrow> nat \<Rightarrow> nat \<Rightarrow> ('q, 'g, 'c, 'e) net \<Rightarrow> u8 list option \<times> ('q, 'g, 'c, 'e) net" where
  "resolve_recv S i sh n =
     (case smoltcp_handle (iface i n) of None \<Rightarrow> (None, n)
      | Some ctx \<Rightarrow> (let (r, c) = sm_udp_recv S sh 512 (ctx_stack ctx)
                     in (map_option fst r, set_handle i (Some ((get_mut S Udp sh ctx)\<lparr>ctx_stack := c\<rparr>)) n)))"

partial_function (option) resolve_loop ::
  "('q, 'g, 'e) platform \<Rightarrow> 'c smoltcp \<Rightarrow> (('q, 'g, 'c, 'e) net \<Rightarrow> ('q, 'g, 'c, 'e) net) \<Rightarrow> nat \<Rightarrow> nat \<Rightarrow> nat \<Rightarrow> int
     \<Rightarrow> ('q, 'g, 'c, 'e) net \<Rightarrow> (ipv4_address option \<times> ('q, 'g, 'c, 'e) net) option" where
  "resolve_loop P S others i sh qid deadline n =
     (case resolve_poll P S i n of None \<Rightarrow> None
      | Some n1 \<Rightarrow>
          (let (r, n2) = resolve_recv S i sh n1;
               ans = (case r of None \<Rightarrow> NoAnswer | Some pkt \<Rightarrow> parse_a_response pkt qid)
           in case ans of Panic \<Rightarrow> None
              | Answer a \<Rightarrow> Some (Some a, n2)
              | NoAnswer \<Rightarrow>
                  (let (t, n3) = smoltcp_glue_now_us P n2
                   in if t \<ge> deadline then Some (None, n3)
                      else resolve_loop P S others i sh qid deadline (others n3))))"

text \<open>The result is the return code and the address stored through the out pointer.\<close>

definition smoltcp_resolve ::
  "('q, 'g, 'e) platform \<Rightarrow> 'c smoltcp \<Rightarrow> (u16 \<Rightarrow> u8 list \<Rightarrow> ipv4_address \<Rightarrow> u16 \<Rightarrow> 'c \<Rightarrow> (nat \<times> 'c) option)
     \<Rightarrow> (('q, 'g, 'c, 'e) net \<Rightarrow> ('q, 'g, 'c, 'e) net) \<Rightarrow> nat \<Rightarrow> string option \<Rightarrow> u32 \<Rightarrow> u32
     \<Rightarrow> ('q, 'g, 'c, 'e) net \<Rightarrow> ((int \<times> u32 option) \<times> ('q, 'g, 'c, 'e) net) option" where
  "smoltcp_resolve P S Q others i name server_be timeout_ms n =
     (case (smoltcp_handle (iface i n), name) of
        (Some ctx, Some cs) \<Rightarrow>
          if \<not> utf8_ok (map of_char cs) then Some ((-1, None), n)
          else (case ipv4addr_parse cs of
              Some a \<Rightarrow> Some ((0, Some (ipv4_to_be a)), n)
            | None \<Rightarrow>
                (let (r1, n1) = smoltcp_glue_rand32 P (core_call n); qid = (ucast (r1 AND 0xFFFF) :: u16)
                 in case dns_query qid (map (map of_char) (split_dot cs)) of None \<Rightarrow> Some ((-1, None), n1)
                    | Some query \<Rightarrow>
                        (let (r2, n2) = smoltcp_glue_rand32 P n1; lport = 49152 + (ucast (r2 AND 0x3FFF) :: u16)
                         in case Q lport query (ipv4_from_be server_be) 53 (ctx_stack ctx) of None \<Rightarrow> Some ((-1, None), n2)
                            | Some (sh, c) \<Rightarrow>
                                (let (t, n3) = smoltcp_glue_now_us P (upd_stack i (\<lambda>_. c) n2)
                                 in map_option (\<lambda>(res, n4).
                                        (case res of Some a \<Rightarrow> (0, Some (ipv4_to_be a)) | None \<Rightarrow> (-1, None), upd_stack i (sm_remove S sh) n4))
                                      (resolve_loop P S others i sh (unat qid) (t + uint timeout_ms * 1000) n3)))))
      | _ \<Rightarrow> Some ((-1, None), n))"

end
