(* ===== verification/Netdb.thy ===== *)
theory Netdb
  imports Dns_Resolve Sock_Wrap
begin

text \<open>
  Name resolution and address conversion of the shim (\<open>netdb_wrap.c\<close>). The chain of results of
  \<open>getaddrinfo\<close> is a list of its nodes; the static result of \<open>gethostbyname\<close> is returned by
  value. The heap is the environment's: an allocation may fail, a block that is given back is
  reported to it.
\<close>

record netdb_config =
  NETSTACK_DNS_PRIMARY :: string
  LWIP_COMPAT_DNS_TIMEOUT_MS :: u32

datatype eai = EAI_OK | EAI_FAIL | EAI_AGAIN | EAI_NONAME | EAI_MEMORY

record addrinfo =
  ai_family :: int
  ai_socktype :: u32
  ai_protocol :: int
  ai_addrlen :: nat
  ai_addr :: sockaddr_in

record hostent =
  h_name :: string
  h_addrtype :: int
  h_length :: nat
  h_addr :: u32

text \<open>The interface whose context is used, if it has one.\<close>

definition pick_iface :: "compat_config \<Rightarrow> 'c smoltcp \<Rightarrow> ('q, 'g, 'c, 'x) cnet \<Rightarrow> nat option \<times> ('q, 'g, 'c, 'x) cnet" where
  "pick_iface cfg S n =
     (let (i, n1) = fd_default_iface cfg S n
      in (if net_stack_smoltcp_handle i n1 = None then None else Some i, n1))"

definition dns_server_be :: "netdb_config \<Rightarrow> u32" where
  "dns_server_be nd = (case smoltcp_parse_ipv4 (Some (NETSTACK_DNS_PRIMARY nd)) of None \<Rightarrow> 0 | Some be \<Rightarrow> be)"

text \<open>\<open>atoi\<close>: blanks, an optional sign, then digits up to the first other character.\<close>

fun atoi_digits :: "int \<Rightarrow> string \<Rightarrow> int" where
  "atoi_digits acc [] = acc"
| "atoi_digits acc (c # cs) = (if is_digit c then atoi_digits (acc * 10 + (of_char c - 48)) cs else acc)"

definition is_space :: "char \<Rightarrow> bool" where
  "is_space c \<longleftrightarrow> (of_char c :: nat) = 32 \<or> 9 \<le> (of_char c :: nat) \<and> (of_char c :: nat) \<le> 13"

definition atoi :: "string \<Rightarrow> int" where
  "atoi s =
     (case dropWhile is_space s of [] \<Rightarrow> 0
      | c # cs \<Rightarrow>
          if c = CHR ''-'' then - atoi_digits 0 cs
          else if c = CHR ''+'' then atoi_digits 0 cs
          else atoi_digits 0 (c # cs))"

text \<open>\<open>hints\<close> is the requested socket type, if hints were given; \<open>out\<close> tells whether the caller
  passed a place for the result.\<close>

definition lwip_getaddrinfo ::
  "compat_config \<Rightarrow> netdb_config \<Rightarrow> ('q, 'g, ('q, 'g, 'x) compat) platform \<Rightarrow> ('q, 'g, 'x) libc \<Rightarrow> 'c smoltcp
     \<Rightarrow> (u16 \<Rightarrow> u8 list \<Rightarrow> ipv4_address \<Rightarrow> u16 \<Rightarrow> 'c \<Rightarrow> (nat \<times> 'c) option) \<Rightarrow> (('q, 'g, 'c, 'x) cnet \<Rightarrow> ('q, 'g, 'c, 'x) cnet)
     \<Rightarrow> string option \<Rightarrow> string option \<Rightarrow> u32 option \<Rightarrow> bool \<Rightarrow> ('q, 'g, 'c, 'x) cnet
     \<Rightarrow> ((eai \<times> addrinfo list) \<times> ('q, 'g, 'c, 'x) cnet) option" where
  "lwip_getaddrinfo cfg nd P K S Q others node service hints out n =
     (if node = None \<or> \<not> out then Some ((EAI_FAIL, []), n)
      else
        (case pick_iface cfg S n of
           (None, n1) \<Rightarrow> Some ((EAI_AGAIN, []), n1)
         | (Some i, n1) \<Rightarrow>
             Option.bind (smoltcp_resolve P S Q others i node (dns_server_be nd) (LWIP_COMPAT_DNS_TIMEOUT_MS nd) n1)
               (\<lambda>((rc, addr), n2).
                  if rc \<noteq> 0 then Some ((EAI_NONAME, []), n2)
                  else
                    let port = (case service of None \<Rightarrow> 0 | Some s \<Rightarrow> (word_of_int (atoi s) :: u16));
                        (ok1, n3) = env_call (malloc K 32) n2;
                        (ok2, n4) = env_call (malloc K sizeof_sockaddr_in) n3
                    in if \<not> ok1 \<or> \<not> ok2
                       then Some ((EAI_MEMORY, []),
                              (if ok2 then free_mem K else id) ((if ok1 then free_mem K else id) n4))
                       else Some ((EAI_OK,
                              [\<lparr>ai_family = AF_INET cfg, ai_socktype = (case hints of Some t \<Rightarrow> t | None \<Rightarrow> SOCK_STREAM cfg),
                                ai_protocol = 0, ai_addrlen = sizeof_sockaddr_in,
                                ai_addr = \<lparr>sin_family = AF_INET cfg, sin_port = ntohs port, s_addr = the addr\<rparr>\<rparr>]), n4))))"

text \<open>Two blocks are given back per node.\<close>

fun lwip_freeaddrinfo :: "('q, 'g, 'x) libc \<Rightarrow> addrinfo list \<Rightarrow> ('q, 'g, 'c, 'x) cnet \<Rightarrow> ('q, 'g, 'c, 'x) cnet" where
  "lwip_freeaddrinfo K [] n = n"
| "lwip_freeaddrinfo K (ai # res) n = lwip_freeaddrinfo K res (free_mem K (free_mem K n))"

definition lwip_gethostbyname ::
  "compat_config \<Rightarrow> netdb_config \<Rightarrow> ('q, 'g, ('q, 'g, 'x) compat) platform \<Rightarrow> 'c smoltcp
     \<Rightarrow> (u16 \<Rightarrow> u8 list \<Rightarrow> ipv4_address \<Rightarrow> u16 \<Rightarrow> 'c \<Rightarrow> (nat \<times> 'c) option) \<Rightarrow> (('q, 'g, 'c, 'x) cnet \<Rightarrow> ('q, 'g, 'c, 'x) cnet)
     \<Rightarrow> string option \<Rightarrow> ('q, 'g, 'c, 'x) cnet \<Rightarrow> (hostent option \<times> ('q, 'g, 'c, 'x) cnet) option" where
  "lwip_gethostbyname cfg nd P S Q others name n =
     (case pick_iface cfg S n of
        (None, n1) \<Rightarrow> Some (None, n1)
      | (Some i, n1) \<Rightarrow>
          map_option (\<lambda>((rc, addr), n2).
              (if rc \<noteq> 0 then None
               else Some \<lparr>h_name = take 63 (the name), h_addrtype = AF_INET cfg, h_length = 4, h_addr = the addr\<rparr>, n2))
            (smoltcp_resolve P S Q others i name (dns_server_be nd) (LWIP_COMPAT_DNS_TIMEOUT_MS nd) n1))"

definition lwip_inet_pton :: "compat_config \<Rightarrow> int \<Rightarrow> string \<Rightarrow> int \<times> u32 option" where
  "lwip_inet_pton cfg af src =
     (if af \<noteq> AF_INET cfg then (-1, None)
      else case smoltcp_parse_ipv4 (Some src) of None \<Rightarrow> (0, None) | Some be \<Rightarrow> (1, Some be))"

text \<open>\<open>snprintf(dst, size, "%u.%u.%u.%u", b[0], b[1], b[2], b[3])\<close> over the bytes of \<open>src\<close> in memory
  order; sixteen bytes are always enough.\<close>

definition lwip_inet_ntop :: "compat_config \<Rightarrow> int \<Rightarrow> u32 \<Rightarrow> nat \<Rightarrow> string option" where
  "lwip_inet_ntop cfg af src sz =
     (if af \<noteq> AF_INET cfg \<or> sz < 16 then None
      else Some (dotted (le_byte src 0) (le_byte src 1) (le_byte src 2) (le_byte src 3)))"

end
