(* ===== verification/Netdb_Props.thy ===== *)
theory Netdb_Props
  imports Netdb Select_Props
begin

text \<open>
  What the resolver and the address conversions do: numeric addresses, the end of the polling
  loop, and the lock the resolver does not take.
\<close>

section \<open>Numeric addresses\<close>

lemma quad_part_show: "quad_part (show_u8 w) = Some w"
proof -
  have "parse_digits 0 (show_u8 w) = Some (unat w)"
    using u8_lt [of w] by (cases w rule: show_u8_cases) (simp_all add: parse_digits_digit del: parse_digits.simps(2))
  moreover have "list_all is_digit (show_u8 w) \<and> show_u8 w \<noteq> [] \<and> length (show_u8 w) \<le> 3"
    by (cases w rule: show_u8_cases) (simp_all add: digit_props)
  moreover have "hd (show_u8 w) \<noteq> CHR ''0''" if "length (show_u8 w) > 1"
  proof -
    have d: "digit x \<noteq> CHR ''0''" if "0 < x" "x < 10" for x using digit_props(1) [OF that(2)] that(1) by auto
    have "unat w div 100 < 10" using u8_lt [of w] by (simp add: less_mult_imp_div_less)
    then show ?thesis
      using that d [of "unat w div 10"] d [of "unat w div 100"]
      by (auto simp: show_u8_def Let_def div_greater_zero_iff split: if_splits)
  qed
  ultimately show ?thesis by (simp add: quad_part_def)
qed

lemma ipv4addr_parse_dotted: "ipv4addr_parse (dotted a b c d) = Some (from_octets a b c d)"
  by (simp add: ipv4addr_parse_def split_dot_dotted quad_part_show)

lemma utf8_ok_ascii: "list_all (\<lambda>b. b < 0x80) bs \<Longrightarrow> utf8_ok bs"
  by (induction bs) simp_all

lemma utf8_ok_dotted: "utf8_ok (map of_char (dotted a b c d))"
proof -
  have "list_all (\<lambda>x. (of_char x :: nat) < 0x80) (show_u8 w)" for w
    by (cases w rule: show_u8_cases) (simp_all add: digit_props(1))
  then show ?thesis by (intro utf8_ok_ascii) (auto simp: list_all_iff dotted_def)
qed

lemma resolve_dotted:
  "smoltcp_handle (iface i n) \<noteq> None \<Longrightarrow>
     smoltcp_resolve P S Q others i (Some (dotted a b c d)) srv tmo n = Some ((0, Some (from_le_bytes a b c d)), n)"
  by (auto simp: smoltcp_resolve_def utf8_ok_dotted ipv4addr_parse_dotted ipv4_to_be_def from_octets_def)

lemma ntop_bytes: "lwip_inet_ntop cfg (AF_INET cfg) (from_le_bytes a b c d) 16 = Some (dotted a b c d)"
  by (simp add: lwip_inet_ntop_def from_le_bytes_def)

lemma ntop_pton: "lwip_inet_pton cfg (AF_INET cfg) (dotted a b c d) = (1, Some (from_le_bytes d c b a))"
  by (simp add: lwip_inet_pton_def parse_ipv4_dotted from_le_bytes_def)

text \<open>C26: Numeric host names. \<open>getaddrinfo\<close> on the dotted quad \<open>a.b.c.d\<close> succeeds at once, without
  touching the context or the network, with an address that \<open>inet_ntop\<close> prints as \<open>a.b.c.d\<close>. The
  conversion \<open>inet_pton\<close> goes through the other parser: the address it stores for the same
  string is printed as \<open>d.c.b.a\<close>, so the two do not agree on any address that is not symmetric.\<close>

theorem numeric_addresses:
  assumes iface: "pick_iface cfg S n = (Some i, n1)" and mem: "\<And>k x. fst (malloc K k x)"
  shows "\<exists>ai n'. lwip_getaddrinfo cfg nd P K S Q others (Some (dotted a b c d)) service hints True n = Some ((EAI_OK, [ai]), n')
      \<and> lwip_inet_ntop cfg (AF_INET cfg) (s_addr (ai_addr ai)) 16 = Some (dotted a b c d)
      \<and> s_ifaces n' = s_ifaces n1 \<and> unguarded n' = unguarded n1
    \<and> (\<exists>be. lwip_inet_pton cfg (AF_INET cfg) (dotted a b c d) = (1, Some be)
        \<and> lwip_inet_ntop cfg (AF_INET cfg) be 16 = Some (dotted d c b a)
        \<and> (be = s_addr (ai_addr ai) \<longleftrightarrow> a = d \<and> b = c))"
proof -
  have h: "smoltcp_handle (iface i n1) \<noteq> None"
    using iface by (auto simp: pick_iface_def net_stack_smoltcp_handle_def Let_def case_prod_unfold split: if_splits)
  have "from_le_bytes d c b a = from_le_bytes a b c d \<longleftrightarrow> a = d \<and> b = c"
    unfolding from_le_bytes_def by (metis le_byte_from_be_bytes)
  moreover have "\<exists>ai n'. lwip_getaddrinfo cfg nd P K S Q others (Some (dotted a b c d)) service hints True n = Some ((EAI_OK, [ai]), n')
      \<and> s_addr (ai_addr ai) = from_le_bytes a b c d \<and> s_ifaces n' = s_ifaces n1 \<and> unguarded n' = unguarded n1"
    by (simp add: lwip_getaddrinfo_def iface resolve_dotted [OF h] env_call_def Let_def case_prod_unfold mem upd_compat_def)
  ultimately show ?thesis by (metis ntop_bytes ntop_pton)
qed

section \<open>The resolver comes to an end\<close>

text \<open>The rounds of the polling loop with what the temporary socket received in each; there is another
  round only before the deadline. \<open>reply_of\<close> is what the loop makes of a packet.\<close>

inductive dns_rounds for P S others i sh D where
  one: "resolve_poll P S i n = Some n1 \<Longrightarrow> resolve_recv S i sh n1 = (r, m) \<Longrightarrow> dns_rounds P S others i sh D n [r] m"
| more: "resolve_poll P S i n = Some n1 \<Longrightarrow> resolve_recv S i sh n1 = (r, n2) \<Longrightarrow> smoltcp_glue_now_us P n2 = (t, n3) \<Longrightarrow> t < D
    \<Longrightarrow> dns_rounds P S others i sh D (others n3) rs m \<Longrightarrow> dns_rounds P S others i sh D n (r # rs) m"

definition reply_of :: "nat \<Rightarrow> u8 list option \<Rightarrow> dns_result" where
  "reply_of qid r = (case r of None \<Rightarrow> NoAnswer | Some pkt \<Rightarrow> parse_a_response pkt qid)"

lemma dns_rounds_ne: "dns_rounds P S others i sh D n rs m \<Longrightarrow> rs \<noteq> []"
  by (induction rule: dns_rounds.induct) simp_all

text \<open>What the loop relies on: a timer that runs while the other tasks do, and that neither
  transmitting nor asking for randomness turns back; the other tasks leave the context in place.\<close>

locale dns_clock =
  fixes P :: "('q, 'g, 'e) platform" and S :: "'c smoltcp" and others :: "('q, 'g, 'c, 'e) net \<Rightarrow> ('q, 'g, 'c, 'e) net"
    and clock :: "'e \<Rightarrow> int"
  assumes timer: "esp_timer_get_time P e = (clock e, e)"
    and send_time: "clock e \<le> clock (snd (esp_eth_transmit P eh f e))"
    and others_time: "clock (ext n) < clock (ext (others n))"
    and others_ctx: "smoltcp_handle (iface i n) \<noteq> None \<Longrightarrow> smoltcp_handle (iface i (others n)) \<noteq> None"
    and others_len: "length (s_ifaces (others n)) = length (s_ifaces n)"
    and fit: "frames_fit (sm_poll S t c)"
begin

definition ready :: "nat \<Rightarrow> int \<Rightarrow> ('q, 'g, 'c, 'e) net \<Rightarrow> bool" where
  "ready i t n \<longleftrightarrow> i < length (s_ifaces n) \<and> smoltcp_handle (iface i n) \<noteq> None \<and> t \<le> clock (ext n)"

lemma now_same: "smoltcp_glue_now_us P n = (clock (ext n), n)"
  by (simp add: smoltcp_glue_now_us_def timer)

lemma tx_cb_time:
  "t \<le> clock (ext n) \<and> length (s_ifaces n) = l \<Longrightarrow>
   t \<le> clock (ext (snd (smoltcp_glue_tx_cb P iid f n))) \<and> length (s_ifaces (snd (smoltcp_glue_tx_cb P iid f n))) = l"
proof -
  assume t: "t \<le> clock (ext n) \<and> length (s_ifaces n) = l"
  have "clock (ext n) \<le> clock (ext (snd (l2_transmit P tx f n)))" for tx
    using send_time by (cases tx) (simp add: eth_tx_def Let_def case_prod_unfold)
  then have "clock (ext n) \<le> clock (ext (snd (smoltcp_glue_tx_cb P iid f n)))"
    by (auto simp: smoltcp_glue_tx_cb_def Let_def upd_iface_def split: option.split prod.split esp_err.split) (metis snd_conv)+
  moreover have "length (s_ifaces (snd (smoltcp_glue_tx_cb P iid f n))) = length (s_ifaces n)"
    using tx_cb_tx_only [of n P iid f] unfolding tx_only_def by (metis length_map)
  ultimately show ?thesis using t by auto
qed

lemma resolve_poll_ready:
  assumes "ready i t n"
  shows "\<exists>n'. resolve_poll P S i n = Some n' \<and> ready i t n'"
proof -
  obtain ctx where ctx: "smoltcp_handle (iface i n) = Some ctx" using assms by (auto simp: ready_def)
  let ?n1 = "core_call n"
  have e: "ext ?n1 = ext n" "length (s_ifaces ?n1) = length (s_ifaces n)" by (simp_all add: core_call_def)
  obtain c d n2 where r: "run_device (smoltcp_glue_tx_cb P) (sm_poll S (clock (ext n)) (ctx_stack ctx)) (ctx_dev ctx) (tx_free_mask ?n1) ?n1
      = Some (c, d, tx_free_mask ?n1, n2)"
    using run_device_returns [OF fit] by metis
  have "t \<le> clock (ext n2) \<and> length (s_ifaces n2) = length (s_ifaces n)"
    by (rule run_device_inv [where Q = "\<lambda>w. t \<le> clock (ext w) \<and> length (s_ifaces w) = length (s_ifaces n)", OF tx_cb_time r])
      (use assms e in \<open>simp_all add: ready_def\<close>)
  then show ?thesis using assms ctx r e by (simp add: resolve_poll_def now_same ready_def)
qed

lemma resolve_recv_ready: "ready i t n \<Longrightarrow> ready i t (snd (resolve_recv S i sh n))"
  by (auto simp: ready_def resolve_recv_def Let_def case_prod_unfold split: option.split)

lemma resolve_loop_exact:
  "ready i t n \<Longrightarrow> \<exists>rs m. dns_rounds P S others i sh D n rs m \<and> (\<forall>r \<in> set (butlast rs). reply_of qid r = NoAnswer)
     \<and> resolve_loop P S others i sh qid D n = Some (case reply_of qid (last rs) of Answer a \<Rightarrow> Some a | _ \<Rightarrow> None, m)
     \<and> (reply_of qid (last rs) = NoAnswer \<longrightarrow> D \<le> clock (ext m))"
proof (induction "nat (D - t)" arbitrary: n t rule: less_induct)
  case less
  from resolve_poll_ready [OF less.prems] obtain n1 where p: "resolve_poll P S i n = Some n1" "ready i t n1" by blast
  obtain r n2 where r: "resolve_recv S i sh n1 = (r, n2)" by force
  have n2: "ready i t n2" using resolve_recv_ready [OF p(2), of sh] r by simp
  have np: "reply_of qid r \<noteq> Panic" using parse_a_response_total by (simp add: reply_of_def split: option.split)
  note loop = resolve_loop.simps [of P S others i sh qid D n, unfolded p(1) option.case r Let_def prod.case now_same, folded reply_of_def]
  show ?case
  proof (cases "reply_of qid r = NoAnswer \<and> clock (ext n2) < D")
    case True
    have "ready i (clock (ext n2) + 1) (others n2)"
      using n2 others_time [of n2] others_ctx [of i n2] others_len [of n2] by (simp add: ready_def)
    moreover have "nat (D - (clock (ext n2) + 1)) < nat (D - t)" using True n2 by (simp add: ready_def)
    ultimately obtain rs m where IH: "dns_rounds P S others i sh D (others n2) rs m" "\<forall>r \<in> set (butlast rs). reply_of qid r = NoAnswer"
      "resolve_loop P S others i sh qid D (others n2) = Some (case reply_of qid (last rs) of Answer a \<Rightarrow> Some a | _ \<Rightarrow> None, m)"
      "reply_of qid (last rs) = NoAnswer \<longrightarrow> D \<le> clock (ext m)"
      using less.hyps [of "clock (ext n2) + 1" "others n2"] by blast
    have "dns_rounds P S others i sh D n (r # rs) m" by (rule dns_rounds.more [OF p(1) r now_same _ IH(1)]) (use True in simp)
    with True IH dns_rounds_ne [OF IH(1)] loop show ?thesis by (intro exI [of _ "r # rs"] exI [of _ m]) simp
  next
    case False
    with dns_rounds.one [OF p(1) r] np loop show ?thesis
      by (intro exI [of _ "[r]"] exI [of _ n2]) (cases "reply_of qid r"; simp)
  qed
qed

lemma resolve_loop_returns: "ready i t n \<Longrightarrow> \<exists>r. resolve_loop P S others i sh qid D n = Some r"
  using resolve_loop_exact by blast

lemma resolve_exact:
  assumes "i < length (s_ifaces n)" and "smoltcp_handle (iface i n) = Some ctx"
    and "utf8_ok (map of_char cs)" and "ipv4addr_parse cs = None"
    and "smoltcp_glue_rand32 P (core_call n) = (r1, n1)" and "dns_query (ucast (r1 AND 0xFFFF)) (map (map of_char) (split_dot cs)) = Some query"
    and "smoltcp_glue_rand32 P n1 = (r2, n2)"
    and "Q (49152 + ucast (r2 AND 0x3FFF)) query (ipv4_from_be srv) 53 (ctx_stack ctx) = Some (sh, c)"
  shows "\<exists>rs m. dns_rounds P S others i sh (clock (ext n2) + uint tmo * 1000) (upd_stack i (\<lambda>_. c) n2) rs m
    \<and> (\<forall>r \<in> set (butlast rs). reply_of (unat (ucast (r1 AND 0xFFFF) :: u16)) r = NoAnswer)
    \<and> (reply_of (unat (ucast (r1 AND 0xFFFF) :: u16)) (last rs) = NoAnswer \<longrightarrow> clock (ext n2) + uint tmo * 1000 \<le> clock (ext m))
    \<and> smoltcp_resolve P S Q others i (Some cs) srv tmo n =
        Some (case reply_of (unat (ucast (r1 AND 0xFFFF) :: u16)) (last rs) of Answer a \<Rightarrow> (0, Some (ipv4_to_be a)) | _ \<Rightarrow> (-1, None),
              upd_stack i (sm_remove S sh) m)"
proof -
  let ?qid = "ucast (r1 AND 0xFFFF) :: u16"
  let ?m = "upd_stack i (\<lambda>_. c) n2"
  have f: "s_ifaces n1 = s_ifaces n" "s_ifaces n2 = s_ifaces n"
    using assms(5,7) by (auto simp: smoltcp_glue_rand32_def core_call_def Let_def split: prod.splits)
  have e: "ext ?m = ext n2" by (simp add: upd_stack_def)
  have "ready i (clock (ext n2)) ?m" using assms(1,2) f by (simp add: ready_def upd_stack_def set_handle_def upd_iface_def iface_def)
  from resolve_loop_exact [OF this, of sh "clock (ext n2) + uint tmo * 1000" "unat ?qid"] obtain rs m where
    R: "dns_rounds P S others i sh (clock (ext n2) + uint tmo * 1000) ?m rs m" "\<forall>r \<in> set (butlast rs). reply_of (unat ?qid) r = NoAnswer"
      "reply_of (unat ?qid) (last rs) = NoAnswer \<longrightarrow> clock (ext n2) + uint tmo * 1000 \<le> clock (ext m)"
    and L: "resolve_loop P S others i sh (unat ?qid) (clock (ext n2) + uint tmo * 1000) ?m =
        Some (case reply_of (unat ?qid) (last rs) of Answer a \<Rightarrow> Some a | _ \<Rightarrow> None, m)" by blast
  have "smoltcp_resolve P S Q others i (Some cs) srv tmo n =
      Some (case reply_of (unat ?qid) (last rs) of Answer a \<Rightarrow> (0, Some (ipv4_to_be a)) | _ \<Rightarrow> (-1, None), upd_stack i (sm_remove S sh) m)"
    using assms L by (simp add: smoltcp_resolve_def Let_def now_same e split: dns_result.split)
  with R show ?thesis by blast
qed

lemma resolve_returns:
  assumes "i < length (s_ifaces n)"
  shows "\<exists>r. smoltcp_resolve P S Q others i name srv tmo n = Some r"
proof -
  have "\<exists>r. resolve_loop P S others i sh qid (clock (ext (upd_stack i f m)) + k) (upd_stack i f m) = Some r"
    if "smoltcp_handle (iface i m) \<noteq> None" "length (s_ifaces m) = length (s_ifaces n)" for sh qid k f m
    by (rule resolve_loop_returns [where t = "clock (ext (upd_stack i f m))"]) (use assms that in \<open>simp add: ready_def upd_stack_def\<close>)
  then show ?thesis
    by (auto simp: smoltcp_resolve_def now_same smoltcp_glue_rand32_def Let_def case_prod_unfold core_call_def iface_def
        simp del: split_paired_Ex split: option.split)
qed

end

lemma ref_poll_fit: "frames_fit (sm_poll ref_smoltcp t c)"
  by (simp add: ref_smoltcp_def)

interpretation ref_dns: dns_clock ref_cplatform ref_smoltcp tick_on "\<lambda>e. int (cenv e)"
  by unfold_locales (simp_all add: ref_cplatform_def tick_on_def upd_compat_def iface_def ref_poll_fit)


definition ref_dns_open :: "u16 \<Rightarrow> u8 list \<Rightarrow> ipv4_address \<Rightarrow> u16 \<Rightarrow> ref_stack \<Rightarrow> (nat \<times> ref_stack) option" where
  "ref_dns_open lport query dst port c = Some (rs_add (fresh_sock\<lparr>rk_type := Udp, rk_port := lport\<rparr>) c)"

lemma ref_cnet_iface: "0 < length (s_ifaces ref_cnet)" "enabled (iface 0 ref_cnet)"
    "smoltcp_handle (iface 0 ref_cnet) = Some (ctx_new ref_smoltcp 0 [2, 0, 0, 0, 0, 1] 0)"
    "\<not> lock_held ref_cnet" "\<not> unguarded ref_cnet"
  by (simp_all add: ref_cnet_def net_boot_def upd_iface_def iface_def NET_IFACE_ETH_def NET_IFACE_MAX_def)


section \<open>The lock\<close>

lemma resolve_poll_unguarded:
  assumes "resolve_poll P S i n = Some n'"
  shows "unguarded n' = (unguarded n \<or> \<not> lock_held n)"
proof -
  obtain ctx where ctx: "smoltcp_handle (iface i n) = Some ctx" using assms by (auto simp: resolve_poll_def split: option.splits)
  obtain t n1 where t: "smoltcp_glue_now_us P (core_call n) = (t, n1)" by force
  then have n1: "unguarded n1 = (unguarded n \<or> \<not> lock_held n)"
    by (auto simp: smoltcp_glue_now_us_def core_call_def Let_def case_prod_unfold)
  from assms ctx t obtain c d m n2 where
    r: "run_device (smoltcp_glue_tx_cb P) (sm_poll S t (ctx_stack ctx)) (ctx_dev ctx) (tx_free_mask n1) n1 = Some (c, d, m, n2)"
    and n': "unguarded n' = unguarded n2"
    by (auto simp: resolve_poll_def)
  have "tx_only n1 n2" by (rule run_device_inv [where Q = "tx_only n1", OF _ r]) (auto intro: tx_only_trans [OF _ tx_cb_tx_only])
  then have "unguarded n2 = unguarded n1" by (rule tx_only_fields)
  with n' n1 show ?thesis by simp
qed

lemma resolve_loop_unguarded:
  assumes "resolve_loop P S others i sh qid D n = Some r" and "unguarded n" and "\<And>m. unguarded m \<Longrightarrow> unguarded (others m)"
  shows "unguarded (snd r)"
proof -
  have "Q (((((((P, S), others), i), sh), qid), D), n) r"
    if Q: "Q = (\<lambda>(((((((P, S), o'), i), sh), qid), D), n) r. o' = others \<longrightarrow> unguarded n \<longrightarrow> unguarded (snd r))" for Q
  proof (rule resolve_loop.raw_induct [OF _ assms(1)], goal_cases)
    case (1 loop P S o' i sh qid D n r)
    show ?case unfolding Q prod.case
    proof (intro impI)
      assume o: "o' = others" and n: "unguarded n"
      from 1(2) obtain n1 where p: "resolve_poll P S i n = Some n1" by (auto split: option.splits)
      obtain x n2 where x: "resolve_recv S i sh n1 = (x, n2)" by force
      have n2: "unguarded n2"
        using x resolve_poll_unguarded [OF p] n by (auto simp: resolve_recv_def Let_def case_prod_unfold split: option.splits)
      obtain t n3 where t: "smoltcp_glue_now_us P n2 = (t, n3)" by force
      have n3: "unguarded n3" using t n2 by (auto simp: smoltcp_glue_now_us_def Let_def case_prod_unfold)
      have IH: "loop P S others i sh qid D m = Some r \<Longrightarrow> unguarded m \<Longrightarrow> unguarded (snd r)" for m
        using 1(1) [of P S others i sh qid D m r] unfolding Q by simp
      show "unguarded (snd r)"
        using 1(2) n2 n3 IH [OF _ assms(3) [OF n3]] unfolding o
        by (auto simp: p x t Let_def split: dns_result.splits if_splits)
    qed
  qed
  with assms show ?thesis by simp
qed

lemma unguarded_frame:
  "unguarded (snd (smoltcp_glue_rand32 P n)) = unguarded n" "unguarded (snd (smoltcp_glue_now_us P n)) = unguarded n"
  "unguarded (upd_stack k f n) = unguarded n"
  "unguarded (free_mem K m) = unguarded m" "unguarded (snd (env_call g m)) = unguarded m"
  by (simp_all add: smoltcp_glue_rand32_def smoltcp_glue_now_us_def Let_def case_prod_unfold upd_stack_def
      free_mem_def env_call_def upd_compat_def)

text \<open>C31: \<open>getaddrinfo\<close> breaks the locking rule of the stack. For every name that is not a dotted
  quad the resolver works on the context of the interface, its sockets and its device while the
  mutex of the stack is free, and the poll task can be in the middle of the same structures.
  Every other call of the shim enters the core under the lock only.\<close>

theorem getaddrinfo_without_lock:
  assumes iface: "pick_iface cfg S n = (Some i, n1)" and free: "\<not> lock_held n1"
    and name: "utf8_ok (map of_char cs)" "ipv4addr_parse cs = None"
    and others: "\<And>m. unguarded m \<Longrightarrow> unguarded (others m)"
    and ret: "lwip_getaddrinfo cfg nd P K S Q others (Some cs) service hints True n = Some (r, n')"
  shows "unguarded n'"
proof -
  have h: "smoltcp_handle (iface i n1) \<noteq> None"
    using iface by (auto simp: pick_iface_def net_stack_smoltcp_handle_def Let_def case_prod_unfold split: if_splits)
  then obtain ctx where ctx: "smoltcp_handle (iface i n1) = Some ctx" by blast
  have c: "unguarded (core_call n1)" using free by (simp add: core_call_def)
  have R: "unguarded m'" if "smoltcp_resolve P S Q others i (Some cs) srv tmo n1 = Some (x, m')" for srv tmo x m'
    using that c name ctx others
    by (auto simp: smoltcp_resolve_def Let_def case_prod_unfold unguarded_frame split: option.splits dest!: resolve_loop_unguarded)
  show ?thesis
    using ret by (auto simp: lwip_getaddrinfo_def iface bind_eq_Some_conv Let_def case_prod_unfold unguarded_frame dest!: R split: if_splits)
qed

lemma ref_pick:
  obtains n1 where "pick_iface ref_cfg ref_smoltcp ref_cnet = (Some 0, n1)" "\<not> lock_held n1" "0 < length (s_ifaces n1)"
proof -
  obtain ip1 m1 where a: "net_stack_get_ipv4 ref_smoltcp 0 ref_cnet = (ip1, m1)" by force
  have m1: "\<not> lock_held m1" "s_ifaces m1 = s_ifaces ref_cnet"
    using a ref_cnet_iface by (auto simp: net_stack_get_ipv4_def iface_query_def NET_IFACE_MAX_def locked_call_def Let_def lock_defs
        set_handle_def upd_iface_def iface_def)
  have "ip1 = smoltcp_iface_get_ipv4 ref_smoltcp (smoltcp_handle (iface 0 ref_cnet))"
    using a ref_cnet_iface(2) locked_call_iface(2) [OF ref_cnet_iface(1), of "\<lambda>h. (smoltcp_iface_get_ipv4 ref_smoltcp h, h)"]
    by (simp add: net_stack_get_ipv4_def iface_query_def NET_IFACE_MAX_def)
  also have "\<dots> = 0"
    by (simp add: ref_cnet_iface(3) smoltcp_iface_get_ipv4_def ctx_new_def ref_smoltcp_def Let_def push_addr_def)
  finally have ip1: "ip1 = 0" .
  have "net_stack_get_ipv4 ref_smoltcp 1 m1 = (0, m1)"
    using m1(2) by (simp add: net_stack_get_ipv4_def iface_query_def iface_def)
      (simp add: ref_cnet_def net_boot_def upd_iface_def NET_IFACE_MAX_def NET_IFACE_ETH_def iface_boot_def)
  then have "fd_default_iface ref_cfg ref_smoltcp ref_cnet = (0, m1)"
    using a ip1 by (simp add: fd_default_iface_def ref_cfg_def NET_IFACE_ETH_def NET_IFACE_WIFI_def)
  moreover have "net_stack_smoltcp_handle 0 m1 \<noteq> None"
    using m1(2) ref_cnet_iface by (simp add: net_stack_smoltcp_handle_def NET_IFACE_MAX_def iface_def)
  ultimately have "pick_iface ref_cfg ref_smoltcp ref_cnet = (Some 0, m1)" by (simp add: pick_iface_def)
  then show ?thesis using that m1 ref_cnet_iface(1) by simp
qed

theorem getaddrinfo_without_lock_witness:
  "\<exists>r n'. lwip_getaddrinfo ref_cfg \<lparr>NETSTACK_DNS_PRIMARY = ''1.1.1.1'', LWIP_COMPAT_DNS_TIMEOUT_MS = 5000\<rparr> ref_cplatform ref_libc ref_smoltcp
       ref_dns_open tick_on (Some ''esp.io'') None None True ref_cnet = Some (r, n') \<and> unguarded n'"
proof -
  let ?nd = "\<lparr>NETSTACK_DNS_PRIMARY = ''1.1.1.1'', LWIP_COMPAT_DNS_TIMEOUT_MS = 5000\<rparr>"
  obtain n1 where p: "pick_iface ref_cfg ref_smoltcp ref_cnet = (Some 0, n1)" "\<not> lock_held n1" "0 < length (s_ifaces n1)" by (rule ref_pick)
  from ref_dns.resolve_returns [OF p(3)] obtain rc ad n2 where
    "smoltcp_resolve ref_cplatform ref_smoltcp ref_dns_open tick_on 0 (Some ''esp.io'') (dns_server_be ?nd) 5000 n1 = Some ((rc, ad), n2)"
    by (metis surj_pair)
  then have "lwip_getaddrinfo ref_cfg ?nd ref_cplatform ref_libc ref_smoltcp ref_dns_open tick_on (Some ''esp.io'') None None True ref_cnet \<noteq> None"
    by (simp add: lwip_getaddrinfo_def p(1) Let_def case_prod_unfold)
  then obtain r n' where ret: "lwip_getaddrinfo ref_cfg ?nd ref_cplatform ref_libc ref_smoltcp ref_dns_open tick_on (Some ''esp.io'') None None True ref_cnet = Some (r, n')"
    by (metis option.exhaust surj_pair)
  have "utf8_ok (map of_char ''esp.io'')" "ipv4addr_parse ''esp.io'' = None"
    by (simp_all add: ipv4addr_parse_def quad_part_def is_digit_def)
  from getaddrinfo_without_lock [OF p(1,2) this _ ret] ret show ?thesis
    by (simp add: tick_on_def upd_compat_def del: split_paired_Ex)
qed

theorem numeric_addresses_witness:
  "\<exists>ai n'. lwip_getaddrinfo ref_cfg \<lparr>NETSTACK_DNS_PRIMARY = ''1.1.1.1'', LWIP_COMPAT_DNS_TIMEOUT_MS = 5000\<rparr> ref_cplatform ref_libc ref_smoltcp
       ref_dns_open tick_on (Some (dotted 192 168 1 7)) None None True ref_cnet = Some ((EAI_OK, [ai]), n')
     \<and> lwip_inet_ntop ref_cfg 2 (s_addr (ai_addr ai)) 16 = Some (dotted 192 168 1 7)"
proof -
  obtain n1 where p: "pick_iface ref_cfg ref_smoltcp ref_cnet = (Some 0, n1)" by (rule ref_pick)
  have "fst (malloc ref_libc k x)" for k x by (simp add: ref_libc_def)
  moreover have "AF_INET ref_cfg = 2" by (simp add: ref_cfg_def)
  ultimately show ?thesis
    using numeric_addresses [OF p, of ref_libc "\<lparr>NETSTACK_DNS_PRIMARY = ''1.1.1.1'', LWIP_COMPAT_DNS_TIMEOUT_MS = 5000\<rparr>" ref_cplatform ref_dns_open tick_on 192 168 1 7 None None]
    by (metis (no_types, lifting))
qed

end
