(* ===== verification/Dns_Message.thy ===== *)
theory Dns_Message
  imports Glue_Wire
begin

text \<open>
  The response parser of the resolver (\<open>dns.rs\<close>, \<open>parse_a_response\<close>) against the message format of
  RFC 1035: a reference encoder of replies with any question, any list of resource records and
  anything behind them, and what the parser makes of them.
\<close>

section \<open>Messages\<close>

text \<open>The owner name of a record: a pointer, a list of labels, or labels that end in a pointer.\<close>

datatype dns_name = Pointer u8 u8 | Labels "u8 list list" | Partial "u8 list list" u8 u8

record dns_rr =
  rr_name :: dns_name
  rr_type :: u16
  rr_class :: u16
  rr_ttl :: "u8 list"
  rr_data :: "u8 list"

definition label_bytes :: "u8 list list \<Rightarrow> u8 list" where
  "label_bytes ls = concat (map (\<lambda>l. word_of_nat (length l) # l) ls)"

fun name_bytes :: "dns_name \<Rightarrow> u8 list" where
  "name_bytes (Pointer hi lo) = [hi, lo]"
| "name_bytes (Labels ls) = label_bytes ls @ [0]"
| "name_bytes (Partial ls hi lo) = label_bytes ls @ [hi, lo]"

definition rr_bytes :: "dns_rr \<Rightarrow> u8 list" where
  "rr_bytes r = name_bytes (rr_name r) @ u16_be (rr_type r) @ u16_be (rr_class r) @ rr_ttl r @ u16_be (word_of_nat (length (rr_data r))) @ rr_data r"

definition labels_wf :: "u8 list list \<Rightarrow> bool" where
  "labels_wf ls \<longleftrightarrow> (\<forall>l \<in> set ls. l \<noteq> [] \<and> length l \<le> 63)"

text \<open>The records with the owner names the parser knows.\<close>

definition rr_wf :: "dns_rr \<Rightarrow> bool" where
  "rr_wf r \<longleftrightarrow> (case rr_name r of Pointer hi lo \<Rightarrow> hi AND 0xC0 = 0xC0 | Labels ls \<Rightarrow> labels_wf ls | Partial ls hi lo \<Rightarrow> False)
     \<and> length (rr_ttl r) = 4 \<and> length (rr_data r) < 2 ^ 16"

definition rr_address :: "dns_rr \<Rightarrow> ipv4_address option" where
  "rr_address r = (if rr_type r = 1 then (case rr_data r of [a, b, c, d] \<Rightarrow> Some (from_octets a b c d) | _ \<Rightarrow> None) else None)"

text \<open>A reply; \<open>f0\<close> and \<open>f1\<close> are the flag bytes, \<open>cs\<close> the counts of the two sections behind the answers,
  which are the bytes \<open>rest\<close>.\<close>

definition dns_message :: "u16 \<Rightarrow> u8 \<Rightarrow> u8 \<Rightarrow> u8 list \<Rightarrow> u8 list \<Rightarrow> dns_rr list \<Rightarrow> u8 list \<Rightarrow> u8 list" where
  "dns_message rid f0 f1 cs question rrs rest =
     u16_be rid @ [f0, f1] @ [0, 1] @ u16_be (word_of_nat (length rrs)) @ cs @ question @ concat (map rr_bytes rrs) @ rest"

definition first_address :: "dns_rr list \<Rightarrow> dns_result" where
  "first_address rrs = (case List.map_filter rr_address rrs of [] \<Rightarrow> NoAnswer | a # as \<Rightarrow> Answer a)"

section \<open>Reading fields\<close>

lemma byte_at_append: "byte_at (pre @ b # rest) (length pre) = Some b"
  by (simp add: byte_at_def)

lemma u16_at_be: "u16_at (pre @ u16_be w @ rest) (length pre) = Some (unat w)"
proof -
  have "unat w div 256 < 256" using u16_lt [of w] by simp
  then have "unat (ucast (drop_bit 8 w) :: u8) * 256 + unat (ucast w :: u8) = unat w"
    by (simp add: unsigned_ucast_eq take_bit_eq_mod drop_bit_eq_div unat_div_distrib)
  then show ?thesis by (simp add: u16_at_def byte_at_def u16_be_def nth_append)
qed

lemma address_at_append: "address_at (pre @ a # b # c # d # rest) (length pre) = Answer (from_octets a b c d)"
  by (simp add: address_at_def byte_at_def nth_append)

lemma length_u16_be [simp]: "length (u16_be w) = 2"
  by (simp add: u16_be_def)

lemma unat_length [simp]: "length xs < 2 ^ 16 \<Longrightarrow> unat (word_of_nat (length xs) :: u16) = length xs"
  by (simp add: unat_of_nat)

lemma labels_Cons: "label_bytes (l # ls) = word_of_nat (length l) # l @ label_bytes ls"
  by (simp add: label_bytes_def)

lemma label_length:
  assumes "l \<noteq> []" and "length l \<le> 63"
  shows "unat (word_of_nat (length l) :: u8) = length l" and "(word_of_nat (length l) :: u8) \<noteq> 0"
proof -
  show u: "unat (word_of_nat (length l) :: u8) = length l" using assms by (simp add: unat_of_nat)
  then show "(word_of_nat (length l) :: u8) \<noteq> 0" using assms(1) by (metis length_0_conv unat_0)
qed

text \<open>The loop over an answer's name goes from label to label up to the byte behind the labels.\<close>

lemma skip_name_labels:
  "labels_wf ls \<Longrightarrow> skip_name (pre @ label_bytes ls @ rest) (length pre) = skip_name (pre @ label_bytes ls @ rest) (length pre + length (label_bytes ls))"
proof (induction ls arbitrary: pre)
  case Nil
  then show ?case by (simp add: label_bytes_def)
next
  case (Cons l ls)
  have l: "l \<noteq> []" "length l \<le> 63" "labels_wf ls" using Cons.prems by (auto simp: labels_wf_def)
  let ?pre = "pre @ word_of_nat (length l) # l"
  have eq: "pre @ label_bytes (l # ls) @ rest = ?pre @ label_bytes ls @ rest" by (simp add: labels_Cons)
  have "skip_name (pre @ label_bytes (l # ls) @ rest) (length pre) = skip_name (?pre @ label_bytes ls @ rest) (length ?pre)"
    by (subst skip_name.simps) (use label_length [OF l(1,2)] in \<open>simp add: labels_Cons\<close>)
  also have "\<dots> = skip_name (?pre @ label_bytes ls @ rest) (length ?pre + length (label_bytes ls))" by (rule Cons.IH [OF l(3)])
  finally show ?case unfolding eq by (simp add: labels_Cons add.assoc)
qed

lemma name_end:
  assumes "case nm of Pointer hi lo \<Rightarrow> hi AND 0xC0 = 0xC0 | Labels ls \<Rightarrow> labels_wf ls | Partial ls hi lo \<Rightarrow> False"
  shows "\<exists>b. byte_at (pre @ name_bytes nm @ rest) (length pre) = Some b
    \<and> answer_name_end (pre @ name_bytes nm @ rest) (length pre) b = length pre + length (name_bytes nm)"
proof (cases nm)
  case (Pointer hi lo)
  with assms show ?thesis by (auto simp: byte_at_def answer_name_end_def)
next
  case (Labels ls)
  then have wf: "labels_wf ls" using assms by simp
  let ?pkt = "pre @ label_bytes ls @ 0 # rest"
  have "skip_name ?pkt (length pre) = length pre + length (label_bytes ls)"
    by (subst skip_name_labels [OF wf], subst skip_name.simps) (simp add: nth_append)
  moreover obtain b where b: "byte_at ?pkt (length pre) = Some b" "b AND 0xC0 \<noteq> 0xC0"
  proof (cases ls)
    case Nil
    then show ?thesis by (intro that [of 0]) (simp_all add: label_bytes_def byte_at_def)
  next
    case (Cons l ls')
    then have "length l \<le> 63" using wf by (simp add: labels_wf_def)
    then show ?thesis by (intro that [of "word_of_nat (length l)"]) (use Cons in \<open>simp_all add: labels_Cons byte_at_def small_word_and_C0\<close>)
  qed
  ultimately show ?thesis using Labels by (auto simp: answer_name_end_def)
next
  case (Partial ls hi lo)
  with assms show ?thesis by simp
qed

section \<open>Scanning the records\<close>

lemma name_bytes_pos: "0 < length (name_bytes nm)"
  by (cases nm) simp_all

lemma length_rr_bytes: "length (rr_ttl r) = 4 \<Longrightarrow> length (rr_bytes r) = length (name_bytes (rr_name r)) + 10 + length (rr_data r)"
  by (simp add: rr_bytes_def)

lemma first_address_Cons: "first_address (r # rrs) = (case rr_address r of Some a \<Rightarrow> Answer a | None \<Rightarrow> first_address rrs)"
  by (simp add: first_address_def List.map_filter_simps split: option.split)

text \<open>One turn of the loop on a record at the position \<open>length pre\<close>.\<close>

lemma scan_record:
  assumes wf: "rr_wf r" and room: "length pre + 12 \<le> length (pre @ rr_bytes r @ rest)"
  shows "scan_answers (Suc k) (pre @ rr_bytes r @ rest) (length pre) =
    (case rr_address r of Some a \<Rightarrow> Answer a | None \<Rightarrow> scan_answers k (pre @ rr_bytes r @ rest) (length (pre @ rr_bytes r)))"
proof -
  have ttl: "length (rr_ttl r) = 4" and data: "length (rr_data r) < 2 ^ 16" using wf by (simp_all add: rr_wf_def)
  let ?nm = "name_bytes (rr_name r)"
  let ?len = "u16_be (word_of_nat (length (rr_data r)))"
  let ?tail = "u16_be (rr_type r) @ u16_be (rr_class r) @ rr_ttl r @ ?len @ rr_data r @ rest"
  let ?pkt = "pre @ ?nm @ ?tail"
  have pkt: "pre @ rr_bytes r @ rest = ?pkt" by (simp add: rr_bytes_def)
  obtain b where b: "byte_at ?pkt (length pre) = Some b" "answer_name_end ?pkt (length pre) b = length pre + length ?nm"
    using name_end [of "rr_name r" pre ?tail] wf by (auto simp: rr_wf_def)
  have ty: "u16_at ?pkt (length pre + length ?nm) = Some (unat (rr_type r))"
    using u16_at_be [of "pre @ ?nm" "rr_type r"] by simp
  have "?pkt = (pre @ ?nm @ u16_be (rr_type r) @ u16_be (rr_class r) @ rr_ttl r) @ ?len @ rr_data r @ rest"
    "length pre + length ?nm + 8 = length (pre @ ?nm @ u16_be (rr_type r) @ u16_be (rr_class r) @ rr_ttl r)" using ttl by simp_all
  then have rd: "u16_at ?pkt (length pre + length ?nm + 8) = Some (length (rr_data r))"
    using u16_at_be data by (metis unat_length)
  let ?k = "length pre + length ?nm + 10"
  have fits: "?k + length (rr_data r) \<le> length ?pkt" using ttl by simp
  have end_eq: "?k + length (rr_data r) = length (pre @ rr_bytes r)" using length_rr_bytes [OF ttl] by simp
  have step: "scan_answers (Suc k) ?pkt (length pre) =
      (if unat (rr_type r) = 1 \<and> length (rr_data r) = 4 then address_at ?pkt ?k else scan_answers k ?pkt (?k + length (rr_data r)))"
    using room fits b ty rd by (simp add: pkt Let_def)
  have t1: "unat (rr_type r) = 1 \<longleftrightarrow> rr_type r = 1" by (metis unat_1 word_unat_eq_iff)
  show ?thesis
  proof (cases "rr_type r = 1 \<and> length (rr_data r) = 4")
    case True
    then obtain a b c d where d: "rr_data r = [a, b, c, d]" by (auto simp: length_Suc_conv eval_nat_numeral)
    have "address_at ?pkt ?k = Answer (from_octets a b c d)"
      using address_at_append [of "pre @ ?nm @ u16_be (rr_type r) @ u16_be (rr_class r) @ rr_ttl r @ ?len" a b c d rest] ttl d by (simp add: add.assoc)
    with step True d t1 show ?thesis by (simp add: rr_address_def pkt)
  next
    case False
    then have "rr_address r = None" by (auto simp: rr_address_def split: list.split)
    moreover have "scan_answers (Suc k) ?pkt (length pre) = scan_answers k ?pkt (length (pre @ rr_bytes r))"
      unfolding step end_eq [symmetric] by (simp only: t1 False if_False)
    ultimately show ?thesis unfolding pkt by (simp del: scan_answers.simps)
  qed
qed

lemma scan_records:
  "list_all rr_wf rrs \<Longrightarrow> scan_answers (length rrs) (pre @ concat (map rr_bytes rrs) @ rest) (length pre) = first_address rrs"
proof (induction rrs arbitrary: pre)
  case Nil
  then show ?case by (simp add: first_address_def List.map_filter_simps)
next
  case (Cons r rrs)
  let ?rest = "concat (map rr_bytes rrs) @ rest"
  have wf: "rr_wf r" "list_all rr_wf rrs" using Cons.prems by simp_all
  then have ttl: "length (rr_ttl r) = 4" by (simp add: rr_wf_def)
  have pkt: "pre @ concat (map rr_bytes (r # rrs)) @ rest = pre @ rr_bytes r @ ?rest" by simp
  show ?case
  proof (cases "length pre + 12 \<le> length (pre @ rr_bytes r @ ?rest)")
    case True
    have "scan_answers (length rrs) (pre @ rr_bytes r @ ?rest) (length (pre @ rr_bytes r)) = first_address rrs"
      using Cons.IH [OF wf(2), of "pre @ rr_bytes r"] by simp
    with scan_record [OF wf(1) True, of "length rrs"] show ?thesis
      unfolding pkt first_address_Cons by (cases "rr_address r") (simp_all del: scan_answers.simps length_append)
  next
    case False
    have "length (rr_bytes r) + length ?rest < 12" using False by (simp only: length_append)
    then have "length (rr_data r) = 0" "length ?rest = 0" using length_rr_bytes [OF ttl] name_bytes_pos [of "rr_name r"] by linarith+
    then have none: "rr_data r = []" "?rest = []" by (simp_all only: length_0_conv)
    have "rrs = []"
    proof (cases rrs)
      case (Cons r' rs)
      then have "length (rr_bytes r') = 0" using none(2) by simp
      then show ?thesis using name_bytes_pos [of "rr_name r'"] by (simp add: rr_bytes_def)
    qed
    with False none show ?thesis unfolding pkt first_address_Cons by (simp add: rr_address_def first_address_def List.map_filter_simps)
  qed
qed

section \<open>The parser\<close>

lemma rcode_zero: "(unat f0 * 256 + unat f1) AND 0x000F = 0 \<longleftrightarrow> f1 AND 0x0F = 0" for f0 f1 :: u8
proof -
  have m: "x AND 0x000F = x mod 16" for x :: nat
    using take_bit_eq_mask [of 4 x] by (simp add: mask_eq_exp_minus_1 take_bit_eq_mod)
  have "(unat f0 * 256 + unat f1) AND 0x000F = (unat f0 * (16 * 16) + unat f1) mod 16" by (simp add: m)
  also have "\<dots> = unat f1 mod 16" by (metis mod_mult_self3 mult.assoc mult.left_commute mult.commute)
  finally have "(unat f0 * 256 + unat f1) AND 0x000F = unat f1 mod 16" .
  moreover have "f1 AND 0x0F = take_bit 4 f1" using take_bit_eq_mask [of 4 f1] by (simp add: mask_eq_exp_minus_1)
  then have "unat (f1 AND 0x0F) = unat f1 mod 16" by (simp add: take_bit_eq_mod unat_mod_distrib)
  ultimately show ?thesis by (metis unat_0 word_unat_eq_iff)
qed

text \<open>The header fields, and the start of the answers behind the question of the resolver's query.\<close>

lemma parse_message:
  assumes q: "dns_query qid ls = Some q" and cs: "length cs = 4" and n: "length rrs < 2 ^ 16"
  shows "parse_a_response (dns_message rid f0 f1 cs (drop 12 q) rrs rest) (unat qid) =
    (if rid = qid \<and> f1 AND 0x0F = 0 \<and> rrs \<noteq> []
     then scan_answers (length rrs) (dns_message rid f0 f1 cs (drop 12 q) rrs rest) (12 + length (drop 12 q)) else NoAnswer)"
proof -
  from q obtain name where name: "encode_labels ls = Some name" and dq: "drop 12 q = name @ [0, 0, 1, 0, 1]"
    by (auto simp: dns_query_def u16_be_def)
  let ?pkt = "dns_message rid f0 f1 cs (drop 12 q) rrs rest"
  let ?hd = "u16_be rid @ [f0, f1] @ [0, 1] @ u16_be (word_of_nat (length rrs)) @ cs"
  have hd: "length ?hd = 12" using cs by simp
  have pkt: "?pkt = ?hd @ name @ 0 # [0, 1, 0, 1] @ concat (map rr_bytes rrs) @ rest" by (simp add: dns_message_def dq)
  have id: "u16_at ?pkt 0 = Some (unat rid)" using u16_at_be [of "[]" rid] by (simp add: dns_message_def)
  have fl: "u16_at ?pkt 2 = Some (unat f0 * 256 + unat f1)"
    by (simp add: dns_message_def u16_at_def byte_at_def u16_be_def)
  have an: "u16_at ?pkt 6 = Some (length rrs)"
    using u16_at_be [of "u16_be rid @ [f0, f1] @ [0, 1]" "word_of_nat (length rrs)" "cs @ drop 12 q @ concat (map rr_bytes rrs) @ rest"] n
    by (simp add: dns_message_def)
  have sk: "skip_question ?pkt 12 = Some (12 + length name)"
    using skip_question_labels [OF name, of ?hd] unfolding pkt hd .
  have "\<not> length ?pkt < 12" using hd by (simp add: pkt)
  moreover have "unat rid = unat qid \<longleftrightarrow> rid = qid" by (simp add: word_unat_eq_iff)
  ultimately show ?thesis
    unfolding parse_a_response_def id fl an sk option.case prod.case rcode_zero [of f0 f1] by (simp add: dq del: scan_answers.simps)
qed

text \<open>C13: The response parser reads every well-formed reply to the resolver's own query. For every
  name the query builder accepts and every reply that copies the question, with any records (their owner
  names pointers or plain labels), any flags and anything behind the answers, the parser returns
  the address of the first A record, past all other records (aliases); it finds no answer
  exactly when there is none, the reply reports an error or its id is not that of the query.\<close>

theorem dns_parse_exact:
  assumes "dns_query qid ls = Some q" and "length cs = 4" and "length rrs < 2 ^ 16" and "list_all rr_wf rrs"
  shows "parse_a_response (dns_message rid f0 f1 cs (drop 12 q) rrs rest) (unat qid) =
    (if rid = qid \<and> f1 AND 0x0F = 0 then first_address rrs else NoAnswer)"
proof -
  let ?pre = "u16_be rid @ [f0, f1] @ [0, 1] @ u16_be (word_of_nat (length rrs)) @ cs @ drop 12 q"
  have "dns_message rid f0 f1 cs (drop 12 q) rrs rest = ?pre @ concat (map rr_bytes rrs) @ rest" "12 + length (drop 12 q) = length ?pre"
    using assms(2) by (simp_all add: dns_message_def)
  with scan_records [OF assms(4), of ?pre rest]
  have "scan_answers (length rrs) (dns_message rid f0 f1 cs (drop 12 q) rrs rest) (12 + length (drop 12 q)) = first_address rrs" by simp
  moreover have "first_address [] = NoAnswer" by (simp add: first_address_def List.map_filter_simps)
  ultimately show ?thesis unfolding parse_message [OF assms(1-3)] by auto
qed

text \<open>An alias, then the address.\<close>

theorem dns_parse_exact_witness:
  "parse_a_response (dns_message 7 0x81 0x80 [0, 0, 0, 0] [1, 97, 0, 0, 1, 0, 1]
     [\<lparr>rr_name = Pointer 0xC0 12, rr_type = 5, rr_class = 1, rr_ttl = [0, 0, 0, 60], rr_data = [1, 98, 0]\<rparr>,
      \<lparr>rr_name = Labels [[98]], rr_type = 1, rr_class = 1, rr_ttl = [0, 0, 0, 60], rr_data = [93, 184, 216, 34]\<rparr>] []) 7
   = Answer (from_octets 93 184 216 34)"
proof -
  let ?rrs = "[\<lparr>rr_name = Pointer 0xC0 12, rr_type = 5, rr_class = 1, rr_ttl = [0, 0, 0, 60], rr_data = [1, 98, 0]\<rparr>,
      \<lparr>rr_name = Labels [[98]], rr_type = 1, rr_class = 1, rr_ttl = [0, 0, 0, 60], rr_data = [93, 184, 216, 34]\<rparr>]"
  have q: "dns_query 7 [[97]] = Some [0, 7, 1, 0, 0, 1, 0, 0, 0, 0, 0, 0, 1, 97, 0, 0, 1, 0, 1]"
    by (simp add: dns_query_def u16_be_def drop_bit_eq_div)
  have "list_all rr_wf ?rrs" by (simp add: rr_wf_def labels_wf_def)
  from dns_parse_exact [OF q _ _ this, of "[0, 0, 0, 0]" 7 "0x81" "0x80" "[]"] show ?thesis
    by (simp add: first_address_def rr_address_def List.map_filter_simps)
qed

section \<open>Names that end in a pointer\<close>

lemma skip_name_partial:
  assumes ls: "labels_wf ls" and hi: "hi AND 0xC0 = 0xC0" and rest: "length rest < 192"
  shows "length (pre @ label_bytes ls @ hi # rest) \<le> skip_name (pre @ label_bytes ls @ hi # rest) (length pre)"
proof -
  let ?pkt = "pre @ label_bytes ls @ hi # rest"
  let ?p = "length pre + length (label_bytes ls)"
  have "0xC0 \<le> hi" using hi word_and_le2 [of hi "0xC0"] by simp
  then have h: "192 \<le> unat hi" by (simp add: word_le_nat_alt)
  have at: "?pkt ! ?p = hi" "?p < length ?pkt" by (simp_all add: nth_append)
  have "hi \<noteq> 0" using h by auto
  then have "skip_name ?pkt ?p = skip_name ?pkt (?p + (1 + unat hi))" using at by (subst skip_name.simps) simp
  also have "\<dots> = ?p + (1 + unat hi)" by (subst skip_name.simps) (use h rest in simp)
  finally show ?thesis unfolding skip_name_labels [OF ls] using h rest by simp
qed

text \<open>C37: The parser misses answers whose owner name is a sequence of labels that ends in a
  pointer, a form RFC 1035 (4.1.4) allows: it takes the pointer for a label of at least 192
  bytes and runs past the end of the packet. A reply to the resolver's query with one such A
  record yields no address, although it holds one (if fewer than 150 bytes follow the record).\<close>

theorem dns_partial_pointer_missed:
  assumes "dns_query qid qls = Some q" and "length cs = 4" and "labels_wf ls" and "ls \<noteq> []" and "hi AND 0xC0 = 0xC0" and "length ttl = 4"
    and "length rest < 150"
  shows "parse_a_response (dns_message qid 0x81 0x80 cs (drop 12 q)
    [\<lparr>rr_name = Partial ls hi lo, rr_type = 1, rr_class = 1, rr_ttl = ttl, rr_data = [a, b, c, d]\<rparr>] rest) (unat qid) = NoAnswer"
proof -
  let ?r = "\<lparr>rr_name = Partial ls hi lo, rr_type = 1, rr_class = 1, rr_ttl = ttl, rr_data = [a, b, c, d]\<rparr>"
  let ?pkt = "dns_message qid 0x81 0x80 cs (drop 12 q) [?r] rest"
  let ?pre = "u16_be qid @ [0x81, 0x80] @ [0, 1] @ u16_be (word_of_nat (length [?r])) @ cs @ drop 12 q"
  let ?rest = "lo # u16_be 1 @ u16_be 1 @ ttl @ u16_be 4 @ [a, b, c, d] @ rest"
  have pkt: "?pkt = ?pre @ label_bytes ls @ hi # ?rest" and at: "12 + length (drop 12 q) = length ?pre"
    using assms(2) by (simp_all add: dns_message_def rr_bytes_def)
  have over: "length ?pkt \<le> skip_name ?pkt (length ?pre)"
    unfolding pkt by (rule skip_name_partial [OF assms(3,5)]) (use assms(6,7) in simp)
  obtain l ls' where ls: "ls = l # ls'" using assms(4) by (cases ls) simp_all
  then have l: "length l < 64" using assms(3) by (simp add: labels_wf_def)
  have "?pkt = ?pre @ word_of_nat (length l) # l @ label_bytes ls' @ hi # ?rest" unfolding pkt by (simp add: ls labels_Cons)
  then have "byte_at ?pkt (length ?pre) = Some (word_of_nat (length l))" by (simp only: byte_at_append)
  with over have "scan_answers 1 ?pkt (length ?pre) = NoAnswer"
    by (simp add: answer_name_end_def small_word_and_C0 [OF l] Let_def)
  with parse_message [OF assms(1,2), of "[?r]" qid "0x81" "0x80" rest] show ?thesis unfolding at by simp
qed

theorem dns_partial_pointer_missed_witness:
  "parse_a_response (dns_message 7 0x81 0x80 [0, 0, 0, 0] [1, 97, 0, 0, 1, 0, 1]
     [\<lparr>rr_name = Partial [[98]] 0xC0 12, rr_type = 1, rr_class = 1, rr_ttl = [0, 0, 0, 60], rr_data = [93, 184, 216, 34]\<rparr>] []) 7 = NoAnswer"
proof -
  have q: "dns_query 7 [[97]] = Some [0, 7, 1, 0, 0, 1, 0, 0, 0, 0, 0, 0, 1, 97, 0, 0, 1, 0, 1]"
    by (simp add: dns_query_def u16_be_def drop_bit_eq_div)
  from dns_partial_pointer_missed [OF q, of "[0, 0, 0, 0]" "[[98]]" "0xC0" "[0, 0, 0, 60]" "[]" 12 93 184 216 34] show ?thesis
    by (simp add: labels_wf_def)
qed

end
