(* ===== verification/Netif_Shim.thy ===== *)
theory Netif_Shim
  imports Netdb
begin

text \<open>
  The \<open>esp_netif\<close> functions the shim replaces (\<open>esp_netif_shim.c\<close>): two static objects stand for
  the interfaces, and their addresses are read from the stack. A handle is the object it points
  to. The MAC address is read by a function of ESP-IDF, an argument of the model; the build mode
  and the host name are configuration. The last section follows a static configuration from the
  attachment of the interface to the answers of \<open>esp_netif_get_ip_info\<close>.
\<close>

record shim_netif =
  ni_iface :: nat
  ni_key :: string

definition s_netif_eth :: shim_netif where
  "s_netif_eth = \<lparr>ni_iface = NET_IFACE_ETH, ni_key = ''ETH_DEF''\<rparr>"

definition s_netif_wifi :: shim_netif where
  "s_netif_wifi = \<lparr>ni_iface = NET_IFACE_WIFI, ni_key = ''WIFI_STA_DEF''\<rparr>"

definition esp_netif_get_handle_from_ifkey :: "string option \<Rightarrow> shim_netif option" where
  "esp_netif_get_handle_from_ifkey ifkey =
     (case ifkey of None \<Rightarrow> None
      | Some k \<Rightarrow> if k = ''ETH_DEF'' then Some s_netif_eth else if k = ''WIFI_STA_DEF'' then Some s_netif_wifi else None)"

datatype netstack_mode = MODE_DUAL | MODE_ETH | MODE_WIFI | MODE_UNSET

definition esp_netif_next_unsafe :: "netstack_mode \<Rightarrow> shim_netif option \<Rightarrow> shim_netif option" where
  "esp_netif_next_unsafe mode prev =
     (case mode of
        MODE_DUAL \<Rightarrow> if prev = None then Some s_netif_eth else if prev = Some s_netif_eth then Some s_netif_wifi else None
      | MODE_ETH \<Rightarrow> if prev \<noteq> None then None else Some s_netif_eth
      | MODE_WIFI \<Rightarrow> if prev \<noteq> None then None else Some s_netif_wifi
      | MODE_UNSET \<Rightarrow> None)"

record ip_info =
  ip_addr :: u32
  gw_addr :: u32
  netmask_addr :: u32

definition esp_netif_get_ip_info ::
  "'c smoltcp \<Rightarrow> shim_netif option \<Rightarrow> bool \<Rightarrow> ('q, 'g, 'c, 'e) net \<Rightarrow> (esp_err \<times> ip_info option) \<times> ('q, 'g, 'c, 'e) net" where
  "esp_netif_get_ip_info S netif out n =
     (case netif of None \<Rightarrow> ((ESP_ERR_INVALID_ARG, None), n)
      | Some h \<Rightarrow>
          if \<not> out then ((ESP_ERR_INVALID_ARG, None), n)
          else let (ip, n1) = net_stack_get_ipv4 S (ni_iface h) n;
                   (gw, n2) = net_stack_get_gateway (ni_iface h) n1;
                   (mask', n3) = net_stack_get_netmask (ni_iface h) n2
               in ((ESP_OK, Some \<lparr>ip_addr = ip, gw_addr = gw, netmask_addr = mask'\<rparr>), n3))"

datatype mac_type = ESP_MAC_ETH | ESP_MAC_WIFI_STA

definition esp_netif_get_mac ::
  "(mac_type \<Rightarrow> esp_err \<times> u8 list) \<Rightarrow> shim_netif option \<Rightarrow> bool \<Rightarrow> esp_err \<times> u8 list option" where
  "esp_netif_get_mac esp_read_mac netif out =
     (case netif of None \<Rightarrow> (ESP_ERR_INVALID_ARG, None)
      | Some h \<Rightarrow>
          if \<not> out then (ESP_ERR_INVALID_ARG, None)
          else let (er, mac) = esp_read_mac (if ni_iface h = NET_IFACE_ETH then ESP_MAC_ETH else ESP_MAC_WIFI_STA)
               in (er, Some mac))"

definition esp_netif_get_ifkey :: "shim_netif option \<Rightarrow> string" where
  "esp_netif_get_ifkey netif = (case netif of None \<Rightarrow> '''' | Some h \<Rightarrow> ni_key h)"

definition esp_netif_get_hostname :: "string \<Rightarrow> bool \<Rightarrow> esp_err \<times> string option" where
  "esp_netif_get_hostname APP_HOSTNAME out = (if \<not> out then (ESP_ERR_INVALID_ARG, None) else (ESP_OK, Some APP_HOSTNAME))"

definition esp_netif_set_hostname :: "shim_netif option \<Rightarrow> string \<Rightarrow> esp_err" where
  "esp_netif_set_hostname netif hostname = ESP_OK"

definition esp_netif_is_netif_up :: "'c smoltcp \<Rightarrow> shim_netif option \<Rightarrow> ('q, 'g, 'c, 'e) net \<Rightarrow> bool \<times> ('q, 'g, 'c, 'e) net" where
  "esp_netif_is_netif_up S netif n =
     (case netif of None \<Rightarrow> (False, n)
      | Some h \<Rightarrow> (let (ip, n1) = net_stack_get_ipv4 S (ni_iface h) n in (ip \<noteq> 0, n1)))"

section \<open>What it reports\<close>

lemma handle_of_ifkey: "esp_netif_get_handle_from_ifkey (Some k) = Some h \<Longrightarrow> esp_netif_get_ifkey (Some h) = k \<and> ni_iface h < NET_IFACE_MAX"
  by (auto simp: esp_netif_get_handle_from_ifkey_def esp_netif_get_ifkey_def s_netif_eth_def s_netif_wifi_def
      NET_IFACE_ETH_def NET_IFACE_WIFI_def NET_IFACE_MAX_def split: if_splits)

text \<open>A query of an enabled interface answers from its context and leaves the contexts alone.\<close>

lemma iface_query_answer:
  assumes "i < NET_IFACE_MAX" and "i < length (s_ifaces n)" and "enabled (iface i n)"
  shows "fst (iface_query i err get n) = get (smoltcp_handle (iface i n))"
    and "s_ifaces (snd (iface_query i err get n)) = s_ifaces n"
  using assms by (simp_all add: iface_query_def locked_call_def Let_def set_handle_def upd_iface_def iface_def lock_defs)

lemma ip_info_answer:
  assumes h: "ni_iface h < NET_IFACE_MAX" "ni_iface h < length (s_ifaces n)" "enabled (iface (ni_iface h) n)"
  shows "fst (esp_netif_get_ip_info S (Some h) True n) = (ESP_OK, Some
    \<lparr>ip_addr = smoltcp_iface_get_ipv4 S (smoltcp_handle (iface (ni_iface h) n)),
     gw_addr = smoltcp_iface_get_gw (smoltcp_handle (iface (ni_iface h) n)),
     netmask_addr = smoltcp_iface_get_netmask (smoltcp_handle (iface (ni_iface h) n))\<rparr>)"
  using h
  by (simp add: esp_netif_get_ip_info_def Let_def case_prod_unfold net_stack_get_ipv4_def net_stack_get_gateway_def
      net_stack_get_netmask_def iface_query_answer iface_def)

lemma mask_24: "to_be (cidr_to_mask 24) = 0x00FFFFFF"
proof -
  have "NOT (mask 8) = (0xFFFFFF00 :: u32)" by (simp add: mask_eq_exp_minus_1)
  then show ?thesis by (simp add: to_be_def from_be_bytes_def le_byte_def cidr_to_mask_def)
qed

text \<open>After a static configuration the queries return what was set.\<close>

lemma ip_info_static:
  assumes A: "smoltcp_addrs S" and i: "ni_iface h < NET_IFACE_MAX" "ni_iface h < length (s_ifaces n)" "enabled (iface (ni_iface h) n)"
    and room: "length (filter (\<lambda>a. \<not> is_v4 a) (sm_ip_addrs S (ctx_stack ctx))) < sm_max_addrs S"
    and set: "smoltcp_iface_set_static S (Some ctx) ip 24 gw = Some c" and c: "smoltcp_handle (iface (ni_iface h) n) = c"
  shows "fst (esp_netif_get_ip_info S (Some h) True n) =
    (ESP_OK, Some \<lparr>ip_addr = ip, gw_addr = (if gw \<noteq> 0 then gw else ctx_gateway_be ctx), netmask_addr = 0x00FFFFFF\<rparr>)"
proof -
  note g = smoltcp_addrs.set_static_get [OF A room set]
  have "smoltcp_iface_get_gw c = (if gw \<noteq> 0 then gw else ctx_gateway_be ctx)"
    using set by (auto simp: smoltcp_iface_set_static_def Let_def smoltcp_iface_get_gw_def split: if_splits)
  moreover have "(ucast (24 :: u32) :: u8) = 24" by simp
  ultimately show ?thesis using ip_info_answer [OF i, of S] g(1,4) c by (simp only: mask_24)
qed

text \<open>What a successful attachment has done before it configures the interface.\<close>

lemma attach_start_ip:
  fixes n :: "('q, 'g, 'c, 'e) net"
  assumes "esp_smoltcp_attach_eth P S K A h n = Some (ESP_OK, n')" and len: "NET_IFACE_ETH < length (s_ifaces n)"
  obtains m t and n4 n5 :: "('q, 'g, 'c, 'e) net" where "smoltcp_handle (iface NET_IFACE_ETH n4) = Some (ctx_new S (of_nat NET_IFACE_ETH) m t)"
    and "enabled (iface NET_IFACE_ETH n4)" and "length (s_ifaces n4) = length (s_ifaces n)"
    and "start_ip S K NET_IFACE_ETH n4 = Some n5" and "s_ifaces n' = s_ifaces n5"
proof -
  let ?n1 = "upd_iface NET_IFACE_ETH (\<lambda>f. f\<lparr>enabled := True, l2_tx := Some Eth_tx, mac := snd (got_mac A)\<rparr>) (n\<lparr>s_eth_handle := h\<rparr>)"
  obtain t n2 where now: "smoltcp_glue_now_us P ?n1 = (t, n2)" by force
  have t2: "tx_only ?n1 n2" using now_us_tx_only [of ?n1 P] now by simp
  let ?h = "Some (ctx_new S (of_nat NET_IFACE_ETH) (mac (iface NET_IFACE_ETH n2)) t)"
  let ?n3 = "set_handle NET_IFACE_ETH ?h (core_new n2)"
  let ?n4 = "?n3\<lparr>ext := esp_eth_start P h (ext ?n3)\<rparr>"
  have l2: "length (s_ifaces n2) = length (s_ifaces n)" using tx_only_fields(17) [OF t2] by simp
  have "enabled (iface NET_IFACE_ETH n2)" using tx_only_iface(2) [OF t2, of NET_IFACE_ETH] len by simp
  then have n4: "smoltcp_handle (iface NET_IFACE_ETH ?n4) = ?h" "enabled (iface NET_IFACE_ETH ?n4)" "length (s_ifaces ?n4) = length (s_ifaces n)"
    using len l2 by (simp_all add: iface_def set_handle_def upd_iface_def)
  obtain n5 where n5: "start_ip S K NET_IFACE_ETH ?n4 = Some n5" "s_ifaces n' = s_ifaces n5"
    using assms(1) now unfolding esp_smoltcp_attach_eth_def smoltcp_iface_new_def Let_def
    by (auto simp: ptp_start_def net_stack_l2_tap_def Let_def case_prod_unfold split: if_splits option.splits)
  show ?thesis by (rule that [OF n4 n5])
qed

text \<open>C27: A static configuration comes out backwards. When the interface is attached with the static
  address \<open>a.b.c.d\<close> and gateway \<open>e.f.g.h\<close> of the configuration, smoltcp is given the address
  \<open>d.c.b.a\<close>, and \<open>esp_netif_get_ip_info\<close> reports the bytes \<open>d, c, b, a\<close> and \<open>h, g, f, e\<close> in memory order, where the header
  promises the octets in network order. Only the netmask 255.255.255.0 is right. (A new
  interface of smoltcp has no addresses, and its table has room for two.)\<close>

theorem static_config_reversed:
  fixes n :: "('q, 'g, 'c, 'e) net"
  assumes A: "smoltcp_addrs S" and fresh: "\<And>m t. sm_ip_addrs S (sm_new S m t) = []" and room: "2 \<le> sm_max_addrs S"
    and K: "\<not> cfg_dhcpv4_client K" "cfg_static_ip K = dotted a b c d" "cfg_static_gw K = dotted e f g h"
    and att: "esp_smoltcp_attach_eth P S K A' eh n = Some (ESP_OK, n')" and len: "length (s_ifaces n) = NET_IFACE_MAX"
  shows "fst (esp_netif_get_ip_info S (Some s_netif_eth) True n') = (ESP_OK, Some
      \<lparr>ip_addr = from_le_bytes d c b a, gw_addr = from_le_bytes h g f e, netmask_addr = from_le_bytes 255 255 255 0\<rparr>)
    \<and> (\<exists>ctx. smoltcp_handle (iface NET_IFACE_ETH n') = Some ctx \<and> sm_ipv4_addr S (ctx_stack ctx) = Some (from_octets d c b a))"
proof -
  obtain m t and n4 n5 :: "('q, 'g, 'c, 'e) net" where n4: "smoltcp_handle (iface NET_IFACE_ETH n4) = Some (ctx_new S (of_nat NET_IFACE_ETH) m t)"
    "enabled (iface NET_IFACE_ETH n4)" "length (s_ifaces n4) = length (s_ifaces n)"
    and st: "start_ip S K NET_IFACE_ETH n4 = Some n5" and n': "s_ifaces n' = s_ifaces n5"
    using attach_start_ip [OF att] len by (metis iface_consts(1))
  let ?ctx = "ctx_new S (of_nat NET_IFACE_ETH) m t"
  have addrs: "sm_ip_addrs S (ctx_stack ?ctx) = [Ipv6 (link_local m) 64]" "ctx_gateway_be ?ctx = 0"
    using room by (simp_all add: ctx_new_def Let_def smoltcp_addrs.get_set [OF A] fresh push_addr_def)
  have r: "length (filter (\<lambda>a. \<not> is_v4 a) (sm_ip_addrs S (ctx_stack ?ctx))) < sm_max_addrs S"
    using room by (simp add: addrs is_v4_def)
  from st K n4 obtain hc where set: "smoltcp_iface_set_static S (Some ?ctx) (from_be_bytes a b c d) 24 (from_be_bytes e f g h) = Some hc"
    and n5: "n5 = SMOLTCP_UNLOCK (set_handle NET_IFACE_ETH hc (core_call (SMOLTCP_LOCK n4)))"
    by (auto simp: start_ip_def parse_ipv4_dotted Let_def split: option.splits)
  have i': "NET_IFACE_ETH < length (s_ifaces n')" "enabled (iface NET_IFACE_ETH n')" "smoltcp_handle (iface NET_IFACE_ETH n') = hc"
    using n4 len by (simp_all add: n' n5 iface_def set_handle_def upd_iface_def)
  obtain ctx' where ctx': "hc = Some ctx'" using set by (auto simp: smoltcp_iface_set_static_def Let_def split: if_splits)
  have "sm_ipv4_addr S (ctx_stack ctx') = Some (ipv4_from_be (from_be_bytes a b c d))"
    using set ctx' r unfolding smoltcp_addrs.first [OF A]
    by (auto simp: smoltcp_iface_set_static_def Let_def smoltcp_addrs.get_set [OF A] smoltcp_addrs.route_keeps [OF A]
        push_addr_def smoltcp_addrs.first_v4_append [OF A] split: if_splits)
  moreover have "ipv4_from_be (from_be_bytes a b c d) = from_octets d c b a"
    by (simp add: ipv4_from_be_def le_byte_from_be_bytes)
  moreover have "(0x00FFFFFF :: u32) = from_le_bytes 255 255 255 0" by (simp add: from_le_bytes_def from_be_bytes_def)
  ultimately show ?thesis
    using ip_info_static [OF A, of s_netif_eth n' ?ctx "from_be_bytes a b c d" "from_be_bytes e f g h" hc] i' r set addrs(2) ctx'
    by (auto simp: s_netif_eth_def from_le_bytes_def)
qed

text \<open>192.168.0.7 with the gateway 192.168.0.1.\<close>

definition ref_static :: net_config where
  "ref_static = \<lparr>cfg_dhcpv4_client = False, cfg_static_ip = dotted 192 168 0 7, cfg_static_gw = dotted 192 168 0 1, cfg_ptp = None\<rparr>"

theorem static_config_reversed_witness:
  "\<exists>n'. esp_smoltcp_attach_eth ref_platform ref_smoltcp ref_static ref_attach (Some 1) ref_booted = Some (ESP_OK, n')
    \<and> fst (esp_netif_get_ip_info ref_smoltcp (Some s_netif_eth) True n') =
        (ESP_OK, Some \<lparr>ip_addr = 0xC0A80007, gw_addr = 0xC0A80001, netmask_addr = 0x00FFFFFF\<rparr>)"
proof -
  have len: "length (s_ifaces ref_booted) = NET_IFACE_MAX"
    using ref_evt.stack_okD(1) [OF ref_evt.booted_stack_ok(1) [OF ref_booted]] by simp
  have "\<not> enabled (iface NET_IFACE_ETH ref_booted)" by (rule ref_booted_disabled) simp
  moreover obtain r n' where "esp_smoltcp_attach_eth ref_platform ref_smoltcp ref_static ref_attach (Some 1) ref_booted = Some (r, n')"
    using attach_returns [of ref_platform ref_smoltcp ref_static ref_attach "Some 1" ref_booted] by blast
  ultimately have att: "esp_smoltcp_attach_eth ref_platform ref_smoltcp ref_static ref_attach (Some 1) ref_booted = Some (ESP_OK, n')"
    by (auto simp: esp_smoltcp_attach_eth_def ref_attach_def Let_def case_prod_unfold split: option.splits)
  have "fst (esp_netif_get_ip_info ref_smoltcp (Some s_netif_eth) True n') = (ESP_OK, Some
      \<lparr>ip_addr = from_le_bytes 7 0 168 192, gw_addr = from_le_bytes 1 0 168 192, netmask_addr = from_le_bytes 255 255 255 0\<rparr>)"
    using static_config_reversed [OF ref.smoltcp_addrs_axioms _ _ _ _ _ att len, of 192 168 0 7 192 168 0 1]
    by (simp add: ref_static_def) (simp add: ref_smoltcp_def)
  with att show ?thesis by (simp add: from_le_bytes_def from_be_bytes_def)
qed

end
