(* ===== verification/Eth_Basic.thy ===== *)
theory Eth_Basic
  imports Netif_Shim
begin

text \<open>
  The example application (\<open>examples/eth_basic/main/main.c\<close>): it installs the Ethernet driver,
  starts the stack, attaches the driver and waits for an address. The ESP-IDF calls it makes are
  the fields of the record \<open>idf\<close> over the state \<open>'i\<close> of the system software (\<open>'m\<close> is a MAC
  object, \<open>'p\<close> a PHY object, \<open>'a\<close>, \<open>'b\<close> and \<open>'d\<close> the settings the application leaves at their
  defaults); the calls that \<open>net_stack_init\<close> makes itself go to the same state. A failed
  \<open>ESP_ERROR_CHECK\<close> aborts: the outcome is \<open>Inl\<close> of the error it saw.
\<close>

section \<open>The system software\<close>

record 'a emac_config =
  mdc_num :: int
  mdio_num :: int
  emac_rest :: 'a

record 'b phy_config =
  phy_addr :: int
  reset_gpio_num :: int
  phy_rest :: 'b

record ('a, 'b, 'd, 'm, 'p, 'i) idf =
  idf_nvs_flash_init :: "'i \<Rightarrow> esp_err \<times> 'i"
  idf_event_loop_create_default :: "'i \<Rightarrow> esp_err \<times> 'i"
  ETH_ESP32_EMAC_DEFAULT_CONFIG :: "'a emac_config"
  ETH_MAC_DEFAULT_CONFIG :: 'd
  ETH_PHY_DEFAULT_CONFIG :: "'b phy_config"
  esp_eth_mac_new_esp32 :: "'a emac_config \<Rightarrow> 'd \<Rightarrow> 'i \<Rightarrow> 'm \<times> 'i"
  esp_eth_phy_new_ip101 :: "'b phy_config \<Rightarrow> 'i \<Rightarrow> 'p \<times> 'i"
  esp_eth_driver_install :: "'m \<Rightarrow> 'p \<Rightarrow> 'i \<Rightarrow> (esp_err \<times> nat option) \<times> 'i"

section \<open>The application\<close>

datatype app_msg =
    LogGotIp nat u8 u8 u8 u8
  | LogOnline
  | LogNoIp

definition ESP_ERROR_CHECK :: "esp_err \<Rightarrow> esp_err + unit" where
  "ESP_ERROR_CHECK e = (if e = ESP_OK then Inr () else Inl e)"

definition install_ethernet ::
  "('a, 'b, 'd, 'm, 'p, 'i) idf \<Rightarrow> 'i \<Rightarrow> (esp_err + nat option) \<times> 'i" where
  "install_ethernet I i =
     (let emac_cfg = (ETH_ESP32_EMAC_DEFAULT_CONFIG I)\<lparr>mdc_num := 31, mdio_num := 52\<rparr>;
          (m, i1) = esp_eth_mac_new_esp32 I emac_cfg (ETH_MAC_DEFAULT_CONFIG I) i;
          phy_cfg = (ETH_PHY_DEFAULT_CONFIG I)\<lparr>phy_addr := 1, reset_gpio_num := 51\<rparr>;
          (p, i2) = esp_eth_phy_new_ip101 I phy_cfg i1;
          ((e, h), i3) = esp_eth_driver_install I m p i2
      in (case ESP_ERROR_CHECK e of Inl e \<Rightarrow> Inl e | Inr _ \<Rightarrow> Inr h, i3))"

text \<open>The four bytes are those \<open>memcpy\<close> reads from the little-endian address word.\<close>

definition on_evt ::
  "'c smoltcp \<Rightarrow> nat \<Rightarrow> net_event \<Rightarrow> ('q, 'g, 'c, 'e) net \<Rightarrow> app_msg list \<times> ('q, 'g, 'c, 'e) net" where
  "on_evt S ifc ev n =
     (if ev = GOT_IP
      then let (ip, n1) = net_stack_get_ipv4 S ifc n
           in ([LogGotIp ifc (le_byte ip 0) (le_byte ip 1) (le_byte ip 2) (le_byte ip 3)], n1)
      else ([], n))"

text \<open>
  The calls of \<open>nvs_flash_init\<close> and \<open>esp_event_loop_create_default\<close> inside \<open>net_stack_init\<close> are
  answered by the system in the state the application has left it in; \<open>E\<close> holds the other answers.
\<close>

definition init_answers ::
  "('a, 'b, 'd, 'm, 'p, 'i) idf \<Rightarrow> ('q, 'g) init_env \<Rightarrow> 'i \<Rightarrow> ('q, 'g) init_env" where
  "init_answers I E i =
     (let (nvs, i1) = idf_nvs_flash_init I i
      in E\<lparr>nvs_flash_init := nvs, esp_event_loop_create_default := fst (idf_event_loop_create_default I i1)\<rparr>)"

text \<open>From \<open>esp_smoltcp_init\<close> on, with the handle of the driver; \<open>evt_fn\<close> is the address of \<open>on_evt\<close>.\<close>

definition app_start ::
  "('q, 'g, 'e) platform \<Rightarrow> 'c smoltcp \<Rightarrow> ('q, 'g, 'c, 'e) rtos \<Rightarrow> net_config \<Rightarrow> ('q, 'g) init_env \<Rightarrow> attach_env
     \<Rightarrow> nat \<Rightarrow> nat option \<Rightarrow> ('q, 'g, 'c, 'e) net \<Rightarrow> ((esp_err + app_msg) \<times> ('q, 'g, 'c, 'e) net) option" where
  "app_start P S R K E A evt_fn eth n =
     (case net_stack_init P E n of None \<Rightarrow> None
      | Some (e, n1) \<Rightarrow>
          (case ESP_ERROR_CHECK e of Inl e \<Rightarrow> Some (Inl e, n1)
           | Inr _ \<Rightarrow>
               let n2 = snd (net_stack_register_event_cb (Some evt_fn) 0 n1)
               in case esp_smoltcp_attach_eth P S K A eth n2 of None \<Rightarrow> None
                  | Some (e, n3) \<Rightarrow>
                      (case ESP_ERROR_CHECK e of Inl e \<Rightarrow> Some (Inl e, n3)
                       | Inr _ \<Rightarrow>
                           map_option (\<lambda>(r, n4). (Inr (if r = ESP_OK then LogOnline else LogNoIp), n4))
                             (esp_smoltcp_wait_for_ip P R NET_IFACE_ETH 15000 n3))))"

definition app_main ::
  "('a, 'b, 'd, 'm, 'p, 'i) idf \<Rightarrow> ('q, 'g, 'e) platform \<Rightarrow> 'c smoltcp \<Rightarrow> ('q, 'g, 'c, 'e) rtos \<Rightarrow> net_config
     \<Rightarrow> ('q, 'g) init_env \<Rightarrow> attach_env \<Rightarrow> nat \<Rightarrow> 'i \<Rightarrow> ('q, 'g, 'c, 'e) net
     \<Rightarrow> ((esp_err + app_msg) \<times> ('q, 'g, 'c, 'e) net) option" where
  "app_main I P S R K E A evt_fn i n =
     (let (e1, i1) = idf_nvs_flash_init I i
      in case ESP_ERROR_CHECK e1 of Inl e \<Rightarrow> Some (Inl e, n)
         | Inr _ \<Rightarrow>
             let (e2, i2) = idf_event_loop_create_default I i1
             in case ESP_ERROR_CHECK e2 of Inl e \<Rightarrow> Some (Inl e, n)
                | Inr _ \<Rightarrow>
                    let (eth, i3) = install_ethernet I i2
                    in case eth of Inl e \<Rightarrow> Some (Inl e, n)
                       | Inr h \<Rightarrow> app_start P S R K (init_answers I E i3) A evt_fn h n)"

section \<open>What the application relies on\<close>

text \<open>
  The documented behaviour of ESP-IDF: there is one default event loop and creating it again is
  refused with \<open>ESP_ERR_INVALID_STATE\<close>; initialising NVS again is harmless; the driver calls undo
  neither. \<open>loop_up\<close> and \<open>nvs_up\<close> tell what has been done.
\<close>

locale idf_system =
  fixes I :: "('a, 'b, 'd, 'm, 'p, 'i) idf"
    and loop_up :: "'i \<Rightarrow> bool"
    and nvs_up :: "'i \<Rightarrow> bool"
  assumes create: "fst (idf_event_loop_create_default I i) = ESP_OK \<Longrightarrow> loop_up (snd (idf_event_loop_create_default I i))"
    and create_again: "loop_up i \<Longrightarrow> fst (idf_event_loop_create_default I i) = ESP_ERR_INVALID_STATE"
    and nvs: "fst (idf_nvs_flash_init I i) = ESP_OK \<Longrightarrow> nvs_up (snd (idf_nvs_flash_init I i))"
    and nvs_again: "nvs_up i \<Longrightarrow> fst (idf_nvs_flash_init I i) = ESP_OK"
    and loop_stays: "loop_up i \<Longrightarrow> loop_up (snd (idf_nvs_flash_init I i))"
      "loop_up i \<Longrightarrow> loop_up (snd (esp_eth_mac_new_esp32 I ec mc i))"
      "loop_up i \<Longrightarrow> loop_up (snd (esp_eth_phy_new_ip101 I pc i))"
      "loop_up i \<Longrightarrow> loop_up (snd (esp_eth_driver_install I m p i))"
    and nvs_stays: "nvs_up i \<Longrightarrow> nvs_up (snd (idf_event_loop_create_default I i))"
      "nvs_up i \<Longrightarrow> nvs_up (snd (esp_eth_mac_new_esp32 I ec mc i))"
      "nvs_up i \<Longrightarrow> nvs_up (snd (esp_eth_phy_new_ip101 I pc i))"
      "nvs_up i \<Longrightarrow> nvs_up (snd (esp_eth_driver_install I m p i))"
begin

lemma install_keeps:
  "loop_up i \<Longrightarrow> loop_up (snd (install_ethernet I i))" "nvs_up i \<Longrightarrow> nvs_up (snd (install_ethernet I i))"
  by (simp_all add: install_ethernet_def Let_def case_prod_unfold loop_stays nvs_stays)

lemma init_answers_again:
  assumes "loop_up i" and "nvs_up i"
  shows "nvs_flash_init (init_answers I E i) = ESP_OK"
    and "esp_event_loop_create_default (init_answers I E i) = ESP_ERR_INVALID_STATE"
  using assms by (simp_all add: init_answers_def Let_def case_prod_unfold nvs_again create_again loop_stays)

end

text \<open>A system whose state is the pair of the two facts, and whose driver always installs.\<close>

definition ref_idf :: "(unit, unit, unit, unit, unit, bool \<times> bool) idf" where
  "ref_idf = \<lparr>idf_nvs_flash_init = (\<lambda>(l, v). (ESP_OK, (l, True))),
     idf_event_loop_create_default = (\<lambda>(l, v). (if l then ESP_ERR_INVALID_STATE else ESP_OK, (True, v))),
     ETH_ESP32_EMAC_DEFAULT_CONFIG = \<lparr>mdc_num = 23, mdio_num = 18, emac_rest = ()\<rparr>,
     ETH_MAC_DEFAULT_CONFIG = (),
     ETH_PHY_DEFAULT_CONFIG = \<lparr>phy_addr = -1, reset_gpio_num = 5, phy_rest = ()\<rparr>,
     esp_eth_mac_new_esp32 = (\<lambda>ec mc i. ((), i)),
     esp_eth_phy_new_ip101 = (\<lambda>pc i. ((), i)),
     esp_eth_driver_install = (\<lambda>m p i. ((ESP_OK, Some 1), i))\<rparr>"

interpretation ref_idf: idf_system ref_idf fst snd
  by unfold_locales (auto simp: ref_idf_def split: if_splits)

section \<open>What the application does\<close>

text \<open>Everything after the start of the stack works: once \<open>net_stack_init\<close> has succeeded for the first
  time and the driver answers, the application gets as far as reporting on its address.\<close>

lemma init_ok_evt:
  assumes "net_stack_init P E n = Some (ESP_OK, n1)" and "\<not> s_inited n"
  shows "s_evt n1 \<noteq> None"
  using assms by (elim net_stack_init_OK) (auto simp: frame_pool_init_def split: option.splits)

lemma attach_keeps_evt:
  assumes "esp_smoltcp_attach_eth P S K A h n = Some (r, n')"
  shows "s_evt n' = s_evt n"
  using assms
  by (auto simp: esp_smoltcp_attach_eth_def start_ip_def ptp_start_def net_stack_l2_tap_def smoltcp_glue_now_us_def
      locked_call_def set_handle_def Let_def case_prod_unfold split: if_splits option.splits)

lemma app_start_completes:
  assumes init: "net_stack_init P E n = Some (ESP_OK, n1)" "\<not> s_inited n"
    and attach: "esp_smoltcp_attach_eth P S K A eth (n1\<lparr>s_user_cb := Some f, s_user_cb_arg := 0\<rparr>) = Some (ESP_OK, n2)"
  shows "\<exists>m n'. app_start P S R K E A f eth n = Some (Inr m, n')"
proof -
  have "s_evt n2 \<noteq> None" using init_ok_evt [OF init] attach_keeps_evt [OF attach] by simp
  then show ?thesis
    using init attach
    by (simp add: app_start_def ESP_ERROR_CHECK_def net_stack_register_event_cb_def esp_smoltcp_wait_for_ip_def
        Let_def case_prod_unfold NET_IFACE_ETH_def NET_IFACE_MAX_def)
qed

text \<open>The event callback may take the lock, since callbacks run without it, and prints the octets of
  the address in their usual order.\<close>

lemma on_evt_got_ip:
  assumes "ifc < NET_IFACE_MAX" and "ifc < length (s_ifaces n)" and "enabled (iface ifc n)"
    and "smoltcp_iface_get_ipv4 S (smoltcp_handle (iface ifc n)) = from_le_bytes a b c d"
  shows "fst (on_evt S ifc GOT_IP n) = [LogGotIp ifc a b c d]"
  using assms by (simp add: on_evt_def net_stack_get_ipv4_def iface_query_answer from_le_bytes_def Let_def case_prod_unfold)

lemma on_evt_lock:
  assumes "lock_ready n"
  shows "lock_ready (snd (on_evt S ifc ev n))"
  using assms
  by (auto simp: on_evt_def net_stack_get_ipv4_def iface_query_def Let_def case_prod_unfold
      intro: locked_call_lock_ready surjective_pairing)

lemma install_error: "fst (install_ethernet I i) = Inl e \<Longrightarrow> e \<noteq> ESP_OK"
  by (auto simp: install_ethernet_def ESP_ERROR_CHECK_def Let_def case_prod_unfold split: if_splits)

text \<open>C30: The example application never gets an address. It creates the default event loop itself and
  \<open>esp_smoltcp_init\<close> creates it again, which ESP-IDF refuses: on every system the application is
  aborted by one of its \<open>ESP_ERROR_CHECK\<close>s before it registers its callback or attaches the driver,
  with no poll task; if NVS, the first event loop and the driver are fine, the error it dies of is
  \<open>ESP_ERR_INVALID_STATE\<close>.\<close>

theorem app_main_aborts:
  assumes I: "idf_system I loop_up nvs_up" and n: "\<not> s_inited n"
  shows "\<exists>e n'. app_main I P S R K E A f i n = Some (Inl e, n') \<and> e \<noteq> ESP_OK
    \<and> n' \<in> {n, n\<lparr>s_inited := True\<rparr>}
    \<and> (fst (idf_nvs_flash_init I i) = ESP_OK
       \<and> fst (idf_event_loop_create_default I (snd (idf_nvs_flash_init I i))) = ESP_OK
       \<and> \<not> isl (fst (install_ethernet I (snd (idf_event_loop_create_default I (snd (idf_nvs_flash_init I i))))))
       \<longrightarrow> e = ESP_ERR_INVALID_STATE)"
proof -
  define i1 where "i1 = snd (idf_nvs_flash_init I i)"
  define i2 where "i2 = snd (idf_event_loop_create_default I i1)"
  define i3 where "i3 = snd (install_ethernet I i2)"
  note steps = i1_def [symmetric] i2_def [symmetric] i3_def [symmetric]
  show ?thesis
  proof (cases "fst (idf_nvs_flash_init I i) = ESP_OK \<and> fst (idf_event_loop_create_default I i1) = ESP_OK \<and> \<not> isl (fst (install_ethernet I i2))")
    case True
    then have "loop_up i3" and "nvs_up i3"
      using idf_system.create [OF I, of i1] idf_system.nvs [OF I, of i] idf_system.nvs_stays(1) [OF I, of i1]
        idf_system.install_keeps [OF I, of i2]
      unfolding steps by simp_all
    then have "net_stack_init P (init_answers I E i3) n = Some (ESP_ERR_INVALID_STATE, n\<lparr>s_inited := True\<rparr>)"
      using n by (simp add: net_stack_init_def idf_system.init_answers_again [OF I])
    with True show ?thesis
      by (cases "fst (install_ethernet I i2)")
        (simp_all add: app_main_def app_start_def ESP_ERROR_CHECK_def Let_def case_prod_unfold steps)
  next
    case False
    then show ?thesis
      using install_error [of I i2]
      by (auto simp: app_main_def ESP_ERROR_CHECK_def Let_def case_prod_unfold steps isl_def)
  qed
qed

theorem app_main_aborts_witness:
  "\<exists>n'. app_main ref_idf ref_platform ref_smoltcp ref_rtos ref_config ref_init ref_attach 7 (False, False)
     (net_boot 2 ref_ext0) = Some (Inl ESP_ERR_INVALID_STATE, n')"
proof -
  have n: "\<not> s_inited (net_boot 2 ref_ext0 :: (ring, u32, ref_stack, ref_ext) net)" by (simp add: net_boot_def)
  from app_main_aborts [OF ref_idf.idf_system_axioms n, of ref_platform ref_smoltcp ref_rtos ref_config ref_init ref_attach 7 "(False, False)"]
  show ?thesis by (auto simp: ref_idf_def install_ethernet_def ESP_ERROR_CHECK_def)
qed

end
