(* ===== verification/Net_Types.thy ===== *)
theory Net_Types
  imports Glue_Types Net_Sock
begin

text \<open>
  Types of socket handles of the native API. A handle is good for a type when the id it encodes
  has this type in the context of its interface; the calls of \<open>esp_smoltcp_sock.c\<close> on good handles
  keep all contexts good and do not change what other handles stand for, however long they block
  and whatever the other tasks do meanwhile, as long as those play by the same rules. A round of
  the poll task comes to an end, keeps the contexts good and leaves the receive queues empty.
\<close>

section \<open>Good states and handles\<close>

abbreviation hnd :: "nat \<Rightarrow> ('q, 'g, 'c, 'e) net \<Rightarrow> 'c iface_ctx option" where
  "hnd i n \<equiv> smoltcp_handle (iface i n)"

definition net_good :: "'c smoltcp \<Rightarrow> ('q, 'g, 'c, 'e) net \<Rightarrow> bool" where
  "net_good S n \<longleftrightarrow> length (s_ifaces n) = NET_IFACE_MAX \<and> (\<forall>i < NET_IFACE_MAX. \<forall>ctx. hnd i n = Some ctx \<longrightarrow> enabled (iface i n) \<and> ctx_good S ctx)"

definition sock_good :: "'c smoltcp \<Rightarrow> sock_type \<Rightarrow> net_sock \<Rightarrow> ('q, 'g, 'c, 'e) net \<Rightarrow> bool" where
  "sock_good S t s n \<longleftrightarrow> (net_sock_valid s \<longrightarrow>
     IFACE s < NET_IFACE_MAX \<and> (\<exists>ctx. hnd (IFACE s) n = Some ctx \<and> id_good S t (LOCAL s) ctx))"

text \<open>How the state may evolve: an interface stays attached, the context of an attached one may
  appear, and a context that exists evolves as \<open>ctx_grows\<close> says.\<close>

definition net_grows :: "'c smoltcp \<Rightarrow> ('q, 'g, 'c, 'e) net \<Rightarrow> ('q, 'g, 'c, 'e) net \<Rightarrow> bool" where
  "net_grows S n n' \<longleftrightarrow> length (s_ifaces n') = length (s_ifaces n) \<and> (\<forall>i < NET_IFACE_MAX.
     (enabled (iface i n) \<longrightarrow> enabled (iface i n')) \<and>
     (case hnd i n of None \<Rightarrow> (\<forall>ctx'. hnd i n' = Some ctx' \<longrightarrow> enabled (iface i n') \<and> ctx_good S ctx')
     | Some ctx \<Rightarrow> (\<exists>ctx'. hnd i n' = Some ctx' \<and> ctx_grows S ctx ctx')))"

lemma net_grows_refl [simp, intro]: "net_grows S n n"
  by (simp add: net_grows_def split: option.split)

lemma net_grows_handles: "s_ifaces n' = s_ifaces n \<Longrightarrow> net_grows S n n'"
  by (simp add: net_grows_def iface_def split: option.split)

lemma net_growsD:
  assumes "net_grows S n n'" and "i < NET_IFACE_MAX"
  shows "hnd i n = Some ctx \<Longrightarrow> \<exists>ctx'. hnd i n' = Some ctx' \<and> ctx_grows S ctx ctx'"
    and "hnd i n = None \<Longrightarrow> hnd i n' = Some ctx' \<Longrightarrow> enabled (iface i n') \<and> ctx_good S ctx'"
    and "enabled (iface i n) \<Longrightarrow> enabled (iface i n')"
  using assms by (auto simp: net_grows_def split: option.splits)

lemma net_growsI:
  assumes "length (s_ifaces n') = length (s_ifaces n)"
    and "\<And>i. i < NET_IFACE_MAX \<Longrightarrow> enabled (iface i n) \<Longrightarrow> enabled (iface i n')"
    and "\<And>i ctx'. i < NET_IFACE_MAX \<Longrightarrow> hnd i n = None \<Longrightarrow> hnd i n' = Some ctx' \<Longrightarrow> enabled (iface i n') \<and> ctx_good S ctx'"
    and "\<And>i ctx. i < NET_IFACE_MAX \<Longrightarrow> hnd i n = Some ctx \<Longrightarrow> \<exists>ctx'. hnd i n' = Some ctx' \<and> ctx_grows S ctx ctx'"
  shows "net_grows S n n'"
  using assms by (auto simp: net_grows_def split: option.split)

lemma net_grows_trans:
  assumes a: "net_grows S n1 n2" and b: "net_grows S n2 n3"
  shows "net_grows S n1 n3"
proof (rule net_growsI)
  show "length (s_ifaces n3) = length (s_ifaces n1)" using assms by (simp add: net_grows_def)
  fix i assume i: "i < NET_IFACE_MAX"
  note A = net_growsD [OF a i] and B = net_growsD [OF b i]
  show "enabled (iface i n1) \<Longrightarrow> enabled (iface i n3)" using A(3) B(3) by simp
  show "\<exists>ctx'. hnd i n3 = Some ctx' \<and> ctx_grows S ctx ctx'" if "hnd i n1 = Some ctx" for ctx
    using A(1) [OF that] B(1) by (blast intro: ctx_grows_trans)
  show "enabled (iface i n3) \<and> ctx_good S ctx'" if "hnd i n1 = None" "hnd i n3 = Some ctx'" for ctx'
    using A(2) [OF that(1)] B that(2) by (cases "hnd i n2") (auto dest: ctx_good_grows)
qed

lemma net_good_grows:
  assumes "net_good S n" and "net_grows S n n'"
  shows "net_good S n'"
  unfolding net_good_def
proof (intro conjI allI impI)
  show "length (s_ifaces n') = NET_IFACE_MAX" using assms by (simp add: net_grows_def net_good_def)
  fix i ctx' assume i: "i < NET_IFACE_MAX" "hnd i n' = Some ctx'"
  have "enabled (iface i n') \<and> ctx_good S ctx'"
    using assms(1) i net_growsD [OF assms(2) i(1)] by (cases "hnd i n") (auto simp: net_good_def dest: ctx_good_grows)
  then show "enabled (iface i n')" "ctx_good S ctx'" by simp_all
qed

lemma sock_good_grows:
  assumes "net_good S n" and "sock_good S t s n" and "net_grows S n n'"
  shows "sock_good S t s n'"
  unfolding sock_good_def
proof
  assume "net_sock_valid s"
  with assms(2) obtain ctx where s: "IFACE s < NET_IFACE_MAX" "hnd (IFACE s) n = Some ctx" "id_good S t (LOCAL s) ctx"
    by (auto simp: sock_good_def)
  from net_growsD(1) [OF assms(3) s(1,2)] obtain ctx' where "hnd (IFACE s) n' = Some ctx'" "ctx_grows S ctx ctx'" by blast
  with s assms(1) show "IFACE s < NET_IFACE_MAX \<and> (\<exists>ctx. hnd (IFACE s) n' = Some ctx \<and> id_good S t (LOCAL s) ctx)"
    by (auto simp: net_good_def intro: id_good_grows)
qed

lemma sock_good_handles: "s_ifaces n' = s_ifaces n \<Longrightarrow> sock_good S t s n' = sock_good S t s n"
  by (simp add: sock_good_def iface_def)

lemma sock_good_0 [simp]: "sock_good S t NET_SOCK_INVALID n" "sock_good S t 0 n"
  by (simp_all add: sock_good_def net_sock_valid_def NET_SOCK_INVALID_def)

text \<open>A good handle is good for the core, also the invalid one.\<close>

lemma sock_good_core:
  assumes "net_good S n" and "sock_good S t s n" and "IFACE s < NET_IFACE_MAX"
  shows "h_good S t (LOCAL s) (hnd (IFACE s) n)"
proof (cases "net_sock_valid s")
  case True
  with assms show ?thesis by (auto simp: sock_good_def h_good_def net_good_def)
next
  case False
  then have "LOCAL s = 0" by (simp add: net_sock_valid_def LOCAL_def)
  with assms show ?thesis by (auto simp: h_good_def net_good_def id_good_0)
qed

lemma set_handle_grows:
  assumes n: "net_good S n" and i: "i < NET_IFACE_MAX" and h: "h_grows S (hnd i n) h"
  shows "net_grows S n (set_handle i h n)"
proof (rule net_growsI)
  have len: "i < length (s_ifaces n)" using n i by (simp add: net_good_def)
  show "length (s_ifaces (set_handle i h n)) = length (s_ifaces n)" by (simp add: set_handle_def upd_iface_def)
  fix j assume "j < NET_IFACE_MAX"
  have v: "hnd j (set_handle i h n) = (if j = i then h else hnd j n)" "enabled (iface j (set_handle i h n)) = enabled (iface j n)"
    using len by (auto simp: set_handle_def iface_def upd_iface_def nth_list_update)
  then show "enabled (iface j n) \<Longrightarrow> enabled (iface j (set_handle i h n))" by simp
  show "enabled (iface j (set_handle i h n)) \<and> ctx_good S ctx'" if "hnd j n = None" "hnd j (set_handle i h n) = Some ctx'" for ctx'
    using that h v by (auto simp: h_grows_def split: if_splits)
  show "\<exists>ctx'. hnd j (set_handle i h n) = Some ctx' \<and> ctx_grows S ctx ctx'" if "hnd j n = Some ctx" for ctx
    using that h v by (auto simp: h_grows_def split: option.splits)
qed

lemma locked_call_grows:
  assumes n: "net_good S n" and i: "i < NET_IFACE_MAX" and f: "h_grows S (hnd i n) (snd (f (hnd i n)))"
  shows "net_grows S n (snd (locked_call i f n))"
proof -
  have "s_ifaces (snd (locked_call i f n)) = s_ifaces (set_handle i (snd (f (hnd i n))) n)"
    by (simp add: locked_call_def Let_def case_prod_unfold lock_defs set_handle_def upd_iface_def iface_def)
  then show ?thesis using set_handle_grows [OF n i f] net_grows_handles net_grows_trans by blast
qed

lemma kick_grows [simp]: "net_grows S n (net_stack_kick_poll n)"
  by (rule net_grows_handles) (simp add: net_stack_kick_poll_def)

section \<open>Calls that do not block\<close>

context smoltcp_sockets
begin

lemma net_open_grows:
  assumes n: "net_good S n" and o: "net_open opn ifc n = (s, n')"
    and opn: "\<And>ctx k h'. opn (Some ctx) = (k, h') \<Longrightarrow>
      \<exists>ctx'. h' = Some ctx' \<and> ctx_grows S ctx ctx' \<and> (k \<noteq> 0 \<longrightarrow> ctx_good S ctx \<longrightarrow> id_good S t k ctx')"
  shows "net_grows S n n'" and "sock_good S t s n'"
proof -
  have "net_grows S n n' \<and> sock_good S t s n'"
  proof (cases "handle_for ifc n")
    case None
    with o show ?thesis by (auto simp: net_open_def)
  next
    case (Some i)
    note H = handle_for_SomeD [OF Some]
    then obtain ctx where i: "i = ifc" "ifc < NET_IFACE_MAX" and ctx: "hnd ifc n = Some ctx" by blast
    then have len: "ifc < length (s_ifaces n)" using n by (simp add: net_good_def)
    obtain k h' where k: "opn (Some ctx) = (k, h')" by force
    from opn [OF this] obtain ctx' where h': "h' = Some ctx'" and g: "ctx_grows S ctx ctx'"
      and idg: "k \<noteq> 0 \<longrightarrow> ctx_good S ctx \<longrightarrow> id_good S t k ctx'" by blast
    note L = locked_call_iface [OF len, of opn, unfolded ctx k]
    have n': "n' = snd (locked_call ifc opn n)" and s: "s = (if k \<noteq> 0 then sock_of ifc k else NET_SOCK_INVALID)"
      using o Some i L(2) by (auto simp: net_open_def Let_def case_prod_unfold)
    have "net_grows S n n'" unfolding n' by (rule locked_call_grows [OF n i(2)]) (simp add: ctx k h' h_grows_def g)
    moreover have "sock_good S t s n'"
    proof (cases "k = 0")
      case False
      have good: "id_good S t k ctx'" using idg False n i(2) ctx by (simp add: net_good_def)
      then have "unat k < 2 ^ 24" if "few ctx'" using that by (simp add: id_good_def id_typed_def few_def)
      then have "id_good S t (k AND 0x00FFFFFF) ctx'"
        using good local_mask [of k] unfolding id_good_def by metis
      moreover have "IFACE s = ifc" "LOCAL s = k AND 0x00FFFFFF"
        using False i(2) by (simp_all add: s sock_of_IFACE sock_of_LOCAL NET_IFACE_MAX_def)
      ultimately show ?thesis using i(2) L(1) n' h' by (simp add: sock_good_def)
    qed (simp add: s)
    ultimately show ?thesis ..
  qed
  then show "net_grows S n n'" "sock_good S t s n'" by simp_all
qed

lemma net_tcp_open_grows:
  "net_good S n \<Longrightarrow> net_tcp_open S ifc n = (s, n') \<Longrightarrow> net_grows S n n' \<and> sock_good S Tcp s n'"
  unfolding net_tcp_open_def using net_open_grows [of n "smoltcp_tcp_open S" ifc s n' Tcp] opens_grow(1) by blast

lemma net_udp_open_grows:
  "net_good S n \<Longrightarrow> net_udp_open S ifc port n = (s, n') \<Longrightarrow> net_grows S n n' \<and> sock_good S Udp s n'"
  unfolding net_udp_open_def using net_open_grows [of n "\<lambda>h. smoltcp_udp_open S h port" ifc s n' Udp] opens_grow(2) by blast

lemma on_sock_grows:
  assumes n: "net_good S n" and s: "sock_good S t s n"
    and f: "\<And>i k. h_good S t k (hnd i n) \<Longrightarrow> i < NET_IFACE_MAX \<Longrightarrow> net_grows S n (snd (f i k n))"
  shows "net_grows S n (snd (on_sock s err f n))"
proof (cases "handle_for (IFACE s) n")
  case None
  then show ?thesis by (simp add: on_sock_def)
next
  case (Some i)
  then have "i = IFACE s" "i < NET_IFACE_MAX" using handle_for_SomeD [OF Some] by simp_all
  with Some f [OF sock_good_core [OF n s]] show ?thesis by (simp add: on_sock_def)
qed

lemma tcp_calls_grow:
  assumes "net_good S n" and "sock_good S Tcp s n"
  shows "net_grows S n (snd (net_tcp_listen S s port n))" "net_grows S n (snd (net_tcp_close S s n))"
    "net_grows S n (snd (net_tcp_is_active S s n))" "net_grows S n (snd (net_tcp_is_connected S s n))"
    "net_grows S n (snd (net_tcp_recv_queue S s n))" "net_grows S n (snd (net_tcp_send_capacity S s n))"
  unfolding net_tcp_listen_def net_tcp_close_def net_tcp_is_active_def net_tcp_is_connected_def net_tcp_recv_queue_def
    net_tcp_send_capacity_def
  by (rule on_sock_grows [OF assms]; simp add: Let_def case_prod_unfold locked_call_grows [OF assms(1)] socket_calls_grow closes_grow)+

lemma udp_calls_grow:
  assumes "net_good S n" and "sock_good S Udp s n"
  shows "net_grows S n (snd (net_udp_sendto S s buf ip port n))" "net_grows S n (snd (net_udp_close S s n))"
  unfolding net_udp_sendto_def net_udp_close_def
  by (rule on_sock_grows [OF assms]; simp add: Let_def case_prod_unfold locked_call_grows [OF assms(1)] socket_calls_grow closes_grow
      net_grows_trans [OF locked_call_grows [OF assms(1)] kick_grows])+

lemma mcast_grow:
  assumes "net_good S n"
  shows "net_grows S n (snd (net_mcast_join S ifc g n))" "net_grows S n (snd (net_mcast_leave S ifc g n))"
  using assms
  by (auto simp: net_mcast_join_def net_mcast_leave_def net_mcast_def Let_def case_prod_unfold iface_calls_grow
      intro!: locked_call_grows dest: handle_for_SomeD split: option.split)

lemma get_ipv4_grows: "net_good S n \<Longrightarrow> net_grows S n (snd (net_stack_get_ipv4 S ifc n))"
  by (auto simp: net_stack_get_ipv4_def iface_query_def intro!: locked_call_grows)

end

section \<open>The steps of the stack\<close>

text \<open>What \<open>net_grows\<close> looks at; most operations leave it alone.\<close>

definition h_view :: "('q, 'g, 'c, 'e) net \<Rightarrow> (bool \<times> 'c iface_ctx option) list" where
  "h_view n = map (\<lambda>f. (enabled f, smoltcp_handle f)) (s_ifaces n)"

lemma h_view_iface:
  assumes "h_view n' = h_view n" and "i < length (s_ifaces n)"
  shows "enabled (iface i n') = enabled (iface i n)" "hnd i n' = hnd i n"
proof -
  have "length (s_ifaces n') = length (s_ifaces n)" using assms(1) by (auto simp: h_view_def dest: map_eq_imp_length_eq)
  moreover have "h_view n' ! i = h_view n ! i" by (simp add: assms(1))
  ultimately show "enabled (iface i n') = enabled (iface i n)" "hnd i n' = hnd i n"
    using assms(2) by (simp_all add: h_view_def iface_def)
qed

lemma h_view_grows:
  assumes "net_good S n" and "h_view n' = h_view n"
  shows "net_grows S n n'"
proof (rule net_growsI)
  show "length (s_ifaces n') = length (s_ifaces n)" using assms(2) by (auto simp: h_view_def dest: map_eq_imp_length_eq)
qed (use assms h_view_iface [OF assms(2)] in \<open>auto simp: net_good_def\<close>)

lemma grows_view: "net_good S n \<Longrightarrow> net_grows S n m \<Longrightarrow> h_view m' = h_view m \<Longrightarrow> net_grows S n m'"
  by (rule net_grows_trans [OF _ h_view_grows [OF net_good_grows]])

lemma h_view_upd [simp]: "(\<And>f. enabled (g f) = enabled f) \<Longrightarrow> (\<And>f. smoltcp_handle (g f) = smoltcp_handle f) \<Longrightarrow> h_view (upd_iface i g n) = h_view n"
  unfolding h_view_def by (rule map_upd_iface) simp

lemma h_view_simps [simp]:
  "h_view (SMOLTCP_LOCK n) = h_view n" "h_view (SMOLTCP_UNLOCK n) = h_view n" "h_view (core_call n) = h_view n"
  "h_view (invoke_cb c n) = h_view n" "h_view (net_frame_free P f n) = h_view n" "h_view (emit_event i evt n) = h_view n"
  "h_view (notify_task n) = h_view n" "h_view (n\<lparr>s_evt := e\<rparr>) = h_view n" "h_view (n\<lparr>s_progress_evt := e\<rparr>) = h_view n"
  "h_view (n\<lparr>s_task := t\<rparr>) = h_view n" "h_view (n\<lparr>ext := x\<rparr>) = h_view n" "h_view (n\<lparr>s_eth_handle := eh\<rparr>) = h_view n"
  "h_view (copy_frame k buf n) = h_view n" "h_view (snd (net_stack_l2_tap et cb user n)) = h_view n"
  "h_view (snd (net_stack_register_event_cb ucb u n)) = h_view n" "h_view (snd (dispatch_tap ifc fr n)) = h_view n"
  "h_view (net_stack_kick_poll n) = h_view n" "h_view (core_new n) = h_view n"
  by (simp_all add: h_view_def lock_defs emit_event_def invoke_cb_def notify_task_def copy_frame_def net_stack_l2_tap_def
      net_stack_register_event_cb_def dispatch_tap_def net_stack_kick_poll_def split: option.split prod.split)

lemma h_view_calls:
  "net_frame_alloc P k n = (r, n') \<Longrightarrow> h_view n' = h_view n"
  "net_stack_post_rx P ifc f n = Some n' \<Longrightarrow> h_view n' = h_view n"
  "rx_take P i n = Some (ro, n') \<Longrightarrow> h_view n' = h_view n"
  "ip_edge P i up n = Some n' \<Longrightarrow> h_view n' = h_view n"
proof -
  show "net_frame_alloc P k n = (r, n') \<Longrightarrow> h_view n' = h_view n"
    by (auto simp: net_frame_alloc_def h_view_def Let_def split: option.splits if_splits prod.splits)
qed (auto simp: net_stack_post_rx_def rx_take_def ip_edge_def Let_def split: option.splits if_splits prod.splits)

lemma tx_only_h_view:
  assumes "tx_only n n'" shows "h_view n' = h_view n"
proof -
  have m: "map strip_tx (s_ifaces n') = map strip_tx (s_ifaces n)" using assms by (simp add: tx_only_def)
  from arg_cong [OF m, of "map (\<lambda>f. (enabled f, smoltcp_handle f))"] show ?thesis by (simp add: h_view_def strip_tx_def comp_def)
qed

lemma task_sleep_h_view: "h_view (snd (task_sleep P S n)) = h_view n"
  using tx_only_h_view [OF next_deadline_tx_only [of "core_call (SMOLTCP_LOCK n)" P S "[0..<NET_IFACE_MAX]" INT64_MAX]]
  by (simp add: task_sleep_def Let_def case_prod_unfold)

context smoltcp_sockets
begin

lemma core_poll_grows:
  assumes n: "net_good S n" and i: "i < NET_IFACE_MAX" and p: "core_poll P S i n = Some n'"
  shows "net_grows S n n'"
proof (cases "hnd i n")
  case None
  with p show ?thesis by (simp add: core_poll_def)
next
  case (Some ctx)
  obtain now n1 where now: "smoltcp_glue_now_us P n = (now, n1)" by force
  have t1: "tx_only n n1" using now_us_tx_only [of n P] now by simp
  have v1: "h_view n1 = h_view n" using t1 by (rule tx_only_h_view)
  have len: "i < length (s_ifaces n)" using n i by (simp add: net_good_def)
  have c1: "hnd i n1 = Some ctx" using h_view_iface(2) [OF v1 len] Some by simp
  from p Some now c1 obtain h m n2 where poll: "smoltcp_iface_poll S (smoltcp_glue_tx_cb P) now (Some ctx) (tx_free_mask n1) n1 = Some (h, m, n2)"
    and n': "n' = set_handle i h (n2\<lparr>tx_free_mask := m\<rparr>)"
    by (auto simp: core_poll_def split: option.splits)
  from poll obtain c d where run: "run_device (smoltcp_glue_tx_cb P) (sm_poll S now (ctx_stack ctx)) (ctx_dev ctx) (tx_free_mask n1) n1 = Some (c, d, m, n2)"
    by (auto simp: smoltcp_iface_poll_def ctx_poll_def split: option.splits)
  have "tx_only n n2" by (rule run_device_inv [where Q = "tx_only n", OF _ run t1]) (rule tx_only_trans [OF _ tx_cb_tx_only])
  then have v2: "h_view (n2\<lparr>tx_free_mask := m\<rparr>) = h_view n" using tx_only_h_view [of n n2] by (simp add: h_view_def)
  note g2 = h_view_grows [OF n v2]
  have "h_grows S (hnd i (n2\<lparr>tx_free_mask := m\<rparr>)) h"
    using iface_calls_grow(6) [OF poll] h_view_iface(2) [OF v2 len] Some by simp
  then have "net_grows S (n2\<lparr>tx_free_mask := m\<rparr>) n'" unfolding n' by (rule set_handle_grows [OF net_good_grows [OF n g2] i])
  with g2 show ?thesis by (rule net_grows_trans)
qed

lemma poll_run_grows:
  assumes n: "net_good S n" and i: "i < NET_IFACE_MAX" and p: "poll_run P S i n = Some n'"
  shows "net_grows S n n'"
proof -
  have v: "h_view (core_call (SMOLTCP_LOCK n)) = h_view n" by simp
  note g0 = h_view_grows [OF n v]
  from p obtain n1 where n1: "core_poll P S i (core_call (SMOLTCP_LOCK n)) = Some n1"
    and "h_view n' = h_view n1"
    by (auto simp: poll_run_def Let_def dest!: h_view_calls(4) split: option.splits)
  then show ?thesis using grows_view [OF n net_grows_trans [OF g0 core_poll_grows [OF net_good_grows [OF n g0] i n1]]] by blast
qed

lemma rx_deliver_grows:
  assumes n: "net_good S n"
  shows "net_grows S n (net_frame_free P (Some f) (rx_deliver i f n))"
proof -
  have g: "net_grows S n (snd (dispatch_tap ifc fr n))" for ifc fr by (rule h_view_grows [OF n]) simp
  have "net_grows S m (snd (locked_call i (\<lambda>h. ((), smoltcp_iface_rx h r)) m))" if m: "net_good S m" for m r
  proof (cases "i < NET_IFACE_MAX")
    case True
    then show ?thesis by (rule locked_call_grows [OF m]) (simp add: iface_calls_grow)
  next
    case False
    then show ?thesis
      using m by (intro net_grows_handles)
        (simp add: locked_call_def lock_defs set_handle_def upd_iface_def net_good_def list_update_beyond)
  qed
  then have "net_grows S n (snd (locked_call i (\<lambda>h. ((), smoltcp_iface_rx h r)) (snd (dispatch_tap ifc fr n))))" for ifc fr r
    using net_grows_trans [OF g] net_good_grows [OF n g] by blast
  with g have "net_grows S n (rx_deliver i f n)"
    by (cases "fst (dispatch_tap (iface_id (iface i n)) (s_frame_pool n ! f) n)") (simp_all add: rx_deliver_def Let_def case_prod_unfold)
  then show ?thesis by (rule grows_view [OF n]) simp
qed

lemma link_event_grows:
  assumes n: "net_good S n" shows "net_grows S n (net_stack_link_event i up n)"
proof (cases "i < NET_IFACE_MAX")
  case True
  let ?n2 = "(if up then upd_iface i (\<lambda>f. f\<lparr>link_ups := link_ups f + 1\<rparr>) else upd_iface i (\<lambda>f. f\<lparr>link_downs := link_downs f + 1\<rparr>))
    (upd_iface i (\<lambda>f. f\<lparr>link_up := up\<rparr>) n)"
  have v: "h_view ?n2 = h_view n" by simp
  note g = h_view_grows [OF n v]
  let ?n3 = "if lock_created ?n2 then snd (locked_call i (\<lambda>h. ((), smoltcp_iface_set_link_up h up)) ?n2) else ?n2"
  have "net_grows S ?n2 (snd (locked_call i (\<lambda>h. ((), smoltcp_iface_set_link_up h up)) ?n2))"
    by (rule locked_call_grows [OF net_good_grows [OF n g] True]) (simp add: iface_calls_grow)
  then have g3: "net_grows S n ?n3" using g by (auto intro: net_grows_trans)
  have "net_stack_link_event i up n = notify_task (emit_event i (if up then IFACE_UP else IFACE_DOWN) ?n3)"
    using True by (simp add: net_stack_link_event_def Let_def)
  then show ?thesis by (intro grows_view [OF n g3]) simp
qed (simp add: net_stack_link_event_def)

lemma start_ip_grows:
  assumes n: "net_good S n" and i: "i < NET_IFACE_MAX" and s: "start_ip S K i n = Some n'"
  shows "net_grows S n n'"
proof (cases "cfg_dhcpv4_client K")
  case True
  with s show ?thesis by (auto simp: start_ip_def enable_dhcp_grows intro!: locked_call_grows [OF n i])
next
  case False
  let ?n1 = "core_call (SMOLTCP_LOCK n)"
  have v: "h_view ?n1 = h_view n" by simp
  note g = h_view_grows [OF n v]
  from False s obtain ip gw h where st: "smoltcp_iface_set_static S (hnd i ?n1) ip 24 gw = Some h" and n': "n' = SMOLTCP_UNLOCK (set_handle i h ?n1)"
    by (auto simp: start_ip_def Let_def split: option.splits)
  note g1 = set_handle_grows [OF net_good_grows [OF n g] i iface_calls_grow(3) [OF st]]
  have v': "h_view n' = h_view (set_handle i h ?n1)" by (simp add: n')
  show ?thesis by (rule grows_view [OF n net_grows_trans [OF g g1] v'])
qed

lemma attach_grows:
  assumes n: "net_good S n" and a: "esp_smoltcp_attach_eth P S K A h n = Some (r, n')"
  shows "net_grows S n n'"
proof (cases "h = None \<or> enabled (iface NET_IFACE_ETH n)")
  case True
  with a show ?thesis by (auto simp: esp_smoltcp_attach_eth_def split: if_splits)
next
  case False
  have E: "NET_IFACE_ETH < NET_IFACE_MAX" by (simp add: NET_IFACE_ETH_def NET_IFACE_MAX_def)
  then have none: "hnd NET_IFACE_ETH n = None" using n False by (cases "hnd NET_IFACE_ETH n") (simp_all add: net_good_def)
  have len: "NET_IFACE_ETH < length (s_ifaces n)" using n E by (simp add: net_good_def)
  let ?n1 = "upd_iface NET_IFACE_ETH (\<lambda>f. f\<lparr>enabled := True, l2_tx := Some Eth_tx, mac := snd (got_mac A)\<rparr>) (n\<lparr>s_eth_handle := h\<rparr>)"
  have v1: "hnd j ?n1 = hnd j n" "enabled (iface j ?n1) = (j = NET_IFACE_ETH \<or> enabled (iface j n))" for j
    using len by (auto simp: iface_def upd_iface_def nth_list_update)
  have g1: "net_grows S n ?n1"
    by (rule net_growsI) (use v1 in \<open>auto simp: upd_iface_def\<close>)
  obtain now n2 where now: "smoltcp_glue_now_us P ?n1 = (now, n2)" by force
  have v2: "h_view n2 = h_view ?n1" using tx_only_h_view [OF now_us_tx_only [of ?n1 P]] now by simp
  have g2: "net_grows S n n2" by (rule grows_view [OF n g1 v2])
  have l2: "NET_IFACE_ETH < length (s_ifaces n2)" using g2 len by (simp add: net_grows_def)
  let ?h = "smoltcp_iface_new S (of_nat NET_IFACE_ETH) (Some (mac (iface NET_IFACE_ETH n2))) now"
  let ?n3 = "set_handle NET_IFACE_ETH ?h (core_new n2)"
  let ?n4 = "?n3\<lparr>ext := esp_eth_start P h (ext ?n3)\<rparr>"
  have v3: "hnd j ?n3 = (if j = NET_IFACE_ETH then ?h else hnd j n2)" "enabled (iface j ?n3) = enabled (iface j n2)" for j
    using l2 by (auto simp: iface_def set_handle_def upd_iface_def nth_list_update)
  have e2: "hnd NET_IFACE_ETH n2 = None" "enabled (iface NET_IFACE_ETH n2)"
    using h_view_iface [OF v2, of NET_IFACE_ETH] len v1 none by (simp_all add: upd_iface_def)
  have "net_grows S n2 ?n3"
  proof (rule net_growsI)
    show "length (s_ifaces ?n3) = length (s_ifaces n2)" by (simp add: set_handle_def upd_iface_def)
  qed (use v3 e2 in \<open>auto simp: smoltcp_iface_new_def ctx_new_good split: if_splits\<close>)
  then have g4: "net_grows S n ?n4" by (intro grows_view [OF n net_grows_trans [OF g2]]) simp_all
  have g5: "net_grows S n n5" if "start_ip S K NET_IFACE_ETH ?n4 = Some n5" for n5
    by (rule net_grows_trans [OF g4 start_ip_grows [OF net_good_grows [OF n g4] E that]])
  have "net_grows S n (notify_task (case cfg_ptp K of None \<Rightarrow> n5 | Some f \<Rightarrow> snd (ptp_start f n5)))"
    if "start_ip S K NET_IFACE_ETH ?n4 = Some n5" for n5
    by (rule grows_view [OF n g5 [OF that]]) (simp add: ptp_start_def split: option.split)
  with a False g1 show ?thesis
    unfolding esp_smoltcp_attach_eth_def Let_def now prod.case by (auto split: if_splits option.splits)
qed

text \<open>Every step of the poll task, the driver and the application other than a socket call.\<close>

lemma net_step_grows:
  assumes "net_step P S K s a s'" and "net_good S (sys_net s)" and "a \<notin> range Api"
  shows "net_grows S (sys_net s) (sys_net s')"
  using assms
proof (induction rule: net_step.induct)
  case (rx_some buf n f n' p)
  then show ?case by (simp add: h_view_grows h_view_calls(1))
qed (auto intro: rx_deliver_grows link_event_grows attach_grows poll_run_grows h_view_grows task_sleep_h_view
    tx_only_h_view [OF l2_send_tx_only] dest: h_view_calls)

lemma run_good:
  "net_run P S K s as s' \<Longrightarrow> net_good S (sys_net s) \<Longrightarrow> set as \<inter> range Api = {} \<Longrightarrow> net_good S (sys_net s')"
proof (induction rule: net_run.induct)
  case (run_snoc s as s1 a s2)
  then have "net_good S (sys_net s1)" and "a \<notin> range Api" by auto
  then show ?case using net_step_grows [OF run_snoc.hyps(2)] net_good_grows by blast
qed simp

end

section \<open>A round of the poll task\<close>

lemma poll_acts_no_api: "set as \<subseteq> poll_acts \<Longrightarrow> set as \<inter> range Api = {}"
  by (auto simp: poll_acts_def)

text \<open>C5: A round of the poll task always comes to an end. From every reachable state in which the
  task is between two rounds, the driver with or without a frame in its hands, and for any smoltcp
  whose frames are no longer than the MTU of the device: the drain loops terminate, no call fails,
  the receive queues of the enabled interfaces are empty afterwards, the task asks for a sleep of
  at least one tick, and the whole round is a sequence of steps of the poll task in the state machine
  (the driver does not run during the round: it could refill the queue for ever). When the contexts
  were well typed at the start of the round, as they are in every state the API and the socket shim
  reach, they are so at its end: no access to the socket set has panicked.\<close>

theorem poll_round_completes:
  assumes "net_events P contents capacity bits" and "booted P contents capacity bits N n"
    and "net_run P S K (idle n) as s" and "poll_hold s = None" and "\<And>t c. frames_fit (sm_poll S t c)"
    and "smoltcp_sockets S" and "net_good S (sys_net s)"
  shows "\<exists>w n2 bs. task_round P S (sys_net s) = Some (w, n2) \<and> w \<noteq> 0
    \<and> (\<forall>i < NET_IFACE_MAX. enabled (iface i (sys_net s)) \<longrightarrow> rx_list contents i n2 = [])
    \<and> net_run P S K s bs \<lparr>sys_net = n2, drv_hold = drv_hold s, poll_hold = None\<rparr> \<and> set bs \<subseteq> poll_acts \<and> net_good S n2
    \<and> (\<forall>i < NET_IFACE_MAX. \<forall>ctx. smoltcp_handle (iface i n2) = Some ctx \<longrightarrow> ctx_opened ctx < 2 ^ 24 \<longrightarrow> \<not> ctx_panic ctx)"
proof -
  let ?d = "drv_hold s" and ?n = "sys_net s"
  note s = between_eq [OF assms(4)]
  have ok: "stack_ok contents capacity bits N (between ?d ?n)"
    using net_events.run_stack_ok [OF assms(1,3) net_events.booted_stack_ok(1) [OF assms(1,2)]] s by simp
  obtain w n2 bs where R: "task_round P S ?n = Some (w, n2)" "w \<noteq> 0"
    "\<forall>i < NET_IFACE_MAX. enabled (iface i ?n) \<longrightarrow> rx_list contents i n2 = []"
    "net_run P S K (between ?d ?n) bs (between ?d n2)" "set bs \<subseteq> poll_acts"
    using net_events.task_round_returns [OF assms(1,5) ok] by blast
  have "net_good S n2"
    using smoltcp_sockets.run_good [OF assms(6) R(4)] assms(7) poll_acts_no_api [OF R(5)] by simp
  moreover from this have "\<forall>i < NET_IFACE_MAX. \<forall>ctx. smoltcp_handle (iface i n2) = Some ctx \<longrightarrow> ctx_opened ctx < 2 ^ 24 \<longrightarrow> \<not> ctx_panic ctx"
    by (auto simp: net_good_def ctx_good_def few_def ctx_typed_def)
  ultimately show ?thesis using R s by (metis between_def)
qed

lemma ref_booted_good: "net_good ref_smoltcp ref_booted"
proof -
  have "length (s_ifaces ref_booted) = NET_IFACE_MAX"
    using ref_evt.stack_okD(1) [OF ref_evt.booted_stack_ok(1) [OF ref_booted]] by simp
  moreover have "smoltcp_handle (iface i ref_booted) = None" if "i < NET_IFACE_MAX" for i
    by (rule ref_booted_handles(1) [OF that])
  ultimately show ?thesis by (simp add: net_good_def)
qed

theorem poll_round_completes_witness:
  "\<exists>n1 w n2. enabled (iface NET_IFACE_ETH n1) \<and> task_round ref_platform ref_smoltcp n1 = Some (w, n2) \<and> w \<noteq> 0
    \<and> rx_list ring_contents NET_IFACE_ETH n2 = []"
proof -
  have fit: "frames_fit (sm_poll ref_smoltcp t c)" for t c by (simp add: ref_smoltcp_def)
  obtain n1 where n1: "net_run ref_platform ref_smoltcp ref_config (idle ref_booted) [Attach] (idle n1)"
    "enabled (iface NET_IFACE_ETH n1)" using ref_attached by blast
  have "net_good ref_smoltcp (sys_net (idle n1))"
    by (rule ref_socks.run_good [OF n1(1)]) (use ref_booted_good in auto)
  from poll_round_completes [OF ref_evt.net_events_axioms ref_booted n1(1) _ fit ref_socks.smoltcp_sockets_axioms this] n1(2) show ?thesis
    using iface_consts(1) by (metis idle_simps(1,3))
qed

end
