(* ===== verification/Net_Ids.thy ===== *)
theory Net_Ids
  imports Net_Types
begin

text \<open>
  The sockets that exist in the Rust core, as the C side can name them: an interface with an id
  of its context's table. Opening a socket adds its name, closing removes it, and no other call
  of the native API and no step of the driver, the poll task or the application touches the
  tables. Sockets are followed until \<open>2^24\<close> ids were handed out on their interface.
\<close>

section \<open>The tables of ids\<close>

definition ids_of :: "'c iface_ctx option \<Rightarrow> nat \<times> (u32 \<times> nat) list" where
  "ids_of h = (case h of None \<Rightarrow> (0, []) | Some ctx \<Rightarrow> (ctx_opened ctx, ctx_handles ctx))"

definition ids_view :: "('q, 'g, 'c, 'e) net \<Rightarrow> (nat \<times> (u32 \<times> nat) list) list" where
  "ids_view n = map (\<lambda>f. ids_of (smoltcp_handle f)) (s_ifaces n)"

definition core_socks :: "('q, 'g, 'c, 'e) net \<Rightarrow> (nat \<times> u32) set" where
  "core_socks n = {(i, k). i < NET_IFACE_MAX \<and> (\<exists>ctx. hnd i n = Some ctx \<and> few ctx \<and> ctx_lookup k ctx \<noteq> None)}"

lemma ids_view_length: "ids_view n' = ids_view n \<Longrightarrow> length (s_ifaces n') = length (s_ifaces n)"
  by (auto simp: ids_view_def dest: map_eq_imp_length_eq)

lemma core_socks_iff:
  assumes "i < length (s_ifaces n)"
  shows "(i, k) \<in> core_socks n \<longleftrightarrow> i < NET_IFACE_MAX \<and> fst (ids_view n ! i) < 2 ^ 24 \<and> map_of (snd (ids_view n ! i)) k \<noteq> None"
  using assms by (auto simp: core_socks_def ids_view_def ids_of_def iface_def few_def ctx_lookup_def split: option.splits)

lemma core_socks_view:
  assumes "ids_view n' = ids_view n" and "length (s_ifaces n) = NET_IFACE_MAX"
  shows "core_socks n' = core_socks n"
proof -
  have "(i, k) \<in> core_socks n' \<longleftrightarrow> (i, k) \<in> core_socks n" for i k
  proof (cases "i < NET_IFACE_MAX")
    case True
    then show ?thesis using core_socks_iff [of i n'] core_socks_iff [of i n] assms ids_view_length [OF assms(1)] by simp
  next
    case False
    then show ?thesis by (simp add: core_socks_def)
  qed
  then show ?thesis by (auto simp: set_eq_iff)
qed

lemma ids_view_h_view: "h_view n' = h_view n \<Longrightarrow> ids_view n' = ids_view n"
proof -
  assume "h_view n' = h_view n"
  then have "map (\<lambda>p. ids_of (snd p)) (h_view n') = map (\<lambda>p. ids_of (snd p)) (h_view n)" by simp
  then show ?thesis by (simp add: h_view_def ids_view_def comp_def)
qed

lemma ids_view_ifaces: "s_ifaces n' = s_ifaces n \<Longrightarrow> ids_view n' = ids_view n"
  by (simp add: ids_view_def)

lemma ids_set_handle:
  assumes "ids_of h = ids_of (hnd i n)"
  shows "ids_view (set_handle i h n) = ids_view n"
proof -
  have "ids_view (set_handle i h n) = (ids_view n)[i := ids_of h]"
    by (simp add: ids_view_def set_handle_def upd_iface_def map_update)
  also have "\<dots> = ids_view n"
    using assms by (cases "i < length (s_ifaces n)") (simp_all add: ids_view_def iface_def list_update_beyond not_less list_update_same_conv)
  finally show ?thesis .
qed

lemma ids_locked:
  assumes "ids_of (snd (f (hnd i n))) = ids_of (hnd i n)"
  shows "ids_view (snd (locked_call i f n)) = ids_view n"
proof -
  have "s_ifaces (snd (locked_call i f n)) = s_ifaces (set_handle i (snd (f (hnd i n))) n)"
    by (simp add: locked_call_def Let_def case_prod_unfold lock_defs set_handle_def upd_iface_def iface_def)
  then show ?thesis using ids_set_handle [of "snd (f (hnd i n))" i n] assms by (simp add: ids_view_def)
qed

section \<open>Calls that leave the tables alone\<close>

lemma ids_of_simps [simp]: "ids_of None = (0, [])" "ids_of (Some ctx) = (ctx_opened ctx, ctx_handles ctx)"
  by (simp_all add: ids_of_def)

lemma ids_with_socket [simp]: "ids_of (snd (with_socket S t h k err f)) = ids_of h"
  by (auto simp: with_socket_def case_prod_unfold Let_def split: option.split)

lemma ids_dhcp_step [simp]: "ctx_opened (dhcp_step S ctx) = ctx_opened ctx"
  by (auto simp: dhcp_step_def Let_def split: option.splits prod.splits dhcp_event.splits)

lemma ids_socket_calls [simp]:
  "ids_of (snd (smoltcp_tcp_connect S r h k d p l)) = ids_of h" "ids_of (snd (smoltcp_tcp_listen S h k p)) = ids_of h"
  "ids_of (snd (smoltcp_tcp_send S h k buf)) = ids_of h" "ids_of (snd (smoltcp_tcp_recv S h k cap)) = ids_of h"
  "ids_of (snd (smoltcp_tcp_is_active S h k)) = ids_of h" "ids_of (snd (smoltcp_tcp_is_connected S h k)) = ids_of h"
  "ids_of (snd (smoltcp_tcp_recv_queue S h k)) = ids_of h" "ids_of (snd (smoltcp_tcp_send_capacity S h k)) = ids_of h"
  "ids_of (snd (smoltcp_udp_sendto S h k buf d p)) = ids_of h" "ids_of (snd (smoltcp_udp_recvfrom S h k cap)) = ids_of h"
  by (simp_all add: smoltcp_tcp_connect_def smoltcp_tcp_listen_def smoltcp_tcp_send_def smoltcp_tcp_recv_def
      smoltcp_tcp_is_active_def smoltcp_tcp_is_connected_def smoltcp_tcp_recv_queue_def smoltcp_tcp_send_capacity_def
      smoltcp_udp_sendto_def smoltcp_udp_recvfrom_def split: option.split)

lemma ids_iface_calls [simp]:
  "ids_of (smoltcp_iface_rx h f) = ids_of h" "ids_of (smoltcp_iface_set_link_up h up) = ids_of h"
  "ids_of (snd (smoltcp_iface_mcast_join S h g)) = ids_of h" "ids_of (snd (smoltcp_iface_mcast_leave S h g)) = ids_of h"
  "ids_of (smoltcp_iface_enable_dhcp S h) = ids_of h" "ids_of (smoltcp_iface_new S i m now) = (0, [])"
  by (cases h; auto simp: smoltcp_iface_rx_def smoltcp_iface_set_link_up_def smoltcp_iface_mcast_join_def smoltcp_iface_mcast_leave_def
      smoltcp_iface_mcast_def smoltcp_iface_enable_dhcp_def case_prod_unfold Let_def split: option.split)+
    (cases m; simp add: smoltcp_iface_new_def ctx_new_def Let_def)

lemma ids_partial_calls:
  "smoltcp_iface_set_static S h ip len gw = Some h' \<Longrightarrow> ids_of h' = ids_of h"
  "smoltcp_iface_poll S cb now h m w = Some (h', m', w') \<Longrightarrow> ids_of h' = ids_of h"
  by (auto simp: smoltcp_iface_set_static_def smoltcp_iface_poll_def ctx_poll_def Let_def split: option.splits if_splits prod.splits)

lemma ids_kick [simp]: "ids_view (net_stack_kick_poll n) = ids_view n"
  by (rule ids_view_h_view) simp

lemma ids_on_sock: "(\<And>i k. ids_view (snd (f i k n)) = ids_view n) \<Longrightarrow> ids_view (snd (on_sock s err f n)) = ids_view n"
  by (simp add: on_sock_def split: option.split)

lemma ids_native_calls [simp]:
  "ids_view (snd (net_tcp_listen S s port n)) = ids_view n" "ids_view (snd (net_tcp_is_active S s n)) = ids_view n"
  "ids_view (snd (net_tcp_is_connected S s n)) = ids_view n" "ids_view (snd (net_tcp_recv_queue S s n)) = ids_view n"
  "ids_view (snd (net_tcp_send_capacity S s n)) = ids_view n" "ids_view (snd (net_udp_sendto S s buf ip port' n)) = ids_view n"
  unfolding net_tcp_listen_def net_tcp_is_active_def net_tcp_is_connected_def net_tcp_recv_queue_def net_tcp_send_capacity_def
    net_udp_sendto_def
  by (rule ids_on_sock; simp add: case_prod_unfold Let_def ids_locked)+

lemma ids_iface_queries [simp]:
  "ids_view (snd (net_mcast_join S ifc g n)) = ids_view n" "ids_view (snd (net_mcast_leave S ifc g n)) = ids_view n"
  "ids_view (snd (net_stack_get_ipv4 S ifc n)) = ids_view n"
  by (simp_all add: net_mcast_join_def net_mcast_leave_def net_mcast_def net_stack_get_ipv4_def iface_query_def
      case_prod_unfold Let_def ids_locked split: option.split)

section \<open>Opening and closing\<close>

lemma core_socks_locked:
  assumes "i < length (s_ifaces n)" and "i < NET_IFACE_MAX"
  shows "core_socks (snd (locked_call i f n)) =
    {(j, k) \<in> core_socks n. j \<noteq> i} \<union> {(i, k) | k ctx. snd (f (hnd i n)) = Some ctx \<and> few ctx \<and> ctx_lookup k ctx \<noteq> None}"
proof -
  have "hnd j (snd (locked_call i f n)) = (if j = i then snd (f (hnd i n)) else hnd j n)" for j
    using assms(1) by (auto simp: locked_call_def Let_def case_prod_unfold lock_defs set_handle_def upd_iface_def iface_def nth_list_update)
  then show ?thesis using assms(2) by (auto simp: core_socks_def split: if_splits)
qed

text \<open>An interface without a context for the C side has no sockets.\<close>

lemma handle_for_None:
  assumes "net_good S n" and "handle_for i n = None"
  shows "(i, k) \<notin> core_socks n"
  using assms by (auto simp: handle_for_def net_iface_get_def net_good_def core_socks_def split: if_splits)

lemma close_core:
  assumes "socket_close S t cl (Some ctx) k = Some ctx'"
  shows "few ctx' = few ctx" and "ctx_lookup j ctx' = (if j = k then None else ctx_lookup j ctx)"
  using assms socket_close_lookup [OF assms] by (auto simp: socket_close_def few_def split: option.splits)

lemma net_close_socks:
  assumes n: "net_good S n"
  shows "core_socks (snd (net_tcp_close S s n)) \<subseteq> core_socks n - {(IFACE s, LOCAL s)}"
    and "core_socks (snd (net_udp_close S s n)) \<subseteq> core_socks n - {(IFACE s, LOCAL s)}"
proof -
  have C: "core_socks (snd (on_sock s ESP_ERR_INVALID_ARG (\<lambda>i k n. locked_call i (\<lambda>h. (ESP_OK, socket_close S t cl h k)) n) n))
      \<subseteq> core_socks n - {(IFACE s, LOCAL s)}" for t cl
  proof (cases "handle_for (IFACE s) n")
    case None
    with handle_for_None [OF n None] show ?thesis by (auto simp: on_sock_def)
  next
    case (Some i)
    note H = handle_for_SomeD [OF Some]
    then have i: "i = IFACE s" "IFACE s < NET_IFACE_MAX" "IFACE s < length (s_ifaces n)" using n by (simp_all add: net_good_def)
    obtain ctx where ctx: "hnd (IFACE s) n = Some ctx" using H by blast
    obtain ctx' where cl: "socket_close S t cl (Some ctx) (LOCAL s) = Some ctx'"
      by (cases "ctx_lookup (LOCAL s) ctx") (auto simp: socket_close_def)
    have "core_socks (snd (locked_call (IFACE s) (\<lambda>h. (ESP_OK, socket_close S t cl h (LOCAL s))) n)) =
        {(j, k) \<in> core_socks n. j \<noteq> IFACE s} \<union> {(IFACE s, k) | k. few ctx \<and> k \<noteq> LOCAL s \<and> ctx_lookup k ctx \<noteq> None}"
      using core_socks_locked [OF i(3,2)] ctx cl close_core [OF cl] by (auto split: if_splits)
    with Some i ctx show ?thesis by (auto simp: on_sock_def core_socks_def)
  qed
  show "core_socks (snd (net_tcp_close S s n)) \<subseteq> core_socks n - {(IFACE s, LOCAL s)}"
    "core_socks (snd (net_udp_close S s n)) \<subseteq> core_socks n - {(IFACE s, LOCAL s)}"
    using C [of Tcp "sm_tcp_close S"] C [of Udp "sm_udp_close S"]
    by (simp_all add: net_tcp_close_def net_udp_close_def smoltcp_tcp_close_def smoltcp_udp_close_def)
qed

lemma open_core:
  assumes "alloc_id sh (ctx\<lparr>ctx_stack := c\<rparr>) = (k, ctx')" and "ctx_good S ctx" and "few ctx'"
  shows "few ctx" and "k \<noteq> 0" and "unat k < 2 ^ 24" and "ctx_lookup j ctx' \<noteq> None \<longleftrightarrow> j = k \<or> ctx_lookup j ctx \<noteq> None"
proof -
  have c': "ctx_opened ctx' = Suc (ctx_opened ctx)" and k: "k = ctx_next_id ctx" using assms(1) by (auto simp: alloc_id_def)
  then show f: "few ctx" using assms(3) by (simp add: few_def)
  then have "unat k = ctx_opened ctx + 1" using assms(2) k by (simp add: ctx_good_def ctx_typed_def)
  with assms(3) c' show "k \<noteq> 0" "unat k < 2 ^ 24" by (auto simp: few_def)
  show "ctx_lookup j ctx' \<noteq> None \<longleftrightarrow> j = k \<or> ctx_lookup j ctx \<noteq> None"
    using assms(1) by (auto simp: alloc_id_def ctx_lookup_def update_conv')
qed

lemma net_open_socks:
  assumes n: "net_good S n" and o: "net_open opn ifc n = (s, n')"
    and opn: "\<And>ctx k h. opn (Some ctx) = (k, h) \<Longrightarrow>
      k = 0 \<and> h = Some ctx \<or> (\<exists>sh c ctx'. alloc_id sh (ctx\<lparr>ctx_stack := c\<rparr>) = (k, ctx') \<and> h = Some ctx')"
  shows "core_socks n' \<subseteq> core_socks n \<union> (if net_sock_valid s then {(IFACE s, LOCAL s)} else {})"
proof (cases "handle_for ifc n")
  case None
  with o show ?thesis by (auto simp: net_open_def)
next
  case (Some i)
  note H = handle_for_SomeD [OF Some]
  then have i: "i = ifc" "ifc < NET_IFACE_MAX" "ifc < length (s_ifaces n)" using n by (simp_all add: net_good_def)
  obtain ctx where ctx: "hnd ifc n = Some ctx" using H by blast
  have good: "ctx_good S ctx" using n i(2) ctx by (simp add: net_good_def)
  obtain k h where k: "opn (Some ctx) = (k, h)" by force
  have n': "n' = snd (locked_call ifc opn n)" and s: "s = (if k \<noteq> 0 then sock_of ifc k else NET_SOCK_INVALID)"
    using o Some i locked_call_iface(2) [OF i(3), of opn, unfolded ctx k] by (auto simp: net_open_def Let_def case_prod_unfold)
  note core = core_socks_locked [OF i(3,2), of opn, unfolded ctx k snd_conv, folded n']
  from opn [OF k] show ?thesis
  proof (elim disjE exE conjE)
    assume "k = 0" "h = Some ctx"
    with core ctx i(2) show ?thesis by (auto simp: core_socks_def)
  next
    fix sh c ctx' assume a: "alloc_id sh (ctx\<lparr>ctx_stack := c\<rparr>) = (k, ctx')" and h: "h = Some ctx'"
    have name: "net_sock_valid s \<and> (IFACE s, LOCAL s) = (ifc, k)" if "few ctx'"
    proof -
      note O = open_core [OF a good that]
      have "IFACE s = ifc" "LOCAL s = k" using s O i(2) by (simp_all add: sock_of_IFACE sock_of_LOCAL local_mask NET_IFACE_MAX_def)
      then show ?thesis using O(2) by (auto simp: net_sock_valid_def LOCAL_def)
    qed
    show ?thesis
    proof (cases "few ctx'")
      case True
      with core h ctx i(2) name [OF True] open_core [OF a good True] show ?thesis by (auto simp: core_socks_def)
    qed (use core h in auto)
  qed
qed

lemma net_opens_socks:
  assumes n: "net_good S n"
  shows "net_tcp_open S ifc n = (s, n') \<Longrightarrow> core_socks n' \<subseteq> core_socks n \<union> (if net_sock_valid s then {(IFACE s, LOCAL s)} else {})"
    and "net_udp_open S ifc port n = (s, n') \<Longrightarrow> core_socks n' \<subseteq> core_socks n \<union> (if net_sock_valid s then {(IFACE s, LOCAL s)} else {})"
  unfolding net_tcp_open_def net_udp_open_def
  by (erule net_open_socks [OF n], force simp: smoltcp_tcp_open_def alloc_id_def split: prod.splits)
    (erule net_open_socks [OF n], force simp: smoltcp_udp_open_def alloc_id_def split: prod.splits if_splits)

section \<open>The steps of the stack\<close>

lemma core_poll_ids:
  assumes "core_poll P S i n = Some n'" and i: "i < length (s_ifaces n)"
  shows "ids_view n' = ids_view n"
proof (cases "hnd i n")
  case None
  with assms show ?thesis by (simp add: core_poll_def)
next
  case (Some ctx)
  obtain now n1 where now: "smoltcp_glue_now_us P n = (now, n1)" by force
  have t1: "tx_only n n1" using now_us_tx_only [of n P] now by simp
  from assms Some now obtain h m n2 where poll: "smoltcp_iface_poll S (smoltcp_glue_tx_cb P) now (hnd i n1) (tx_free_mask n1) n1 = Some (h, m, n2)"
    and n': "n' = set_handle i h (n2\<lparr>tx_free_mask := m\<rparr>)"
    by (auto simp: core_poll_def split: option.splits)
  have t2: "tx_only n n2"
    using poll t1 by (auto simp: smoltcp_iface_poll_def ctx_poll_def split: option.splits prod.splits
        dest!: run_device_inv [where Q = "tx_only n", rotated] intro: tx_only_trans [OF _ tx_cb_tx_only])
  have "hnd i (n2\<lparr>tx_free_mask := m\<rparr>) = hnd i n1"
    using tx_only_iface(5) [OF t1 i] tx_only_iface(5) [OF t2 i] by (simp add: iface_def)
  then have "ids_view n' = ids_view (n2\<lparr>tx_free_mask := m\<rparr>)"
    unfolding n' by (intro ids_set_handle) (simp add: ids_partial_calls(2) [OF poll])
  also have "\<dots> = ids_view n2" by (simp add: ids_view_def)
  also have "\<dots> = ids_view n" by (rule ids_view_h_view [OF tx_only_h_view [OF t2]])
  finally show ?thesis .
qed

lemma poll_run_ids:
  assumes "poll_run P S i n = Some n'" and "i < length (s_ifaces n)"
  shows "ids_view n' = ids_view n"
proof -
  let ?n = "core_call (SMOLTCP_LOCK n)"
  from assms(1) obtain n1 where n1: "core_poll P S i ?n = Some n1" and "h_view n' = h_view n1"
    by (auto simp: poll_run_def Let_def dest!: h_view_calls(4) split: option.splits)
  then have "ids_view n' = ids_view n1" by (intro ids_view_h_view)
  also have "\<dots> = ids_view ?n" by (rule core_poll_ids [OF n1]) (use assms(2) in simp)
  also have "\<dots> = ids_view n" by (rule ids_view_h_view) simp
  finally show ?thesis .
qed

lemma rx_deliver_ids: "ids_view (net_frame_free P f' (rx_deliver i f n)) = ids_view n"
proof -
  have t: "ids_view (snd (dispatch_tap ifc fr n)) = ids_view n" for ifc fr by (rule ids_view_h_view) simp
  have "ids_view (net_frame_free P f' m) = ids_view m" for m :: "('a, 'b, 'c, 'd) net" by (rule ids_view_h_view) simp
  then show ?thesis using t by (simp add: rx_deliver_def Let_def case_prod_unfold ids_locked)
qed

lemma link_event_ids: "ids_view (net_stack_link_event i up n) = ids_view n"
proof -
  have v: "ids_view (upd_iface i g m) = ids_view m" if "\<And>f. enabled (g f) = enabled f" "\<And>f. smoltcp_handle (g f) = smoltcp_handle f"
    for g and m :: "('a, 'b, 'c, 'd) net" using that by (intro ids_view_h_view) simp
  have e: "ids_view (notify_task (emit_event i evt m)) = ids_view m" for evt and m :: "('a, 'b, 'c, 'd) net"
    by (rule ids_view_h_view) simp
  show ?thesis by (simp add: net_stack_link_event_def Let_def e v ids_locked)
qed

lemma start_ip_ids: "start_ip S K i n = Some n' \<Longrightarrow> ids_view n' = ids_view n"
proof -
  assume s: "start_ip S K i n = Some n'"
  let ?n1 = "core_call (SMOLTCP_LOCK n)"
  show ?thesis
  proof (cases "cfg_dhcpv4_client K")
    case True
    with s show ?thesis by (auto simp: start_ip_def ids_locked)
  next
    case False
    with s obtain ip gw h where st: "smoltcp_iface_set_static S (hnd i ?n1) ip 24 gw = Some h" and n': "n' = SMOLTCP_UNLOCK (set_handle i h ?n1)"
      by (auto simp: start_ip_def Let_def split: option.splits)
    have "ids_view n' = ids_view (set_handle i h ?n1)" unfolding n' by (rule ids_view_h_view) simp
    also have "\<dots> = ids_view ?n1" by (rule ids_set_handle) (simp add: ids_partial_calls(1) [OF st])
    also have "\<dots> = ids_view n" by (rule ids_view_h_view) simp
    finally show ?thesis .
  qed
qed

lemma attach_ids:
  assumes n: "net_good S n" and a: "esp_smoltcp_attach_eth P S K A h n = Some (r, n')"
  shows "ids_view n' = ids_view n"
proof (cases "h = None \<or> enabled (iface NET_IFACE_ETH n)")
  case True
  with a show ?thesis by (auto simp: esp_smoltcp_attach_eth_def split: if_splits)
next
  case False
  have E: "NET_IFACE_ETH < NET_IFACE_MAX" by (simp add: NET_IFACE_ETH_def NET_IFACE_MAX_def)
  then have none: "hnd NET_IFACE_ETH n = None" using n False by (cases "hnd NET_IFACE_ETH n") (simp_all add: net_good_def)
  have len: "NET_IFACE_ETH < length (s_ifaces n)" using n E by (simp add: net_good_def)
  let ?n1 = "upd_iface NET_IFACE_ETH (\<lambda>f. f\<lparr>enabled := True, l2_tx := Some Eth_tx, mac := snd (got_mac A)\<rparr>) (n\<lparr>s_eth_handle := h\<rparr>)"
  have i1: "ids_view ?n1 = ids_view n" unfolding ids_view_def by (subst map_upd_iface) simp_all
  obtain now n2 where now: "smoltcp_glue_now_us P ?n1 = (now, n2)" by force
  have t: "tx_only ?n1 n2" using now_us_tx_only [of ?n1 P] now by simp
  have i2: "ids_view n2 = ids_view n" using ids_view_h_view [OF tx_only_h_view [OF t]] i1 by simp
  have e2: "hnd NET_IFACE_ETH n2 = None" using tx_only_iface(5) [OF t, of NET_IFACE_ETH] len none by (simp add: iface_def upd_iface_def)
  let ?h = "smoltcp_iface_new S (of_nat NET_IFACE_ETH) (Some (mac (iface NET_IFACE_ETH n2))) now"
  let ?n3 = "set_handle NET_IFACE_ETH ?h (core_new n2)"
  let ?n4 = "?n3\<lparr>ext := esp_eth_start P h (ext ?n3)\<rparr>"
  have "ids_view ?n3 = ids_view (core_new n2)" by (rule ids_set_handle) (simp add: e2)
  also have "\<dots> = ids_view n2" by (rule ids_view_h_view) simp
  finally have "ids_view ?n3 = ids_view n2" .
  then have i4: "ids_view ?n4 = ids_view n" using i2 by (simp add: ids_view_def)
  have "ids_view (notify_task (case cfg_ptp K of None \<Rightarrow> n5 | Some f \<Rightarrow> snd (ptp_start f n5))) = ids_view n"
    if "start_ip S K NET_IFACE_ETH ?n4 = Some n5" for n5
  proof -
    have "ids_view n5 = ids_view n" using start_ip_ids [OF that] i4 by simp
    moreover have "h_view (notify_task (case cfg_ptp K of None \<Rightarrow> n5 | Some f \<Rightarrow> snd (ptp_start f n5))) = h_view n5"
      by (simp add: ptp_start_def split: option.split)
    ultimately show ?thesis using ids_view_h_view by metis
  qed
  with a False i1 show ?thesis
    unfolding esp_smoltcp_attach_eth_def Let_def now prod.case by (auto split: if_splits option.splits)
qed

lemma net_step_ids:
  assumes "net_step P S K s a s'" and "net_good S (sys_net s)" and "a \<notin> range Api"
  shows "ids_view (sys_net s') = ids_view (sys_net s)"
  using assms
proof (induction rule: net_step.induct)
  case (rx_some buf n f n' p)
  then have "h_view (copy_frame f buf n') = h_view n" by (simp add: h_view_calls(1))
  then show ?case by (simp only: sys.simps) (rule ids_view_h_view)
next
  case (poll_run i n n' d)
  then show ?case by (simp add: poll_run_ids net_good_def)
qed (auto intro: attach_ids ids_view_h_view [OF h_view_calls(1)] ids_view_h_view [OF h_view_calls(2)] ids_view_h_view [OF h_view_calls(3)]
    ids_view_h_view [OF task_sleep_h_view] ids_view_h_view [OF tx_only_h_view [OF l2_send_tx_only]] ids_view_h_view [OF h_view_simps(14)]
    ids_view_h_view [OF h_view_simps(15)] simp: rx_deliver_ids link_event_ids)

end
