(* ===== verification/Compat_Types.thy ===== *)
theory Compat_Types
  imports Compat_Run Net_Ids
begin

text \<open>
  Type safety of the shim. The kind of a descriptor decides which calls of the native API are
  made on its socket, so the socket has to be of the type the kind stands for: TCP for a stream
  descriptor and for every slot of a listener's pool, UDP for a datagram descriptor. The
  invariant says so for every entry of the table, together with the length of the pool; every
  socket call keeps it, with the other tasks running during its waits. Hence no call ever asks
  smoltcp for a socket of the wrong type, which would panic.
\<close>

section \<open>The invariant\<close>

definition ktype :: "fd_kind \<Rightarrow> sock_type" where
  "ktype k = (if k = FD_UDP then Udp else Tcp)"

definition entry_good :: "'c smoltcp \<Rightarrow> ('q, 'g, 'c, 'e) net \<Rightarrow> ('r, 'h) fd_entry \<Rightarrow> bool" where
  "entry_good S n f \<longleftrightarrow> (kind f \<noteq> FD_FREE \<longrightarrow> sock_good S (ktype (kind f)) (sock f) n) \<and> (kind f = FD_TCP \<longrightarrow> pool_len f = 0)
     \<and> (case pool f of None \<Rightarrow> pool_len f = 0 | Some ss \<Rightarrow> length ss = pool_len f \<and> (\<forall>s \<in> set ss. sock_good S Tcp s n))"

text \<open>\<open>H\<close> lists the handles that tasks have got from the native API, each with the type it was opened as.\<close>

type_synonym handles = "(sock_type \<times> net_sock) set"

definition shim_typed :: "'c smoltcp \<Rightarrow> compat_config \<Rightarrow> handles \<Rightarrow> ('q, 'g, 'c, 'x) cnet \<Rightarrow> bool" where
  "shim_typed S cfg H n \<longleftrightarrow> net_good S n \<and> length (s_table (ext n)) = MAX_FDS cfg \<and> (\<forall>f \<in> set (s_table (ext n)). entry_good S n f)
     \<and> (\<forall>(t, s) \<in> H. sock_good S t s n)"

text \<open>All the invariant looks at.\<close>

definition type_view :: "('q, 'g) fd_entry \<Rightarrow> fd_kind \<times> net_sock \<times> net_sock list option \<times> nat" where
  "type_view f = (kind f, sock f, pool f, pool_len f)"

definition same_types :: "('q, 'g, 'c, 'x) cnet \<Rightarrow> ('q, 'g, 'c, 'x) cnet \<Rightarrow> bool" where
  "same_types n n' \<longleftrightarrow> s_ifaces n' = s_ifaces n \<and> map type_view (s_table (ext n')) = map type_view (s_table (ext n))"

lemma entry_good_view: "type_view f = type_view g \<Longrightarrow> entry_good S n f = entry_good S n g"
  by (simp add: type_view_def entry_good_def split: option.split)

lemma entry_good_grows: "net_good S n \<Longrightarrow> net_grows S n n' \<Longrightarrow> entry_good S n f \<Longrightarrow> entry_good S n' f"
  by (auto simp: entry_good_def intro: sock_good_grows split: option.splits)

lemma entry_good_handles: "s_ifaces n' = s_ifaces n \<Longrightarrow> entry_good S n' f = entry_good S n f"
  by (simp add: entry_good_def sock_good_handles [of n' n] split: option.split)

lemma shim_typedD:
  "shim_typed S cfg H n \<Longrightarrow> net_good S n" "shim_typed S cfg H n \<Longrightarrow> length (s_table (ext n)) = MAX_FDS cfg"
  "shim_typed S cfg H n \<Longrightarrow> e < MAX_FDS cfg \<Longrightarrow> entry_good S n (entry e n)"
  "shim_typed S cfg H n \<Longrightarrow> (t, s) \<in> H \<Longrightarrow> sock_good S t s n"
  by (auto simp: shim_typed_def entry_def)

lemma shim_typed_insert: "shim_typed S cfg H n \<Longrightarrow> sock_good S t s n \<Longrightarrow> shim_typed S cfg (insert (t, s) H) n"
  by (auto simp: shim_typed_def)

lemma shim_typed_grows:
  assumes n: "shim_typed S cfg H n" and g: "net_grows S n n'"
    and v: "map type_view (s_table (ext n')) = map type_view (s_table (ext n))"
  shows "shim_typed S cfg H n'"
  unfolding shim_typed_def
proof (intro conjI ballI)
  fix p assume "p \<in> H"
  then show "case p of (t, s) \<Rightarrow> sock_good S t s n'"
    using shim_typedD(4) [OF n] sock_good_grows [OF shim_typedD(1) [OF n] _ g] by auto
next
  show "net_good S n'" by (rule net_good_grows [OF shim_typedD(1) [OF n] g])
  show "length (s_table (ext n')) = MAX_FDS cfg" using shim_typedD(2) [OF n] v by (metis length_map)
  fix f assume "f \<in> set (s_table (ext n'))"
  then have "type_view f \<in> set (map type_view (s_table (ext n')))" by simp
  then obtain f0 where f0: "f0 \<in> set (s_table (ext n))" "type_view f = type_view f0" unfolding v by auto
  then have "entry_good S n f0" using n by (simp add: shim_typed_def)
  then show "entry_good S n' f"
    unfolding entry_good_view [OF f0(2)] by (rule entry_good_grows [OF shim_typedD(1) [OF n] g])
qed

lemma same_types_refl [simp, intro]: "same_types n n"
  by (simp add: same_types_def)

lemma same_types_trans: "same_types a b \<Longrightarrow> same_types b c \<Longrightarrow> same_types a c"
  by (simp add: same_types_def)

lemma same_types_entry:
  assumes "same_types n n'" and "e < length (s_table (ext n))"
  shows "type_view (entry e n') = type_view (entry e n)"
proof -
  have v: "map type_view (s_table (ext n')) = map type_view (s_table (ext n))" using assms(1) by (simp add: same_types_def)
  then have "length (s_table (ext n')) = length (s_table (ext n))" by (rule map_eq_imp_length_eq)
  with assms(2) v show ?thesis by (simp add: entry_def list_eq_iff_nth_eq)
qed

lemma shim_typed_same: "shim_typed S cfg H n \<Longrightarrow> same_types n n' \<Longrightarrow> shim_typed S cfg H n'"
  by (rule shim_typed_grows) (simp_all add: same_types_def net_grows_handles)

lemma same_types_grows: "same_types n n' \<Longrightarrow> net_grows S n n'"
  by (simp add: same_types_def net_grows_handles)

lemma shim_typed_ext: "shim_typed S cfg H n \<Longrightarrow> net_grows S n n' \<Longrightarrow> ext n' = ext n \<Longrightarrow> shim_typed S cfg H n'"
  by (rule shim_typed_grows) simp_all

lemma shim_typed_upd:
  assumes n: "shim_typed S cfg H n" and g: "e < MAX_FDS cfg \<Longrightarrow> entry_good S n (entry e n) \<Longrightarrow> entry_good S n (g (entry e n))"
  shows "shim_typed S cfg H (upd_entry e g n)"
proof -
  have i: "s_ifaces (upd_entry e g n) = s_ifaces n" by (simp add: upd_entry_def upd_compat_def)
  have "net_good S (upd_entry e g n)" using shim_typedD(1) [OF n] net_good_grows net_grows_handles [OF i] by blast
  moreover have "entry_good S n f" if "f \<in> set ((s_table (ext n))[e := g (entry e n)])" for f
  proof (cases "e < MAX_FDS cfg")
    case True
    with that n g [OF True shim_typedD(3) [OF n True]] show ?thesis by (auto simp: shim_typed_def dest!: set_list_updateD)
  next
    case False
    with that n show ?thesis by (simp add: shim_typed_def list_update_beyond not_less)
  qed
  ultimately show ?thesis
    using shim_typedD(2) [OF n] shim_typedD(4) [OF n] by (auto simp: shim_typed_def entry_good_handles [OF i] sock_good_handles [OF i])
qed

section \<open>Steps that do not touch sockets\<close>

lemma same_types_upd_compat: "s_table (g (ext n)) = s_table (ext n) \<Longrightarrow> same_types n (upd_compat g n)"
  by (simp add: same_types_def upd_compat_def)

lemma same_types_upd_entry:
  assumes "\<And>f. type_view (g f) = type_view f"
  shows "same_types n (upd_entry e g n)"
proof -
  have "(map type_view xs)[e := type_view (xs ! e)] = map type_view xs" for xs :: "('a, 'b) fd_entry list"
    by (cases "e < length xs") (simp_all add: list_update_beyond not_less nth_map [symmetric] del: nth_map)
  then show ?thesis by (simp add: same_types_def upd_entry_def upd_compat_def map_update assms)
qed

lemma same_types_steps:
  "same_types n (SET_ERRNO e n)" "same_types n (snd (fail e n))" "same_types n (snd (env_call h n))" "same_types n (fd_LOCK n)"
  "same_types n (fd_UNLOCK n)" "same_types n (lo_LOCK n)" "same_types n (lo_UNLOCK n)" "same_types n (msg_free a n)"
  "same_types n (lock_init_once K n)" "same_types n (bad_access n)" "same_types n (snd (msg_alloc K m n))"
  "same_types n (snd (msg_read a n))"
  by (simp_all add: same_types_def upd_compat_def SET_ERRNO_def fail_def env_call_def fd_LOCK_def fd_UNLOCK_def lo_LOCK_def lo_UNLOCK_def
      msg_free_def lock_init_once_def bad_access_def msg_alloc_def msg_read_def Let_def case_prod_unfold)

lemma same_types_rx [simp]: "same_types n (upd_entry i (\<lambda>f. f\<lparr>lo_rx := q\<rparr>) n)" "same_types n (upd_entry i (\<lambda>f. f\<lparr>loopback := b\<rparr>) n)"
    "same_types n (upd_entry i (\<lambda>f. f\<lparr>lo_rx := q, loopback := b\<rparr>) n)"
  by (rule same_types_upd_entry, simp add: type_view_def)+

lemmas same_types_intros = same_types_steps [THEN same_types_trans [rotated]] same_types_rx [THEN same_types_trans [rotated]]

lemma lo_drain_same: "same_types m n \<Longrightarrow> same_types m (lo_drain P k e n)"
proof (induction k arbitrary: n)
  case (Suc k)
  then show ?case by (auto intro!: Suc.IH same_types_intros split: option.split)
qed simp

lemma same_types_queue: "same_types m n \<Longrightarrow> same_types m (snd (case q of Some q \<Rightarrow> (Some q, n) | None \<Rightarrow> env_call (xQueueCreate K d) n))"
  by (auto intro: same_types_intros split: option.split)

lemma lo_calls_same:
  "same_types n (snd (lo_bind K port eo n))" "same_types n (lo_unbind P K port e n)"
  "same_types n (snd (lo_deliver P K dp sa sp buf n))"
proof -
  have slots: "same_types m n \<Longrightarrow> (\<And>c. s_table (h c) = s_table c) \<Longrightarrow> same_types m (upd_compat h n)" for m n :: "('a, 'b, 'c, 'd) cnet" and h
    by (rule same_types_trans, assumption, rule same_types_upd_compat) simp
  show "same_types n (snd (lo_bind K port eo n))"
    by (auto simp: lo_bind_def Let_def case_prod_unfold intro!: same_types_intros slots same_types_queue split: option.split)
  show "same_types n (lo_unbind P K port e n)"
    by (auto simp: lo_unbind_def Let_def intro!: lo_drain_same same_types_intros slots split: option.split)
  have al: "same_types n m \<Longrightarrow> msg_alloc K x m = (r, m') \<Longrightarrow> same_types n m'" for m m' :: "('a, 'b, 'c, 'd) cnet" and x r
    using same_types_intros(11) [of n m K x] by simp
  show "same_types n (snd (lo_deliver P K dp sa sp buf n))"
    by (auto simp: lo_deliver_def Let_def intro!: same_types_intros split: option.split prod.split dest!: al [rotated])
qed

section \<open>Every call keeps the invariant\<close>

text \<open>The other tasks use sockets through the same calls: while one task waits they keep the table
  typed and no id changes its type.\<close>

locale typed_tasks = shim_tasks P contents capacity K cfg R W + smoltcp_sockets S
  for P :: "('q, 'g, ('q, 'g, 'x) compat) platform" and contents capacity K cfg
    and R :: "('q, 'g, 'c, ('q, 'g, 'x) compat) rtos" and W and S :: "'c smoltcp" +
  fixes H :: handles
  assumes delay_typed: "shim_typed S cfg H n \<Longrightarrow> shim_typed S cfg H (vTaskDelay R d n) \<and> net_grows S n (vTaskDelay R d n)"
    and bits_typed: "shim_typed S cfg H n \<Longrightarrow>
      shim_typed S cfg H (snd (wait_bits_progress R b d n)) \<and> net_grows S n (snd (wait_bits_progress R b d n))"
    and rx_wait_typed: "shim_typed S cfg H n \<Longrightarrow> shim_typed S cfg H (W e d n)"
begin

abbreviation typed :: "('q, 'g, 'c, 'x) cnet \<Rightarrow> bool" where "typed \<equiv> shim_typed S cfg H"

lemma env_same: "same_types n (snd (tick_count P n))" "same_types n (snd (smoltcp_glue_rand32 P n))"
  using tick_env [of "ext n"] rand_env [of "ext n"]
  by (simp_all add: same_types_def tick_count_def smoltcp_glue_rand32_def Let_def case_prod_unfold same_statics_simps)

lemma typed_same: "typed n \<Longrightarrow> same_types n n' \<Longrightarrow> typed n'"
  by (rule shim_typed_same)

lemma env_typed:
  assumes "typed n"
  shows "keeps_env P R (\<lambda>m. typed m \<and> net_grows S n m)"
proof -
  have kick: "typed (net_stack_kick_poll m)" if "typed m" for m :: "('q, 'g, 'c, 'x) cnet"
    by (rule shim_typed_ext [OF that]) simp_all
  show ?thesis
    unfolding keeps_env_def
    by (auto simp: kick intro: typed_same env_same net_grows_trans same_types_grows delay_typed [THEN conjunct1] bits_typed [THEN conjunct1]
        delay_typed [THEN conjunct2] bits_typed [THEN conjunct2] kick_grows)
qed

lemma call_typed:
  assumes m: "typed m" and i: "i < NET_IFACE_MAX" and f: "h_grows S (hnd i m) (snd (f (hnd i m)))"
  shows "typed (snd (locked_call i f m)) \<and> net_grows S m (snd (locked_call i f m))"
proof -
  have g: "net_grows S m (snd (locked_call i f m))"
    by (rule locked_call_grows) (use shim_typedD(1) [OF m] i f in simp_all)
  then have "typed (snd (locked_call i f m))" by (rule shim_typed_ext [OF m]) simp
  with g show ?thesis by simp
qed

lemma sock_keeps_typed:
  fixes n :: "('q, 'g, 'c, 'x) cnet"
  assumes n: "typed n" and s: "sock_good S t s n"
  shows "t = Tcp \<Longrightarrow> tcp_keeps S (IFACE s) (LOCAL s) (\<lambda>m. typed m \<and> net_grows S n m)"
    and "t = Udp \<Longrightarrow> udp_keeps S (IFACE s) (LOCAL s) (\<lambda>m. typed m \<and> net_grows S n m)"
proof -
  have i: "IFACE s < NET_IFACE_MAX"
    using s by (cases "net_sock_valid s") (simp_all add: sock_good_def net_sock_valid_def IFACE_def NET_IFACE_MAX_def)
  have h: "h_good S t (LOCAL s) (hnd (IFACE s) m)" if "typed m \<and> net_grows S n m" for m :: "('q, 'g, 'c, 'x) cnet"
    using sock_good_core [OF _ _ i] sock_good_grows [OF shim_typedD(1) [OF n] s] shim_typedD(1) that by blast
  have c: "typed (snd (locked_call (IFACE s) f m)) \<and> net_grows S n (snd (locked_call (IFACE s) f m))"
    if m: "typed m \<and> net_grows S n m" and g: "h_grows S (hnd (IFACE s) m) (snd (f (hnd (IFACE s) m)))"
    for f :: "'c iface_ctx option \<Rightarrow> 'r \<times> 'c iface_ctx option" and m :: "('q, 'g, 'c, 'x) cnet"
    using call_typed [of m "IFACE s" f] i g m by (blast intro: net_grows_trans)
  show "t = Tcp \<Longrightarrow> tcp_keeps S (IFACE s) (LOCAL s) (\<lambda>m. typed m \<and> net_grows S n m)"
    unfolding tcp_keeps_def using h socket_calls_grow by (intro allI impI conjI c) auto
  show "t = Udp \<Longrightarrow> udp_keeps S (IFACE s) (LOCAL s) (\<lambda>m. typed m \<and> net_grows S n m)"
    unfolding udp_keeps_def using h socket_calls_grow by (intro allI impI c) auto
qed

lemma blocking_typed:
  fixes n :: "('q, 'g, 'c, 'x) cnet"
  assumes n: "typed n"
  shows "sock_good S Tcp s n \<Longrightarrow> net_tcp_connect P R S s ip port tmo n = Some (e, n') \<Longrightarrow> typed n'"
    and "sock_good S Tcp s n \<Longrightarrow> net_tcp_send P R S s buf tmo n = Some (r, n') \<Longrightarrow> typed n'"
    and "sock_good S Tcp s n \<Longrightarrow> net_tcp_recv P R S s cap tmo n = Some (rb, n') \<Longrightarrow> typed n'"
    and "sock_good S Udp s n \<Longrightarrow> net_udp_recvfrom P R S s cap tmo n = Some (rd, n') \<Longrightarrow> typed n'"
proof -
  have I: "typed n \<and> net_grows S n n" using n by simp
  note C = net_calls_keep [OF env_typed [OF n] I] and K = sock_keeps_typed [OF n]
  show "sock_good S Tcp s n \<Longrightarrow> net_tcp_connect P R S s ip port tmo n = Some (e, n') \<Longrightarrow> typed n'" using C(1) K(1) by blast
  show "sock_good S Tcp s n \<Longrightarrow> net_tcp_send P R S s buf tmo n = Some (r, n') \<Longrightarrow> typed n'" using C(2) K(1) by blast
  show "sock_good S Tcp s n \<Longrightarrow> net_tcp_recv P R S s cap tmo n = Some (rb, n') \<Longrightarrow> typed n'" using C(3) K(1) by blast
  show "sock_good S Udp s n \<Longrightarrow> net_udp_recvfrom P R S s cap tmo n = Some (rd, n') \<Longrightarrow> typed n'" using C(4) K(2) by blast
qed

lemma typed_call: "typed n \<Longrightarrow> net_grows S n n' \<Longrightarrow> ext n' = ext n \<Longrightarrow> typed n'"
  by (rule shim_typed_ext)

lemma typed_pool:
  assumes "typed n" and "e < MAX_FDS cfg" and "i < pool_len (entry e n)"
  shows "sock_good S Tcp (the (pool (entry e n)) ! i) n"
  using shim_typedD(3) [OF assms(1,2)] assms(3) by (auto simp: entry_good_def split: option.splits)

lemma typed_entry:
  assumes "typed n" and "e < MAX_FDS cfg"
  shows "kind (entry e n) = FD_UDP \<Longrightarrow> sock_good S Udp (sock (entry e n)) n"
    and "kind (entry e n) = FD_TCP \<Longrightarrow> sock_good S Tcp (sock (entry e n)) n"
  using shim_typedD(3) [OF assms] by (auto simp: entry_good_def ktype_def)

lemma typed_get:
  assumes "typed n" and "fd_get cfg fd n = Some e"
  shows "kind (entry e n) = FD_UDP \<Longrightarrow> sock_good S Udp (sock (entry e n)) n"
    and "kind (entry e n) \<noteq> FD_UDP \<Longrightarrow> sock_good S Tcp (sock (entry e n)) n"
  using fd_get_SomeD [OF assms(2)] shim_typedD(3) [OF assms(1), of e] by (auto simp: entry_good_def ktype_def)

lemma pool_close_grows:
  "net_good S n \<Longrightarrow> \<forall>s \<in> set ss. sock_good S Tcp s n \<Longrightarrow> net_grows S n (pool_close S ss n)"
proof (induction ss arbitrary: n)
  case (Cons s ss)
  let ?n' = "if net_sock_valid s then snd (net_tcp_close S s n) else n"
  have g: "net_grows S n ?n'" using Cons.prems by (simp add: tcp_calls_grow)
  have "net_grows S ?n' (pool_close S ss ?n')"
    by (rule Cons.IH) (use Cons.prems g in \<open>auto intro: net_good_grows sock_good_grows\<close>)
  with g show ?case by (auto intro: net_grows_trans)
qed simp

lemma fd_free_typed:
  assumes n: "typed n"
  shows "typed (fd_free cfg P K S fd n)"
proof (cases "fd_get cfg fd n")
  case None
  with n show ?thesis by (simp add: fd_free_def)
next
  case (Some e)
  let ?n2 = "fd_free_loopback P K e (fd_LOCK n)"
  let ?n3 = "fd_free_sock S e ?n2"
  have e: "e < MAX_FDS cfg" "kind (entry e n) \<noteq> FD_FREE" using fd_get_SomeD [OF Some] by simp_all
  have s2: "same_types n ?n2"
    by (auto simp: fd_free_loopback_def intro!: same_types_intros same_types_trans [OF _ lo_calls_same(2)])
  note n2 = typed_same [OF n s2]
  have k2: "kind (entry e ?n2) = kind (entry e n)"
    using same_types_entry [OF s2] e shim_typedD(2) [OF n] by (simp add: type_view_def)
  have "net_grows S ?n2 ?n3"
    using shim_typedD(3) [OF n2 e(1)] e(2) tcp_calls_grow(2) [OF shim_typedD(1) [OF n2]] udp_calls_grow(2) [OF shim_typedD(1) [OF n2]]
    by (auto simp: fd_free_sock_def entry_good_def ktype_def k2)
  then have n3: "typed ?n3" by (rule typed_call [OF n2]) simp
  have "net_grows S ?n3 (fd_free_pool S e ?n3)"
    using shim_typedD(3) [OF n3 e(1)] pool_close_grows [OF shim_typedD(1) [OF n3]]
    by (auto simp: fd_free_pool_def entry_good_def split: option.splits dest: in_set_takeD)
  then have "typed (fd_free_pool S e ?n3)" by (rule typed_call [OF n3]) simp
  then have "typed (upd_entry e (\<lambda>f. f\<lparr>pool_freed := (pool f \<noteq> None), kind := FD_FREE\<rparr>) (fd_free_pool S e ?n3))"
    by (rule shim_typed_upd) (simp add: entry_good_def split: option.splits)
  with Some show ?thesis by (auto simp: fd_free_def intro: typed_same same_types_steps)
qed

lemma fd_table_init_same: "same_types n (snd (fd_table_init cfg K n))"
proof -
  have "same_types n m \<Longrightarrow> same_types n (fd_init_loop K is m)" for "is" m
  proof (induction "is" arbitrary: m)
    case (Cons i "is")
    have "same_types (snd (env_call (xEventGroupCreate K) m)) (upd_entry i (\<lambda>f. f\<lparr>evt := g\<rparr>) (snd (env_call (xEventGroupCreate K) m)))" for g
      by (rule same_types_upd_entry) (simp add: type_view_def)
    then have "same_types n (upd_entry i (\<lambda>f. f\<lparr>evt := g\<rparr>) (snd (env_call (xEventGroupCreate K) m)))" for g
      by (rule same_types_trans [OF same_types_intros(3) [OF Cons.prems]])
    then show ?case by (simp add: Let_def case_prod_unfold Cons.IH)
  qed simp
  moreover have "same_types n (upd_compat (\<lambda>c. c\<lparr>fd_lock := x\<rparr>) (snd (env_call (xSemaphoreCreateMutex K) n)))" for x
    by (rule same_types_trans [OF same_types_steps(3) same_types_upd_compat]) simp
  ultimately show ?thesis by (auto simp: fd_table_init_def Let_def case_prod_unfold intro: same_types_steps)
qed

lemma default_iface_grows:
  assumes n: "net_good S n" shows "net_grows S n (snd (fd_default_iface cfg S n))"
proof -
  have g: "net_grows S n (snd (net_stack_get_ipv4 S b (snd (net_stack_get_ipv4 S a n))))" for a b
    using get_ipv4_grows [OF n, of a] get_ipv4_grows [OF net_good_grows [OF n get_ipv4_grows [OF n, of a]], of b] by (rule net_grows_trans)
  show ?thesis using n g by (auto simp: fd_default_iface_def Let_def case_prod_unfold get_ipv4_grows)
qed

lemma fd_alloc_typed:
  assumes n: "typed n" and k: "k = FD_TCP \<or> k = FD_UDP" and a: "fd_alloc cfg P K S k n = (fd, n')"
  shows "typed n'" and "net_grows S n n'" and "fd \<ge> 0 \<Longrightarrow> kind (entry (new_entry cfg fd) n') = k"
proof -
  define n1 where "n1 = fd_LOCK (if mx_created (fd_lock (ext n)) then n else snd (fd_table_init cfg K n))"
  have s1: "same_types n n1" unfolding n1_def by (rule same_types_intros) (simp add: fd_table_init_same)
  note a = a [unfolded fd_alloc_def Let_def, folded n1_def]
  note n2 = typed_same [OF n s1]
  have "typed n' \<and> net_grows S n n' \<and> (fd \<ge> 0 \<longrightarrow> kind (entry (new_entry cfg fd) n') = k)"
  proof (cases "first_idx (\<lambda>f. kind f = FD_FREE) (s_table (ext n1))")
    case None
    then have "n' = fd_UNLOCK n1" "fd = -1" using a by (simp_all del: first_idx_None_iff)
    moreover have "same_types n (fd_UNLOCK n1)" by (rule same_types_trans [OF s1]) (rule same_types_steps)
    ultimately show ?thesis using n by (auto intro: typed_same same_types_grows)
  next
    case (Some i)
    have i: "i < MAX_FDS cfg" using first_idx_SomeD [OF Some] shim_typedD(2) [OF n2] by simp
    let ?n3 = "upd_entry i (\<lambda>f. (fd_zero (evt f))\<lparr>kind := k, sock := NET_SOCK_INVALID\<rparr>) n1"
    let ?n4 = "snd (fd_default_iface cfg S ?n3)"
    let ?n5 = "upd_entry i (\<lambda>f. f\<lparr>fd_iface := fst (fd_default_iface cfg S ?n3), evt := map_option (xEventGroupClearBits P 0xFF) (evt f)\<rparr>) ?n4"
    have n3: "typed ?n3" by (rule shim_typed_upd [OF n2]) (use k in \<open>auto simp: entry_good_def fd_zero_def\<close>)
    have g4: "net_grows S ?n3 ?n4" by (rule default_iface_grows [OF shim_typedD(1) [OF n3]])
    then have n4: "typed ?n4" by (rule typed_call [OF n3]) simp
    have s5: "same_types ?n4 (fd_UNLOCK ?n5)"
      by (rule same_types_trans [OF same_types_upd_entry same_types_steps(5)]) (simp add: type_view_def)
    have r: "n' = fd_UNLOCK ?n5" "fd = fd_offset cfg + int i"
      using a Some by (simp_all add: case_prod_unfold)
    have "net_grows S n ?n3" using same_types_grows [OF s1] by (rule net_grows_trans) (rule net_grows_handles, simp add: upd_entry_def upd_compat_def)
    then have "net_grows S n n'" unfolding r by (rule net_grows_trans [OF net_grows_trans [OF _ g4] same_types_grows [OF s5]])
    moreover have "kind (entry i ?n3) = k" using i shim_typedD(2) [OF n2] by simp
    then have "kind (entry i n') = k"
      using same_types_entry [OF s5, of i] i shim_typedD(2) [OF n4] unfolding r by (simp add: type_view_def)
    ultimately show ?thesis using typed_same [OF n4 s5] r by (simp add: new_entry_def)
  qed
  then show "typed n'" "net_grows S n n'" "fd \<ge> 0 \<Longrightarrow> kind (entry (new_entry cfg fd) n') = k" by simp_all
qed

lemma typed_view: "typed n \<Longrightarrow> (\<And>f. type_view (g f) = type_view f) \<Longrightarrow> typed (upd_entry e g n)"
  by (rule typed_same [OF _ same_types_upd_entry])

lemma typed_set_sock:
  assumes "typed n" and "sock_good S t s n" and "ktype (kind (entry e n)) = t"
  shows "typed (upd_entry e (\<lambda>f. f\<lparr>sock := s\<rparr>) n)"
  by (rule shim_typed_upd [OF assms(1)]) (use assms(2,3) in \<open>simp add: entry_good_def split: option.splits\<close>)

lemma upd_entry_kind: "(\<And>f. kind (g f) = kind f) \<Longrightarrow> kind (entry e (upd_entry j g n)) = kind (entry e n)"
  by (cases "j < length (s_table (ext n))") (auto simp: entry_def upd_entry_def upd_compat_def nth_list_update list_update_beyond not_less)

lemma opens_typed:
  assumes "typed n"
  shows "net_tcp_open S ifc n = (s, n') \<Longrightarrow> typed n' \<and> net_grows S n n' \<and> sock_good S Tcp s n' \<and> ext n' = ext n"
    and "net_udp_open S ifc port n = (s, n') \<Longrightarrow> typed n' \<and> net_grows S n n' \<and> sock_good S Udp s n' \<and> ext n' = ext n"
proof -
  note G = shim_typedD(1) [OF assms]
  have x: "ext (snd (net_tcp_open S ifc n)) = ext n" "ext (snd (net_udp_open S ifc port n)) = ext n" by simp_all
  show "net_tcp_open S ifc n = (s, n') \<Longrightarrow> typed n' \<and> net_grows S n n' \<and> sock_good S Tcp s n' \<and> ext n' = ext n"
    using net_tcp_open_grows [OF G] x(1) typed_call [OF assms] by (metis snd_conv)
  show "net_udp_open S ifc port n = (s, n') \<Longrightarrow> typed n' \<and> net_grows S n n' \<and> sock_good S Udp s n' \<and> ext n' = ext n"
    using net_udp_open_grows [OF G] x(2) typed_call [OF assms] by (metis snd_conv)
qed

lemma tcp_calls_typed:
  assumes "typed n" and "sock_good S Tcp s n"
  shows "typed (snd (net_tcp_listen S s port n))" "typed (snd (net_tcp_close S s n))" "typed (snd (net_tcp_is_connected S s n))"
    "typed (snd (net_tcp_recv_queue S s n))" "typed (snd (net_tcp_send_capacity S s n))"
  by (rule typed_call [OF assms(1) tcp_calls_grow(1) [OF shim_typedD(1) [OF assms(1)] assms(2)]], simp)
    (rule typed_call [OF assms(1) tcp_calls_grow(2) [OF shim_typedD(1) [OF assms(1)] assms(2)]], simp,
     rule typed_call [OF assms(1) tcp_calls_grow(4) [OF shim_typedD(1) [OF assms(1)] assms(2)]], simp,
     rule typed_call [OF assms(1) tcp_calls_grow(5) [OF shim_typedD(1) [OF assms(1)] assms(2)]], simp,
     rule typed_call [OF assms(1) tcp_calls_grow(6) [OF shim_typedD(1) [OF assms(1)] assms(2)]], simp)

lemma udp_calls_typed:
  assumes "typed n" and "sock_good S Udp s n"
  shows "typed (snd (net_udp_sendto S s buf ip port n))" "typed (snd (net_udp_close S s n))"
  by (rule typed_call [OF assms(1) udp_calls_grow(1) [OF shim_typedD(1) [OF assms(1)] assms(2)]], simp)
    (rule typed_call [OF assms(1) udp_calls_grow(2) [OF shim_typedD(1) [OF assms(1)] assms(2)]], simp)

lemma plain_calls_typed:
  assumes n: "typed n"
  shows "typed (SET_ERRNO e n)" "typed (snd (fail e n))" "typed (snd (env_call h n))" "typed (bad_access n)" "typed (snd (tick_count P n))"
  using n by (blast intro: typed_same same_types_steps env_same)+

lemma socket_typed:
  assumes n: "typed n" shows "typed (snd (lwip_socket cfg P K S domain typ n))"
proof -
  let ?k = "if typ AND 0xFF = SOCK_STREAM cfg then FD_TCP else FD_UDP"
  obtain fd n1 where a: "fd_alloc cfg P K S ?k n = (fd, n1)" by force
  note A = fd_alloc_typed [OF n _ a]
  have n1: "typed n1" using A(1) by simp
  let ?e = "new_entry cfg fd"
  let ?n2 = "upd_entry ?e (\<lambda>f. f\<lparr>nonblocking := False\<rparr>) n1"
  have s2: "same_types n1 ?n2" by (rule same_types_upd_entry) (simp add: type_view_def)
  note n2 = typed_same [OF n1 s2]
  obtain s n3 where o: "net_udp_open S (fd_iface (entry ?e ?n2)) 0 ?n2 = (s, n3)" by force
  note O = opens_typed(2) [OF n2 o]
  have n4: "typed (upd_entry ?e (\<lambda>f. f\<lparr>sock := s\<rparr>) n3)" if "fd \<ge> 0" "?k = FD_UDP"
  proof (rule typed_set_sock)
    have "kind (entry ?e ?n2) = kind (entry ?e n1)"
      by (rule upd_entry_kind) simp
    then show "ktype (kind (entry ?e n3)) = Udp" using A(3) that O by (simp add: ktype_def entry_def)
  qed (use O in simp_all)
  show ?thesis
    using n n1 n2 a o n4 fd_free_typed [OF n4] by (auto simp: lwip_socket_def Let_def plain_calls_typed split: if_splits)
qed

lemma bind_typed:
  assumes n: "typed n" shows "typed (snd (lwip_bind cfg K S fd addr alen n))"
proof (cases "fd_get cfg fd n")
  case None
  with n show ?thesis by (simp add: lwip_bind_def plain_calls_typed)
next
  case (Some e)
  let ?g = "\<lambda>f. f\<lparr>local_ipv4_be := s_addr addr, local_port := ntohs (sin_port addr)\<rparr>"
  let ?n1 = "upd_entry e ?g n"
  have e: "e < length (s_table (ext n))" using fd_get_SomeD [OF Some] shim_typedD(2) [OF n] by simp
  have s1: "same_types n ?n1" by (rule same_types_upd_entry) (simp add: type_view_def)
  note n1 = typed_same [OF n s1]
  let ?n2 = "if net_sock_valid (sock (entry e ?n1)) then snd (net_udp_close S (sock (entry e ?n1)) ?n1) else ?n1"
  obtain s n3 where o: "net_udp_open S (fd_iface (entry e ?n2)) (ntohs (sin_port addr)) ?n2 = (s, n3)" by force
  have n4: "typed (upd_entry e (\<lambda>f. f\<lparr>sock := s\<rparr>) n3)" if k: "kind (entry e n) = FD_UDP"
  proof -
    have "sock_good S Udp (sock (entry e ?n1)) ?n1"
      using typed_get(1) [OF n Some k] sock_good_grows [OF shim_typedD(1) [OF n] _ same_types_grows [OF s1]] e by simp
    then have n2: "typed ?n2" using n1 by (simp add: udp_calls_typed)
    note O = opens_typed(2) [OF n2 o]
    have "ext n3 = ext ?n1" using O by auto
    then have "ktype (kind (entry e n3)) = Udp" using k upd_entry_kind [of ?g e e n] by (simp add: entry_def ktype_def)
    with O show ?thesis by (intro typed_set_sock) simp_all
  qed
  have "kind (entry e ?n1) = kind (entry e n)" by (rule upd_entry_kind) simp
  then show ?thesis
    using n Some n1 n4 o plain_calls_typed(2) [OF n4] typed_same [OF n1 lo_calls_same(1)]
    by (simp add: lwip_bind_def Let_def case_prod_unfold plain_calls_typed del: upd_entry_ext entry_upd_entry)
qed

lemma set_pool_typed:
  assumes "typed n" and "sock_good S Tcp s n" shows "typed (set_pool e i s n)"
  unfolding set_pool_def
  by (rule shim_typed_upd [OF assms(1)])
    (use assms(2) in \<open>auto simp: entry_good_def split: option.splits dest!: set_list_updateD\<close>)

lemma arm_pool_typed: "typed n \<Longrightarrow> typed (snd (arm_pool S e is n))"
proof (induction "is" arbitrary: n)
  case (Cons i "is")
  obtain s n1 where o: "net_tcp_open S (fd_iface (entry e n)) n = (s, n1)" by force
  note O = opens_typed(1) [OF Cons.prems o]
  have n2: "typed (set_pool e i s n1)" using O by (simp add: set_pool_typed)
  have "sock_good S Tcp s (set_pool e i s n1)"
    using O sock_good_handles [of "set_pool e i s n1" n1] by (simp add: set_pool_def upd_entry_def upd_compat_def)
  note n3 = tcp_calls_typed(1) [OF n2 this]
  show ?case using o n2 n3 Cons.IH by (auto simp: Let_def case_prod_unfold plain_calls_typed)
qed simp

lemma listen_typed:
  assumes n: "typed n" shows "typed (snd (lwip_listen cfg K S fd backlog n))"
proof (cases "fd_get cfg fd n")
  case None
  with n show ?thesis by (simp add: lwip_listen_def plain_calls_typed)
next
  case (Some e)
  let ?sz = "pool_size cfg backlog"
  have e: "e < length (s_table (ext n))" using fd_get_SomeD [OF Some] shim_typedD(2) [OF n] by simp
  obtain ok' n1 where m: "env_call (malloc K (?sz * 4)) n = (ok', n1)" by force
  have n1: "typed n1" using plain_calls_typed(3) [OF n, of "malloc K (?sz * 4)"] m by simp
  have v: "entry e n1 = entry e n" using m by (auto simp: env_call_def entry_def Let_def case_prod_unfold)
  show ?thesis
  proof (cases "kind (entry e n) = FD_TCP \<and> local_port (entry e n) \<noteq> 0")
    case False
    with n Some show ?thesis by (auto simp: lwip_listen_def plain_calls_typed)
  next
    case True
    have none: "typed (upd_entry e (\<lambda>f. f\<lparr>pool := None\<rparr>) n1)"
      by (rule shim_typed_upd [OF n1]) (use True v in \<open>auto simp: entry_good_def split: option.splits\<close>)
    let ?g = "\<lambda>f. f\<lparr>pool := Some (replicate ?sz NET_SOCK_INVALID), pool_freed := False, pool_len := ?sz, pool_next := 0, fd_port := local_port f, kind := FD_TCP_LISTEN\<rparr>"
    have "typed (upd_entry e ?g n1)"
      by (rule shim_typed_upd [OF n1]) (use True v in \<open>auto simp: entry_good_def ktype_def split: option.splits\<close>)
    moreover have "upd_entry e (\<lambda>f. f\<lparr>pool_freed := False, pool_len := ?sz, pool_next := 0, fd_port := local_port f, kind := FD_TCP_LISTEN\<rparr>)
        (upd_entry e (\<lambda>f. f\<lparr>pool := Some (replicate ?sz NET_SOCK_INVALID)\<rparr>) n1) = upd_entry e ?g n1"
      using e m by (auto simp: upd_entry_def upd_compat_def env_call_def Let_def case_prod_unfold)
    ultimately show ?thesis using Some True m none arm_pool_typed by (auto simp: lwip_listen_def Let_def plain_calls_typed)
  qed
qed

lemma accept_scan_typed:
  assumes "typed n" and e: "e < MAX_FDS cfg" and "is \<noteq> [] \<Longrightarrow> pool_len (entry e n) > 0" and "accept_scan S e is n = (f, n')"
  shows "typed n' \<and> ext n' = ext n \<and> (\<forall>idx. f = Some idx \<longrightarrow> idx < pool_len (entry e n))"
  using assms(1,3,4)
proof (induction "is" arbitrary: n)
  case (Cons i "is")
  let ?idx = "(pool_next (entry e n) + i) mod pool_len (entry e n)"
  have idx: "?idx < pool_len (entry e n)" using Cons.prems(2) by simp
  obtain c n1 where c: "net_tcp_is_connected S (the (pool (entry e n)) ! ?idx) n = (c, n1)" by force
  have n1: "typed n1" using tcp_calls_typed(3) [OF Cons.prems(1) typed_pool [OF Cons.prems(1) e idx]] c by simp
  have x1: "ext n1 = ext n" using c net_calls_ext by (metis snd_conv)
  then have "entry e n1 = entry e n" by (simp add: entry_def)
  with Cons.prems(2,3) Cons.IH [OF n1] c idx x1 n1 show ?case by (auto simp: Let_def split: if_splits)
qed simp

lemma accept_take_typed:
  assumes n: "typed n" and e: "e < MAX_FDS cfg" and idx: "idx < pool_len (entry e n)"
  shows "typed (snd (accept_take cfg P K S e idx want n))"
proof -
  let ?cand = "the (pool (entry e n)) ! idx"
  obtain fd n1 where a: "fd_alloc cfg P K S FD_TCP n = (fd, n1)" by force
  note A = fd_alloc_typed [OF n _ a, simplified]
  have cand: "sock_good S Tcp ?cand n1" by (rule sock_good_grows [OF shim_typedD(1) [OF n] typed_pool [OF n e idx] A(2)])
  let ?e = "new_entry cfg fd"
  let ?n2 = "upd_entry ?e (\<lambda>f. f\<lparr>sock := ?cand, connected := True, fd_iface := fd_iface (entry e n1), nonblocking := False\<rparr>) n1"
  have n2: "typed ?n2" if "fd \<ge> 0"
    by (rule shim_typed_upd [OF A(1)]) (use A(3) [OF that] cand in \<open>auto simp: entry_good_def ktype_def split: option.splits\<close>)
  obtain s n3 where o: "net_tcp_open S (fd_iface (entry e ?n2)) ?n2 = (s, n3)" by force
  let ?n4 = "set_pool e idx s n3"
  let ?n5 = "if net_sock_valid s then snd (net_tcp_listen S s (fd_port (entry e ?n4)) ?n4) else ?n4"
  have "typed (upd_entry e (\<lambda>f. f\<lparr>pool_next := (idx + 1) mod pool_len f\<rparr>) ?n5)" if "fd \<ge> 0"
  proof (rule typed_view)
    note O = opens_typed(1) [OF n2 [OF that] o]
    have n4: "typed ?n4" using O by (simp add: set_pool_typed)
    have "sock_good S Tcp s ?n4" using O sock_good_handles [of ?n4 n3] by (simp add: set_pool_def upd_entry_def upd_compat_def)
    with n4 show "typed ?n5" by (simp add: tcp_calls_typed)
  qed (simp add: type_view_def)
  then show ?thesis using a o A(1) by (auto simp: accept_take_def Let_def plain_calls_typed)
qed

lemma accept_loop_typed:
  assumes "accept_loop cfg P R K S e want st n = Some r" and "typed n" and "e < MAX_FDS cfg"
  shows "typed (snd r)"
proof -
  have "Q ((((((((cfg, P), R), K), S), e), want), st), n) r"
    if Q: "Q = (\<lambda>((((((((c', P'), R'), K'), S'), e), want), st), n) r. c' = cfg \<longrightarrow> P' = P \<longrightarrow> R' = R \<longrightarrow> K' = K \<longrightarrow> S' = S
      \<longrightarrow> typed n \<longrightarrow> e < MAX_FDS cfg \<longrightarrow> typed (snd r))" for Q
  proof (rule accept_loop.raw_induct [OF _ assms(1)], goal_cases)
    case (1 loop c' P' R' K' S' e want st n r)
    show ?case unfolding Q prod.case
    proof (intro impI)
      assume eq: "c' = cfg" "P' = P" "R' = R" "K' = K" "S' = S" and n: "typed n" and e: "e < MAX_FDS cfg"
      obtain f n1 where f: "accept_scan S e [0..<pool_len (entry e n)] (pool_access e n) = (f, n1)" by force
      have n0: "typed (pool_access e n)" using n by (simp add: pool_access_def plain_calls_typed)
      have x: "entry e (pool_access e n) = entry e n" by (rule pool_access_frame)
      have n1: "typed n1" "entry e n1 = entry e n" "\<And>idx. f = Some idx \<Longrightarrow> idx < pool_len (entry e n1)"
        using accept_scan_typed [OF n0 e _ f] x by (auto simp: entry_def)
      obtain t n2 where t: "tick_count P n1 = (t, n2)" by force
      have n2: "typed n2" using plain_calls_typed(5) [OF n1(1)] t by simp
      have IH: "loop cfg P R K S e want st m = Some r \<Longrightarrow> typed m \<Longrightarrow> typed (snd r)" for m
        using 1(1) [of cfg P R K S e want st m r] e unfolding Q by simp
      show "typed (snd r)"
        using 1(2) n1(3) unfolding eq f prod.case Let_def t
        by (auto split: option.splits if_splits intro: accept_take_typed [OF n1(1) e] plain_calls_typed(1) [OF n1(1)]
            plain_calls_typed(1) [OF n2] IH delay_typed [OF n2, THEN conjunct1])
    qed
  qed
  with assms show ?thesis by simp
qed

lemma accept_typed:
  assumes "typed n" and "lwip_accept cfg P R K S fd al n = Some (r, n')"
  shows "typed n'"
proof (cases "fd_get cfg fd n")
  case None
  with assms show ?thesis by (auto simp: lwip_accept_def plain_calls_typed)
next
  case (Some e)
  note L = accept_loop_typed [OF _ plain_calls_typed(5) [OF assms(1)] conjunct1 [OF fd_get_SomeD [OF Some]]]
  show ?thesis
    using assms Some by (auto simp: lwip_accept_def Let_def case_prod_unfold plain_calls_typed split: if_splits dest!: L)
qed

lemma connect_typed:
  assumes n: "typed n" and c: "lwip_connect cfg P R S fd addr alen n = Some (i, n')"
  shows "typed n'"
proof (cases "fd_get cfg fd n")
  case None
  with n c show ?thesis by (auto simp: lwip_connect_def fail_def plain_calls_typed)
next
  case (Some e)
  obtain s n1 where o: "net_tcp_open S (fd_iface (entry e n)) n = (s, n1)" by force
  note O = opens_typed(1) [OF n o]
  let ?n2 = "upd_entry e (\<lambda>f. f\<lparr>sock := s\<rparr>) n1"
  have n2: "typed ?n2" if "kind (entry e n) = FD_TCP"
    by (rule typed_set_sock) (use O that in \<open>simp_all add: entry_def ktype_def\<close>)
  have s2: "sock_good S Tcp s ?n2" using O sock_good_handles [of ?n2 n1] by (simp add: upd_entry_def upd_compat_def)
  have conn: "typed m \<Longrightarrow> typed (upd_entry e (\<lambda>f. f\<lparr>connected := True\<rparr>) m)" for m
    by (rule typed_view) (simp_all add: type_view_def)
  have udp: "typed (upd_entry e (\<lambda>f. f\<lparr>local_ipv4_be := s_addr addr, local_port := ntohs (sin_port addr), connected := True\<rparr>) n)"
    by (rule typed_view [OF n]) (simp add: type_view_def)
  show ?thesis
    using c Some o n n2 udp blocking_typed(1) [OF n2 s2]
    by (auto simp: lwip_connect_def Let_def fail_def plain_calls_typed conn split: if_splits fd_kind.splits)
qed

lemma close_typed: "typed n \<Longrightarrow> typed (snd (lwip_close cfg P K S fd n))"
  by (simp add: lwip_close_def plain_calls_typed fd_free_typed)

lemma shutdown_typed:
  assumes n: "typed n" shows "typed (snd (lwip_shutdown cfg S fd n))"
proof (cases "fd_get cfg fd n")
  case None
  with n show ?thesis by (simp add: lwip_shutdown_def plain_calls_typed)
next
  case (Some e)
  have "typed (upd_entry e (\<lambda>f. f\<lparr>sock := NET_SOCK_INVALID, connected := False\<rparr>) m)" if "typed m" for m
    by (rule shim_typed_upd [OF that]) (simp add: entry_good_def split: option.splits)
  with n Some tcp_calls_typed(2) [OF n typed_get(2) [OF n Some]] show ?thesis by (simp add: lwip_shutdown_def)
qed

end

section \<open>Calls that use the sockets of a descriptor\<close>

text \<open>Most calls use the sockets of their descriptor and neither open nor close any. They keep every
  property \<open>J\<close> that depends on nothing but the sockets of the descriptors and the tables of ids,
  given that it survives the waits.\<close>

locale inv_tasks = typed_tasks P contents capacity K cfg R W S H
  for P :: "('q, 'g, ('q, 'g, 'x) compat) platform" and contents capacity K cfg
    and R :: "('q, 'g, 'c, ('q, 'g, 'x) compat) rtos" and W and S :: "'c smoltcp" and H :: handles +
  fixes J :: "('q, 'g, 'c, 'x) cnet \<Rightarrow> bool"
  assumes J_same: "shim_typed S cfg H n \<Longrightarrow> J n \<Longrightarrow> same_types n n' \<Longrightarrow> J n'"
    and J_call: "shim_typed S cfg H n \<Longrightarrow> J n \<Longrightarrow> ids_view n' = ids_view n \<Longrightarrow> ext n' = ext n \<Longrightarrow> J n'"
    and J_delay: "shim_typed S cfg H n \<Longrightarrow> J n \<Longrightarrow> J (vTaskDelay R d n)"
    and J_bits: "shim_typed S cfg H n \<Longrightarrow> J n \<Longrightarrow> J (snd (wait_bits_progress R b d n))"
    and J_rx: "shim_typed S cfg H n \<Longrightarrow> J n \<Longrightarrow> J (W e d n)"
begin

definition inv :: "('q, 'g, 'c, 'x) cnet \<Rightarrow> bool" where
  "inv n \<longleftrightarrow> typed n \<and> J n"

lemma inv_typed: "inv n \<Longrightarrow> typed n"
  by (simp add: inv_def)

lemma inv_same: "inv n \<Longrightarrow> same_types n n' \<Longrightarrow> inv n'"
  using typed_same J_same unfolding inv_def by blast

lemma inv_call: "inv n \<Longrightarrow> net_grows S n n' \<Longrightarrow> ids_view n' = ids_view n \<Longrightarrow> ext n' = ext n \<Longrightarrow> inv n'"
  using typed_call J_call unfolding inv_def by blast

lemma delay_inv: "inv n \<Longrightarrow> inv (vTaskDelay R d n)"
  using delay_typed J_delay unfolding inv_def by blast

lemma rx_inv: "inv n \<Longrightarrow> inv (W e d n)"
  using rx_wait_typed J_rx unfolding inv_def by blast

lemma inv_view: "inv n \<Longrightarrow> (\<And>f. type_view (g f) = type_view f) \<Longrightarrow> inv (upd_entry e g n)"
  by (rule inv_same [OF _ same_types_upd_entry])

lemma plain_calls_inv:
  assumes n: "inv n"
  shows "inv (SET_ERRNO e n)" "inv (snd (fail e n))" "inv (snd (env_call h n))" "inv (bad_access n)" "inv (snd (tick_count P n))"
  using n by (blast intro: inv_same same_types_steps env_same)+

lemma tcp_calls_inv:
  assumes "inv n" and "sock_good S Tcp s n"
  shows "inv (snd (net_tcp_listen S s port n))" "inv (snd (net_tcp_is_active S s n))" "inv (snd (net_tcp_is_connected S s n))"
    "inv (snd (net_tcp_recv_queue S s n))" "inv (snd (net_tcp_send_capacity S s n))"
  using tcp_calls_grow [OF shim_typedD(1) [OF inv_typed [OF assms(1)]] assms(2)]
  by (intro inv_call [OF assms(1)]; simp)+

lemma udp_calls_inv:
  assumes "inv n" and "sock_good S Udp s n"
  shows "inv (snd (net_udp_sendto S s buf ip port n))"
  using udp_calls_grow(1) [OF shim_typedD(1) [OF inv_typed [OF assms(1)]] assms(2)] by (intro inv_call [OF assms(1)]) simp_all

lemma env_inv:
  assumes "inv n"
  shows "keeps_env P R (\<lambda>m. inv m \<and> net_grows S n m)"
proof -
  have kick: "inv (net_stack_kick_poll m)" if "inv m" for m :: "('q, 'g, 'c, 'x) cnet"
    by (rule inv_call [OF that]) simp_all
  have s: "inv (snd (tick_count P m))" "inv (snd (smoltcp_glue_rand32 P m))" if "inv m" for m
    using that by (blast intro: inv_same env_same)+
  show ?thesis
    using env_typed [OF inv_typed [OF assms]] kick s J_bits bits_typed delay_inv unfolding keeps_env_def inv_def by meson
qed

lemma sock_keeps_inv:
  fixes n :: "('q, 'g, 'c, 'x) cnet"
  assumes n: "inv n" and s: "sock_good S t s n"
  shows "t = Tcp \<Longrightarrow> tcp_keeps S (IFACE s) (LOCAL s) (\<lambda>m. inv m \<and> net_grows S n m)"
    and "t = Udp \<Longrightarrow> udp_keeps S (IFACE s) (LOCAL s) (\<lambda>m. inv m \<and> net_grows S n m)"
proof -
  have c: "J (snd (locked_call (IFACE s) f m))" if "inv m" and "\<And>h. ids_of (snd (f h)) = ids_of h"
    for f :: "'c iface_ctx option \<Rightarrow> 'r \<times> 'c iface_ctx option" and m :: "('q, 'g, 'c, 'x) cnet"
    using that J_call [of m "snd (locked_call (IFACE s) f m)"] by (simp add: ids_locked inv_def)
  show "t = Tcp \<Longrightarrow> tcp_keeps S (IFACE s) (LOCAL s) (\<lambda>m. inv m \<and> net_grows S n m)"
    using sock_keeps_typed(1) [OF inv_typed [OF n] s] unfolding tcp_keeps_def by (simp add: c inv_def)
  show "t = Udp \<Longrightarrow> udp_keeps S (IFACE s) (LOCAL s) (\<lambda>m. inv m \<and> net_grows S n m)"
    using sock_keeps_typed(2) [OF inv_typed [OF n] s] unfolding udp_keeps_def by (simp add: c inv_def)
qed

lemma blocking_inv:
  fixes n :: "('q, 'g, 'c, 'x) cnet"
  assumes n: "inv n"
  shows "sock_good S Tcp s n \<Longrightarrow> net_tcp_connect P R S s ip port tmo n = Some (e, n') \<Longrightarrow> inv n'"
    and "sock_good S Tcp s n \<Longrightarrow> net_tcp_send P R S s buf tmo n = Some (r, n') \<Longrightarrow> inv n'"
    and "sock_good S Tcp s n \<Longrightarrow> net_tcp_recv P R S s cap tmo n = Some (rb, n') \<Longrightarrow> inv n'"
    and "sock_good S Udp s n \<Longrightarrow> net_udp_recvfrom P R S s cap tmo n = Some (rd, n') \<Longrightarrow> inv n'"
proof -
  have I: "inv n \<and> net_grows S n n" using n by simp
  note C = net_calls_keep [OF env_inv [OF n] I] and K = sock_keeps_inv [OF n]
  show "sock_good S Tcp s n \<Longrightarrow> net_tcp_connect P R S s ip port tmo n = Some (e, n') \<Longrightarrow> inv n'" using C(1) K(1) by blast
  show "sock_good S Tcp s n \<Longrightarrow> net_tcp_send P R S s buf tmo n = Some (r, n') \<Longrightarrow> inv n'" using C(2) K(1) by blast
  show "sock_good S Tcp s n \<Longrightarrow> net_tcp_recv P R S s cap tmo n = Some (rb, n') \<Longrightarrow> inv n'" using C(3) K(1) by blast
  show "sock_good S Udp s n \<Longrightarrow> net_udp_recvfrom P R S s cap tmo n = Some (rd, n') \<Longrightarrow> inv n'" using C(4) K(2) by blast
qed

lemma send_inv:
  assumes n: "inv n" and c: "lwip_send cfg P R S fd buf n = Some (i, n')"
  shows "inv n'"
proof (cases "fd_get cfg fd n")
  case None
  with n c show ?thesis by (auto simp: lwip_send_def fail_def plain_calls_inv)
next
  case (Some e)
  note G = typed_get [OF inv_typed [OF n] Some]
  show ?thesis
    using c Some plain_calls_inv(2) [OF n] G blocking_inv(2) [OF n G(2)] udp_calls_inv(1) [OF n G(1)]
    by (auto simp: lwip_send_def split: if_splits fd_kind.splits) (metis snd_conv)+
qed

lemma recv_inv:
  assumes n: "inv n" and c: "lwip_recv cfg P R S fd len n = Some (rb, n')"
  shows "inv n'"
proof (cases "fd_get cfg fd n")
  case None
  with n c show ?thesis by (auto simp: lwip_recv_def plain_calls_inv)
next
  case (Some e)
  note G = typed_get [OF inv_typed [OF n] Some]
  have R: "recv_result e r m = (rb, n') \<Longrightarrow> inv m \<Longrightarrow> inv n'" for r m
    by (auto simp: recv_result_def plain_calls_inv split: if_splits)
  show ?thesis
    using c Some n G blocking_inv(3,4) [OF n]
    by (auto simp: lwip_recv_def plain_calls_inv intro: R split: option.splits fd_kind.splits)
qed

lemma sendto_inv:
  assumes n: "inv n" shows "inv (snd (lwip_sendto cfg P K S fd buf addr alen n))"
  using plain_calls_inv(2) [OF n] udp_calls_inv(1) [OF n typed_get(1) [OF inv_typed [OF n]]] inv_same [OF n lo_calls_same(3)]
  by (simp add: lwip_sendto_def split: option.split)

lemma lo_recvfrom_inv:
  assumes n: "inv n" shows "inv (snd (lo_recvfrom P W e len n))"
proof -
  have w: "inv (snd (lo_receive P W e d n))" for d
    using n rx_inv [OF n, of e d] same_types_rx(1)
    by (auto simp: lo_receive_def Let_def bad_access_def [symmetric] plain_calls_inv intro: inv_same split: option.splits)
  have m: "inv k \<Longrightarrow> inv (msg_free a (snd (msg_read a k)))" for a k
    by (rule inv_same, assumption) (intro same_types_intros same_types_refl)
  show ?thesis
    using w m by (auto simp: lo_recvfrom_def Let_def case_prod_unfold plain_calls_inv split: option.split)
qed

lemma recvfrom_inv:
  assumes n: "inv n" and c: "lwip_recvfrom cfg P R W S fd len al n = Some (rf, n')"
  shows "inv n'"
proof (cases "fd_get cfg fd n")
  case None
  with n c show ?thesis by (auto simp: lwip_recvfrom_def plain_calls_inv)
next
  case (Some e)
  show ?thesis
    using c Some n lo_recvfrom_inv [OF n, of e len] blocking_inv(4) [OF n typed_get(1) [OF inv_typed [OF n] Some]]
    by (auto simp: lwip_recvfrom_def Let_def plain_calls_inv split: if_splits prod.splits)
qed

lemma option_calls_inv:
  assumes n: "inv n"
  shows "inv (snd (lwip_setsockopt cfg S fd opt n))" "inv (snd (lwip_getsockopt cfg fd so_error n))"
    "inv (snd (lwip_getsockname cfg S fd al n))" "inv (snd (lwip_getpeername n))"
    "inv (snd (lwip_fcntl cfg K fd cmd arg n))" "inv (snd (lwip_ioctl cfg K fd icmd iarg n))"
proof -
  have u: "inv (upd_entry e (\<lambda>f. f\<lparr>rcv_timeout_ms := t\<rparr>) n)" "inv (upd_entry e (\<lambda>f. f\<lparr>snd_timeout_ms := t\<rparr>) n)"
    "inv (upd_entry e (\<lambda>f. f\<lparr>nonblocking := b\<rparr>) n)" for e t b
    by (rule inv_view [OF n], simp add: type_view_def)+
  have g: "inv (snd (net_mcast_join S i a n))" "inv (snd (net_mcast_leave S i a n))" "inv (snd (net_stack_get_ipv4 S i n))" for i a
    by (rule inv_call [OF n], simp_all add: mcast_grow get_ipv4_grows shim_typedD(1) [OF inv_typed [OF n]])+
  note I = n u g plain_calls_inv [OF n]
  show "inv (snd (lwip_setsockopt cfg S fd opt n))"
    using I by (simp add: lwip_setsockopt_def Let_def case_prod_unfold split: option.split sockopt.split)
  show "inv (snd (lwip_getsockopt cfg fd so_error n))" using I by (simp add: lwip_getsockopt_def split: option.split)
  show "inv (snd (lwip_getsockname cfg S fd al n))"
    using I by (simp add: lwip_getsockname_def Let_def case_prod_unfold split: option.split)
  show "inv (snd (lwip_getpeername n))" using I by (simp add: lwip_getpeername_def)
  show "inv (snd (lwip_fcntl cfg K fd cmd arg n))" using I by (simp add: lwip_fcntl_def plain_calls_inv [OF n] split: option.split fcntl_cmd.split)
  show "inv (snd (lwip_ioctl cfg K fd icmd iarg n))" using I by (simp add: lwip_ioctl_def plain_calls_inv [OF n] split: option.split ioctl_cmd.split)
qed

lemma pool_ready_inv:
  "inv n \<Longrightarrow> e < MAX_FDS cfg \<Longrightarrow> \<forall>i \<in> set is. i < pool_len (entry e n) \<Longrightarrow> inv (snd (pool_ready S e is n))"
proof (induction "is" arbitrary: n)
  case (Cons i "is")
  let ?n1 = "snd (net_tcp_is_connected S (the (pool (entry e n)) ! i) n)"
  have "inv ?n1" using tcp_calls_inv(3) [OF Cons.prems(1) typed_pool [OF inv_typed [OF Cons.prems(1)] Cons.prems(2)]] Cons.prems(3) by simp
  moreover have "entry e ?n1 = entry e n" by (simp add: entry_def)
  ultimately show ?case using Cons.IH [of ?n1] Cons.prems(2,3) by (simp add: Let_def case_prod_unfold)
qed simp

lemma fd_readable_inv:
  assumes n: "inv n" and e: "e < MAX_FDS cfg" and r: "fd_readable P R S e n = Some (b, n')"
  shows "inv n'"
proof -
  note G = typed_entry [OF inv_typed [OF n] e]
  have pool: "inv (snd (pool_ready S e [0..<pool_len (entry e n)] n))"
    using e by (intro pool_ready_inv [OF n]) simp_all
  let ?n1 = "snd (net_tcp_recv_queue S (sock (entry e n)) n)"
  have tcp: "inv ?n1" "inv (snd (net_tcp_is_connected S (sock (entry e ?n1)) ?n1))" if "kind (entry e n) = FD_TCP"
  proof -
    have s: "sock_good S Tcp (sock (entry e n)) n" using G(2) that by simp
    then show n1: "inv ?n1" by (rule tcp_calls_inv [OF n])
    have "sock_good S Tcp (sock (entry e n)) ?n1"
      by (rule sock_good_grows [OF shim_typedD(1) [OF inv_typed [OF n]] s tcp_calls_grow(5) [OF shim_typedD(1) [OF inv_typed [OF n]] s]])
    then show "inv (snd (net_tcp_is_connected S (sock (entry e ?n1)) ?n1))"
      by (intro tcp_calls_inv [OF n1]) (simp add: entry_def)
  qed
  show ?thesis
    using r n pool tcp blocking_inv(4) [OF n G(1)]
    by (auto simp: fd_readable_def Let_def case_prod_unfold split: if_splits fd_kind.splits)
qed

lemma fd_writable_inv:
  assumes "inv n" and "e < MAX_FDS cfg"
  shows "inv (snd (fd_writable S e n))"
  using assms(1) tcp_calls_inv(5) [OF assms(1) typed_entry(2) [OF inv_typed [OF assms(1)] assms(2)]]
  by (simp add: fd_writable_def Let_def case_prod_unfold split: fd_kind.split)

lemma fd_set_calls_inv:
  assumes "inv n" shows "inv (snd (FD_ISSET cfg fd s n))" and "inv (snd (FD_SET cfg fd s n))"
  using assms by (simp_all add: FD_ISSET_def FD_SET_def plain_calls_inv)

lemma select_fd_inv:
  assumes n: "inv n" and s: "select_fd cfg P R S rd_in wr_in fd acc n = Some (acc', n')"
  shows "inv n'"
proof (cases "fd_get cfg fd n")
  case None
  with n s show ?thesis by (auto simp: select_fd_def split: if_splits)
next
  case (Some e)
  have e: "e < MAX_FDS cfg" using fd_get_SomeD [OF Some] by simp
  obtain rq n1 where i: "FD_ISSET cfg fd rd_in n = (rq, n1)" by force
  have n1: "inv n1" using fd_set_calls_inv(1) [OF n, of fd rd_in] i by simp
  show ?thesis
    using s Some n n1
    by (auto simp: select_fd_def i Let_def case_prod_unfold bind_eq_Some_conv fd_set_calls_inv fd_writable_inv [OF _ e]
        dest: fd_readable_inv [OF n1 e] split: if_splits)
qed

lemma select_scan_inv:
  "inv n \<Longrightarrow> select_scan cfg P R S rd_in wr_in fds acc n = Some (acc', n') \<Longrightarrow> inv n'"
proof (induction fds arbitrary: acc n)
  case (Cons fd fds)
  from Cons.prems(2) obtain acc1 n1 where s: "select_fd cfg P R S rd_in wr_in fd acc n = Some (acc1, n1)"
    "select_scan cfg P R S rd_in wr_in fds acc1 n1 = Some (acc', n')"
    by (auto simp: bind_eq_Some_conv)
  show ?case by (rule Cons.IH [OF select_fd_inv [OF Cons.prems(1) s(1)] s(2)])
qed simp

lemma select_loop_inv:
  assumes "select_loop cfg P R S rd_in wr_in fds D n = Some r" and "inv n"
  shows "inv (snd r)"
proof -
  have "Q ((((((((cfg, P), R), S), rd_in), wr_in), fds), D), n) r"
    if Q: "Q = (\<lambda>((((((((c', P'), R'), S'), ri), wi), fds), D), n) r. c' = cfg \<longrightarrow> P' = P \<longrightarrow> R' = R \<longrightarrow> S' = S
      \<longrightarrow> inv n \<longrightarrow> inv (snd r))" for Q
  proof (rule select_loop.raw_induct [OF _ assms(1)], goal_cases)
    case (1 loop c' P' R' S' ri wi fds D n r)
    show ?case unfolding Q prod.case
    proof (intro impI)
      assume eq: "c' = cfg" "P' = P" "R' = R" "S' = S" and n: "inv n"
      from 1(2) obtain acc n1 where s: "select_scan cfg P R S ri wi fds (0, {}, {}) n = Some (acc, n1)"
        unfolding eq by (auto simp: bind_eq_Some_conv)
      have n1: "inv n1" by (rule select_scan_inv [OF n s])
      obtain t n2 where t: "tick_count P n1 = (t, n2)" by force
      have n2: "inv n2" using plain_calls_inv(5) [OF n1] t by simp
      have IH: "loop cfg P R S ri wi fds D m = Some r \<Longrightarrow> inv m \<Longrightarrow> inv (snd r)" for m
        using 1(1) [of cfg P R S ri wi fds D m r] unfolding Q by simp
      show "inv (snd r)"
        using 1(2) n1 n2 IH [OF _ delay_inv [OF n1]] IH [OF _ delay_inv [OF n2]]
        unfolding eq s t by (auto simp: t split: if_splits)
    qed
  qed
  with assms show ?thesis by simp
qed

lemma select_inv:
  assumes "inv n" and "lwip_select cfg P R S nfds rd wr ex to n = Some (r, n')"
  shows "inv n'"
  using assms plain_calls_inv(5) [OF assms(1)] select_loop_inv
  by (fastforce simp: lwip_select_def Let_def case_prod_unfold split: option.splits)

lemma poll_sets_inv: "inv n \<Longrightarrow> inv (snd (poll_sets cfg fds acc n))"
  by (induction fds arbitrary: acc n) (auto simp: Let_def case_prod_unfold fd_set_calls_inv split: prod.split)

lemma poll_events_inv: "inv n \<Longrightarrow> inv (snd (poll_events cfg rd wr fds n))"
  by (induction fds arbitrary: n) (simp_all add: Let_def case_prod_unfold fd_set_calls_inv)

lemma poll_inv:
  assumes "inv n" and "lwip_poll cfg P R S fds tmo n = Some (r, n')"
  shows "inv n'"
proof -
  note S = select_inv [OF poll_sets_inv [OF assms(1), of fds "({}, {}, -1)"]]
  have E: "poll_events cfg rd wr ps m = (r, n') \<Longrightarrow> inv m \<Longrightarrow> inv n'" for rd wr ps m
    using poll_events_inv [of m rd wr ps] by simp
  show ?thesis
    using assms(2) by (auto simp: lwip_poll_def Let_def case_prod_unfold bind_eq_Some_conv dest!: S intro: E split: if_splits)
qed

lemma use_inv: "shim_use cfg P R W K S n n' \<Longrightarrow> inv n \<Longrightarrow> inv n'"
proof (induction rule: shim_use.induct)
  case (read_fd fd len n rb n')
  then show ?case using recv_inv plain_calls_inv(3) [of n "real_read K fd len"] by (auto simp: lwip_read_def split: if_splits)
next
  case (write_fd fd buf n i n')
  then show ?case using send_inv plain_calls_inv(3) [of n "real_write K fd buf"] by (auto simp: lwip_write_def split: if_splits)
qed (simp_all add: sendto_inv option_calls_inv, (blast intro: send_inv recv_inv recvfrom_inv select_inv poll_inv)+)

end

text \<open>Types alone: \<open>J\<close> holds of every state.\<close>

sublocale typed_tasks \<subseteq> free: inv_tasks P contents capacity K cfg R W S H "\<lambda>_. True"
  by unfold_locales simp_all

context typed_tasks
begin

lemma op_typed: "shim_op cfg P R W K S n n' \<Longrightarrow> typed n \<Longrightarrow> typed n'"
  by (induction rule: shim_op.induct)
    (simp_all add: socket_typed bind_typed listen_typed close_typed shutdown_typed,
     (blast intro: accept_typed free.use_inv [unfolded free.inv_def simp_thms])+)

lemma shim_call_typed: "shim_call cfg P R W K S n n' \<Longrightarrow> typed n \<Longrightarrow> typed n'"
  by (induction rule: shim_call.induct) (blast intro: op_typed connect_typed)+

end

section \<open>Runs\<close>

text \<open>Tasks that use the native API beside the shim. A task uses the handles it has got from an
  \<open>open\<close> of the API, each with the calls for the type it was opened as, whether or not the
  socket still exists.\<close>

inductive native_call ::
  "('q, 'g, 'e) platform \<Rightarrow> ('q, 'g, 'c, 'e) rtos \<Rightarrow> 'c smoltcp \<Rightarrow> handles \<Rightarrow> ('q, 'g, 'c, 'e) net \<Rightarrow> ('q, 'g, 'c, 'e) net \<Rightarrow> bool"
  for P R S H where
  tcp_listen: "(Tcp, s) \<in> H \<Longrightarrow> native_call P R S H n (snd (net_tcp_listen S s port n))"
| tcp_connect: "(Tcp, s) \<in> H \<Longrightarrow> net_tcp_connect P R S s ip port tmo n = Some (e, n') \<Longrightarrow> native_call P R S H n n'"
| tcp_send: "(Tcp, s) \<in> H \<Longrightarrow> net_tcp_send P R S s buf tmo n = Some (r, n') \<Longrightarrow> native_call P R S H n n'"
| tcp_recv: "(Tcp, s) \<in> H \<Longrightarrow> net_tcp_recv P R S s cap tmo n = Some (rb, n') \<Longrightarrow> native_call P R S H n n'"
| tcp_close: "(Tcp, s) \<in> H \<Longrightarrow> native_call P R S H n (snd (net_tcp_close S s n))"
| tcp_state: "(Tcp, s) \<in> H \<Longrightarrow> n' \<in> {snd (net_tcp_is_active S s n), snd (net_tcp_is_connected S s n), snd (net_tcp_recv_queue S s n),
    snd (net_tcp_send_capacity S s n)} \<Longrightarrow> native_call P R S H n n'"
| udp_sendto: "(Udp, s) \<in> H \<Longrightarrow> native_call P R S H n (snd (net_udp_sendto S s buf ip port n))"
| udp_recvfrom: "(Udp, s) \<in> H \<Longrightarrow> net_udp_recvfrom P R S s cap tmo n = Some (rd, n') \<Longrightarrow> native_call P R S H n n'"
| udp_close: "(Udp, s) \<in> H \<Longrightarrow> native_call P R S H n (snd (net_udp_close S s n))"

text \<open>The system: the start of the shim, its calls and those of the native API, and the steps of the
  driver, the poll task and the application. The handles that native opens return, the invalid one
  included, are collected in \<open>H\<close>. An application that takes a context and changes it behind the
  API (the step \<open>Api\<close> of \<open>net_step\<close>) is left out.\<close>

inductive typed_run for cfg P R W K S C where
  start: "typed_run cfg P R W K S C n {} n"
| init: "typed_run cfg P R W K S C n H n1 \<Longrightarrow> typed_run cfg P R W K S C n H (snd (fd_table_init cfg K n1))"
| call: "typed_run cfg P R W K S C n H n1 \<Longrightarrow> shim_call cfg P R W K S n1 n2 \<Longrightarrow> typed_run cfg P R W K S C n H n2"
| tcp_open: "typed_run cfg P R W K S C n H n1 \<Longrightarrow> net_tcp_open S ifc n1 = (s, n2) \<Longrightarrow> typed_run cfg P R W K S C n (insert (Tcp, s) H) n2"
| udp_open: "typed_run cfg P R W K S C n H n1 \<Longrightarrow> net_udp_open S ifc port n1 = (s, n2) \<Longrightarrow> typed_run cfg P R W K S C n (insert (Udp, s) H) n2"
| native: "typed_run cfg P R W K S C n H n1 \<Longrightarrow> native_call P R S H n1 n2 \<Longrightarrow> typed_run cfg P R W K S C n H n2"
| stack: "typed_run cfg P R W K S C n H (sys_net s1) \<Longrightarrow> net_step P S C s1 a s2 \<Longrightarrow> a \<notin> range Api
    \<Longrightarrow> same_statics (ext (sys_net s1)) (ext (sys_net s2)) \<Longrightarrow> typed_run cfg P R W K S C n H (sys_net s2)"

context typed_tasks
begin

lemma native_typed:
  assumes "native_call P R S H n n'" and n: "typed n"
  shows "typed n'"
  using assms
proof (induction rule: native_call.induct)
  case (tcp_state s n' n)
  note s = shim_typedD(4) [OF tcp_state(3,1)]
  have "typed (snd (net_tcp_is_active S s n))"
    by (rule typed_call [OF tcp_state(3) tcp_calls_grow(3) [OF shim_typedD(1) [OF tcp_state(3)] s]]) simp
  with tcp_state s show ?case by (auto simp: tcp_calls_typed)
qed (blast intro: tcp_calls_typed udp_calls_typed blocking_typed shim_typedD(4))+

end

lemma boot_typed: "net_good S n \<Longrightarrow> ext n = compat_boot cfg x \<Longrightarrow> shim_typed S cfg {} n"
  by (simp add: shim_typed_def compat_boot_def entry_good_def fd_zero_def)

lemma typed_run_typed:
  assumes "typed_run cfg P R W K S C n0 H n" and "\<And>H. typed_tasks P contents capacity K cfg R W S H" and "shim_typed S cfg {} n0"
  shows "shim_typed S cfg H n"
  using assms
proof (induction rule: typed_run.induct)
  case (stack n H s1 a s2)
  then have n: "shim_typed S cfg H (sys_net s1)" by simp
  note G = typed_tasks.axioms(2) [OF stack.prems(1)]
  show ?case
    by (rule shim_typed_grows [OF n smoltcp_sockets.net_step_grows [OF G stack(2) shim_typedD(1) [OF n] stack(3)]])
      (simp add: same_statics_simps [OF stack(4)])
next
  case (tcp_open n H n1 ifc s n2)
  then show ?case using typed_tasks.opens_typed(1) [OF tcp_open.prems(1) tcp_open.IH [OF tcp_open.prems]] by (blast intro: shim_typed_insert)
next
  case (udp_open n H n1 ifc port s n2)
  then show ?case using typed_tasks.opens_typed(2) [OF udp_open.prems(1) udp_open.IH [OF udp_open.prems]] by (blast intro: shim_typed_insert)
qed (blast intro: shim_typed_same typed_tasks.fd_table_init_same typed_tasks.shim_call_typed typed_tasks.native_typed)+

text \<open>The invariant read off a state.\<close>

lemma shim_typed_result:
  assumes n: "shim_typed S cfg H n" and i: "i < NET_IFACE_MAX" and ctx: "hnd i n = Some ctx" and few: "ctx_opened ctx < 2 ^ 24"
  shows "\<not> ctx_panic ctx"
    and "e < MAX_FDS cfg \<Longrightarrow> kind (entry e n) \<noteq> FD_FREE \<Longrightarrow> IFACE (sock (entry e n)) = i \<Longrightarrow>
      ctx_lookup (LOCAL (sock (entry e n))) ctx = Some sh \<Longrightarrow> sm_kind S sh (ctx_stack ctx) = Some (ktype (kind (entry e n)))"
    and "e < MAX_FDS cfg \<Longrightarrow> pool (entry e n) = Some ss \<Longrightarrow> s \<in> set ss \<Longrightarrow> IFACE s = i \<Longrightarrow>
      ctx_lookup (LOCAL s) ctx = Some sh \<Longrightarrow> sm_kind S sh (ctx_stack ctx) = Some Tcp"
    and "(t, s) \<in> H \<Longrightarrow> IFACE s = i \<Longrightarrow> ctx_lookup (LOCAL s) ctx = Some sh \<Longrightarrow> sm_kind S sh (ctx_stack ctx) = Some t"
proof -
  have few': "few ctx" using few by (simp add: few_def)
  have C: "sm_kind S sh (ctx_stack ctx) = Some t" if "sock_good S t s n" "IFACE s = i" "ctx_lookup (LOCAL s) ctx = Some sh" for t s
    using sock_good_core [OF shim_typedD(1) [OF n] that(1)] that(2,3) i ctx few' by (simp add: h_good_def id_good_def id_typed_def ctx_kind_def)
  show "\<not> ctx_panic ctx" using shim_typedD(1) [OF n] i ctx few' by (simp add: net_good_def ctx_good_def ctx_typed_def)
  show "e < MAX_FDS cfg \<Longrightarrow> kind (entry e n) \<noteq> FD_FREE \<Longrightarrow> IFACE (sock (entry e n)) = i \<Longrightarrow>
      ctx_lookup (LOCAL (sock (entry e n))) ctx = Some sh \<Longrightarrow> sm_kind S sh (ctx_stack ctx) = Some (ktype (kind (entry e n)))"
    using shim_typedD(3) [OF n, of e] C [of "ktype (kind (entry e n))" "sock (entry e n)"] by (simp add: entry_good_def)
  show "e < MAX_FDS cfg \<Longrightarrow> pool (entry e n) = Some ss \<Longrightarrow> s \<in> set ss \<Longrightarrow> IFACE s = i \<Longrightarrow>
      ctx_lookup (LOCAL s) ctx = Some sh \<Longrightarrow> sm_kind S sh (ctx_stack ctx) = Some Tcp"
    using shim_typedD(3) [OF n, of e] C by (auto simp: entry_good_def)
  show "(t, s) \<in> H \<Longrightarrow> IFACE s = i \<Longrightarrow> ctx_lookup (LOCAL s) ctx = Some sh \<Longrightarrow> sm_kind S sh (ctx_stack ctx) = Some t"
    using shim_typedD(4) [OF n] C by blast
qed

section \<open>From power-up\<close>

interpretation ref_typed: typed_tasks ref_cplatform ring_contents ring_capacity ref_libc ref_cfg ref_crtos "\<lambda>e d. tick_on" ref_smoltcp H
  for H
proof (unfold_locales)
  have "same_types n (tick_on n)" for n :: "(ring, u32, ref_stack, nat) cnet"
    unfolding tick_on_def by (rule same_types_upd_compat) simp
  then have t: "shim_typed ref_smoltcp ref_cfg H n \<Longrightarrow> shim_typed ref_smoltcp ref_cfg H (tick_on n) \<and> net_grows ref_smoltcp n (tick_on n)" for n :: "(ring, u32, ref_stack, nat) cnet"
    using shim_typed_same [of ref_smoltcp ref_cfg H n "tick_on n"] same_types_grows [of n "tick_on n" ref_smoltcp] by simp
  show "shim_typed ref_smoltcp ref_cfg H n \<Longrightarrow> shim_typed ref_smoltcp ref_cfg H (vTaskDelay ref_crtos d n) \<and> net_grows ref_smoltcp n (vTaskDelay ref_crtos d n)"
    "shim_typed ref_smoltcp ref_cfg H n \<Longrightarrow>
      shim_typed ref_smoltcp ref_cfg H (snd (wait_bits_progress ref_crtos b d n)) \<and> net_grows ref_smoltcp n (snd (wait_bits_progress ref_crtos b d n))"
    "shim_typed ref_smoltcp ref_cfg H n \<Longrightarrow> shim_typed ref_smoltcp ref_cfg H (tick_on n)" for n b d
    using t by (simp_all add: ref_crtos_def)
qed

text \<open>C3: Type safety. From power-up, whatever the tasks call of the shim (the resolver apart) and of the
  native API, on the handles they have got from its open calls and with the calls for the type
  they opened, and whatever the driver, the poll task and the application do in between and during
  the waits, smoltcp is never asked for a socket as another type than it has (which panics and
  takes the firmware down), as long as fewer than \<open>2^24\<close> sockets were opened on the interface.
  The socket of a live descriptor has the type of the descriptor's kind, every slot of a listener's
  pool is a TCP socket, and every handle a task got from the native API names, while its socket
  exists, a socket of the type it was opened as.\<close>

theorem shim_type_safe:
  assumes "\<And>H. typed_tasks P contents capacity K cfg R W S H" and "net_good S n0" and "ext n0 = compat_boot cfg x"
    and "typed_run cfg P R W K S C n0 H n"
    and "i < NET_IFACE_MAX" and "smoltcp_handle (iface i n) = Some ctx" and "ctx_opened ctx < 2 ^ 24"
  shows "\<not> ctx_panic ctx
    \<and> (\<forall>e sh. e < MAX_FDS cfg \<longrightarrow> kind (entry e n) \<noteq> FD_FREE \<longrightarrow> IFACE (sock (entry e n)) = i
         \<longrightarrow> ctx_lookup (LOCAL (sock (entry e n))) ctx = Some sh \<longrightarrow> sm_kind S sh (ctx_stack ctx) = Some (ktype (kind (entry e n))))
    \<and> (\<forall>e ss s sh. e < MAX_FDS cfg \<longrightarrow> pool (entry e n) = Some ss \<longrightarrow> s \<in> set ss \<longrightarrow> IFACE s = i
         \<longrightarrow> ctx_lookup (LOCAL s) ctx = Some sh \<longrightarrow> sm_kind S sh (ctx_stack ctx) = Some Tcp)
    \<and> (\<forall>t s sh. (t, s) \<in> H \<longrightarrow> net_sock_valid s \<longrightarrow> IFACE s = i \<longrightarrow> ctx_lookup (LOCAL s) ctx = Some sh \<longrightarrow> sm_kind S sh (ctx_stack ctx) = Some t)"
proof -
  have "shim_typed S cfg H n"
    by (rule typed_run_typed [OF assms(4,1) boot_typed [OF assms(2,3)]])
  from shim_typed_result [OF this assms(5-7)] show ?thesis by blast
qed

lemma ref_cnet_good: "net_good ref_smoltcp ref_cnet"
  by (auto simp: net_good_def ref_cnet_def net_boot_def NET_IFACE_MAX_def NET_IFACE_ETH_def iface_def upd_iface_def nth_list_update iface_boot_def
      less_2_cases_iff ref_socks.ctx_new_good)

lemma ref_cfg_simps: "MAX_FDS ref_cfg = 4" "LWIP_SOCKET_OFFSET ref_cfg = 54" "DEFAULT_IFACE_ETH ref_cfg" "AF_INET ref_cfg = 2"
    "SOCK_STREAM ref_cfg = 1" "SOCK_DGRAM ref_cfg = 2"
  by (simp_all add: ref_cfg_def)

lemma replicate_lists: "replicate 4 x = [x, x, x, x]" "replicate 2 x = [x, x]"
  by (simp_all add: numeral_eq_Suc)

abbreviation ref_shim_state :: "(ring, u32) fd_entry list \<Rightarrow> (ring, u32, nat) compat" where
  "ref_shim_state t \<equiv> (compat_boot ref_cfg 0)\<lparr>fd_lock := mx_boot\<lparr>mx_created := True\<rparr>, s_table := t\<rparr>"

lemma ref_shim_init: "snd (fd_table_init ref_cfg ref_libc ref_cnet) = ref_cnet\<lparr>ext := ref_shim_state (replicate 4 (fd_zero (Some 0)))\<rparr>"
  by (simp add: fd_table_init_def ref_cnet(2) compat_boot_def mx_boot_def env_call_def ref_libc_def ref_cfg_def upd_compat_def upd_entry_def
    upt_rec numeral_eq_Suc fd_zero_def Let_def case_prod_unfold)

lemma ref_query: "net_stack_get_ipv4 ref_smoltcp 0 (ref_cnet\<lparr>ext := x\<rparr>) = (0, ref_cnet\<lparr>ext := x\<rparr>)"
  "net_stack_get_ipv4 ref_smoltcp 1 (ref_cnet\<lparr>ext := x\<rparr>) = (0, ref_cnet\<lparr>ext := x\<rparr>)"
  by (simp_all add: ref_cnet_def net_stack_get_ipv4_def iface_query_def locked_call_def net_boot_def iface_def upd_iface_def iface_boot_def lock_defs
      set_handle_def NET_IFACE_ETH_def NET_IFACE_MAX_def replicate_lists core_call_def smoltcp_iface_get_ipv4_def ctx_new_def Let_def ref_smoltcp_def push_addr_def)

lemma ref_alloc: "fd_alloc ref_cfg ref_cplatform ref_libc ref_smoltcp FD_UDP (ref_cnet\<lparr>ext := ref_shim_state (replicate 4 (fd_zero (Some 0)))\<rparr>)
   = (54, ref_cnet\<lparr>ext := ref_shim_state ((replicate 4 (fd_zero (Some 0)))[0 := (fd_zero (Some 0))\<lparr>kind := FD_UDP\<rparr>])\<rparr>)"
  by (simp add: fd_alloc_def fd_default_iface_def ref_query ref_query(2) [simplified] NET_IFACE_ETH_def NET_IFACE_WIFI_def ref_cfg_simps compat_boot_def
    fd_LOCK_def fd_UNLOCK_def upd_compat_def upd_entry_def mx_boot_def mx_take_def mx_give_def fd_zero_def replicate_lists fd_offset_def Let_def
    ref_cplatform_def NET_SOCK_INVALID_def)


lemma ref_open: "\<exists>n. net_udp_open ref_smoltcp 0 0 (ref_cnet\<lparr>ext := x\<rparr>) = (1, n) \<and> ext n = x
   \<and> smoltcp_handle (iface 0 n) = snd (smoltcp_udp_open ref_smoltcp (smoltcp_handle (iface 0 ref_cnet)) 0)"
  by (simp add: ref_cnet_def net_udp_open_def net_open_def handle_for_def net_iface_get_def locked_call_def net_boot_def iface_def upd_iface_def iface_boot_def lock_defs
      set_handle_def NET_IFACE_ETH_def NET_IFACE_MAX_def replicate_lists core_call_def smoltcp_udp_open_def alloc_id_def ctx_new_def Let_def ref_smoltcp_def rs_add_def
      sock_of_def)

text \<open>The table is initialised and one datagram socket is created.\<close>

definition ref_udp :: "(ring, u32, ref_stack, nat) cnet" where
  "ref_udp = snd (lwip_socket ref_cfg ref_cplatform ref_libc ref_smoltcp 2 2 (snd (fd_table_init ref_cfg ref_libc ref_cnet)))"

lemma ref_udp_run: "typed_run ref_cfg ref_cplatform ref_crtos (\<lambda>e d. tick_on) ref_libc ref_smoltcp C ref_cnet {} ref_udp"
  unfolding ref_udp_def by (rule typed_run.call [OF typed_run.init [OF typed_run.start] shim_call.op [OF shim_op.socket]])

lemma ref_udp: "kind (entry 0 ref_udp) = FD_UDP" "sock (entry 0 ref_udp) = 1"
    "smoltcp_handle (iface 0 ref_udp) = snd (smoltcp_udp_open ref_smoltcp (smoltcp_handle (iface 0 ref_cnet)) 0)"
proof -
  let ?t = "\<lambda>f. ref_shim_state ((replicate 4 (fd_zero (Some 0)))[0 := f])"
  let ?f = "(fd_zero (Some 0))\<lparr>kind := FD_UDP\<rparr>"
  have u: "upd_entry 0 (\<lambda>f. f\<lparr>nonblocking := False\<rparr>) (ref_cnet\<lparr>ext := ?t ?f\<rparr>) = ref_cnet\<lparr>ext := ?t ?f\<rparr>"
    "fd_iface (entry 0 (ref_cnet\<lparr>ext := ?t ?f\<rparr>)) = 0"
    by (simp_all add: upd_entry_def upd_compat_def entry_def replicate_lists fd_zero_def)
  from ref_open obtain n where o: "net_udp_open ref_smoltcp 0 0 (ref_cnet\<lparr>ext := ?t ?f\<rparr>) = (1, n)" and x: "ext n = ?t ?f"
    and h: "smoltcp_handle (iface 0 n) = snd (smoltcp_udp_open ref_smoltcp (smoltcp_handle (iface 0 ref_cnet)) 0)" by blast
  have r: "ref_udp = upd_entry 0 (\<lambda>f. f\<lparr>sock := 1\<rparr>) n"
    unfolding ref_udp_def ref_shim_init
    by (simp add: lwip_socket_def ref_cfg_simps ref_alloc new_entry_def fd_offset_def u o net_sock_valid_def Let_def del: upd_entry_ext)
  show "kind (entry 0 ref_udp) = FD_UDP" "sock (entry 0 ref_udp) = 1"
    using x by (simp_all add: r entry_def upd_entry_def upd_compat_def replicate_lists)
  show "smoltcp_handle (iface 0 ref_udp) = snd (smoltcp_udp_open ref_smoltcp (smoltcp_handle (iface 0 ref_cnet)) 0)"
    using h by (simp add: r iface_def upd_entry_def upd_compat_def)
qed

lemma ref_udp_ctx:
  "\<exists>ctx. smoltcp_handle (iface 0 ref_udp) = Some ctx \<and> ctx_opened ctx = 1 \<and> ctx_lookup 1 ctx = Some 0
    \<and> sm_kind ref_smoltcp 0 (ctx_stack ctx) = Some Udp"
  unfolding ref_udp(3)
  by (simp add: ref_cnet_def net_boot_def iface_def upd_iface_def NET_IFACE_ETH_def NET_IFACE_MAX_def replicate_lists iface_boot_def
      smoltcp_udp_open_def ref_smoltcp_def alloc_id_def ctx_new_def rs_add_def rs_fresh_def ctx_lookup_def Let_def)

theorem shim_type_safe_witness:
  "\<exists>ctx. smoltcp_handle (iface 0 ref_udp) = Some ctx \<and> \<not> ctx_panic ctx \<and> ctx_lookup 1 ctx = Some 0 \<and> sm_kind ref_smoltcp 0 (ctx_stack ctx) = Some Udp"
proof -
  from ref_udp_ctx obtain ctx where c: "smoltcp_handle (iface 0 ref_udp) = Some ctx" "ctx_opened ctx = 1" "ctx_lookup 1 ctx = Some 0" by blast
  have "0 < NET_IFACE_MAX" "ctx_opened ctx < 2 ^ 24" "IFACE 1 = 0" "LOCAL 1 = 1" "0 < MAX_FDS ref_cfg"
    using c by (simp_all add: NET_IFACE_MAX_def IFACE_def LOCAL_def ref_cfg_simps)
  with shim_type_safe [OF ref_typed.typed_tasks_axioms ref_cnet_good ref_cnet(2) ref_udp_run _ c(1)] c ref_udp(1,2) show ?thesis
    by (fastforce simp: ktype_def)
qed

end
