(* ===== verification/Compat_Leak.thy ===== *)
theory Compat_Leak
  imports Compat_Types Compat_Fds
begin

text \<open>
  Ownership of sockets. Every TCP and UDP socket of smoltcp's socket set is in the table of ids, and
  every one the shim opened is in the hands of a live descriptor, as its socket or in a slot of
  its listener's pool, until it is closed: no path of
  \<open>socket\<close>, \<open>bind\<close>, \<open>listen\<close>, \<open>accept\<close>, \<open>connect\<close>, \<open>shutdown\<close> and \<open>close\<close>, errors included, drops a socket
  without closing it. The one exception is \<open>connect\<close> on a stream descriptor that already has a
  socket, which the code overwrites; callers are taken not to do this. \<open>B\<close> is a set of sockets
  that other tasks use through the native API.
\<close>

section \<open>The sockets of a descriptor\<close>

definition sock_names :: "net_sock list \<Rightarrow> (nat \<times> u32) set" where
  "sock_names ss = {(IFACE s, LOCAL s) | s. s \<in> set ss \<and> net_sock_valid s}"

definition fd_socks :: "('q, 'g) fd_entry \<Rightarrow> (nat \<times> u32) set" where
  "fd_socks f = (if kind f = FD_FREE then {} else sock_names (sock f # (case pool f of None \<Rightarrow> [] | Some ss \<Rightarrow> ss)))"

definition held :: "compat_config \<Rightarrow> ('q, 'g, 'c, 'x) cnet \<Rightarrow> (nat \<times> u32) set" where
  "held cfg n = (\<Union>e < MAX_FDS cfg. fd_socks (entry e n))"

text \<open>All sockets are held, apart from those of \<open>X\<close>, which a call has in hand.\<close>

definition held_but :: "(nat \<times> u32) set \<Rightarrow> compat_config \<Rightarrow> (nat \<times> u32) set \<Rightarrow> ('q, 'g, 'c, 'x) cnet \<Rightarrow> bool" where
  "held_but B cfg X n \<longleftrightarrow> core_socks n \<subseteq> B \<union> held cfg n \<union> X"

abbreviation no_leak :: "(nat \<times> u32) set \<Rightarrow> compat_config \<Rightarrow> ('q, 'g, 'c, 'x) cnet \<Rightarrow> bool" where
  "no_leak B cfg \<equiv> held_but B cfg {}"

lemma sock_names_simps [simp]:
  "sock_names [] = {}" "sock_names (s # ss) = (if net_sock_valid s then {(IFACE s, LOCAL s)} else {}) \<union> sock_names ss"
  by (auto simp: sock_names_def)

lemma sock_names_mono: "set ss \<subseteq> set ts \<Longrightarrow> sock_names ss \<subseteq> sock_names ts"
  by (auto simp: sock_names_def)

lemma sock_names_replicate [simp]: "sock_names (replicate k NET_SOCK_INVALID) = {}"
  by (auto simp: sock_names_def net_sock_valid_def NET_SOCK_INVALID_def)

text \<open>Overwriting a slot of a pool loses at most what was in it.\<close>

lemma sock_names_update:
  assumes "i < length ss"
  shows "sock_names [s] \<subseteq> sock_names (ss[i := s])" and "sock_names ss \<subseteq> sock_names (ss[i := s]) \<union> sock_names [ss ! i]"
proof -
  show "sock_names [s] \<subseteq> sock_names (ss[i := s])" using assms by (auto simp: sock_names_def set_update_memI)
  have "set ss \<subseteq> insert (ss ! i) (set (ss[i := s]))"
  proof
    fix x assume "x \<in> set ss"
    then obtain j where "j < length ss" "ss ! j = x" by (auto simp: in_set_conv_nth)
    then show "x \<in> insert (ss ! i) (set (ss[i := s]))"
      by (cases "j = i") (auto simp: in_set_conv_nth nth_list_update intro!: exI [of _ j])
  qed
  then show "sock_names ss \<subseteq> sock_names (ss[i := s]) \<union> sock_names [ss ! i]" by (auto simp: sock_names_def)
qed

lemma fd_socks_view: "type_view f = type_view g \<Longrightarrow> fd_socks f = fd_socks g"
  by (simp add: type_view_def fd_socks_def)

lemma fd_socks_zero [simp]: "fd_socks ((fd_zero g)\<lparr>kind := k, fd_iface := i\<rparr>) = {}"
  by (simp add: fd_socks_def fd_zero_def net_sock_valid_def NET_SOCK_INVALID_def)

lemma held_same:
  assumes "same_types n n'" and "length (s_table (ext n)) = MAX_FDS cfg"
  shows "held cfg n' = held cfg n"
  using same_types_entry [OF assms(1)] assms(2) by (auto simp: held_def dest: fd_socks_view)

lemma held_ext: "ext n' = ext n \<Longrightarrow> held cfg n' = held cfg n"
  by (simp add: held_def entry_def)

lemma held_entries: "(\<And>j. j < MAX_FDS cfg \<Longrightarrow> entry j n' = entry j n) \<Longrightarrow> held cfg n' = held cfg n"
  by (simp add: held_def)

lemma held_memI: "e < MAX_FDS cfg \<Longrightarrow> p \<in> fd_socks (entry e n) \<Longrightarrow> p \<in> held cfg n"
  unfolding held_def by blast

lemma held_other:
  assumes "\<And>j. j < MAX_FDS cfg \<Longrightarrow> j \<noteq> e \<Longrightarrow> entry j n' = entry j n"
  shows "held cfg n \<subseteq> held cfg n' \<union> fd_socks (entry e n)"
proof
  fix p assume "p \<in> held cfg n"
  then obtain j where j: "j < MAX_FDS cfg" "p \<in> fd_socks (entry j n)" by (auto simp: held_def)
  then show "p \<in> held cfg n' \<union> fd_socks (entry e n)"
    using assms [of j] held_memI [of j cfg p n'] by (cases "j = e") simp_all
qed

section \<open>Opening, storing and closing\<close>

lemma core_socks_ifaces: "s_ifaces n' = s_ifaces n \<Longrightarrow> core_socks n' = core_socks n"
  by (simp add: core_socks_def iface_def)

lemma held_but_same:
  "held_but B cfg X n \<Longrightarrow> same_types n n' \<Longrightarrow> length (s_table (ext n)) = MAX_FDS cfg \<Longrightarrow> held_but B cfg X n'"
  unfolding held_but_def by (subst held_same, assumption+, subst core_socks_ifaces [of n' n]) (simp_all add: same_types_def)

lemma held_but_call:
  "held_but B cfg X n \<Longrightarrow> ext n' = ext n \<Longrightarrow> core_socks n' \<subseteq> core_socks n \<union> Y \<Longrightarrow> held_but B cfg (X \<union> Y) n'"
  unfolding held_but_def by (subst held_ext [of n' n]) auto

lemma held_but_less: "held_but B cfg X n \<Longrightarrow> core_socks n \<inter> X \<subseteq> Y \<Longrightarrow> held_but B cfg Y n"
  by (auto simp: held_but_def)

lemma held_but_in: "held_but B cfg X n \<Longrightarrow> X \<subseteq> held cfg n \<Longrightarrow> no_leak B cfg n"
  by (auto simp: held_but_def)

lemma held_but_upd:
  assumes n: "held_but B cfg X n" and len: "length (s_table (ext n)) = MAX_FDS cfg" and e: "e < MAX_FDS cfg"
    and g: "fd_socks (entry e n) \<union> X \<subseteq> fd_socks (g (entry e n)) \<union> Y"
  shows "held_but B cfg Y (upd_entry e g n)"
proof -
  have ent: "entry j (upd_entry e g n) = (if j = e then g (entry e n) else entry j n)" for j using e len by simp
  then have "fd_socks (g (entry e n)) \<subseteq> held cfg (upd_entry e g n)" using held_memI [OF e, of _ "upd_entry e g n"] by auto
  moreover have "held cfg n \<subseteq> held cfg (upd_entry e g n) \<union> fd_socks (entry e n)" by (rule held_other) (simp add: ent)
  ultimately have "held cfg n \<union> X \<subseteq> held cfg (upd_entry e g n) \<union> Y" using g by blast
  moreover have "core_socks (upd_entry e g n) = core_socks n" by (rule core_socks_ifaces) (simp add: upd_entry_def upd_compat_def)
  ultimately show ?thesis using n by (auto simp: held_but_def)
qed

text \<open>Storing a socket in the descriptor, and in a slot of the pool.\<close>

lemma held_but_store:
  assumes "held_but B cfg (sock_names [s]) n" and "length (s_table (ext n)) = MAX_FDS cfg" and "e < MAX_FDS cfg"
    and "kind (entry e n) \<noteq> FD_FREE" and "core_socks n \<inter> sock_names [sock (entry e n)] \<subseteq> sock_names [s]"
  shows "no_leak B cfg (upd_entry e (\<lambda>f. f\<lparr>sock := s\<rparr>) n)"
proof -
  let ?n' = "upd_entry e (\<lambda>f. f\<lparr>sock := s\<rparr>) n"
  have "held_but B cfg (sock_names [sock (entry e n)] - sock_names [s]) ?n'"
    by (rule held_but_upd [OF assms(1-3)]) (use assms(4) in \<open>auto simp: fd_socks_def\<close>)
  moreover have "core_socks ?n' = core_socks n" by (rule core_socks_ifaces) (simp add: upd_entry_def upd_compat_def)
  ultimately show ?thesis using assms(5) by (intro held_but_less [where Y = "{}"]) auto
qed

lemma held_but_set_pool:
  assumes "held_but B cfg (sock_names [s]) n" and "length (s_table (ext n)) = MAX_FDS cfg" and "e < MAX_FDS cfg"
    and "kind (entry e n) \<noteq> FD_FREE" and "pool (entry e n) = Some ss" and "i < length ss"
  shows "held_but B cfg (sock_names [ss ! i]) (set_pool e i s n)"
  unfolding set_pool_def
  by (rule held_but_upd [OF assms(1-3)]) (use assms(4-6) sock_names_update [OF assms(6), of s] in \<open>auto simp: fd_socks_def\<close>)

section \<open>Every call keeps its sockets\<close>

locale tidy_tasks = typed_tasks P contents capacity K cfg R W S H
  for P :: "('q, 'g, ('q, 'g, 'x) compat) platform" and contents capacity K cfg
    and R :: "('q, 'g, 'c, ('q, 'g, 'x) compat) rtos" and W and S :: "'c smoltcp" and H :: handles +
  fixes B :: "(nat \<times> u32) set"
  assumes delay_tidy: "shim_typed S cfg H n \<Longrightarrow> no_leak B cfg n \<Longrightarrow> no_leak B cfg (vTaskDelay R d n)"
    and bits_tidy: "shim_typed S cfg H n \<Longrightarrow> no_leak B cfg n \<Longrightarrow> no_leak B cfg (snd (wait_bits_progress R b d n))"
    and rx_wait_tidy: "shim_typed S cfg H n \<Longrightarrow> no_leak B cfg n \<Longrightarrow> no_leak B cfg (W e d n)"
begin

lemma core_same: "typed n \<Longrightarrow> ids_view n' = ids_view n \<Longrightarrow> core_socks n' = core_socks n"
  by (rule core_socks_view) (simp_all add: shim_typed_def net_good_def)

lemma tidy_same: "typed n \<Longrightarrow> held_but B cfg X n \<Longrightarrow> same_types n n' \<Longrightarrow> held_but B cfg X n'"
  by (rule held_but_same [OF _ _ shim_typedD(2)])

lemma tidy_ids: "typed n \<Longrightarrow> held_but B cfg X n \<Longrightarrow> ids_view n' = ids_view n \<Longrightarrow> ext n' = ext n \<Longrightarrow> held_but B cfg X n'"
  using held_but_call [of B cfg X n n' "{}"] core_same [of n n'] by simp

end

sublocale tidy_tasks \<subseteq> use: inv_tasks P contents capacity K cfg R W S H "no_leak B cfg"
  by unfold_locales (blast intro: tidy_same tidy_ids delay_tidy bits_tidy rx_wait_tidy)+

context tidy_tasks
begin

abbreviation tidy :: "('q, 'g, 'c, 'x) cnet \<Rightarrow> bool" where "tidy \<equiv> no_leak B cfg"

lemma plain_tidy: "typed n \<Longrightarrow> tidy n \<Longrightarrow> tidy (snd (fail x n))" "typed n \<Longrightarrow> tidy n \<Longrightarrow> tidy (SET_ERRNO x n)"
    "typed n \<Longrightarrow> tidy n \<Longrightarrow> tidy (snd (env_call h n))" "typed n \<Longrightarrow> tidy n \<Longrightarrow> tidy (snd (tick_count P n))"
  by (blast intro: tidy_same same_types_steps env_same)+

lemma tidy_table: "typed n \<Longrightarrow> length (s_table (ext n)) = MAX_FDS cfg"
  by (rule shim_typedD)

lemma open_tidy:
  assumes "typed n" and "held_but B cfg X n"
  shows "net_tcp_open S ifc n = (s, n') \<Longrightarrow> held_but B cfg (X \<union> sock_names [s]) n'"
    and "net_udp_open S ifc port n = (s, n') \<Longrightarrow> held_but B cfg (X \<union> sock_names [s]) n'"
proof -
  have names: "(if net_sock_valid s then {(IFACE s, LOCAL s)} else {}) = sock_names [s]" for s by simp
  note O = net_opens_socks [OF shim_typedD(1) [OF assms(1)], unfolded names] and T = opens_typed [OF assms(1)]
  show "net_tcp_open S ifc n = (s, n') \<Longrightarrow> held_but B cfg (X \<union> sock_names [s]) n'"
    by (rule held_but_call [OF assms(2) _ O(1)]) (use T(1) in blast)+
  show "net_udp_open S ifc port n = (s, n') \<Longrightarrow> held_but B cfg (X \<union> sock_names [s]) n'"
    by (rule held_but_call [OF assms(2) _ O(2)]) (use T(2) in blast)+
qed

lemma pool_close_socks:
  "net_good S n \<Longrightarrow> \<forall>s \<in> set ss. sock_good S Tcp s n \<Longrightarrow> core_socks (pool_close S ss n) \<subseteq> core_socks n - sock_names ss"
proof (induction ss arbitrary: n)
  case (Cons s ss)
  let ?n' = "if net_sock_valid s then snd (net_tcp_close S s n) else n"
  have g: "net_grows S n ?n'" using Cons.prems by (simp add: tcp_calls_grow)
  have "core_socks (pool_close S ss ?n') \<subseteq> core_socks ?n' - sock_names ss"
    by (rule Cons.IH) (use Cons.prems g in \<open>auto intro: net_good_grows sock_good_grows\<close>)
  moreover have "core_socks ?n' \<subseteq> core_socks n - sock_names [s]" using net_close_socks(1) [OF Cons.prems(1), of s] by auto
  ultimately show ?case by (simp split: if_splits) blast+
qed simp

text \<open>Closing a descriptor closes everything it holds.\<close>

lemma fd_free_core:
  assumes n: "typed n" and fd: "fd_get cfg fd n = Some e"
  shows "core_socks (fd_free cfg P K S fd n) \<subseteq> core_socks n - fd_socks (entry e n)"
proof -
  let ?n2 = "fd_free_loopback P K e (fd_LOCK n)"
  let ?n3 = "fd_free_sock S e ?n2"
  have e: "e < MAX_FDS cfg" "kind (entry e n) \<noteq> FD_FREE" using fd_get_SomeD [OF fd] by simp_all
  have s2: "same_types n ?n2"
    by (auto simp: fd_free_loopback_def intro!: same_types_intros same_types_trans [OF _ lo_calls_same(2)])
  note n2 = typed_same [OF n s2]
  have v: "type_view (entry e ?n2) = type_view (entry e n)" using same_types_entry [OF s2] e shim_typedD(2) [OF n] by simp
  have core2: "core_socks ?n2 = core_socks n" by (rule core_socks_ifaces) (use s2 in \<open>simp add: same_types_def\<close>)
  have x3: "entry e ?n3 = entry e ?n2" by (simp add: entry_def)
  have core3: "core_socks ?n3 \<subseteq> core_socks ?n2 - sock_names [sock (entry e ?n2)]"
    using net_close_socks [OF shim_typedD(1) [OF n2]] by (auto simp: fd_free_sock_def)
  have g3: "net_grows S ?n2 ?n3"
    using shim_typedD(3) [OF n2 e(1)] e(2) v tcp_calls_grow(2) [OF shim_typedD(1) [OF n2]] udp_calls_grow(2) [OF shim_typedD(1) [OF n2]]
    by (auto simp: fd_free_sock_def entry_good_def ktype_def type_view_def)
  then have n3: "typed ?n3" by (rule typed_call [OF n2]) simp
  have "core_socks (fd_free_pool S e ?n3) \<subseteq> core_socks ?n3 - (case pool (entry e ?n3) of None \<Rightarrow> {} | Some ss \<Rightarrow> sock_names ss)"
  proof (cases "pool (entry e ?n3)")
    case (Some ss)
    then have "length ss = pool_len (entry e ?n3)" "\<forall>s \<in> set ss. sock_good S Tcp s ?n3"
      using shim_typedD(3) [OF n3 e(1)] by (simp_all add: entry_good_def)
    with Some pool_close_socks [OF shim_typedD(1) [OF n3]] show ?thesis by (simp add: fd_free_pool_def)
  qed (simp add: fd_free_pool_def)
  with core3 core2 have "core_socks (fd_free_pool S e ?n3) \<subseteq> core_socks n - fd_socks (entry e n)"
    unfolding x3 fd_socks_view [OF v, symmetric] by (auto simp: fd_socks_def split: option.splits)
  moreover have "core_socks (fd_free cfg P K S fd n) = core_socks (fd_free_pool S e ?n3)"
    by (rule core_socks_ifaces) (simp add: fd_free_def fd fd_UNLOCK_def upd_entry_def upd_compat_def)
  ultimately show ?thesis by simp
qed

lemma fd_free_tidy:
  assumes n: "typed n" and t: "tidy n"
  shows "tidy (fd_free cfg P K S fd n)"
proof (cases "fd_get cfg fd n")
  case None
  with t show ?thesis by (simp add: fd_free_def)
next
  case (Some e)
  have "entry j (fd_free cfg P K S fd n) = entry j n" if "j \<noteq> e" for j using fd_free_other [OF Some that] .
  then have "held cfg n \<subseteq> held cfg (fd_free cfg P K S fd n) \<union> fd_socks (entry e n)" by (rule held_other)
  with fd_free_core [OF n Some] t show ?thesis by (auto simp: held_but_def)
qed

lemma fd_alloc_ids: "ids_view (snd (fd_alloc cfg P K S k n)) = ids_view n"
proof -
  have u [simp]: "ids_view (upd_compat f m) = ids_view m" "ids_view (upd_entry i g m) = ids_view m" for f i g and m :: "('q, 'g, 'c, 'x) cnet"
    by (simp_all add: ids_view_def upd_compat_def upd_entry_def)
  have i: "ids_view (snd (fd_table_init cfg K n)) = ids_view n"
    by (rule ids_view_ifaces) (use fd_table_init_same [of n] in \<open>simp add: same_types_def\<close>)
  have d: "ids_view (snd (fd_default_iface cfg S m)) = ids_view m" for m :: "('q, 'g, 'c, 'x) cnet"
    by (simp add: fd_default_iface_def Let_def case_prod_unfold)
  show ?thesis
    by (simp add: fd_alloc_def Let_def case_prod_unfold i d fd_LOCK_def fd_UNLOCK_def split: option.split del: first_idx_None_iff)
qed

lemma fd_alloc_tidy:
  assumes ok: "ok n" and n: "typed n" and t: "tidy n"
  shows "tidy (snd (fd_alloc cfg P K S k n))"
proof -
  let ?n' = "snd (fd_alloc cfg P K S k n)"
  have "held cfg n \<subseteq> held cfg ?n'"
    using ok
  proof (cases rule: fd_alloc_cases [where S = S and k = k])
    case (none n')
    then show ?thesis using held_entries [of cfg n' n] by simp
  next
    case (some i n' ifc g)
    have "held cfg n \<subseteq> held cfg n' \<union> fd_socks (entry i n)" by (rule held_other) (use some(8) in simp)
    with some(1,4) show ?thesis by (simp add: fd_socks_def)
  qed
  with t core_same [OF n fd_alloc_ids] show ?thesis by (auto simp: held_but_def)
qed

lemma socket_tidy:
  assumes ok: "ok n" and n: "typed n" and t: "tidy n"
  shows "tidy (snd (lwip_socket cfg P K S domain typ n))"
proof -
  let ?k = "if typ AND 0xFF = SOCK_STREAM cfg then FD_TCP else FD_UDP"
  obtain fd n1 where a: "fd_alloc cfg P K S ?k n = (fd, n1)" by force
  have n1: "typed n1" "tidy n1" using fd_alloc_typed(1) [OF n _ a] fd_alloc_tidy [OF ok n t, of ?k] a by simp_all
  let ?e = "new_entry cfg fd"
  let ?n2 = "upd_entry ?e (\<lambda>f. f\<lparr>nonblocking := False\<rparr>) n1"
  have s2: "same_types n1 ?n2" by (rule same_types_upd_entry) (simp add: type_view_def)
  note n2 = typed_same [OF n1(1) s2] and t2 = tidy_same [OF n1 s2]
  obtain s n3 where o: "net_udp_open S (fd_iface (entry ?e ?n2)) 0 ?n2 = (s, n3)" by force
  note O = opens_typed(2) [OF n2 o]
  let ?n4 = "upd_entry ?e (\<lambda>f. f\<lparr>sock := s\<rparr>) n3"
  have n4: "typed ?n4 \<and> tidy ?n4" if fd: "fd \<ge> 0" and k: "?k = FD_UDP"
    using ok
  proof (cases rule: fd_alloc_cases [where S = S and k = ?k])
    case (none n')
    with a fd show ?thesis by simp
  next
    case (some i n' ifc g)
    then have e: "?e = i" "n' = n1" using a by (simp_all add: new_entry_def)
    have len: "i < length (s_table (ext n1))" using some(3) tidy_table [OF n1(1)] by simp
    have ent: "entry i n3 = (entry i n1)\<lparr>nonblocking := False\<rparr>" using O e len by (simp add: entry_def upd_entry_def upd_compat_def)
    have "typed ?n4" by (rule typed_set_sock) (use O ent some(6) e k in \<open>simp_all add: ktype_def\<close>)
    moreover have "tidy ?n4"
      by (rule held_but_store [OF open_tidy(2) [OF n2 t2 o, simplified Un_empty_left] tidy_table])
        (use O some(3,6) e ent k in \<open>simp_all add: fd_zero_def net_sock_valid_def NET_SOCK_INVALID_def\<close>)
    ultimately show ?thesis ..
  qed
  have n5: "typed (fd_free cfg P K S fd ?n4) \<and> tidy (fd_free cfg P K S fd ?n4)" if "fd \<ge> 0" "?k = FD_UDP"
    using n4 [OF that] fd_free_typed fd_free_tidy by blast
  show ?thesis
    using n t n1 n2 t2 a o n4 n5 by (auto simp: lwip_socket_def Let_def plain_tidy split: if_splits)
qed

lemma bind_tidy:
  assumes n: "typed n" and t: "tidy n"
  shows "tidy (snd (lwip_bind cfg K S fd addr alen n))"
proof (cases "fd_get cfg fd n")
  case None
  with n t show ?thesis by (simp add: lwip_bind_def plain_tidy)
next
  case (Some e)
  have e: "e < MAX_FDS cfg" "kind (entry e n) \<noteq> FD_FREE" "e < length (s_table (ext n))"
    using fd_get_SomeD [OF Some] tidy_table [OF n] by simp_all
  let ?g = "\<lambda>f. f\<lparr>local_ipv4_be := s_addr addr, local_port := ntohs (sin_port addr)\<rparr>"
  let ?n1 = "upd_entry e ?g n"
  have s1: "same_types n ?n1" by (rule same_types_upd_entry) (simp add: type_view_def)
  note n1 = typed_same [OF n s1] and t1 = tidy_same [OF n t s1]
  have ent: "entry e ?n1 = ?g (entry e n)" using e(3) by simp
  let ?s = "sock (entry e ?n1)"
  let ?n2 = "if net_sock_valid ?s then snd (net_udp_close S ?s ?n1) else ?n1"
  obtain s n3 where o: "net_udp_open S (fd_iface (entry e ?n2)) (ntohs (sin_port addr)) ?n2 = (s, n3)" by force
  let ?n4 = "upd_entry e (\<lambda>f. f\<lparr>sock := s\<rparr>) n3"
  have n4: "typed ?n4 \<and> tidy ?n4" if k: "kind (entry e n) = FD_UDP"
  proof -
    have good: "sock_good S Udp ?s ?n1"
      using typed_get(1) [OF n Some k] sock_good_grows [OF shim_typedD(1) [OF n] _ same_types_grows [OF s1]] ent by simp
    then have n2: "typed ?n2" using n1 by (simp add: udp_calls_typed)
    have core2: "core_socks ?n2 \<subseteq> core_socks ?n1 - sock_names [?s]"
      using net_close_socks(2) [OF shim_typedD(1) [OF n1], of ?s] by auto
    have x2: "ext ?n2 = ext ?n1" by simp
    have t2: "tidy ?n2" by (rule held_but_call [OF t1 x2, of "{}", simplified]) (use core2 in blast)
    note O = opens_typed(2) [OF n2 o]
    have ent3: "entry e n3 = ?g (entry e n)" using O x2 ent by (simp add: entry_def)
    have "typed ?n4" by (rule typed_set_sock) (use O ent3 k in \<open>simp_all add: ktype_def\<close>)
    moreover have "tidy ?n4"
    proof (rule held_but_store [OF open_tidy(2) [OF n2 t2 o, simplified Un_empty_left] tidy_table e(1)])
      have "core_socks n3 \<subseteq> core_socks ?n2 \<union> sock_names [s]" using net_opens_socks(2) [OF shim_typedD(1) [OF n2] o] by simp
      moreover have "sock (entry e n3) = ?s" using ent ent3 by simp
      ultimately show "core_socks n3 \<inter> sock_names [sock (entry e n3)] \<subseteq> sock_names [s]" using core2 by (simp only:) blast
    qed (use O ent3 e in simp_all)
    ultimately show ?thesis ..
  qed
  have lo: "tidy (snd (lo_bind K port (Some e) ?n1))" for port by (rule tidy_same [OF n1 t1 lo_calls_same(1)])
  show ?thesis
    using n t Some n1 t1 n4 o lo plain_tidy plain_tidy(1) [OF n4 [THEN conjunct1] n4 [THEN conjunct2]] ent
    by (simp add: lwip_bind_def Let_def case_prod_unfold del: upd_entry_ext entry_upd_entry)
qed

text \<open>A new socket in a slot of a listener's pool, listening: what was in the slot is in hand.\<close>

lemma rearm_tidy:
  assumes n: "typed n" and t: "held_but B cfg {} n" and e: "e < MAX_FDS cfg" "kind (entry e n) \<noteq> FD_FREE"
    and ss: "pool (entry e n) = Some ss" "i < length ss" and o: "net_tcp_open S ifc n = (s, n1)"
  shows "typed (set_pool e i s n1)" and "sock_good S Tcp s (set_pool e i s n1)" and "held_but B cfg (sock_names [ss ! i]) (set_pool e i s n1)"
    and "entry e (set_pool e i s n1) = (entry e n)\<lparr>pool := Some (ss[i := s])\<rparr>"
proof -
  note O = opens_typed(1) [OF n o]
  have ent: "entry e n1 = entry e n" using O by (simp add: entry_def)
  show "typed (set_pool e i s n1)" using O by (simp add: set_pool_typed)
  show "sock_good S Tcp s (set_pool e i s n1)"
    using O sock_good_handles [of "set_pool e i s n1" n1] by (simp add: set_pool_def upd_entry_def upd_compat_def)
  show "held_but B cfg (sock_names [ss ! i]) (set_pool e i s n1)"
    by (rule held_but_set_pool [OF open_tidy(1) [OF n t o, simplified Un_empty_left] tidy_table e(1)]) (use O ent e ss in simp_all)
  show "entry e (set_pool e i s n1) = (entry e n)\<lparr>pool := Some (ss[i := s])\<rparr>"
    using ent ss e tidy_table [of n1] O by (simp add: set_pool_def)
qed

lemma arm_pool_tidy:
  assumes "typed n" and "tidy n" and e: "e < MAX_FDS cfg" and "kind (entry e n) \<noteq> FD_FREE" and "pool (entry e n) = Some ss"
    and "distinct is" and "\<And>i. i \<in> set is \<Longrightarrow> i < length ss \<and> ss ! i = NET_SOCK_INVALID"
  shows "tidy (snd (arm_pool S e is n))"
  using assms(1,2,4-)
proof (induction "is" arbitrary: n ss)
  case (Cons i "is")
  obtain s n1 where o: "net_tcp_open S (fd_iface (entry e n)) n = (s, n1)" by force
  let ?n2 = "set_pool e i s n1"
  have i: "i < length ss" "ss ! i = NET_SOCK_INVALID" using Cons.prems(6) [of i] by simp_all
  note A = rearm_tidy [OF Cons.prems(1,2) e Cons.prems(3,4) i(1) o]
  have n2: "typed ?n2" "tidy ?n2" using A i(2) by (simp_all add: net_sock_valid_def NET_SOCK_INVALID_def)
  let ?n3 = "snd (net_tcp_listen S s (fd_port (entry e ?n2)) ?n2)"
  have n3: "typed ?n3" "tidy ?n3" using use.tcp_calls_inv(1) [of ?n2] n2 A(2) by (simp_all add: use.inv_def)
  have ent: "entry e ?n3 = (entry e n)\<lparr>pool := Some (ss[i := s])\<rparr>" using A(4) by (simp add: entry_def)
  have "tidy (snd (arm_pool S e is ?n3))"
    by (rule Cons.IH [OF n3, of "ss[i := s]"]) (use Cons.prems(3,5,6) ent in \<open>auto simp: nth_list_update\<close>)
  with o n2 n3 show ?case by (simp add: Let_def case_prod_unfold plain_tidy)
qed simp

lemma listen_tidy:
  assumes n: "typed n" and t: "tidy n"
  shows "tidy (snd (lwip_listen cfg K S fd backlog n))"
proof (cases "fd_get cfg fd n")
  case None
  with n t show ?thesis by (simp add: lwip_listen_def plain_tidy)
next
  case (Some e)
  let ?sz = "pool_size cfg backlog"
  have e: "e < MAX_FDS cfg" "e < length (s_table (ext n))" using fd_get_SomeD [OF Some] shim_typedD(2) [OF n] by simp_all
  obtain ok' n1 where m: "env_call (malloc K (?sz * 4)) n = (ok', n1)" by force
  have n1: "typed n1" "tidy n1"
    using plain_calls_typed(3) [OF n, of "malloc K (?sz * 4)"] plain_tidy(3) [OF n t, of "malloc K (?sz * 4)"] m by simp_all
  have v: "entry e n1 = entry e n" using m by (auto simp: env_call_def entry_def Let_def case_prod_unfold)
  show ?thesis
  proof (cases "kind (entry e n) = FD_TCP \<and> local_port (entry e n) \<noteq> 0")
    case False
    with n t Some show ?thesis by (auto simp: lwip_listen_def plain_tidy)
  next
    case True
    have empty: "sock_names (case pool (entry e n1) of None \<Rightarrow> [] | Some ss \<Rightarrow> ss) = {}"
      using shim_typedD(3) [OF n1(1) e(1)] True v by (auto simp: entry_good_def split: option.splits)
    have none: "typed (upd_entry e (\<lambda>f. f\<lparr>pool := None\<rparr>) n1)" "tidy (upd_entry e (\<lambda>f. f\<lparr>pool := None\<rparr>) n1)"
      by (rule shim_typed_upd [OF n1(1)]) (use True v in \<open>auto simp: entry_good_def split: option.splits\<close>,
        rule held_but_upd [OF n1(2) tidy_table [OF n1(1)] e(1)], use True v empty in \<open>auto simp: fd_socks_def\<close>)
    let ?g = "\<lambda>f. f\<lparr>pool := Some (replicate ?sz NET_SOCK_INVALID), pool_freed := False, pool_len := ?sz, pool_next := 0, fd_port := local_port f, kind := FD_TCP_LISTEN\<rparr>"
    let ?n2 = "upd_entry e ?g n1"
    have n2: "typed ?n2"
      by (rule shim_typed_upd [OF n1(1)]) (use True v in \<open>auto simp: entry_good_def ktype_def split: option.splits\<close>)
    have t2: "tidy ?n2"
      by (rule held_but_upd [OF n1(2) tidy_table [OF n1(1)] e(1)]) (use True v empty in \<open>auto simp: fd_socks_def\<close>)
    have ent: "entry e ?n2 = ?g (entry e n)" using e tidy_table [OF n1(1)] v by simp
    have "tidy (snd (arm_pool S e [0..<?sz] ?n2))"
      by (rule arm_pool_tidy [OF n2 t2 e(1), of "replicate ?sz NET_SOCK_INVALID"]) (use ent in simp_all)
    moreover have "upd_entry e (\<lambda>f. f\<lparr>pool_freed := False, pool_len := ?sz, pool_next := 0, fd_port := local_port f, kind := FD_TCP_LISTEN\<rparr>)
        (upd_entry e (\<lambda>f. f\<lparr>pool := Some (replicate ?sz NET_SOCK_INVALID)\<rparr>) n1) = ?n2"
      using e m by (auto simp: upd_entry_def upd_compat_def env_call_def Let_def case_prod_unfold)
    ultimately show ?thesis using Some True m none by (auto simp: lwip_listen_def Let_def plain_tidy)
  qed
qed

lemma accept_scan_ids: "ids_view (snd (accept_scan S e is n)) = ids_view n"
  by (induction "is" arbitrary: n) (simp_all add: Let_def case_prod_unfold)

lemma accept_take_tidy:
  assumes ok: "ok n" and n: "typed n" and t: "tidy n" and e: "e < MAX_FDS cfg" "kind (entry e n) = FD_TCP_LISTEN" and idx: "idx < pool_len (entry e n)"
  shows "tidy (snd (accept_take cfg P K S e idx want n))"
  using ok
proof (cases rule: fd_alloc_cases [where S = S and k = FD_TCP])
  case (none n')
  have "typed n'" "tidy n'" using fd_alloc_typed(1) [OF n _ none(1)] fd_alloc_tidy [OF ok n t, of FD_TCP] none(1) by simp_all
  with none(1) show ?thesis by (simp add: accept_take_def plain_tidy)
next
  case (some i n1 ifc g)
  note A = fd_alloc_typed [OF n _ some(1), simplified]
  have t1: "tidy n1" using fd_alloc_tidy [OF ok n t, of FD_TCP] some(1) by simp
  obtain ss where ss: "pool (entry e n) = Some ss" "idx < length ss"
    using shim_typedD(3) [OF n e(1)] idx by (auto simp: entry_good_def split: option.splits)
  have cand: "sock_good S Tcp (ss ! idx) n1" using sock_good_grows [OF shim_typedD(1) [OF n] typed_pool [OF n e(1) idx] A(2)] ss by simp
  have ne: "i \<noteq> e" using some(4) e(2) by auto
  have en: "new_entry cfg (fd_offset cfg + int i) = i" by (simp add: new_entry_def)
  let ?g = "\<lambda>f. f\<lparr>sock := ss ! idx, connected := True, fd_iface := fd_iface (entry e n1), nonblocking := False\<rparr>"
  let ?n2 = "upd_entry i ?g n1"
  have n2: "typed ?n2"
    by (rule shim_typed_upd [OF A(1)]) (use some(6) cand in \<open>auto simp: entry_good_def ktype_def fd_zero_def split: option.splits\<close>)
  have t2: "tidy ?n2" by (rule held_but_upd [OF t1 tidy_table [OF A(1)] some(3)]) (use some(6) in simp)
  have ent: "entry e ?n2 = entry e n" "entry i ?n2 = ?g (entry i n1)"
    using some(3,8) e(1) ne tidy_table [OF A(1)] by (simp_all add: entry_def)
  obtain s n3 where o: "net_tcp_open S (fd_iface (entry e ?n2)) ?n2 = (s, n3)" by force
  note R = rearm_tidy [OF n2 t2 e(1) _ _ ss(2) o]
  let ?n4 = "set_pool e idx s n3"
  have n4: "typed ?n4" "sock_good S Tcp s ?n4" "held_but B cfg (sock_names [ss ! idx]) ?n4" using R ent e ss by simp_all
  have "entry i n3 = entry i ?n2" using opens_typed(1) [OF n2 o] by (simp add: entry_def)
  then have "entry i ?n4 = ?g (entry i n1)" using ne ent by (simp add: set_pool_def entry_def upd_entry_def upd_compat_def)
  then have "sock_names [ss ! idx] \<subseteq> fd_socks (entry i ?n4)" using some(6) by (simp add: fd_socks_def fd_zero_def)
  then have "sock_names [ss ! idx] \<subseteq> held cfg ?n4" using held_memI [OF some(3), of _ ?n4] by blast
  then have t4: "tidy ?n4" by (rule held_but_in [OF n4(3)])
  let ?n5 = "if net_sock_valid s then snd (net_tcp_listen S s (fd_port (entry e ?n4)) ?n4) else ?n4"
  have n5: "use.inv ?n5" using use.tcp_calls_inv(1) [of ?n4] n4 t4 by (simp add: use.inv_def)
  have "use.inv (upd_entry e (\<lambda>f. f\<lparr>pool_next := (idx + 1) mod pool_len f\<rparr>) ?n5)"
    by (rule use.inv_view [OF n5]) (simp add: type_view_def)
  with some(1) o ss en A(1) t1 show ?thesis by (simp add: accept_take_def Let_def use.inv_def plain_tidy)
qed

lemma accept_loop_tidy:
  assumes "accept_loop cfg P R K S e want st n = Some r" and "ok n" and "typed n" and "tidy n" and "e < MAX_FDS cfg"
    and "kind (entry e n) = FD_TCP_LISTEN"
  shows "tidy (snd r)"
proof -
  have "Q ((((((((cfg, P), R), K), S), e), want), st), n) r"
    if Q: "Q = (\<lambda>((((((((c', P'), R'), K'), S'), e), want), st), n) r. c' = cfg \<longrightarrow> P' = P \<longrightarrow> R' = R \<longrightarrow> K' = K \<longrightarrow> S' = S
      \<longrightarrow> ok n \<longrightarrow> typed n \<longrightarrow> tidy n \<longrightarrow> e < MAX_FDS cfg \<longrightarrow> kind (entry e n) = FD_TCP_LISTEN \<longrightarrow> tidy (snd r))" for Q
  proof (rule accept_loop.raw_induct [OF _ assms(1)], goal_cases)
    case (1 loop c' P' R' K' S' e want st n r)
    show ?case unfolding Q prod.case
    proof (intro impI)
      assume eq: "c' = cfg" "P' = P" "R' = R" "K' = K" "S' = S" and n: "ok n" "typed n" "tidy n" and e: "e < MAX_FDS cfg"
        and k: "kind (entry e n) = FD_TCP_LISTEN"
      have live: "pool_access e n = n" by (rule pool_access_live [OF n(1) e]) (simp add: k)
      let ?is = "[0..<pool_len (entry e n)]"
      obtain f n1 where f: "accept_scan S e ?is n = (f, n1)" by force
      have s1: "typed n1" "ext n1 = ext n" "\<And>idx. f = Some idx \<Longrightarrow> idx < pool_len (entry e n)"
        using accept_scan_typed [OF n(2) e _ f] by auto
      have n1: "ok n1" using accept_scan_ok [OF n(1), of S e ?is] f by simp
      have t1: "tidy n1" by (rule tidy_ids [OF n(2,3) _ s1(2)]) (use accept_scan_ids [of e ?is n] f in simp)
      have ent: "entry e n1 = entry e n" using s1(2) by (simp add: entry_def)
      obtain t n2 where t: "tick_count P n1 = (t, n2)" by force
      have n2: "ok n2" "typed n2" "tidy n2" "kind (entry e n2) = FD_TCP_LISTEN"
        using tick_ok [OF n1] plain_calls_typed(5) [OF s1(1)] plain_tidy(4) [OF s1(1) t1] tick_entry [of e n1] ent k t by simp_all
      have IH: "loop cfg P R K S e want st m = Some r \<Longrightarrow> ok m \<Longrightarrow> typed m \<Longrightarrow> tidy m \<Longrightarrow> kind (entry e m) = FD_TCP_LISTEN \<Longrightarrow> tidy (snd r)" for m
        using 1(1) [of cfg P R K S e want st m r] e unfolding Q by simp
      show "tidy (snd r)"
        using 1(2) s1(3) ent k unfolding eq live f prod.case Let_def t
        by (auto split: option.splits if_splits intro: accept_take_tidy [OF n1 s1(1) t1 e] plain_tidy(2) [OF s1(1) t1]
            plain_tidy(2) [OF n2(2,3)] IH delay_ok [OF n2(1)] delay_typed [OF n2(2), THEN conjunct1] delay_tidy [OF n2(2,3)]
            delay_listens [OF n2(1,4)])
    qed
  qed
  with assms show ?thesis by simp
qed

lemma accept_tidy:
  assumes n: "ok n" "typed n" "tidy n" and c: "lwip_accept cfg P R K S fd al n = Some (r, n')"
  shows "tidy n'"
proof (cases "fd_get cfg fd n")
  case None
  with n c show ?thesis by (auto simp: lwip_accept_def plain_tidy)
next
  case (Some e)
  note L = accept_loop_tidy [OF _ tick_ok [OF n(1)] plain_calls_typed(5) [OF n(2)] plain_tidy(4) [OF n(2,3)] conjunct1 [OF fd_get_SomeD [OF Some]],
      unfolded tick_entry]
  show ?thesis
    using n c Some by (auto simp: lwip_accept_def Let_def case_prod_unfold plain_tidy split: if_splits dest!: L)
qed

text \<open>\<open>connect\<close> overwrites the socket of the descriptor, which must not have one.\<close>

lemma connect_tidy:
  assumes n: "typed n" and t: "tidy n" and c: "lwip_connect cfg P R S fd addr alen n = Some (i, n')"
    and free: "\<And>e. fd_get cfg fd n = Some e \<Longrightarrow> kind (entry e n) = FD_TCP \<Longrightarrow> \<not> net_sock_valid (sock (entry e n))"
  shows "tidy n'"
proof (cases "fd_get cfg fd n")
  case None
  with n t c show ?thesis by (auto simp: lwip_connect_def fail_def plain_tidy)
next
  case (Some e)
  have e: "e < MAX_FDS cfg" using fd_get_SomeD [OF Some] by simp
  obtain s n1 where o: "net_tcp_open S (fd_iface (entry e n)) n = (s, n1)" by force
  note O = opens_typed(1) [OF n o]
  have ent: "entry e n1 = entry e n" using O by (simp add: entry_def)
  let ?n2 = "upd_entry e (\<lambda>f. f\<lparr>sock := s\<rparr>) n1"
  have n2: "use.inv ?n2" if "kind (entry e n) = FD_TCP"
  proof -
    have "typed ?n2" by (rule typed_set_sock) (use O ent that in \<open>simp_all add: ktype_def\<close>)
    moreover have "tidy ?n2"
      by (rule held_but_store [OF open_tidy(1) [OF n t o, simplified Un_empty_left] tidy_table e])
        (use O ent that free [OF Some that] in simp_all)
    ultimately show ?thesis by (simp add: use.inv_def)
  qed
  have s2: "sock_good S Tcp s ?n2" using O sock_good_handles [of ?n2 n1] by (simp add: upd_entry_def upd_compat_def)
  have conn: "use.inv m \<Longrightarrow> use.inv (upd_entry e (\<lambda>f. f\<lparr>connected := True\<rparr>) m)" for m
    by (rule use.inv_view) (simp_all add: type_view_def)
  have udp: "use.inv (upd_entry e (\<lambda>f. f\<lparr>local_ipv4_be := s_addr addr, local_port := ntohs (sin_port addr), connected := True\<rparr>) n)"
    by (rule use.inv_view) (use n t in \<open>simp_all add: use.inv_def type_view_def\<close>)
  have "use.inv n" using n t by (simp add: use.inv_def)
  with c Some o n2 udp use.blocking_inv(1) [OF n2 s2] have "use.inv n'"
    by (auto simp: lwip_connect_def Let_def fail_def use.plain_calls_inv conn split: if_splits fd_kind.splits)
  then show ?thesis by (simp add: use.inv_def)
qed

lemma close_tidy: "typed n \<Longrightarrow> tidy n \<Longrightarrow> tidy (snd (lwip_close cfg P K S fd n))"
  by (simp add: lwip_close_def plain_tidy fd_free_tidy)

lemma shutdown_tidy:
  assumes n: "typed n" and t: "tidy n"
  shows "tidy (snd (lwip_shutdown cfg S fd n))"
proof (cases "fd_get cfg fd n")
  case None
  with n t show ?thesis by (simp add: lwip_shutdown_def plain_tidy)
next
  case (Some e)
  let ?s = "sock (entry e n)"
  let ?n1 = "snd (net_tcp_close S ?s n)"
  have e: "e < MAX_FDS cfg" "kind (entry e n) \<noteq> FD_FREE" using fd_get_SomeD [OF Some] by simp_all
  have core: "core_socks ?n1 \<subseteq> core_socks n - {(IFACE ?s, LOCAL ?s)}" by (rule net_close_socks(1) [OF shim_typedD(1) [OF n]])
  have t1: "tidy ?n1" by (rule held_but_call [OF t, of _ "{}", simplified]) (use core in auto)
  have ent: "entry e ?n1 = entry e n" by (simp add: entry_def)
  let ?n2 = "upd_entry e (\<lambda>f. f\<lparr>sock := NET_SOCK_INVALID, connected := False\<rparr>) ?n1"
  have "held_but B cfg {(IFACE ?s, LOCAL ?s)} ?n2"
    by (rule held_but_upd [OF t1 _ e(1)]) (use tidy_table [OF n] e ent in \<open>auto simp: fd_socks_def\<close>)
  moreover have "core_socks ?n2 = core_socks ?n1" by (rule core_socks_ifaces) (simp add: upd_entry_def upd_compat_def)
  ultimately have "tidy ?n2" using core by (intro held_but_less [where Y = "{}"]) auto
  with Some t show ?thesis by (simp add: lwip_shutdown_def)
qed

lemma op_tidy:
  assumes "shim_op cfg P R W K S n n'" and n: "ok n" "typed n" "tidy n"
  shows "tidy n'"
  using assms
proof (induction rule: shim_op.induct)
  case (accept fd al n r n')
  then show ?case using accept_tidy by blast
next
  case (use n n')
  then show ?case using use.use_inv [of n n'] by (simp add: use.inv_def)
qed (simp_all add: socket_tidy bind_tidy listen_tidy close_tidy shutdown_tidy)

end

section \<open>Runs\<close>

text \<open>The system from the start of the shim on. \<open>connect\<close> is called on stream descriptors without a
  socket, and sockets opened through the native API belong to \<open>B\<close>.\<close>

inductive tidy_run for cfg P R W K S C B where
  start: "tidy_run cfg P R W K S C B n {} n"
| op: "tidy_run cfg P R W K S C B n H n1 \<Longrightarrow> shim_op cfg P R W K S n1 n2 \<Longrightarrow> tidy_run cfg P R W K S C B n H n2"
| connect: "tidy_run cfg P R W K S C B n H n1 \<Longrightarrow> lwip_connect cfg P R S fd addr alen n1 = Some (i, n2)
    \<Longrightarrow> (\<And>e. fd_get cfg fd n1 = Some e \<Longrightarrow> kind (entry e n1) = FD_TCP \<Longrightarrow> \<not> net_sock_valid (sock (entry e n1)))
    \<Longrightarrow> tidy_run cfg P R W K S C B n H n2"
| tcp_open: "tidy_run cfg P R W K S C B n H n1 \<Longrightarrow> net_tcp_open S ifc n1 = (s, n2) \<Longrightarrow> sock_names [s] \<subseteq> B
    \<Longrightarrow> tidy_run cfg P R W K S C B n (insert (Tcp, s) H) n2"
| udp_open: "tidy_run cfg P R W K S C B n H n1 \<Longrightarrow> net_udp_open S ifc port n1 = (s, n2) \<Longrightarrow> sock_names [s] \<subseteq> B
    \<Longrightarrow> tidy_run cfg P R W K S C B n (insert (Udp, s) H) n2"
| native: "tidy_run cfg P R W K S C B n H n1 \<Longrightarrow> native_call P R S H n1 n2 \<Longrightarrow> tidy_run cfg P R W K S C B n H n2"
| stack: "tidy_run cfg P R W K S C B n H (sys_net s1) \<Longrightarrow> net_step P S C s1 a s2 \<Longrightarrow> a \<notin> range Api
    \<Longrightarrow> same_statics (ext (sys_net s1)) (ext (sys_net s2)) \<Longrightarrow> tidy_run cfg P R W K S C B n H (sys_net s2)"

context tidy_tasks
begin

lemma native_ok:
  assumes "native_call P R S H n n'" and n: "ok n"
  shows "ok n'"
  using assms
proof (induction rule: native_call.induct)
  case (tcp_state s n' n)
  have "ok (snd (net_tcp_is_active S s n))"
    by (rule compat_ok_ext [OF _ _ tcp_state(3)]) (simp, rule net_lock_ready [OF compat_okD(1) [OF tcp_state(3)]])
  with tcp_state show ?case by (auto simp: net_calls_compat_ok)
qed (simp_all add: net_calls_compat_ok, (blast intro: blocking_keeps [OF keeps_ok])+)

lemma close_native_tidy:
  assumes "typed n" and "tidy n"
  shows "tidy (snd (net_tcp_close S s n))" and "tidy (snd (net_udp_close S s n))"
  by (rule held_but_call [OF assms(2), of _ "{}", simplified], simp, use net_close_socks [OF shim_typedD(1) [OF assms(1)], of s] in blast)+

lemma native_tidy:
  assumes "native_call P R S H n n'" and n: "typed n" "tidy n"
  shows "tidy n'"
proof -
  have I: "use.inv n" using n by (simp add: use.inv_def)
  note s = shim_typedD(4) [OF n(1)]
  show ?thesis
    using assms(1)
    by (cases rule: native_call.cases)
      (use use.tcp_calls_inv [OF I s] use.udp_calls_inv [OF I s] use.blocking_inv [OF I s] close_native_tidy [OF n]
        in \<open>auto simp: use.inv_def\<close>)
qed

lemma native_open_tidy:
  assumes n: "ok n" "typed n" "tidy n" and s: "sock_names [s] \<subseteq> B"
  shows "net_tcp_open S ifc n = (s, n') \<Longrightarrow> ok n' \<and> shim_typed S cfg (insert (Tcp, s) H) n' \<and> tidy n'"
    and "net_udp_open S ifc port n = (s, n') \<Longrightarrow> ok n' \<and> shim_typed S cfg (insert (Udp, s) H) n' \<and> tidy n'"
proof -
  have t: "held_but B cfg ({} \<union> sock_names [s]) m \<Longrightarrow> tidy m" for m using s by (auto simp: held_but_def)
  show "net_tcp_open S ifc n = (s, n') \<Longrightarrow> ok n' \<and> shim_typed S cfg (insert (Tcp, s) H) n' \<and> tidy n'"
    using opens_typed(1) [OF n(2)] open_tidy(1) [OF n(2,3)] net_calls_compat_ok n(1) by (metis shim_typed_insert snd_conv t)
  show "net_udp_open S ifc port n = (s, n') \<Longrightarrow> ok n' \<and> shim_typed S cfg (insert (Udp, s) H) n' \<and> tidy n'"
    using opens_typed(2) [OF n(2)] open_tidy(2) [OF n(2,3)] net_calls_compat_ok n(1) by (metis shim_typed_insert snd_conv t)
qed

lemma stack_tidy:
  assumes n: "ok (sys_net s1)" "typed (sys_net s1)" "tidy (sys_net s1)"
    and step: "net_step P S C s1 a s2" "a \<notin> range Api" and st: "same_statics (ext (sys_net s1)) (ext (sys_net s2))"
  shows "ok (sys_net s2) \<and> typed (sys_net s2) \<and> tidy (sys_net s2)"
proof -
  note G = shim_typedD(1) [OF n(2)]
  have "lock_ready (sys_net s2)" by (rule step_lock_ready [OF step(1) compat_okD(1) [OF n(1)]]) (use G in \<open>simp add: net_good_def\<close>)
  then have "ok (sys_net s2)" by (rule compat_ok_statics [OF st _ n(1)])
  moreover have "typed (sys_net s2)"
    by (rule shim_typed_grows [OF n(2) net_step_grows [OF step(1) G step(2)]]) (simp add: same_statics_simps [OF st])
  moreover have "held cfg (sys_net s2) = held cfg (sys_net s1)"
    by (rule held_entries) (simp add: entry_def same_statics_simps [OF st])
  then have "tidy (sys_net s2)" using n(3) core_same [OF n(2) net_step_ids [OF step(1) G step(2)]] by (simp add: held_but_def)
  ultimately show ?thesis by simp
qed

end

lemma tidy_run_tidy:
  assumes "tidy_run cfg P R W K S C B n0 H n" and "\<And>H. tidy_tasks P contents capacity K cfg R W S H B"
    and "compat_ok contents cfg n0" and "shim_typed S cfg {} n0" and "no_leak B cfg n0"
  shows "compat_ok contents cfg n \<and> shim_typed S cfg H n \<and> no_leak B cfg n"
  using assms
proof (induction rule: tidy_run.induct)
  case (op n H n1 n2)
  note T = op.prems(1) and I = op.IH [OF op.prems]
  from I show ?case
    using tidy_tasks.op_tidy [OF T op.hyps(2)] typed_tasks.op_typed [OF tidy_tasks.axioms(1) [OF T] op.hyps(2)]
      shim_tasks.op_ok [OF typed_tasks.axioms(1) [OF tidy_tasks.axioms(1) [OF T]] op.hyps(2)] by blast
next
  case (connect n H n1 fd addr alen i n2)
  note T = connect.prems(1) and I = connect.IH [OF connect.prems]
  from I show ?case
    using tidy_tasks.connect_tidy [OF T _ _ connect.hyps(2,3)] typed_tasks.connect_typed [OF tidy_tasks.axioms(1) [OF T] _ connect.hyps(2)]
      shim_tasks.connect_ok [OF typed_tasks.axioms(1) [OF tidy_tasks.axioms(1) [OF T]] _ connect.hyps(2)] by blast
next
  case (tcp_open n H n1 ifc s n2)
  then show ?case using tidy_tasks.native_open_tidy(1) [OF tcp_open.prems(1)] tcp_open.IH [OF tcp_open.prems] by blast
next
  case (udp_open n H n1 ifc port s n2)
  then show ?case using tidy_tasks.native_open_tidy(2) [OF udp_open.prems(1)] udp_open.IH [OF udp_open.prems] by blast
next
  case (native n H n1 n2)
  note T = native.prems(1) and I = native.IH [OF native.prems]
  from I show ?case
    using tidy_tasks.native_tidy [OF T native.hyps(2)] typed_tasks.native_typed [OF tidy_tasks.axioms(1) [OF T] native.hyps(2)]
      tidy_tasks.native_ok [OF T native.hyps(2)] by blast
next
  case (stack n H s1 a s2)
  then show ?case using tidy_tasks.stack_tidy [OF stack.prems(1)] stack.IH [OF stack.prems] by blast
qed simp

lemma boot_tidy:
  assumes "tidy_tasks P contents capacity K cfg R W S {} B"
    and n: "net_good S n" "lock_ready n" "ext n = compat_boot cfg x" "core_socks n \<subseteq> B"
  shows "compat_ok contents cfg (snd (fd_table_init cfg K n)) \<and> shim_typed S cfg {} (snd (fd_table_init cfg K n)) \<and> no_leak B cfg (snd (fd_table_init cfg K n))"
proof -
  note E = shim_tasks.axioms(1) [OF typed_tasks.axioms(1) [OF tidy_tasks.axioms(1) [OF assms(1)]]]
  note T = boot_typed [OF n(1,3)] and I = typed_tasks.fd_table_init_same [OF tidy_tasks.axioms(1) [OF assms(1)]]
  have "no_leak B cfg n" using n(4) by (auto simp: held_but_def)
  then show ?thesis
    using tidy_tasks.tidy_same [OF assms(1) T _ I] shim_typed_same [OF T I] shim_env.fd_table_init_ok [OF E boot_part_ok [OF n(2,3)]] by blast
qed

section \<open>From power-up\<close>

interpretation ref_tidy: tidy_tasks ref_cplatform ring_contents ring_capacity ref_libc ref_cfg ref_crtos "\<lambda>e d. tick_on" ref_smoltcp H "{}"
  for H
proof (unfold_locales)
  have t: "no_leak {} ref_cfg (tick_on n)" if "no_leak {} ref_cfg n" for n :: "(ring, u32, ref_stack, nat) cnet"
    using that held_entries [of ref_cfg "tick_on n" n] core_socks_ifaces [of "tick_on n" n]
    by (simp add: held_but_def tick_on_entry) (simp add: tick_on_def upd_compat_def)
  show "no_leak {} ref_cfg n \<Longrightarrow> no_leak {} ref_cfg (vTaskDelay ref_crtos d n)"
    "no_leak {} ref_cfg n \<Longrightarrow> no_leak {} ref_cfg (snd (wait_bits_progress ref_crtos b d n))"
    "no_leak {} ref_cfg n \<Longrightarrow> no_leak {} ref_cfg (tick_on n)" for n :: "(ring, u32, ref_stack, nat) cnet" and b d
    using t by (simp_all add: ref_crtos_def)
qed

text \<open>A socket of the set is in the table of ids.\<close>

lemma typed_lookup:
  assumes "net_good S n" and "i < NET_IFACE_MAX" and "hnd i n = Some ctx" and "ctx_opened ctx < 2 ^ 24"
    and "sm_kind S sh (ctx_stack ctx) = Some Tcp \<or> sm_kind S sh (ctx_stack ctx) = Some Udp"
  shows "\<exists>k. ctx_lookup k ctx = Some sh"
proof -
  have t: "ctx_typed S ctx" using assms(1-4) by (simp add: net_good_def ctx_good_def few_def)
  then have "sh \<in> snd ` set (ctx_handles ctx)" using assms(5) unfolding ctx_typed_def ctx_kind_def by blast
  then obtain k where "(k, sh) \<in> set (ctx_handles ctx)" by auto
  moreover have "distinct (map fst (ctx_handles ctx))" using t by (simp add: ctx_typed_def handles_ok_def)
  ultimately show ?thesis by (auto simp: ctx_lookup_def)
qed

text \<open>C4: No socket is leaked. From power-up, whatever the tasks call and however the driver and the
  poll task run in between and during the waits, every TCP and UDP socket that exists in the
  socket set of smoltcp is still in the table of ids, and unless it was opened through the native
  API it is owned by the shim: it is the socket of a live descriptor or in a slot of a live
  listener's pool (as long as fewer than \<open>2^24\<close> sockets were opened on the interface, \<open>connect\<close>
  is not called on a stream descriptor that has a socket, and the resolver is not used). So every
  error path of these calls removes what it opened from the socket set or leaves it where \<open>close\<close> finds
  it, and when all descriptors are closed no socket of the shim is left.\<close>

theorem shim_no_leak:
  assumes "\<And>H. tidy_tasks P contents capacity K cfg R W S H B" and "net_good S n0" and "lock_ready n0" and "ext n0 = compat_boot cfg x"
    and "core_socks n0 \<subseteq> B" and "tidy_run cfg P R W K S C B (snd (fd_table_init cfg K n0)) H n"
    and "i < NET_IFACE_MAX" and "smoltcp_handle (iface i n) = Some ctx" and "ctx_opened ctx < 2 ^ 24"
    and "sm_kind S sh (ctx_stack ctx) = Some Tcp \<or> sm_kind S sh (ctx_stack ctx) = Some Udp"
  shows "\<exists>k. ctx_lookup k ctx = Some sh \<and> ((i, k) \<in> B \<or> (\<exists>e < MAX_FDS cfg. kind (entry e n) \<noteq> FD_FREE \<and>
    (\<exists>s. net_sock_valid s \<and> IFACE s = i \<and> LOCAL s = k \<and> (s = sock (entry e n) \<or> (\<exists>ss. pool (entry e n) = Some ss \<and> s \<in> set ss)))))"
proof -
  have n: "shim_typed S cfg H n" "no_leak B cfg n"
    using tidy_run_tidy [OF assms(6,1)] boot_tidy [OF assms(1-5)] by blast+
  obtain k where k: "ctx_lookup k ctx = Some sh" using typed_lookup [OF shim_typedD(1) [OF n(1)] assms(7-10)] by blast
  then have "(i, k) \<in> core_socks n" using assms(7-9) by (auto simp: core_socks_def few_def)
  with n(2) consider "(i, k) \<in> B" | e where "e < MAX_FDS cfg" "(i, k) \<in> fd_socks (entry e n)" by (auto simp: held_but_def held_def)
  then show ?thesis
  proof cases
    case 2
    then obtain s where "kind (entry e n) \<noteq> FD_FREE" "net_sock_valid s" "IFACE s = i" "LOCAL s = k"
      "s = sock (entry e n) \<or> (\<exists>ss. pool (entry e n) = Some ss \<and> s \<in> set ss)"
      by (cases "pool (entry e n)") (auto simp: fd_socks_def sock_names_def split: if_splits)
    with 2(1) k show ?thesis by blast
  qed (use k in blast)
qed

theorem shim_no_leak_witness:
  "\<exists>ctx k. smoltcp_handle (iface 0 ref_udp) = Some ctx \<and> ctx_lookup k ctx = Some 0 \<and> (\<exists>e < MAX_FDS ref_cfg. kind (entry e ref_udp) \<noteq> FD_FREE \<and>
    (\<exists>s. net_sock_valid s \<and> IFACE s = 0 \<and> LOCAL s = k \<and> (s = sock (entry e ref_udp) \<or> (\<exists>ss. pool (entry e ref_udp) = Some ss \<and> s \<in> set ss))))"
proof -
  from ref_udp_ctx obtain ctx where c: "smoltcp_handle (iface 0 ref_udp) = Some ctx" "ctx_opened ctx = 1" "sm_kind ref_smoltcp 0 (ctx_stack ctx) = Some Udp" by blast
  have run: "tidy_run ref_cfg ref_cplatform ref_crtos (\<lambda>e d. tick_on) ref_libc ref_smoltcp C {} (snd (fd_table_init ref_cfg ref_libc ref_cnet)) {} ref_udp" for C
    unfolding ref_udp_def by (rule tidy_run.op [OF tidy_run.start shim_op.socket])
  have "core_socks ref_cnet \<subseteq> {}"
    by (auto simp: core_socks_def ref_cnet_def net_boot_def NET_IFACE_MAX_def NET_IFACE_ETH_def iface_def upd_iface_def nth_list_update iface_boot_def
      less_2_cases_iff ctx_new_def ctx_lookup_def Let_def)
  from shim_no_leak [OF ref_tidy.tidy_tasks_axioms ref_cnet_good ref_cnet this run _ c(1)] c show ?thesis
    by (simp add: NET_IFACE_MAX_def)
qed

end
