(* ===== verification/Compat_Stream.thy ===== *)
theory Compat_Stream
  imports Compat_Run
begin

text \<open>
  What a stream descriptor delivers. The bytes that \<open>recv\<close> and \<open>read\<close> return on a connected
  descriptor, call after call, with whatever the rest of the system does in between and during
  the waits, are the bytes that arrive for its socket: in order, none lost and none twice.
\<close>

section \<open>Receiving from a socket\<close>

text \<open>What smoltcp documents of \<open>tcp::Socket::recv_slice\<close>: it takes bytes from the front of the
  received data, no more than the slice holds. \<open>pending\<close> is the data received in order and not
  taken yet.\<close>

locale tcp_inbound =
  fixes S :: "'c smoltcp" and pending :: "nat \<Rightarrow> 'c \<Rightarrow> u8 list"
  assumes recv_Some: "sm_tcp_recv S sh cap c = (Some bs, c') \<Longrightarrow> length bs \<le> cap \<and> pending sh c = bs @ pending sh c'"
    and recv_None: "sm_tcp_recv S sh cap c = (None, c') \<Longrightarrow> pending sh c' = pending sh c"

text \<open>From \<open>n\<close> to \<open>n'\<close> the bytes \<open>bs\<close> were taken from the socket; others may have arrived behind.\<close>

definition inflow ::
  "(nat \<Rightarrow> 'c \<Rightarrow> u8 list) \<Rightarrow> nat \<Rightarrow> u32 \<Rightarrow> ('q, 'g, 'c, 'e) net \<Rightarrow> u8 list \<Rightarrow> ('q, 'g, 'c, 'e) net \<Rightarrow> bool" where
  "inflow pending i k n bs n' \<longleftrightarrow>
     (\<forall>p. sock_stream pending i k n = Some p \<longrightarrow> (\<exists>p' q. sock_stream pending i k n' = Some p' \<and> p @ q = bs @ p'))"

lemma inflow_same: "sock_stream pending i k n' = sock_stream pending i k n \<Longrightarrow> inflow pending i k n [] n'"
  by (auto simp: inflow_def)

lemma inflow_trans:
  assumes "inflow pending i k n bs n1" and "inflow pending i k n1 cs n2"
  shows "inflow pending i k n (bs @ cs) n2"
  unfolding inflow_def
proof (intro allI impI)
  fix p assume "sock_stream pending i k n = Some p"
  with assms(1) obtain p1 q where 1: "sock_stream pending i k n1 = Some p1" "p @ q = bs @ p1" unfolding inflow_def by blast
  with assms(2) obtain p2 q' where 2: "sock_stream pending i k n2 = Some p2" "p1 @ q' = cs @ p2" unfolding inflow_def by blast
  have "p @ (q @ q') = (bs @ cs) @ p2" using 1(2) 2(2) by (metis append.assoc)
  with 2(1) show "\<exists>p' q. sock_stream pending i k n2 = Some p' \<and> p @ q = (bs @ cs) @ p'" by blast
qed

text \<open>A result of a receive: a count and that many bytes, at most \<open>cap\<close> of them; nothing on a time-out
  or an error.\<close>

definition count_ok :: "nat \<Rightarrow> int \<times> u8 list \<Rightarrow> bool" where
  "count_ok cap r \<longleftrightarrow> length (snd r) \<le> cap \<and> (if fst r > 0 then fst r = int (length (snd r)) else snd r = [])"

context tcp_inbound
begin

lemma locked_recv:
  assumes i: "i < length (s_ifaces n)" and call: "locked_call i (\<lambda>h. smoltcp_tcp_recv S h k (Some cap)) n = (r, n')"
  shows "inflow pending i k n (snd r) n' \<and> count_ok cap r"
proof (cases "\<exists>ctx sh. smoltcp_handle (iface i n) = Some ctx \<and> ctx_lookup k ctx = Some sh")
  case False
  let ?f = "\<lambda>h. smoltcp_tcp_recv S h k (Some cap)"
  have "sock_stream pending i k n = None" using False by (auto simp: sock_stream_def split: option.split)
  moreover have "r = (-1, [])" using locked_call_iface(2) [OF i, of ?f] call False
    by (cases "smoltcp_handle (iface i n)") (auto simp: smoltcp_tcp_recv_def with_socket_def split: option.splits)
  ultimately show ?thesis by (simp add: inflow_def count_ok_def)
next
  case True
  then obtain ctx sh where ctx: "smoltcp_handle (iface i n) = Some ctx" and sh: "ctx_lookup k ctx = Some sh" by blast
  let ?f = "\<lambda>h. smoltcp_tcp_recv S h k (Some cap)"
  note L = locked_call_iface [OF i, of ?f]
  have n': "n' = snd (locked_call i ?f n)" and r: "r = fst (locked_call i ?f n)" using call by simp_all
  obtain o' c' where recv: "sm_tcp_recv S sh cap (ctx_stack ctx) = (o', c')" by force
  have core: "?f (Some ctx) = ((case o' of Some bs \<Rightarrow> (int (length bs), bs) | None \<Rightarrow> (-1, [])), Some ((get_mut S Tcp sh ctx)\<lparr>ctx_stack := c'\<rparr>))"
    by (simp add: smoltcp_tcp_recv_def with_socket_def sh recv split: option.split)
  have lk: "ctx_lookup k ((get_mut S Tcp sh ctx)\<lparr>ctx_stack := c'\<rparr>) = Some sh" using sh by (simp add: ctx_lookup_def)
  have st: "sock_stream pending i k n' = Some (pending sh c')" "sock_stream pending i k n = Some (pending sh (ctx_stack ctx))"
    using L(1,3) n' ctx core i lk sh by (simp_all add: sock_stream_def)
  have rr: "r = (case o' of Some bs \<Rightarrow> (int (length bs), bs) | None \<Rightarrow> (-1, []))" using L(2) r ctx core by simp
  show ?thesis
  proof (cases o')
    case None
    with recv_None recv st rr show ?thesis by (simp add: inflow_def count_ok_def)
  next
    case (Some bs)
    with recv_Some recv st rr show ?thesis by (auto simp: inflow_def count_ok_def)
  qed
qed

end

text \<open>While a task waits, bytes may arrive for the socket, but nobody else takes them.\<close>

definition wait_appends ::
  "('q, 'g, 'e) platform \<Rightarrow> ('q, 'g, 'c, 'e) rtos \<Rightarrow> (nat \<Rightarrow> 'c \<Rightarrow> u8 list) \<Rightarrow> nat \<Rightarrow> u32 \<Rightarrow> bool" where
  "wait_appends P R pending i k \<longleftrightarrow> (\<forall>n. i < length (s_ifaces n) \<longrightarrow>
     inflow pending i k n [] (net_stack_wait_progress P R 50 n) \<and> i < length (s_ifaces (net_stack_wait_progress P R 50 n)))"

definition receives :: "(nat \<Rightarrow> 'c \<Rightarrow> u8 list) \<Rightarrow> nat \<Rightarrow> u32 \<Rightarrow> nat \<Rightarrow> ('q, 'g, 'c, 'e) net \<Rightarrow> (int \<times> u8 list) \<times> ('q, 'g, 'c, 'e) net \<Rightarrow> bool" where
  "receives pending i k cap n r \<longleftrightarrow> inflow pending i k n (snd (fst r)) (snd r) \<and> count_ok cap (fst r)"

lemma receives_after: "inflow pending i k n [] n1 \<Longrightarrow> receives pending i k cap n1 r \<Longrightarrow> receives pending i k cap n r"
  using inflow_trans [of pending i k n "[]" n1] by (auto simp: receives_def)

lemma recv_step_stream:
  assumes S: "tcp_inbound S pending" and W: "wait_appends P R pending i k" and i: "i < length (s_ifaces n)"
    and step: "(let (now, n1) = tick_count P n
      in if \<not> now \<le> D then Some ((0, []), n1)
         else let (r, n2) = locked_call i (\<lambda>h. smoltcp_tcp_recv S h k (Some cap)) n1
              in if fst r > 0 then Some (r, net_stack_kick_poll n2) else loop (net_stack_wait_progress P R 50 n2)) = Some r"
    and loop: "\<And>m. loop m = Some r \<Longrightarrow> i < length (s_ifaces m) \<Longrightarrow> receives pending i k cap m r"
  shows "receives pending i k cap n r"
proof -
  obtain t n1 where t: "tick_count P n = (t, n1)" by force
  have n1: "inflow pending i k n [] n1" "i < length (s_ifaces n1)"
    using inflow_same [OF sock_stream_frame(1) [of pending i k P n]] t i by (auto simp: tick_count_def Let_def case_prod_unfold)
  obtain x n2 where call: "locked_call i (\<lambda>h. smoltcp_tcp_recv S h k (Some cap)) n1 = (x, n2)" by (metis surj_pair)
  have n2: "inflow pending i k n1 (snd x) n2" "count_ok cap x" using tcp_inbound.locked_recv [OF S n1(2) call] by simp_all
  have i2: "i < length (s_ifaces n2)" using call n1(2) by (metis locked_call_iface(3) snd_conv)
  consider "\<not> t \<le> D" | "t \<le> D" "fst x > 0" | "t \<le> D" "\<not> fst x > 0" by blast
  then show ?thesis
  proof cases
    case 1
    with step t n1 show ?thesis by (auto simp: receives_def count_ok_def)
  next
    case 2
    have "inflow pending i k n2 [] (net_stack_kick_poll n2)" by (rule inflow_same) simp
    with n2(1) have "inflow pending i k n1 (snd x) (net_stack_kick_poll n2)" using inflow_trans by fastforce
    with 2 step t call n2 have "receives pending i k cap n1 r" by (auto simp: receives_def)
    then show ?thesis by (rule receives_after [OF n1(1)])
  next
    case 3
    then have e: "snd x = []" using n2(2) by (simp add: count_ok_def)
    let ?n3 = "net_stack_wait_progress P R 50 n2"
    have w: "inflow pending i k n2 [] ?n3" "i < length (s_ifaces ?n3)" using W i2 by (simp_all add: wait_appends_def)
    have "receives pending i k cap ?n3 r" by (rule loop) (use 3 step t call w(2) in auto)
    with inflow_trans [OF n1(1) inflow_trans [OF n2(1) w(1)]] e show ?thesis by (auto intro: receives_after)
  qed
qed

lemma recv_loop_stream:
  assumes "recv_loop P R S i k cap D n = Some r" and "tcp_inbound S pending" and "wait_appends P R pending i k" and "i < length (s_ifaces n)"
  shows "receives pending i k cap n r"
proof -
  have "Q (((((((P, R), S), i), k), cap), D), n) r"
    if Q: "Q = (\<lambda>(((((((P, R), S), i), k), cap), D), n) r. tcp_inbound S pending \<longrightarrow> wait_appends P R pending i k
      \<longrightarrow> i < length (s_ifaces n) \<longrightarrow> receives pending i k cap n r)" for Q
  proof (rule recv_loop.raw_induct [OF _ assms(1)], goal_cases)
    case (1 loop P R S i k cap D n r)
    show ?case unfolding Q prod.case
    proof (intro impI)
      assume A: "tcp_inbound S pending" "wait_appends P R pending i k" "i < length (s_ifaces n)"
      show "receives pending i k cap n r"
        by (rule recv_step_stream [OF A 1(2)]) (use 1(1) [unfolded Q prod.case] A(1,2) in blast)
    qed
  qed
  with assms show ?thesis by simp
qed

lemma sock_stream_iface: "sock_stream pending i k n = Some p \<Longrightarrow> i < length (s_ifaces n)"
  by (auto simp: sock_stream_def split: if_splits)

lemma net_tcp_recv_stream:
  assumes S: "tcp_inbound S pending" and W: "wait_appends P R pending (IFACE s) (LOCAL s)"
    and p: "sock_stream pending (IFACE s) (LOCAL s) n = Some p" and ret: "net_tcp_recv P R S s cap tmo n = Some r"
  shows "receives pending (IFACE s) (LOCAL s) cap n r"
proof (cases "handle_for (IFACE s) n")
  case None
  with ret show ?thesis by (auto simp: net_tcp_recv_def receives_def count_ok_def intro: inflow_same)
next
  case (Some i)
  then have i: "i = IFACE s" using handle_for_SomeD by blast
  obtain t n1 where t: "tick_count P n = (t, n1)" by force
  have n1: "inflow pending (IFACE s) (LOCAL s) n [] n1" "IFACE s < length (s_ifaces n1)"
    using inflow_same [OF sock_stream_frame(1) [of pending "IFACE s" "LOCAL s" P n]] t sock_stream_iface [OF p]
    by (auto simp: tick_count_def Let_def case_prod_unfold)
  from ret Some i t have "recv_loop P R S (IFACE s) (LOCAL s) cap (t + pdMS_TO_TICKS P (uint tmo)) n1 = Some r"
    by (simp add: net_tcp_recv_def)
  from receives_after [OF n1(1) recv_loop_stream [OF this S W n1(2)]] show ?thesis .
qed

section \<open>Receiving on a descriptor\<close>

lemma sock_stream_ext: "s_ifaces n' = s_ifaces n \<Longrightarrow> sock_stream pending i k n' = sock_stream pending i k n"
  by (simp add: sock_stream_def iface_def)

lemma recv_result_stream:
  assumes "receives pending i k cap n (r, n1)"
  shows "receives pending i k cap n (recv_result e r n1)"
proof (cases "fst r = 0 \<and> nonblocking (entry e n1)")
  case True
  then have "snd r = []" using assms by (simp add: receives_def count_ok_def)
  moreover have "inflow pending i k n1 [] (SET_ERRNO EWOULDBLOCK n1)"
    by (rule inflow_same [OF sock_stream_ext]) (simp add: SET_ERRNO_def upd_compat_def)
  ultimately show ?thesis using assms True inflow_trans [of pending i k n "[]" n1 "[]"] by (auto simp: receives_def recv_result_def count_ok_def)
qed (use assms in \<open>auto simp: recv_result_def\<close>)

lemma lwip_recv_receives:
  assumes S: "tcp_inbound S pending" and W: "wait_appends P R pending (IFACE s) (LOCAL s)"
    and p: "sock_stream pending (IFACE s) (LOCAL s) n = Some p"
    and fd: "fd_get cfg fd n = Some e" "kind (entry e n) = FD_TCP" "sock (entry e n) = s"
    and ret: "lwip_recv cfg P R S fd cap n = Some r"
  shows "receives pending (IFACE s) (LOCAL s) cap n r"
  using ret fd net_tcp_recv_stream [OF S W p] by (auto simp: lwip_recv_def intro: recv_result_stream)

text \<open>A task that reads from the descriptor \<open>fd\<close> with the socket \<open>s\<close>, by \<open>recv\<close> or \<open>read\<close>, while the rest of
  the system takes any steps that take no bytes from the socket. \<open>rs\<close> are the results of the calls.\<close>

inductive recv_run for cfg P R K S pending fd s where
  start: "recv_run cfg P R K S pending fd s n [] n"
| recv: "recv_run cfg P R K S pending fd s n rs n1 \<Longrightarrow> fd_get cfg fd n1 = Some e \<Longrightarrow> kind (entry e n1) = FD_TCP \<Longrightarrow> sock (entry e n1) = s
    \<Longrightarrow> lwip_recv cfg P R S fd cap n1 = Some (r, n2) \<Longrightarrow> recv_run cfg P R K S pending fd s n (rs @ [r]) n2"
| read: "recv_run cfg P R K S pending fd s n rs n1 \<Longrightarrow> fd_get cfg fd n1 = Some e \<Longrightarrow> kind (entry e n1) = FD_TCP \<Longrightarrow> sock (entry e n1) = s
    \<Longrightarrow> lwip_read cfg P R K S fd cap n1 = Some (r, n2) \<Longrightarrow> recv_run cfg P R K S pending fd s n (rs @ [r]) n2"
| other: "recv_run cfg P R K S pending fd s n rs n1 \<Longrightarrow> inflow pending (IFACE s) (LOCAL s) n1 [] n2 \<Longrightarrow> recv_run cfg P R K S pending fd s n rs n2"

definition results_ok :: "(int \<times> u8 list) list \<Rightarrow> bool" where
  "results_ok rs \<longleftrightarrow> (\<forall>r \<in> set rs. if fst r > 0 then fst r = int (length (snd r)) else snd r = [])"

lemma recv_run_inflow:
  assumes "recv_run cfg P R K S pending fd s n rs n'" and S: "tcp_inbound S pending" and W: "wait_appends P R pending (IFACE s) (LOCAL s)"
    and p: "sock_stream pending (IFACE s) (LOCAL s) n = Some p"
  shows "inflow pending (IFACE s) (LOCAL s) n (concat (map snd rs)) n' \<and> results_ok rs"
  using assms(1) p
proof (induction rule: recv_run.induct)
  case (start n)
  then show ?case by (simp add: inflow_same results_ok_def)
next
  have call: "inflow pending (IFACE s) (LOCAL s) n (concat (map snd (rs @ [r]))) n2 \<and> results_ok (rs @ [r])"
    if IH: "inflow pending (IFACE s) (LOCAL s) n (concat (map snd rs)) n1 \<and> results_ok rs" and p: "sock_stream pending (IFACE s) (LOCAL s) n = Some p"
      and fd: "fd_get cfg fd n1 = Some e" "kind (entry e n1) = FD_TCP" "sock (entry e n1) = s" and ret: "lwip_recv cfg P R S fd cap n1 = Some (r, n2)"
    for n rs n1 e cap r n2
  proof -
    from IH p obtain p1 where "sock_stream pending (IFACE s) (LOCAL s) n1 = Some p1" unfolding inflow_def by blast
    from lwip_recv_receives [OF S W this fd ret] have "inflow pending (IFACE s) (LOCAL s) n1 (snd r) n2" "count_ok cap r" by (simp_all add: receives_def)
    with IH show ?thesis using inflow_trans [of pending "IFACE s" "LOCAL s" n "concat (map snd rs)" n1 "snd r" n2] by (auto simp: results_ok_def count_ok_def)
  qed
  {
    case (recv n rs n1 e cap r n2)
    show ?case by (rule call [OF recv.IH [OF recv.prems] recv.prems recv.hyps(2-)])
  next
    case (read n rs n1 e cap r n2)
    then have "lwip_recv cfg P R S fd cap n1 = Some (r, n2)" by (auto simp: lwip_read_def fd_is_socket_def fd_get_def Let_def split: if_splits)
    then show ?case by (rule call [OF read.IH [OF read.prems] read.prems read.hyps(2-4)])
  next
    case (other n rs n1 n2)
    then show ?case using inflow_trans [of pending "IFACE s" "LOCAL s" n "concat (map snd rs)" n1 "[]" n2] by simp
  }
qed

section \<open>The stream of a descriptor\<close>

definition ref_pending :: "nat \<Rightarrow> ref_stack \<Rightarrow> u8 list" where
  "ref_pending sh c = rk_rx (rs_sock sh c)"

interpretation ref_inbound: tcp_inbound ref_smoltcp ref_pending
  by unfold_locales (auto simp: ref_smoltcp_def ref_pending_def rs_recv_def Let_def split: if_splits)

text \<open>C12: What a stream descriptor delivers. All the bytes that the calls of \<open>recv\<close> and \<open>read\<close> on it
  return, in the order of the calls, followed by what the socket still holds, are what the
  socket held at the start followed by what arrived since: nothing is lost, repeated or
  reordered, also across time-outs and non-blocking calls, which take nothing. A positive
  result is the number of bytes delivered. The hypotheses say that the other tasks do not read
  from this socket.\<close>

theorem lwip_recv_stream:
  assumes "tcp_inbound S pending" and "wait_appends P R pending (IFACE s) (LOCAL s)"
    and "recv_run cfg P R K S pending fd s n rs n'" and "sock_stream pending (IFACE s) (LOCAL s) n = Some p"
  shows "\<exists>p' q. sock_stream pending (IFACE s) (LOCAL s) n' = Some p' \<and> p @ q = concat (map snd rs) @ p'
    \<and> (\<forall>r \<in> set rs. if fst r > 0 then fst r = int (length (snd r)) else snd r = [])"
  using recv_run_inflow [OF assms(3,1,2,4)] assms(4) unfolding inflow_def results_ok_def by blast

text \<open>A connected descriptor with five bytes waiting, of which three are read.\<close>

definition ref_rx_entry :: "(ring, u32) fd_entry" where
  "ref_rx_entry = (fd_zero None)\<lparr>kind := FD_TCP, sock := 1, connected := True, nonblocking := True\<rparr>"

definition ref_rx :: "u8 list \<Rightarrow> (ring, u32, ref_stack, nat) cnet" where
  "ref_rx bs = set_handle NET_IFACE_ETH (Some ((ctx_new ref_smoltcp 0 [2, 0, 0, 0, 0, 1] 0)\<lparr>
     ctx_handles := [(1, 0)], ctx_next_id := 2,
     ctx_stack := \<lparr>rs_addrs = [], rs_route = None, rs_socks = [(0, fresh_sock\<lparr>rk_conn := True, rk_rx := bs\<rparr>)], rs_next = 1\<rparr>\<rparr>))
     (upd_compat (\<lambda>c. c\<lparr>s_table := (s_table c)[0 := ref_rx_entry]\<rparr>) ref_cnet)"

lemma ref_wait_appends: "wait_appends P ref_crtos pending i k"
  unfolding wait_appends_def
  by (intro allI impI conjI inflow_same sock_stream_ext)
    (simp_all add: net_stack_wait_progress_def ref_crtos_def tick_on_def upd_compat_def)

lemma ref_rx:
  "fd_get ref_cfg 54 (ref_rx bs) = Some 0" "entry 0 (ref_rx bs) = ref_rx_entry" "handle_for 0 (ref_rx bs) = Some 0"
  "tick_count ref_cplatform (ref_rx bs) = (0, ref_rx bs)" "0 < length (s_ifaces (ref_rx bs))"
  "\<exists>ctx. smoltcp_handle (iface 0 (ref_rx bs)) = Some ctx \<and> ctx_lookup 1 ctx = Some 0 \<and> rs_sock 0 (ctx_stack ctx) = fresh_sock\<lparr>rk_conn := True, rk_rx := bs\<rparr>"
  by (simp_all add: fd_get_def fd_offset_def ref_cfg_def entry_def ref_rx_def ref_cnet_def ref_rx_entry_def compat_boot_def net_boot_def
      handle_for_def net_iface_get_def upd_compat_def set_handle_def upd_iface_def iface_def NET_IFACE_ETH_def NET_IFACE_MAX_def
      tick_count_def ref_cplatform_def ctx_lookup_def rs_sock_def)

lemma ref_rx_recv: "\<exists>n'. lwip_recv ref_cfg ref_cplatform ref_crtos ref_smoltcp 54 3 (ref_rx [1, 2, 3, 4, 5]) = Some ((3, [1, 2, 3]), n')"
proof -
  let ?n = "ref_rx [1, 2, 3, 4, 5]"
  let ?f = "\<lambda>h. smoltcp_tcp_recv ref_smoltcp h 1 (Some 3)"
  have "fst (locked_call 0 ?f ?n) = (3, [1, 2, 3])"
    using ref_rx(6) [of "[1, 2, 3, 4, 5]"] locked_call_iface(2) [OF ref_rx(5), of ?f "[1, 2, 3, 4, 5]"]
    by (auto simp: smoltcp_tcp_recv_def with_socket_def ref_smoltcp_def rs_recv_def Let_def get_mut_def split: option.splits)
  then obtain n' where "locked_call 0 ?f ?n = ((3, [1, 2, 3]), n')" by (metis prod.collapse)
  then have "recv_loop ref_cplatform ref_crtos ref_smoltcp 0 1 3 0 ?n = Some ((3, [1, 2, 3]), net_stack_kick_poll n')"
    by (subst recv_loop.simps) (simp add: ref_rx)
  then have "net_tcp_recv ref_cplatform ref_crtos ref_smoltcp 1 3 0 ?n = Some ((3, [1, 2, 3]), net_stack_kick_poll n')"
    by (simp add: net_tcp_recv_def ref_rx IFACE_def LOCAL_def) (simp add: ref_cplatform_def)
  moreover have "kind ref_rx_entry = FD_TCP" "sock ref_rx_entry = 1" "recv_timeout ref_rx_entry = 0" by (simp_all add: ref_rx_entry_def recv_timeout_def)
  ultimately show ?thesis by (simp add: lwip_recv_def ref_rx(1) ref_rx(2) recv_result_def)
qed

theorem lwip_recv_stream_witness:
  "\<exists>n' p' q. lwip_recv ref_cfg ref_cplatform ref_crtos ref_smoltcp 54 3 (ref_rx [1, 2, 3, 4, 5]) = Some ((3, [1, 2, 3]), n')
    \<and> sock_stream ref_pending 0 1 n' = Some p' \<and> [1, 2, 3, 4, 5] @ q = [1, 2, 3] @ p'"
proof -
  from ref_rx_recv obtain n' where r: "lwip_recv ref_cfg ref_cplatform ref_crtos ref_smoltcp 54 3 (ref_rx [1, 2, 3, 4, 5]) = Some ((3, [1, 2, 3]), n')" by blast
  have e: "kind ref_rx_entry = FD_TCP" "sock ref_rx_entry = 1" "IFACE 1 = 0" "LOCAL 1 = 1" by (simp_all add: ref_rx_entry_def IFACE_def LOCAL_def)
  have run: "recv_run ref_cfg ref_cplatform ref_crtos ref_libc ref_smoltcp ref_pending 54 1 (ref_rx [1, 2, 3, 4, 5]) ([] @ [(3, [1, 2, 3])]) n'"
    by (rule recv_run.recv [OF recv_run.start ref_rx(1) _ _ r]) (simp_all add: ref_rx e)
  have "sock_stream ref_pending 0 1 (ref_rx [1, 2, 3, 4, 5]) = Some [1, 2, 3, 4, 5]"
    using ref_rx(5,6) [of "[1, 2, 3, 4, 5]"] by (auto simp: sock_stream_def ref_pending_def)
  with lwip_recv_stream [OF ref_inbound.tcp_inbound_axioms ref_wait_appends run] r show ?thesis by (auto simp: e)
qed

end
