(* ===== verification/Net_Dhcp.thy ===== *)
theory Net_Dhcp
  imports Netif_Shim Net_Types
begin

text \<open>
  The way of a DHCP lease through the program: the DHCP socket of smoltcp reports it during a
  poll of the interface, \<open>IfaceCtx::poll\<close> copies it into the interface and the context, the poll
  task turns the change into an event, and the queries of \<open>esp_netif\<close> read it.
\<close>

text \<open>What the queries return for an event of the DHCP socket.\<close>

definition lease_info :: "dhcp_event \<Rightarrow> ip_info" where
  "lease_info e = (case e of
     Configured a p r \<Rightarrow> \<lparr>ip_addr = ipv4_to_be a, gw_addr = (case r of None \<Rightarrow> 0 | Some g \<Rightarrow> ipv4_to_be g), netmask_addr = to_be (cidr_to_mask p)\<rparr>
   | Deconfigured \<Rightarrow> \<lparr>ip_addr = 0, gw_addr = 0, netmask_addr = 0\<rparr>)"

text \<open>After a poll the context is the one the poll started from with the crate's new state, stepped
  by the DHCP part.\<close>

lemma poll_run_ctx:
  assumes p: "poll_run P S i n = Some n'" and i: "i < length (s_ifaces n)" and ctx: "smoltcp_handle (iface i n) = Some ctx"
  obtains t c d where "c \<in> set_dev_prog (sm_poll S t (ctx_stack ctx))"
    and "smoltcp_handle (iface i n') = Some (dhcp_step S (ctx\<lparr>ctx_stack := c, ctx_dev := d\<rparr>))"
    and "enabled (iface i n') = enabled (iface i n)" and "length (s_ifaces n') = length (s_ifaces n)"
    and "ip_up (iface i n') = smoltcp_iface_has_ip (smoltcp_handle (iface i n'))"
proof -
  let ?n = "core_call (SMOLTCP_LOCK n)"
  from p obtain n1 g where c1: "core_poll P S i ?n = Some n1"
    and e: "ip_edge P i (smoltcp_iface_has_ip (smoltcp_handle (iface i n1)))
      ((SMOLTCP_UNLOCK n1)\<lparr>s_progress_evt := Some (xEventGroupSetBits P PROGRESS_BIT g)\<rparr>) = Some n'"
    by (auto simp: poll_run_def Let_def split: option.splits)
  obtain now n2 where now: "smoltcp_glue_now_us P ?n = (now, n2)" by force
  have t2: "tx_only ?n n2" using now_us_tx_only [of ?n P] now by simp
  have h2: "smoltcp_handle (iface i n2) = Some ctx" using tx_only_iface(5) [OF t2] i ctx by simp
  from c1 now h2 ctx obtain h m n3 where poll: "smoltcp_iface_poll S (smoltcp_glue_tx_cb P) now (Some ctx) (tx_free_mask n2) n2 = Some (h, m, n3)"
    and n1: "n1 = set_handle i h (n3\<lparr>tx_free_mask := m\<rparr>)"
    by (auto simp: core_poll_def split: option.splits)
  from poll obtain c d where run: "run_device (smoltcp_glue_tx_cb P) (sm_poll S now (ctx_stack ctx)) (ctx_dev ctx) (tx_free_mask n2) n2 = Some (c, d, m, n3)"
    and h: "h = Some (dhcp_step S (ctx\<lparr>ctx_stack := c, ctx_dev := d\<rparr>))"
    by (auto simp: smoltcp_iface_poll_def ctx_poll_def split: option.splits)
  have t3: "tx_only ?n n3" by (rule run_device_inv [where Q = "tx_only ?n", OF _ run t2]) (rule tx_only_trans [OF _ tx_cb_tx_only])
  have l3: "length (s_ifaces n3) = length (s_ifaces n)" using tx_only_fields(17) [OF t3] by simp
  have e3: "enabled (iface i n3) = enabled (iface i n)" using tx_only_iface(2) [OF t3] i by simp
  have n1': "smoltcp_handle (iface i n1) = h" "enabled (iface i n1) = enabled (iface i n)" "length (s_ifaces n1) = length (s_ifaces n)"
    using l3 e3 i by (simp_all add: n1 iface_def set_handle_def upd_iface_def)
  note E = ip_edgeD(1) [OF e, of i] ip_edgeD(2) [OF e]
  show ?thesis
  proof (rule that [of c now d])
    show "c \<in> set_dev_prog (sm_poll S now (ctx_stack ctx))" by (rule run_device_leaf [OF run])
  qed (use E n1' h i in \<open>simp_all add: iface_def upd_iface_def\<close>)
qed

text \<open>The three values of a context after an event.\<close>

lemma dhcp_event_ctx:
  assumes A: "smoltcp_addrs S" and d: "ctx_dhcp ctx = Some dh" and ev: "sm_dhcp_poll S dh (ctx_stack ctx) = (Some e, c)"
    and room: "length (filter (\<lambda>a. \<not> is_v4 a) (sm_ip_addrs S c)) < sm_max_addrs S"
  shows "smoltcp_iface_get_ipv4 S (Some (dhcp_step S ctx)) = ip_addr (lease_info e)"
    and "smoltcp_iface_get_gw (Some (dhcp_step S ctx)) = gw_addr (lease_info e)"
    and "smoltcp_iface_get_netmask (Some (dhcp_step S ctx)) = netmask_addr (lease_info e)"
    and "smoltcp_iface_has_ip (Some (dhcp_step S ctx)) = (e \<noteq> Deconfigured)"
    and "smoltcp_iface_get_ipv6 S (Some (dhcp_step S ctx)) = first_ipv6 (sm_ip_addrs S c)"
proof -
  have v: "smoltcp_iface_get_gw (Some (dhcp_step S ctx)) = gw_addr (lease_info e)"
    "smoltcp_iface_get_netmask (Some (dhcp_step S ctx)) = netmask_addr (lease_info e)"
    using d ev by (cases e; simp add: smoltcp_iface_get_gw_def smoltcp_iface_get_netmask_def dhcp_step_def Let_def lease_info_def)+
  have "smoltcp_iface_get_ipv4 S (Some (dhcp_step S ctx)) = ip_addr (lease_info e) \<and> smoltcp_iface_has_ip (Some (dhcp_step S ctx)) = (e \<noteq> Deconfigured)
    \<and> smoltcp_iface_get_ipv6 S (Some (dhcp_step S ctx)) = first_ipv6 (sm_ip_addrs S c)"
  proof (cases e)
    case (Configured a p r)
    with smoltcp_addrs.dhcp_lease [OF A d _ room] ev show ?thesis by (simp add: lease_info_def)
  next
    case Deconfigured
    with smoltcp_addrs.dhcp_lost [OF A d] ev show ?thesis by (simp add: lease_info_def)
  qed
  with v show "smoltcp_iface_get_ipv4 S (Some (dhcp_step S ctx)) = ip_addr (lease_info e)"
    "smoltcp_iface_get_gw (Some (dhcp_step S ctx)) = gw_addr (lease_info e)"
    "smoltcp_iface_get_netmask (Some (dhcp_step S ctx)) = netmask_addr (lease_info e)"
    "smoltcp_iface_has_ip (Some (dhcp_step S ctx)) = (e \<noteq> Deconfigured)"
    "smoltcp_iface_get_ipv6 S (Some (dhcp_step S ctx)) = first_ipv6 (sm_ip_addrs S c)" by simp_all
qed

text \<open>A lease without a router leaves the routes alone, so a default route from an earlier lease stays
  in force although the reported gateway is 0.\<close>

lemma lease_without_router:
  assumes "ctx_dhcp ctx = Some dh" and "sm_dhcp_poll S dh (ctx_stack ctx) = (Some (Configured a p None), c)"
  shows "ctx_stack (dhcp_step S ctx) = sm_set_ip_addrs S (push_addr (sm_max_addrs S) (Ipv4 a p) (filter (\<lambda>a. \<not> is_v4 a) (sm_ip_addrs S c))) c"
    and "smoltcp_iface_get_gw (Some (dhcp_step S ctx)) = 0"
  using assms by (simp_all add: dhcp_step_def Let_def smoltcp_iface_get_gw_def)

text \<open>C15: A DHCP lease from the socket to the application. When the DHCP socket of an interface
  reports a lease during a poll, \<open>esp_netif_get_ip_info\<close> then returns its address, the netmask of its
  prefix length and its router (0 without one) in network byte order, and the interface counts
  as up; when it reports that the lease is lost, all three are 0 and the interface is down. The
  flag that the event group and the events follow changes in the same poll.\<close>

theorem dhcp_lease_reported:
  assumes A: "smoltcp_addrs S" and key: "esp_netif_get_handle_from_ifkey (Some k) = Some h"
    and i: "ni_iface h < length (s_ifaces n)" "enabled (iface (ni_iface h) n)"
    and ctx: "smoltcp_handle (iface (ni_iface h) n) = Some ctx" "ctx_dhcp ctx = Some dh"
    and ev: "\<And>t c. c \<in> set_dev_prog (sm_poll S t (ctx_stack ctx)) \<Longrightarrow> \<exists>c'. sm_dhcp_poll S dh c = (Some e, c')
      \<and> length (filter (\<lambda>a. \<not> is_v4 a) (sm_ip_addrs S c')) < sm_max_addrs S"
    and poll: "poll_run P S (ni_iface h) n = Some n'"
  shows "fst (esp_netif_get_ip_info S (Some h) True n') = (ESP_OK, Some (lease_info e))
    \<and> fst (esp_netif_is_netif_up S (Some h) n') = (ip_addr (lease_info e) \<noteq> 0)
    \<and> ip_up (iface (ni_iface h) n') = (e \<noteq> Deconfigured)"
proof -
  note H = handle_of_ifkey [OF key]
  obtain t c d where c: "c \<in> set_dev_prog (sm_poll S t (ctx_stack ctx))"
    and h': "smoltcp_handle (iface (ni_iface h) n') = Some (dhcp_step S (ctx\<lparr>ctx_stack := c, ctx_dev := d\<rparr>))"
    and n': "enabled (iface (ni_iface h) n') = enabled (iface (ni_iface h) n)" "length (s_ifaces n') = length (s_ifaces n)"
    and up: "ip_up (iface (ni_iface h) n') = smoltcp_iface_has_ip (smoltcp_handle (iface (ni_iface h) n'))"
    by (rule poll_run_ctx [OF poll i(1) ctx(1)])
  from ev [OF c] obtain c' where c': "sm_dhcp_poll S dh c = (Some e, c')"
    "length (filter (\<lambda>a. \<not> is_v4 a) (sm_ip_addrs S c')) < sm_max_addrs S" by blast
  have V: "smoltcp_iface_get_ipv4 S (smoltcp_handle (iface (ni_iface h) n')) = ip_addr (lease_info e)"
    "smoltcp_iface_get_gw (smoltcp_handle (iface (ni_iface h) n')) = gw_addr (lease_info e)"
    "smoltcp_iface_get_netmask (smoltcp_handle (iface (ni_iface h) n')) = netmask_addr (lease_info e)"
    "smoltcp_iface_has_ip (smoltcp_handle (iface (ni_iface h) n')) = (e \<noteq> Deconfigured)"
    using dhcp_event_ctx [OF A _ _ c'(2), of "ctx\<lparr>ctx_stack := c, ctx_dev := d\<rparr>" dh e] ctx(2) c'(1) by (simp_all add: h')
  have l: "ni_iface h < length (s_ifaces n')" "enabled (iface (ni_iface h) n')" using i n' by simp_all
  have "fst (net_stack_get_ipv4 S (ni_iface h) n') = ip_addr (lease_info e)"
    using iface_query_answer(1) [OF _ l, of 0 "smoltcp_iface_get_ipv4 S"] H V(1) by (simp add: net_stack_get_ipv4_def)
  then have "fst (esp_netif_is_netif_up S (Some h) n') = (ip_addr (lease_info e) \<noteq> 0)"
    by (simp add: esp_netif_is_netif_up_def Let_def case_prod_unfold)
  then show ?thesis using ip_info_answer [OF _ l, of S] H V up by simp
qed

text \<open>The reference stack with a DHCP socket that reports 192.168.0.7/24 with the router 192.168.0.1.\<close>

definition ref_lease :: dhcp_event where
  "ref_lease = Configured \<lparr>oct0 = 192, oct1 = 168, oct2 = 0, oct3 = 7\<rparr> 24 (Some \<lparr>oct0 = 192, oct1 = 168, oct2 = 0, oct3 = 1\<rparr>)"

definition ref_dhcp :: "ref_stack smoltcp" where
  "ref_dhcp = ref_smoltcp\<lparr>sm_dhcp_poll := (\<lambda>dh c. (Some ref_lease, c))\<rparr>"

interpretation rd: smoltcp_addrs ref_dhcp
  by unfold_locales (simp_all add: ref_dhcp_def ref_smoltcp_def)

definition ref_dhcp_ctx :: "ref_stack iface_ctx" where
  "ref_dhcp_ctx = (ctx_new ref_dhcp 0 [2, 0, 0, 0, 0, 1] 0)\<lparr>ctx_dhcp := Some 0\<rparr>"

definition ref_dhcp_net :: "(ring, u32, ref_stack, ref_ext) net" where
  "ref_dhcp_net = (set_handle NET_IFACE_ETH (Some ref_dhcp_ctx) ref_net0)\<lparr>s_evt := Some 0, s_progress_evt := Some 0\<rparr>"

theorem dhcp_lease_reported_witness:
  "\<exists>n'. poll_run ref_platform ref_dhcp NET_IFACE_ETH ref_dhcp_net = Some n'
    \<and> fst (esp_netif_get_ip_info ref_dhcp (Some s_netif_eth) True n') =
        (ESP_OK, Some \<lparr>ip_addr = 0x0700A8C0, gw_addr = 0x0100A8C0, netmask_addr = 0x00FFFFFF\<rparr>) \<and> ip_up (iface NET_IFACE_ETH n')"
proof -
  have k: "esp_netif_get_handle_from_ifkey (Some ''ETH_DEF'') = Some s_netif_eth" by (simp add: esp_netif_get_handle_from_ifkey_def)
  have e: "ni_iface s_netif_eth = NET_IFACE_ETH" by (simp add: s_netif_eth_def)
  have i: "iface NET_IFACE_ETH ref_dhcp_net = (iface NET_IFACE_ETH ref_net0)\<lparr>smoltcp_handle := Some ref_dhcp_ctx\<rparr>"
    "length (s_ifaces ref_dhcp_net) = NET_IFACE_MAX"
    using ref_net0(2) by (simp_all add: ref_dhcp_net_def iface_def set_handle_def upd_iface_def NET_IFACE_ETH_def NET_IFACE_MAX_def)
  have "evt_ok (\<lambda>g. g) ref_dhcp_net"
    by (auto simp: evt_ok_def ref_dhcp_net_def ref_net0_def net_boot_def iface_def set_handle_def upd_iface_def iface_boot_def nth_list_update)
  moreover have "frames_fit (sm_poll ref_dhcp t c)" for t c by (simp add: ref_dhcp_def ref_smoltcp_def)
  ultimately obtain n' where p: "poll_run ref_platform ref_dhcp NET_IFACE_ETH ref_dhcp_net = Some n'"
    using poll_run_returns [of ref_dhcp "\<lambda>g. g" ref_dhcp_net NET_IFACE_ETH ref_platform] i(2)
    by (auto simp: NET_IFACE_ETH_def NET_IFACE_MAX_def)
  have "ctx_dhcp ref_dhcp_ctx = Some 0" by (simp add: ref_dhcp_ctx_def)
  moreover have "\<exists>c'. sm_dhcp_poll ref_dhcp 0 c = (Some ref_lease, c') \<and> length (filter (\<lambda>a. \<not> is_v4 a) (sm_ip_addrs ref_dhcp c')) < sm_max_addrs ref_dhcp"
    if "c \<in> set_dev_prog (sm_poll ref_dhcp t (ctx_stack ref_dhcp_ctx))" for t c
    using that by (auto simp: ref_dhcp_def ref_smoltcp_def ref_dhcp_ctx_def ctx_new_def Let_def push_addr_def)
  ultimately have "fst (esp_netif_get_ip_info ref_dhcp (Some s_netif_eth) True n') = (ESP_OK, Some (lease_info ref_lease)) \<and> ip_up (iface NET_IFACE_ETH n')"
    using dhcp_lease_reported [OF rd.smoltcp_addrs_axioms k, of ref_dhcp_net ref_dhcp_ctx 0 ref_lease ref_platform n'] p i ref_net0(1)
    by (simp add: e ref_lease_def NET_IFACE_ETH_def NET_IFACE_MAX_def)
  with p show ?thesis by (auto simp: lease_info_def ref_lease_def ipv4_to_be_def from_le_bytes_def from_be_bytes_def mask_24)
qed

end
