(* ===== verification/Glue_Alloc.thy ===== *)
theory Glue_Alloc
  imports Prelude
begin

text \<open>
  The global allocator of the Rust core (\<open>alloc_shim.rs\<close>). Rust asks it for memory through
  \<open>GlobalAlloc\<close>; it forwards to the heap of ESP-IDF in two tiers, internal memory first and any
  byte-addressable memory when that is exhausted. The heap is a parameter with what its
  documentation promises as a locale, and the allocator is shown to keep what \<open>GlobalAlloc\<close> asks
  of an implementation: aligned blocks that overlap no live block, the heap unchanged when it
  reports failure, and a release that undoes the allocation.
\<close>

section \<open>The allocator\<close>

text \<open>The heap's two functions; a pointer is an address, 0 the null pointer.\<close>

record 'h heap_caps =
  heap_caps_aligned_alloc :: "nat \<Rightarrow> nat \<Rightarrow> u32 \<Rightarrow> 'h \<Rightarrow> nat \<times> 'h"
  heap_caps_free :: "nat \<Rightarrow> 'h \<Rightarrow> 'h"

record layout =
  lay_size :: nat
  lay_align :: nat

definition MALLOC_CAP_8BIT :: u32 where "MALLOC_CAP_8BIT = push_bit 2 1"

definition MALLOC_CAP_INTERNAL :: u32 where "MALLOC_CAP_INTERNAL = push_bit 11 1"

definition EspAlloc_alloc :: "'h heap_caps \<Rightarrow> layout \<Rightarrow> 'h \<Rightarrow> nat \<times> 'h" where
  "EspAlloc_alloc H layout h =
     (let align = max (lay_align layout) 4;
          (p, h1) = heap_caps_aligned_alloc H align (lay_size layout) (MALLOC_CAP_8BIT OR MALLOC_CAP_INTERNAL) h
      in if p \<noteq> 0 then (p, h1) else heap_caps_aligned_alloc H align (lay_size layout) MALLOC_CAP_8BIT h1)"

definition EspAlloc_dealloc :: "'h heap_caps \<Rightarrow> nat \<Rightarrow> layout \<Rightarrow> 'h \<Rightarrow> 'h" where
  "EspAlloc_dealloc H ptr layout = heap_caps_free H ptr"

section \<open>What the heap promises\<close>

text \<open>Two blocks of addresses that have no address in common.\<close>

definition apart :: "nat \<Rightarrow> nat \<Rightarrow> nat \<Rightarrow> nat \<Rightarrow> bool" where
  "apart p s q t \<longleftrightarrow> p + s \<le> q \<or> q + t \<le> p"

text \<open>\<open>blocks\<close> gives the sizes of the live blocks by address, \<open>is_internal\<close> the internal addresses. The
  alignment is a power of two.\<close>

locale heap_laws =
  fixes H :: "'h heap_caps" and blocks :: "'h \<Rightarrow> nat \<rightharpoonup> nat" and is_internal :: "nat \<Rightarrow> bool"
  assumes alloc_block: "heap_caps_aligned_alloc H (2 ^ k) s caps h = (p, h') \<Longrightarrow> 0 < s \<Longrightarrow> p \<noteq> 0 \<Longrightarrow>
      2 ^ k dvd p \<and> blocks h' = (blocks h)(p \<mapsto> s) \<and> (\<forall>q t. blocks h q = Some t \<longrightarrow> apart p s q t)"
    and alloc_new: "heap_caps_aligned_alloc H (2 ^ k) s caps h = (p, h') \<Longrightarrow> 0 < s \<Longrightarrow> p \<noteq> 0 \<Longrightarrow> blocks h p = None"
    and alloc_null: "heap_caps_aligned_alloc H (2 ^ k) s caps h = (0, h') \<Longrightarrow> h' = h"
    and alloc_internal: "heap_caps_aligned_alloc H (2 ^ k) s caps h = (p, h') \<Longrightarrow> 0 < s \<Longrightarrow> p \<noteq> 0 \<Longrightarrow>
      caps AND MALLOC_CAP_INTERNAL \<noteq> 0 \<Longrightarrow> is_internal p"
    and free_block: "blocks (heap_caps_free H p h) = (blocks h)(p := None)"
begin

lemma max_align: "\<exists>k. max ((2::nat) ^ j) 4 = 2 ^ k \<and> j \<le> k"
proof (cases "j \<le> 2")
  case True
  then have "(2::nat) ^ j \<le> 2 ^ 2" by (rule power_increasing) simp
  then have "max ((2::nat) ^ j) 4 = 2 ^ 2" by (simp add: max_def)
  with True show ?thesis by blast
next
  case False
  then have "(2::nat) ^ 2 \<le> 2 ^ j" by (intro power_increasing) simp_all
  then have "max ((2::nat) ^ j) 4 = 2 ^ j" by (simp add: max_def)
  then show ?thesis by blast
qed

text \<open>The block is the first tier's or, when that has none, the second's.\<close>

lemma alloc_tiers:
  assumes "EspAlloc_alloc H l h = (p, h')" and "lay_align l = 2 ^ j"
  obtains (internal) k where "j \<le> k" "2 \<le> k"
      "heap_caps_aligned_alloc H (2 ^ k) (lay_size l) (MALLOC_CAP_8BIT OR MALLOC_CAP_INTERNAL) h = (p, h')" "p \<noteq> 0"
  | (fallback) k where "j \<le> k" "2 \<le> k"
      "heap_caps_aligned_alloc H (2 ^ k) (lay_size l) (MALLOC_CAP_8BIT OR MALLOC_CAP_INTERNAL) h = (0, h)"
      "heap_caps_aligned_alloc H (2 ^ k) (lay_size l) MALLOC_CAP_8BIT h = (p, h')"
proof -
  obtain k where k: "max (lay_align l) 4 = 2 ^ k" "j \<le> k" using max_align [of j] assms(2) by auto
  have "(2::nat) ^ 2 \<le> 2 ^ k" using k(1) by (simp add: max_def split: if_splits)
  then have k2: "2 \<le> k" by (simp only: power_increasing_iff one_less_numeral_iff semiring_norm)
  obtain q h1 where q: "heap_caps_aligned_alloc H (2 ^ k) (lay_size l) (MALLOC_CAP_8BIT OR MALLOC_CAP_INTERNAL) h = (q, h1)" by force
  show ?thesis
  proof (cases "q = 0")
    case True
    then have "h1 = h" using alloc_null q by blast
    with True assms(1) q k show ?thesis by (intro fallback [OF k(2) k2]) (simp_all add: EspAlloc_alloc_def)
  next
    case False
    with assms(1) q k show ?thesis by (intro internal [OF k(2) k2]) (simp_all add: EspAlloc_alloc_def)
  qed
qed

lemma alloc_contract:
  assumes "EspAlloc_alloc H l h = (p, h')" and "lay_align l = 2 ^ j" and "0 < lay_size l"
  shows "p \<noteq> 0 \<Longrightarrow> lay_align l dvd p \<and> 4 dvd p \<and> blocks h p = None \<and> blocks h' = (blocks h)(p \<mapsto> lay_size l)
      \<and> (\<forall>q t. blocks h q = Some t \<longrightarrow> apart p (lay_size l) q t)"
    and "p = 0 \<Longrightarrow> h' = h"
    and "p \<noteq> 0 \<Longrightarrow> blocks (EspAlloc_dealloc H p l h') = blocks h"
proof -
  have "\<exists>k caps. j \<le> k \<and> 2 \<le> k \<and> heap_caps_aligned_alloc H (2 ^ k) (lay_size l) caps h = (p, h')"
    using alloc_tiers [OF assms(1,2)] by metis
  then obtain k caps where k: "j \<le> k" "2 \<le> k" and a: "heap_caps_aligned_alloc H (2 ^ k) (lay_size l) caps h = (p, h')" by blast
  have d: "(2::nat) ^ j dvd 2 ^ k" "(4::nat) dvd 2 ^ k" using k le_imp_power_dvd [of 2 k "2::nat"] by (simp_all add: le_imp_power_dvd)
  show c: "lay_align l dvd p \<and> 4 dvd p \<and> blocks h p = None \<and> blocks h' = (blocks h)(p \<mapsto> lay_size l)
      \<and> (\<forall>q t. blocks h q = Some t \<longrightarrow> apart p (lay_size l) q t)" if "p \<noteq> 0"
    using alloc_block [OF a assms(3) that] alloc_new [OF a assms(3) that] d assms(2) by (metis dvd_trans)
  show "p = 0 \<Longrightarrow> h' = h" using a alloc_null by blast
  show "blocks (EspAlloc_dealloc H p l h') = blocks h" if "p \<noteq> 0"
    using c [OF that] by (auto simp: EspAlloc_dealloc_def free_block)
qed

text \<open>Failure means that both tiers refused, and internal memory is used whenever it has room.\<close>

lemma alloc_order:
  assumes "EspAlloc_alloc H l h = (p, h')" and "lay_align l = 2 ^ j" and "0 < lay_size l"
  shows "p = 0 \<Longrightarrow> \<exists>k. heap_caps_aligned_alloc H (2 ^ k) (lay_size l) (MALLOC_CAP_8BIT OR MALLOC_CAP_INTERNAL) h = (0, h)
      \<and> heap_caps_aligned_alloc H (2 ^ k) (lay_size l) MALLOC_CAP_8BIT h = (0, h)"
    and "p \<noteq> 0 \<Longrightarrow> \<not> is_internal p \<Longrightarrow>
      \<exists>k. heap_caps_aligned_alloc H (2 ^ k) (lay_size l) (MALLOC_CAP_8BIT OR MALLOC_CAP_INTERNAL) h = (0, h)"
proof -
  have "(MALLOC_CAP_8BIT OR MALLOC_CAP_INTERNAL) AND MALLOC_CAP_INTERNAL \<noteq> 0"
    by (simp add: MALLOC_CAP_8BIT_def MALLOC_CAP_INTERNAL_def)
  then have I: "heap_caps_aligned_alloc H (2 ^ k) (lay_size l) (MALLOC_CAP_8BIT OR MALLOC_CAP_INTERNAL) h = (p, h') \<Longrightarrow> p \<noteq> 0 \<Longrightarrow> is_internal p" for k
    using alloc_internal [OF _ assms(3)] by blast
  show "p = 0 \<Longrightarrow> \<exists>k. heap_caps_aligned_alloc H (2 ^ k) (lay_size l) (MALLOC_CAP_8BIT OR MALLOC_CAP_INTERNAL) h = (0, h)
      \<and> heap_caps_aligned_alloc H (2 ^ k) (lay_size l) MALLOC_CAP_8BIT h = (0, h)"
    by (cases rule: alloc_tiers [OF assms(1,2)]) (auto dest: alloc_null)
  show "p \<noteq> 0 \<Longrightarrow> \<not> is_internal p \<Longrightarrow>
      \<exists>k. heap_caps_aligned_alloc H (2 ^ k) (lay_size l) (MALLOC_CAP_8BIT OR MALLOC_CAP_INTERNAL) h = (0, h)"
    by (cases rule: alloc_tiers [OF assms(1,2)]) (auto dest: I)
qed

end

section \<open>A concrete heap\<close>

text \<open>Blocks are placed above all live ones: addresses from 4096, internal memory below 8192, all
  memory below 65536. A state is the list of the live blocks.\<close>

definition heap_top :: "(nat \<times> nat) list \<Rightarrow> nat" where
  "heap_top h = foldr (\<lambda>(p, t) m. max (p + Suc t) m) h 4096"

definition place :: "nat \<Rightarrow> (nat \<times> nat) list \<Rightarrow> nat" where
  "place a h = (heap_top h + a - 1) div a * a"

definition ref_heap :: "(nat \<times> nat) list heap_caps" where
  "ref_heap = \<lparr>heap_caps_aligned_alloc = (\<lambda>a s caps h.
       if place a h + s \<le> (if caps AND MALLOC_CAP_INTERNAL \<noteq> 0 then 8192 else 65536) then (place a h, (place a h, s) # h) else (0, h)),
     heap_caps_free = (\<lambda>p. filter (\<lambda>b. fst b \<noteq> p))\<rparr>"

lemma heap_top_above: "(q, t) \<in> set h \<Longrightarrow> q + t < heap_top h" "4096 \<le> heap_top h"
proof -
  show "(q, t) \<in> set h \<Longrightarrow> q + t < heap_top h" by (induction h) (auto simp: heap_top_def)
  show "4096 \<le> heap_top h" by (induction h) (auto simp: heap_top_def)
qed

lemma place_above: "0 < a \<Longrightarrow> heap_top h \<le> place a h"
  unfolding place_def using div_mult_mod_eq [of "heap_top h + a - 1" a] mod_less_divisor [of a "heap_top h + a - 1"] by linarith

lemma ref_heap_alloc:
  assumes a: "heap_caps_aligned_alloc ref_heap (2 ^ k) s caps h = (p, h')"
  shows "p = 0 \<Longrightarrow> h' = h"
    and "p \<noteq> 0 \<Longrightarrow> 2 ^ k dvd p \<and> h' = (p, s) # h \<and> (\<forall>q t. map_of h q = Some t \<longrightarrow> q + t < p)"
    and "p \<noteq> 0 \<Longrightarrow> 0 < s \<Longrightarrow> caps AND MALLOC_CAP_INTERNAL \<noteq> 0 \<Longrightarrow> p < 8192"
proof -
  have above: "q + t < place (2 ^ k) h" if "map_of h q = Some t" for q t
    using heap_top_above(1) [OF map_of_SomeD [OF that]] place_above [of "2 ^ k" h] by simp
  show "p = 0 \<Longrightarrow> h' = h" using a place_above [of "2 ^ k" h] heap_top_above(2) [of h] by (auto simp: ref_heap_def split: if_splits)
  show "p \<noteq> 0 \<Longrightarrow> 2 ^ k dvd p \<and> h' = (p, s) # h \<and> (\<forall>q t. map_of h q = Some t \<longrightarrow> q + t < p)"
    using a above by (auto simp: ref_heap_def place_def split: if_splits)
  show "p \<noteq> 0 \<Longrightarrow> 0 < s \<Longrightarrow> caps AND MALLOC_CAP_INTERNAL \<noteq> 0 \<Longrightarrow> p < 8192"
    using a by (auto simp: ref_heap_def split: if_splits)
qed

lemma ref_heap_free: "map_of (heap_caps_free ref_heap p h) = (map_of h)(p := None)"
  by (induction h) (auto simp: ref_heap_def)

interpretation rh: heap_laws ref_heap map_of "\<lambda>p. p < 8192"
proof (unfold_locales, goal_cases)
  case (1 k s caps h p h')
  then show ?case using ref_heap_alloc(2) [OF 1(1)] by (auto simp: apart_def less_imp_le)
next
  case (2 k s caps h p h')
  then show ?case using ref_heap_alloc(2) [OF 2(1)] by (cases "map_of h p") auto
qed (use ref_heap_alloc(1,3) ref_heap_free in blast)+

text \<open>A full internal memory: the allocation of 4096 bytes falls back.\<close>

lemma ref_heap_tiers:
  "EspAlloc_alloc ref_heap \<lparr>lay_size = 4096, lay_align = 1\<rparr> [] = (4096, [(4096, 4096)])"
  "EspAlloc_alloc ref_heap \<lparr>lay_size = 4096, lay_align = 16\<rparr> [(4096, 4096)] = (8208, [(8208, 4096), (4096, 4096)])"
  by (simp_all add: EspAlloc_alloc_def ref_heap_def place_def heap_top_def MALLOC_CAP_8BIT_def MALLOC_CAP_INTERNAL_def)

end
