(* ===== verification/Spec2Isabelle.thy ===== *)
theory Spec2Isabelle
  imports Ntp Compat_Lo Select_Props Netdb_Props Dns_Message Eth_Basic Compat_Leak Compat_Stream Net_Dhcp Glue_Alloc
begin

text \<open>
  A verification library for esp-smoltcp, a TCP/IP stack for ESP-IDF firmware: the Rust crate
  smoltcp behind a C interface, a C component that runs it in a FreeRTOS task, and a shim that
  answers the lwIP socket API of existing ESP-IDF components.

  \<^bold>\<open>The program.\<close> The Ethernet driver hands every received frame to \<open>eth_input_cb\<close>, which copies it
  into a frame of a static pool and posts the frame to the receive queue of its interface
  (\<open>components/esp_smoltcp/src/esp_smoltcp.c\<close>). The poll task drains the queues, offers each frame
  to the L2 taps and then to smoltcp, runs smoltcp, and signals progress and changes of the IP
  state. smoltcp transmits through buffers of a static pool in the glue
  (\<open>components/esp_smoltcp_glue/src/lib.rs\<close>), which calls back into C. One mutex serialises every
  entry into the Rust core. Applications use the native socket API (\<open>esp_smoltcp_sock.c\<close>), whose
  blocking calls poll the core until a deadline, or the wrapped lwIP calls
  (\<open>components/esp_smoltcp_lwip_compat/src\<close>): a descriptor table, a loopback path of its own, and
  \<open>select\<close>, name resolution and \<open>esp_netif\<close> on top.

  \<^bold>\<open>How it is modelled.\<close> The static variables of the C files are the record \<open>net\<close> (theory
  \<open>Net_State\<close>), the Rust context of an interface is the record \<open>iface_ctx\<close> (\<open>Glue_Core\<close>), the statics
  of the shim are the record \<open>compat\<close> (\<open>Compat_State\<close>), which takes the place of the environment
  inside \<open>net\<close>. There is one definition per C or Rust function, with its name, from state to
  result and state. A result \<open>None\<close> is a call that does not return (a panic, an assertion of
  FreeRTOS, a loop without end). Integers keep their width. Locking, unlocking, entering the core
  and calling back into the application are recorded in the state (\<open>lock_fault\<close>, \<open>unguarded\<close>,
  \<open>unguarded_new\<close> for the creation of a context, \<open>cb_under_lock\<close>), and so are double frees, uses after free and accesses outside an \<open>fd_set\<close>
  (\<open>heap_fault\<close>), and a socket asked for as a type it does not have (\<open>ctx_panic\<close>), which panics in
  \<open>SocketSet::get_mut\<close>: the flag stays set, and the theorems on types show that it never is. \<open>ctx_opened\<close> counts the socket ids a context has handed out.

  Code outside the repository is a parameter: the smoltcp crate is the record \<open>smoltcp\<close> of its
  operations, where \<open>poll\<close> is the tree of the calls it makes on the device; FreeRTOS, the drivers
  and the C library are the records \<open>platform\<close>, \<open>rtos\<close> and \<open>libc\<close>. What a theorem relies on of
  them is a locale, with an interpretation on a concrete instance: \<open>rtos_queue\<close> and the ring
  buffer, \<open>smoltcp_addrs\<close>, \<open>smoltcp_sockets\<close>, \<open>smoltcp_udp\<close>, \<open>udp_rx\<close>, \<open>tcp_stream\<close> and \<open>tcp_inbound\<close> and the small stack of
  \<open>Ref_Stack\<close>, \<open>heap_laws\<close> and a small heap, \<open>idf_system\<close> and a small system, \<open>rtos_clock\<close>, \<open>shim_clock\<close>, \<open>dns_clock\<close> and their clocks. In these clocks only delays and waits take
  time, \<open>d\<close> ticks at most \<open>d\<close> tick lengths and a latency; computation and the wait for a mutex take none. A task that blocks lets the
  others run: the fields of \<open>rtos\<close> are arbitrary functions on the whole state; what the other tasks
  have to keep in turn is assumed in \<open>shim_tasks\<close>, \<open>typed_tasks\<close> and \<open>tidy_tasks\<close>, for every set \<open>H\<close> of
  handles that tasks got from open calls of the native API and use with the calls for their type. \<open>inv_tasks\<close> proves once, for any
  property of descriptors and socket ids, that the calls which neither open nor close sockets
  keep it; \<open>typed_tasks\<close> and \<open>tidy_tasks\<close> are sublocales of it for their properties.

  \<^bold>\<open>The theories.\<close>
  \<^item> \<open>Prelude\<close>, \<open>Interfaces\<close>: shared lemmas; the interfaces \<open>rtos_queue\<close> (FreeRTOS queues), \<open>slab\<close> (an
    allocator over a fixed set) and \<open>slot_table\<close> (a static array used as a finite map). \<open>slab\<close> is
    provided by the transmit pool, the frame pool and the descriptor table, \<open>slot_table\<close> by the
    tap table and the loopback port table.
  \<^item> \<open>Glue_Wire\<close>, \<open>Glue_Core\<close>, \<open>Dns_Resolve\<close> (\<open>lib.rs\<close>, \<open>dns.rs\<close>): addresses, parsers, DNS packets; the
    transmit pool, the device, contexts and socket ids, the C surface; the resolver. \<open>Dns_Message\<close>: a reference encoder
    of DNS replies and what the response parser makes of them.
    \<open>Glue_Alloc\<close> (\<open>alloc_shim.rs\<close>): the global allocator of the Rust core over the heap of ESP-IDF.
  \<^item> \<open>Ref_Stack\<close>: the concrete instance of the crate that witnesses use.
  \<^item> \<open>Net_State\<close>, \<open>L2_Tap\<close>, \<open>Frame_Pool\<close>, \<open>Net_Stack\<close> (\<open>esp_smoltcp.c\<close>, \<open>esp_smoltcp_internal.h\<close>, \<open>ptp.c\<close>):
    the stack.
  \<^item> \<open>Net_Run\<close>, \<open>Net_Inv\<close>, \<open>Net_Props\<close>, \<open>Net_Rx\<close>: driver, poll task and applications as a state
    machine, its invariants, the properties of reachable states, and the behaviour of single
    operations.
  \<^item> \<open>Net_Sock\<close>, \<open>Ntp\<close> (\<open>esp_smoltcp_sock.c\<close>, \<open>ntp.c\<close>): the native sockets and the SNTP client.
  \<^item> \<open>Compat_State\<close>, \<open>Loopback\<close>, \<open>Fd_Table\<close>, \<open>Sock_Wrap\<close>, \<open>Select_Wrap\<close>, \<open>Netdb\<close>, \<open>Netif_Shim\<close>
    (\<open>fd_table.c\<close>, \<open>loopback.c\<close>, \<open>sock_wrap.c\<close>, \<open>select_wrap.c\<close>, \<open>netdb_wrap.c\<close>, \<open>esp_netif_shim.c\<close>): the
    operations of the shim.
  \<^item> \<open>Compat_Inv\<close>, \<open>Compat_Run\<close>: the invariant of the shim, its calls as a step relation, and
    preservation by every step; \<open>Compat_Fds\<close>, \<open>Compat_Lo\<close>, \<open>Compat_Accept\<close>, \<open>Compat_Time\<close>,
    \<open>Select_Props\<close>, \<open>Netdb_Props\<close>: what descriptors, loopback, listeners, time-outs, \<open>select\<close> and the
    resolver do.
  \<^item> \<open>Eth_Basic\<close> (\<open>examples/eth_basic/main/main.c\<close>): the example application, from the installation of
    the driver to the wait for an address, over a record of the ESP-IDF calls it makes.
  \<^item> \<open>Glue_Types\<close>, \<open>Net_Types\<close>, \<open>Compat_Types\<close>: the types of sockets, through the C surface, the native
    API and the shim; \<open>Net_Ids\<close>, \<open>Compat_Leak\<close>: which calls change the tables of socket ids, and who owns
    the sockets; \<open>Compat_Stream\<close>: the bytes a stream descriptor delivers; \<open>Net_Dhcp\<close>: a DHCP lease from the socket to the answers of \<open>esp_netif\<close>.

  \<^bold>\<open>What is proved.\<close>
  \<^item> \<^emph>\<open>Ownership.\<close> Each receive frame has one owner in every reachable state; each transmit buffer is
    back after every call; each loopback datagram is in one queue exactly once, none is lost or
    freed twice; each TCP and UDP socket of smoltcp's socket set is in the table of ids, and each one
    the shim opened is held by a live descriptor until it is closed, on all paths of the socket calls; the pools and the descriptor table hand out exactly what they have. The
    allocator gives aligned blocks that overlap no other and prefers internal memory.
  \<^item> \<^emph>\<open>Types.\<close> No sequence of calls of the shim and of the native API on the handles it returned, with the
    stack running in between and during waits, makes the core ask smoltcp for a socket of the wrong type.
  \<^item> \<^emph>\<open>Locking.\<close> In every reachable state all mutexes are free, none was taken twice, existing contexts
    were entered under the lock only and no callback ran under it; this holds for all calls of the
    stack, the native API and the shim except the resolver, which is proved to break it. The
    creation of a context in \<open>esp_smoltcp_attach_eth\<close> is proved to run without the lock. The mutexes of
    the shim are taken to be created successfully, which the code does not check; what it does otherwise
    is part of the theorem.
  \<^item> \<^emph>\<open>Progress.\<close> A round of the poll task (\<open>Net_Types\<close>) completes, keeps the contexts well typed and
    empties the queues; every blocking call of the native API, \<open>accept\<close> and \<open>select\<close> return by an
    explicit time after their call, and the resolver returns, with the first answer to its query if there is one.
  \<^item> \<^emph>\<open>Function.\<close> The receive callback in all its cases, FIFO delivery on loopback, the stream a send
    hands over and the stream that \<open>recv\<close> and \<open>read\<close> deliver, the choice \<open>accept\<close> makes and its agreement with \<open>select\<close>, the tap table as a
    finite map and the frames a tap consumes, IP events and bits and the address the last poll saw, the SNTP clock, what
    \<open>esp_netif\<close> reports of a DHCP lease.
  \<^item> \<^emph>\<open>Formats.\<close> The DNS parser is total and reads every well-formed reply to the resolver's own query
    as the reference does: the first A record past any others; the dotted-quad parsers, the netmask helper, the encoding of socket handles.
  \<^item> \<^emph>\<open>Defects.\<close> Where the code does not do what it means to, the theorem says what it does: the byte
    order of the dotted-quad parser and of a static configuration, frames and datagrams that are lost, the missing lock of the
    resolver, descriptors beyond an \<open>fd_set\<close>, flags set before a failure, wrap-around of deadlines
    and ids, DNS answers whose owner names end in a pointer, requests from unbound sockets, a stranded loopback port, a default route that
    outlives its lease, the abort of the example.

  \<^bold>\<open>Bounds.\<close> The loops over arrays are structural recursions. \<open>lo_drain\<close> has as fuel the number of
  datagrams waiting in the queue it empties, which is enough since nobody else holds the queue
  then. The waiting loops are partial functions; the theorems on deadlines bound them by the
  time left, with the margin that a wait or a scan can add before the tick counter wraps. Type
  safety and the ownership of sockets hold for an interface until \<open>2^24\<close> socket ids were handed out, the number a handle of the
  native API can encode; what happens then is a theorem of its own. The memory safety of the
  shim is for tasks that do not close a listener another task sleeps on in \<open>accept\<close>, nor a
  descriptor whose loopback queue another task waits for; the ownership of sockets is also for
  tasks that do not call \<open>connect\<close> on a stream descriptor that already has a socket, which the
  code overwrites, and the sockets of the native API are their callers' own.

  \<^bold>\<open>Not modelled.\<close> The smoltcp crate, FreeRTOS, the Ethernet driver and the C library, which are
  parameters; logging; preemption in the middle of a call that does not block, other than the
  recorded use of the locks (so \<open>lo_deliver\<close> is one step, and a close of its target between the
  unlock and the send at \<open>loopback.c\<close> lines 85 to 96 does not occur); null buffers handed to the receive calls of the native API
  (the Rust calls below check for them, and are modelled with the check); the panic handler, which only aborts (\<open>panic.rs\<close>), \<open>glue_stub.c\<close> and
  the declarations of the headers.
\<close>

end
